(* ===== verification/Prelude.thy ===== *)
theory Prelude
  imports Main "HOL-Library.AList"
begin

text \<open>
  Shared vocabulary of the development: the outcome of a TypeScript method that may
  throw, the insertion-ordered \<open>Map\<close> of JavaScript as an association list, decimal
  printing for template strings, and the generic list and map facts the component
  theories use.

  \<^item> \<open>'a js\<close> is the outcome of a call: \<open>Ret\<close> a value or \<open>Throw\<close> an error message. A
    method of an object with state returns the new state beside the outcome, because
    a JavaScript method that throws keeps the assignments made before the throw.
  \<^item> A \<open>Map\<close> iterates in insertion order, and \<open>map.set\<close> on a key that is present
    replaces the value in place. \<open>AList.update\<close>, \<open>AList.delete\<close> and \<open>map_of\<close> are
    exactly \<open>set\<close>, \<open>delete\<close> and \<open>get\<close>.
\<close>

named_theorems js_defs \<open>operations of the modelled classes, to be unfolded\<close>
named_theorems inv_defs \<open>component invariants, to be unfolded\<close>
named_theorems frame \<open>fields an operation leaves alone\<close>

subsection \<open>Outcomes\<close>

datatype 'a js = Throw string | Ret 'a

definition is_ret :: "'a js \<Rightarrow> bool" where
  "is_ret r \<longleftrightarrow> (case r of Throw _ \<Rightarrow> False | Ret _ \<Rightarrow> True)"

lemma is_ret_simps [simp]: "is_ret (Ret a)" "\<not> is_ret (Throw e)"
  by (simp_all add: is_ret_def)

lemma is_retE [elim]: "is_ret r \<Longrightarrow> (\<And>a. r = Ret a \<Longrightarrow> P) \<Longrightarrow> P"
  by (cases r) auto

lemma is_ret_map_js [simp]: "is_ret (map_js f r) = is_ret r"
  by (cases r) auto

lemma map_js_eq_Ret: "map_js f r = Ret b \<longleftrightarrow> (\<exists>a. r = Ret a \<and> b = f a)"
  by (cases r) auto

subsection \<open>Safe integers and decimal printing\<close>

text \<open>\<open>Number.isSafeInteger\<close> on a non-negative integer.\<close>

definition max_safe_integer :: nat where
  "max_safe_integer = 2 ^ 53 - 1"

definition is_safe_nat :: "nat \<Rightarrow> bool" where
  "is_safe_nat n \<longleftrightarrow> n \<le> max_safe_integer"

text \<open>For evaluation, the bound is compared in binary.\<close>

lemma is_safe_nat_code [code]: "is_safe_nat n \<longleftrightarrow> int n \<le> 9007199254740991"
proof -
  have "int max_safe_integer = 9007199254740991" by (simp add: max_safe_integer_def of_nat_diff)
  then show ?thesis unfolding is_safe_nat_def by linarith
qed

text \<open>The decimal digits that a template literal prints for a non-negative integer.\<close>

fun show_nat :: "nat \<Rightarrow> string" where
  "show_nat n =
     (if n < 10 then [char_of (48 + n)]
      else show_nat (n div 10) @ [char_of (48 + n mod 10)])"

declare show_nat.simps [simp del]

lemma show_nat_nonempty [simp]: "show_nat n \<noteq> []"
  by (subst show_nat.simps) simp

fun read_nat :: "string \<Rightarrow> nat" where
  "read_nat cs = foldl (\<lambda>n c. 10 * n + (of_char c - 48)) 0 cs"

lemma foldl_snoc: "foldl f a (xs @ [x]) = f (foldl f a xs) x"
  by simp

lemma read_show_nat [simp]: "read_nat (show_nat n) = n"
proof (induction n rule: show_nat.induct)
  case (1 n)
  show ?case
  proof (cases "n < 10")
    case True
    then show ?thesis by (subst show_nat.simps) (simp add: of_char_of)
  next
    case False
    with 1 have "read_nat (show_nat (n div 10)) = n div 10" by simp
    moreover have "(48 + n mod 10) mod 256 = 48 + n mod 10"
      by (rule mod_less) (use mod_less_divisor [of 10 n] in linarith)
    ultimately show ?thesis using False
      by (subst show_nat.simps) (simp add: of_char_of)
  qed
qed

lemma inj_show_nat: "inj show_nat"
  by (rule injI) (metis read_show_nat)

lemma show_nat_eq_iff [simp]: "show_nat m = show_nat n \<longleftrightarrow> m = n"
  using inj_show_nat by (auto dest: injD)

subsection \<open>Truthiness\<close>

text \<open>A possibly undefined string is truthy when it is present and not empty.\<close>

fun truthy_string :: "string option \<Rightarrow> bool" where
  "truthy_string None = False"
| "truthy_string (Some s) = (s \<noteq> '''')"

lemma truthy_stringE: "truthy_string x \<Longrightarrow> (\<And>s. x = Some s \<Longrightarrow> s \<noteq> '''' \<Longrightarrow> P) \<Longrightarrow> P"
  by (cases x) auto

subsection \<open>Association lists as JavaScript maps\<close>

type_synonym ('k, 'v) jsmap = "('k \<times> 'v) list"

definition map_keys :: "('k, 'v) jsmap \<Rightarrow> 'k list" where
  "map_keys m = map fst m"

definition map_values :: "('k, 'v) jsmap \<Rightarrow> 'v list" where
  "map_values m = map snd m"

definition map_has :: "('k, 'v) jsmap \<Rightarrow> 'k \<Rightarrow> bool" where
  "map_has m k \<longleftrightarrow> k \<in> set (map_keys m)"

lemma map_of_update [simp]:
  "map_of (AList.update k v m) = (map_of m)(k \<mapsto> v)"
  by (rule update_conv')

lemma map_of_delete [simp]:
  "map_of (AList.delete k m) = (map_of m)(k := None)"
  by (rule delete_conv')

lemma set_update_subset: "set (AList.update k v m) \<subseteq> insert (k, v) (set m)"
  by (induction m) auto

lemma update_fresh: "k \<notin> fst ` set m \<Longrightarrow> AList.update k v m = m @ [(k, v)]"
  by (induction m) auto

lemma distinct_keys_update: "distinct (map fst m) \<Longrightarrow> distinct (map fst (AList.update k v m))"
  by (rule distinct_update)

lemma distinct_keys_filter: "distinct (map fst m) \<Longrightarrow> distinct (map fst (filter P m))"
  by (induction m) (auto simp: image_def)

lemma set_delete: "set (AList.delete k m) = {p \<in> set m. fst p \<noteq> k}"
  by (auto simp: AList.delete_eq)

text \<open>
  A loop over the entries of a \<open>Map\<close> that deletes the entries satisfying a predicate
  leaves the others in order: deletion of the current entry does not disturb the
  iteration.
\<close>

definition map_reject :: "('k \<times> 'v \<Rightarrow> bool) \<Rightarrow> ('k, 'v) jsmap \<Rightarrow> ('k, 'v) jsmap" where
  "map_reject P m = filter (\<lambda>e. \<not> P e) m"

lemma map_reject_simps [simp]:
  "map_reject P [] = []"
  "map_reject P (e # m) = (if P e then map_reject P m else e # map_reject P m)"
  by (simp_all add: map_reject_def)

lemma set_map_reject [simp]: "set (map_reject P m) = {e \<in> set m. \<not> P e}"
  by (auto simp: map_reject_def)

lemma map_reject_all: "(\<And>e. e \<in> set m \<Longrightarrow> P e) \<Longrightarrow> map_reject P m = []"
  by (simp add: map_reject_def filter_empty_conv)

lemma distinct_keys_map_reject [simp]:
  "distinct (map fst m) \<Longrightarrow> distinct (map fst (map_reject P m))"
  by (simp add: map_reject_def distinct_keys_filter)

subsection \<open>Lists\<close>

lemma find_SomeD: "find P xs = Some x \<Longrightarrow> x \<in> set xs \<and> P x"
  by (auto simp: find_Some_iff)

lemma find_NoneD: "find P xs = None \<Longrightarrow> x \<in> set xs \<Longrightarrow> \<not> P x"
  by (auto simp: find_None_iff)

end
