(* ===== verification/CoordinatorCore.thy ===== *)
theory CoordinatorCore
  imports Prelude
begin

text \<open>
  The election, epoch, routing, drain and abrupt-loss state machine of the GraphQL
  cache (\<open>worker/coordinator-core.ts\<close>). One SharedWorker runs it for all tabs: it
  elects the tab that owns the database engine, numbers each ownership with an epoch,
  routes the requests of every tab to the owner under fresh route ids, and fences the
  messages of an owner that was lost.

  A request is a record with its id and an opaque body \<open>'q\<close> (the class reads and
  replaces only \<open>request.id\<close>); a response carries an opaque result \<open>'r\<close>, a push is an
  opaque \<open>'p\<close>. Methods that end in \<open>assertInvariants\<close> or call \<open>route\<close> can throw, and
  return the state beside the outcome.
\<close>

section \<open>Data\<close>

type_synonym tab_id = string
type_synonym owner_epoch = nat
type_synonym route_id = nat

datatype database_action = OpenExisting | WipeBeforeOpen
datatype database_action_proof = OpenedExisting | WipedBeforeOpen
datatype engine_startup_phase = LoadingAssets | OpeningDatabase
datatype engine_open_outcome =
  OutcomeOpenedExisting | OutcomeOpenedNew | ResetIncompatible | ResetCorrupt
| ResetStorageUncertain
datatype cache_response_error_code = OwnerEpochLost | AdmittedEnqueueUncertain

record 'q cache_request =
  request_id :: nat
  request_body :: 'q

datatype 'r cache_response =
  ResponseOk nat 'r
| ResponseError nat string "cache_response_error_code option"

text \<open>\<open>{ ...response, id }\<close>\<close>

fun with_response_id :: "nat \<Rightarrow> 'r cache_response \<Rightarrow> 'r cache_response" where
  "with_response_id i (ResponseOk _ r) = ResponseOk i r"
| "with_response_id i (ResponseError _ e c) = ResponseError i e c"

fun response_id :: "'r cache_response \<Rightarrow> nat" where
  "response_id (ResponseOk i _) = i"
| "response_id (ResponseError i _ _) = i"

datatype coordinator_state =
  WaitingForTab database_action
| Activating tab_id owner_epoch database_action engine_startup_phase
| Active tab_id owner_epoch
| Draining tab_id owner_epoch
| ResettingAfterLoss tab_id owner_epoch owner_epoch database_action string
| Failed string bool

record 'q queued_request =
  q_tab :: tab_id
  q_request :: "'q cache_request"

record 'q in_flight_request =
  if_tab :: tab_id
  if_request :: "'q cache_request"
  if_route :: route_id
  if_epoch :: owner_epoch

datatype stale_reason = StaleEpoch | UnknownRoute | InactiveEngine

datatype ('q, 'r, 'p) coordinator_action =
  ElectOwner tab_id owner_epoch database_action
| RouteRequest tab_id tab_id owner_epoch route_id "'q cache_request"
| DeliverResponse tab_id "'r cache_response"
| BroadcastPush 'p
| RejectRequest tab_id nat string "cache_response_error_code option"
| DrainOwner tab_id owner_epoch
| CloseEngineRoute tab_id owner_epoch
| DropTab tab_id
| RetireTab tab_id owner_epoch
| ScheduleResetActivation
| BroadcastEngineReplaced owner_epoch
| DropStaleEngineMessage owner_epoch "route_id option" stale_reason
| ProtocolViolation string
| TerminalFailure string bool

record engine_ready =
  r_tab :: tab_id
  r_epoch :: owner_epoch
  r_lock_name :: string
  r_expected_lock_name :: string
  r_lock_held :: bool
  r_proof :: database_action_proof
  r_outcome :: engine_open_outcome

fun outcome_string :: "engine_open_outcome \<Rightarrow> string" where
  "outcome_string OutcomeOpenedExisting = ''opened-existing''"
| "outcome_string OutcomeOpenedNew = ''opened-new''"
| "outcome_string ResetIncompatible = ''reset-incompatible''"
| "outcome_string ResetCorrupt = ''reset-corrupt''"
| "outcome_string ResetStorageUncertain = ''reset-storage-uncertain''"

text \<open>\<open>outcome.startsWith('reset-')\<close>\<close>

definition starts_with :: "string \<Rightarrow> string \<Rightarrow> bool" where
  "starts_with p s \<longleftrightarrow> take (length p) s = p"

definition proofFor :: "engine_open_outcome \<Rightarrow> database_action_proof" where
  "proofFor out =
     (if starts_with ''reset-'' (outcome_string out) then WipedBeforeOpen else OpenedExisting)"

record 'q coordinator_core =
  scope :: string
  stateValue :: coordinator_state
  tabs :: "tab_id list"
  retiringTabs :: "tab_id set"
  queuedRequests :: "'q queued_request list"
  inFlight :: "(route_id, 'q in_flight_request) jsmap"
  currentEpoch :: owner_epoch
  nextRouteId :: route_id
  staleMessageDrops :: nat
  protocolViolations :: nat

record coordinator_snapshot =
  s_scope :: string
  s_state :: coordinator_state
  s_tabs :: "tab_id list"
  s_epoch :: owner_epoch
  s_queued :: nat
  s_in_flight :: nat
  s_stale_drops :: nat
  s_violations :: nat
  s_active_owner_count :: nat

text \<open>What a method that may throw leaves: the state and its actions or the error.\<close>

type_synonym ('q, 'r, 'p) core_effect =
  "'q coordinator_core \<times> ('q, 'r, 'p) coordinator_action list"

type_synonym ('q, 'r, 'p) core_result =
  "'q coordinator_core \<times> ('q, 'r, 'p) coordinator_action list js"

section \<open>Operations\<close>

definition init_core :: "string \<Rightarrow> 'q coordinator_core" where
  "init_core sc = \<lparr>scope = sc, stateValue = WaitingForTab OpenExisting, tabs = [],
     retiringTabs = {}, queuedRequests = [], inFlight = [], currentEpoch = 0,
     nextRouteId = 1, staleMessageDrops = 0, protocolViolations = 0\<rparr>"

definition new_core :: "string \<Rightarrow> 'q coordinator_core js" where
  "new_core sc = (if sc = '''' then Throw ''scope must not be empty'' else Ret (init_core sc))"

fun is_active :: "coordinator_state \<Rightarrow> bool" where
  "is_active (Active _ _) = True"
| "is_active _ = False"

definition snapshot :: "'q coordinator_core \<Rightarrow> coordinator_snapshot" where
  "snapshot c = \<lparr>s_scope = scope c, s_state = stateValue c, s_tabs = tabs c,
     s_epoch = currentEpoch c, s_queued = length (queuedRequests c),
     s_in_flight = length (inFlight c), s_stale_drops = staleMessageDrops c,
     s_violations = protocolViolations c,
     s_active_owner_count = (if is_active (stateValue c) then 1 else 0)\<rparr>"

text \<open>
  The guard \<open>(kind is active, activating or draining) \<and> tabId \<and> ownerEpoch\<close> that several
  methods share.
\<close>

fun owner_of :: "coordinator_state \<Rightarrow> (tab_id \<times> owner_epoch) option" where
  "owner_of (Activating t e _ _) = Some (t, e)"
| "owner_of (Active t e) = Some (t, e)"
| "owner_of (Draining t e) = Some (t, e)"
| "owner_of _ = None"

definition reject ::
    "tab_id \<Rightarrow> nat \<Rightarrow> string \<Rightarrow> cache_response_error_code option \<Rightarrow>
     ('q, 'r, 'p) coordinator_action" where
  "reject t i err code = RejectRequest t i err code"

definition dropStale ::
    "owner_epoch \<Rightarrow> route_id option \<Rightarrow> stale_reason \<Rightarrow> 'q coordinator_core \<Rightarrow>
     'q coordinator_core \<times> ('q, 'r, 'p) coordinator_action" where
  "dropStale e r why c =
     (c\<lparr>staleMessageDrops := staleMessageDrops c + 1\<rparr>, DropStaleEngineMessage e r why)"

definition recordProtocolViolation ::
    "string \<Rightarrow> 'q coordinator_core \<Rightarrow>
     'q coordinator_core \<times> ('q, 'r, 'p) coordinator_action list" where
  "recordProtocolViolation err c =
     (c\<lparr>protocolViolations := protocolViolations c + 1\<rparr>, [ProtocolViolation err])"

fun accepts_epoch :: "coordinator_state \<Rightarrow> owner_epoch \<Rightarrow> bool" where
  "accepts_epoch (Active _ e) e' = (e = e')"
| "accepts_epoch (Draining _ e) e' = (e = e')"
| "accepts_epoch _ _ = False"

definition acceptsEngineMessages :: "owner_epoch \<Rightarrow> 'q coordinator_core \<Rightarrow> bool" where
  "acceptsEngineMessages e c = accepts_epoch (stateValue c) e"

fun messaging_epoch :: "coordinator_state \<Rightarrow> owner_epoch option" where
  "messaging_epoch (Active _ e) = Some e"
| "messaging_epoch (Draining _ e) = Some e"
| "messaging_epoch _ = None"

definition assertInvariants :: "'q coordinator_core \<Rightarrow> unit js" where
  "assertInvariants c =
     (case messaging_epoch (stateValue c) of
        None \<Rightarrow>
          (if length (inFlight c) > 0
           then Throw ''invariant: requests are in flight without an owner'' else Ret ())
      | Some e \<Rightarrow>
          (if list_ex (\<lambda>r. if_epoch r \<noteq> e) (map_values (inFlight c))
           then Throw ''invariant: in-flight request has a stale owner epoch'' else Ret ()))"

text \<open>\<open>this.assertInvariants(); return actions\<close>\<close>

definition return_checked :: "'q coordinator_core \<Rightarrow> 'a \<Rightarrow> 'q coordinator_core \<times> 'a js" where
  "return_checked c acts = (c, map_js (\<lambda>_. acts) (assertInvariants c))"

definition chooseCandidate :: "tab_id option \<Rightarrow> 'q coordinator_core \<Rightarrow> tab_id option" where
  "chooseCandidate avoid c =
     (let eligible = filter (\<lambda>t. t \<notin> retiringTabs c) (tabs c)
      in case find (\<lambda>t. Some t \<noteq> avoid) eligible of
           Some t \<Rightarrow> Some t
         | None \<Rightarrow> (case eligible of [] \<Rightarrow> None | t # _ \<Rightarrow> Some t))"

definition activateNext ::
    "database_action \<Rightarrow> 'q coordinator_core \<Rightarrow>
     'q coordinator_core \<times> ('q, 'r, 'p) coordinator_action list" where
  "activateNext act c =
     (let candidate = chooseCandidate None c
      in if \<not> truthy_string candidate
         then (c\<lparr>stateValue := WaitingForTab act\<rparr>, [])
         else let t = the candidate; e = currentEpoch c + 1
              in (c\<lparr>currentEpoch := e, stateValue := Activating t e act LoadingAssets\<rparr>,
                  [ElectOwner t e act]))"

definition removeTabRecord :: "tab_id \<Rightarrow> 'q coordinator_core \<Rightarrow> 'q coordinator_core" where
  "removeTabRecord t c = c\<lparr>tabs := remove1 t (tabs c),
     queuedRequests := filter (\<lambda>q. q_tab q \<noteq> t) (queuedRequests c),
     inFlight := map_reject (\<lambda>(_, r). if_tab r = t) (inFlight c)\<rparr>"

definition rejectEpochRequests ::
    "owner_epoch \<Rightarrow> string \<Rightarrow> cache_response_error_code option \<Rightarrow> 'q coordinator_core \<Rightarrow>
     'q coordinator_core \<times> ('q, 'r, 'p) coordinator_action list" where
  "rejectEpochRequests e err code c =
     (c\<lparr>inFlight := map_reject (\<lambda>(_, r). if_epoch r = e) (inFlight c)\<rparr>,
      map (\<lambda>(_, r). reject (if_tab r) (request_id (if_request r)) err code)
        (filter (\<lambda>(_, r). if_epoch r = e) (inFlight c)))"

definition route ::
    "'q queued_request \<Rightarrow> tab_id \<Rightarrow> owner_epoch \<Rightarrow> 'q coordinator_core \<Rightarrow>
     'q coordinator_core \<times> ('q, 'r, 'p) coordinator_action js" where
  "route q t e c =
     (if \<not> is_safe_nat (nextRouteId c)
      then (c, Throw ''coordinator route id space exhausted'')
      else let r = nextRouteId c
           in (c\<lparr>nextRouteId := r + 1,
                 inFlight := AList.update r
                   \<lparr>if_tab = q_tab q, if_request = q_request q, if_route = r, if_epoch = e\<rparr>
                   (inFlight c)\<rparr>,
               Ret (RouteRequest t (q_tab q) e r ((q_request q)\<lparr>request_id := r\<rparr>))))"

definition registerTab ::
    "tab_id \<Rightarrow> 'q coordinator_core \<Rightarrow>
     'q coordinator_core \<times> ('q, 'r, 'p) coordinator_action list" where
  "registerTab t c =
     (if t \<in> set (tabs c) then (c, [])
      else let c1 = c\<lparr>tabs := tabs c @ [t]\<rparr>
           in case stateValue c1 of
                Failed why untouched \<Rightarrow> (c1, [TerminalFailure why untouched])
              | WaitingForTab act \<Rightarrow> activateNext act c1
              | _ \<Rightarrow> (c1, []))"

definition request ::
    "tab_id \<Rightarrow> 'q cache_request \<Rightarrow> 'q coordinator_core \<Rightarrow>
     'q coordinator_core \<times> ('q, 'r, 'p) coordinator_action list js" where
  "request t req c =
     (if t \<notin> set (tabs c)
      then (c, Ret [reject t (request_id req) ''requester tab is not registered'' None])
      else if t \<in> retiringTabs c
      then (c, Ret [reject t (request_id req) ''requester tab is retiring'' None])
      else case stateValue c of
             Failed why _ \<Rightarrow> (c, Ret [reject t (request_id req) why None])
           | Active ot e \<Rightarrow>
               (case route \<lparr>q_tab = t, q_request = req\<rparr> ot e c of
                  (c1, res) \<Rightarrow> (c1, map_js (\<lambda>a. [a]) res))
           | _ \<Rightarrow> (c\<lparr>queuedRequests := queuedRequests c @ [\<lparr>q_tab = t, q_request = req\<rparr>]\<rparr>,
                   Ret []))"

definition beginEngineOpen ::
    "tab_id \<Rightarrow> owner_epoch \<Rightarrow> 'q coordinator_core \<Rightarrow> 'q coordinator_core \<times> bool" where
  "beginEngineOpen t e c =
     (case stateValue c of
        Activating st se act ph \<Rightarrow>
          (if st \<noteq> t \<or> se \<noteq> e \<or> ph \<noteq> LoadingAssets then (c, False)
           else (c\<lparr>stateValue := Activating st se act OpeningDatabase\<rparr>, True))
      | _ \<Rightarrow> (c, False))"

definition transitionToAbruptLoss ::
    "tab_id \<Rightarrow> owner_epoch \<Rightarrow> string \<Rightarrow> 'q coordinator_core \<Rightarrow>
     'q coordinator_core \<times> ('q, 'r, 'p) coordinator_action list js" where
  "transitionToAbruptLoss t e why c =
     (if owner_of (stateValue c) \<noteq> Some (t, e) then (c, Ret [])
      else let (c1, rejected) = rejectEpochRequests e
                 (''owner epoch '' @ show_nat e @ '' was lost: '' @ why) (Some OwnerEpochLost) c;
               c2 = c1\<lparr>stateValue := ResettingAfterLoss t e (currentEpoch c1 + 1)
                 (case stateValue c of
                    Activating _ _ act LoadingAssets \<Rightarrow> act
                  | _ \<Rightarrow> WipeBeforeOpen) why\<rparr>
           in return_checked c2 (rejected @ [CloseEngineRoute t e, ScheduleResetActivation]))"

text \<open>The \<open>while (queuedRequests.length > 0)\<close> loop of \<open>engineReady\<close>.\<close>

fun route_queued ::
    "'q queued_request list \<Rightarrow> tab_id \<Rightarrow> owner_epoch \<Rightarrow> 'q coordinator_core \<Rightarrow>
     'q coordinator_core \<times> ('q, 'r, 'p) coordinator_action list js" where
  "route_queued [] t e c = (c\<lparr>queuedRequests := []\<rparr>, Ret [])"
| "route_queued (q # qs) t e c =
     (let c1 = c\<lparr>queuedRequests := qs\<rparr>
      in if q_tab q \<in> set (tabs c1)
         then case route q t e c1 of
                (c2, Throw err) \<Rightarrow> (c2, Throw err)
              | (c2, Ret a) \<Rightarrow>
                  (case route_queued qs t e c2 of (c3, res) \<Rightarrow> (c3, map_js ((#) a) res))
         else route_queued qs t e c1)"

definition ready_error :: "engine_ready \<Rightarrow> string option" where
  "ready_error r =
     (if \<not> r_lock_held r
      then Some ''engine became ready without the exclusive owner lock''
      else if r_lock_name r \<noteq> r_expected_lock_name r
      then Some ''engine reported the wrong physical owner lock''
      else if r_proof r \<noteq> proofFor (r_outcome r)
      then Some (''engine proof does not match open outcome '' @ outcome_string (r_outcome r))
      else None)"

definition engineReady ::
    "engine_ready \<Rightarrow> 'q coordinator_core \<Rightarrow>
     'q coordinator_core \<times> ('q, 'r, 'p) coordinator_action list js" where
  "engineReady r c =
     (case stateValue c of
        Activating t e act OpeningDatabase \<Rightarrow>
          (if t \<noteq> r_tab r \<or> e \<noteq> r_epoch r
           then apsnd Ret (recordProtocolViolation (''unexpected engine-ready from '' @ r_tab r @
                  '' at epoch '' @ show_nat (r_epoch r)) c)
           else case ready_error r of
                  Some err \<Rightarrow>
                    (let (c1, viol) = recordProtocolViolation err c;
                         (c2, loss) = transitionToAbruptLoss t e err c1
                     in (c2, map_js (\<lambda>acts. viol @ acts) loss))
                | None \<Rightarrow>
                    (let c1 = c\<lparr>stateValue := Active t e\<rparr>;
                         replaced = (if e > 1 then [BroadcastEngineReplaced e] else [])
                     in case route_queued (queuedRequests c1) t e c1 of
                          (c2, Throw err) \<Rightarrow> (c2, Throw err)
                        | (c2, Ret acts) \<Rightarrow> return_checked c2 (replaced @ acts)))
      | _ \<Rightarrow> apsnd Ret (recordProtocolViolation (''unexpected engine-ready from '' @ r_tab r @
                  '' at epoch '' @ show_nat (r_epoch r)) c))"

definition engineResponse ::
    "owner_epoch \<Rightarrow> route_id \<Rightarrow> 'r cache_response \<Rightarrow> 'q coordinator_core \<Rightarrow>
     'q coordinator_core \<times> ('q, 'r, 'p) coordinator_action list" where
  "engineResponse e r resp c =
     (if \<not> acceptsEngineMessages e c
      then apsnd (\<lambda>a. [a]) (dropStale e (Some r) StaleEpoch c)
      else case map_of (inFlight c) r of
             None \<Rightarrow> apsnd (\<lambda>a. [a]) (dropStale e (Some r) UnknownRoute c)
           | Some fl \<Rightarrow>
               (if if_epoch fl \<noteq> e
                then apsnd (\<lambda>a. [a]) (dropStale e (Some r) UnknownRoute c)
                else (c\<lparr>inFlight := AList.delete r (inFlight c)\<rparr>,
                      [DeliverResponse (if_tab fl)
                         (with_response_id (request_id (if_request fl)) resp)])))"

definition enginePush ::
    "owner_epoch \<Rightarrow> 'p \<Rightarrow> 'q coordinator_core \<Rightarrow>
     'q coordinator_core \<times> ('q, 'r, 'p) coordinator_action list" where
  "enginePush e p c =
     (if \<not> acceptsEngineMessages e c
      then apsnd (\<lambda>a. [a]) (dropStale e None StaleEpoch c)
      else (c, [BroadcastPush p]))"

definition beginGracefulDeparture ::
    "tab_id \<Rightarrow> owner_epoch \<Rightarrow> 'q coordinator_core \<Rightarrow>
     'q coordinator_core \<times> ('q, 'r, 'p) coordinator_action list" where
  "beginGracefulDeparture t e c =
     (if stateValue c \<noteq> Active t e
      then recordProtocolViolation (''unexpected graceful departure from '' @ t @
             '' at epoch '' @ show_nat e) c
      else (c\<lparr>retiringTabs := insert t (retiringTabs c), stateValue := Draining t e\<rparr>,
            [DrainOwner t e]))"

definition engineDrained ::
    "tab_id \<Rightarrow> owner_epoch \<Rightarrow> 'q coordinator_core \<Rightarrow>
     'q coordinator_core \<times> ('q, 'r, 'p) coordinator_action list js" where
  "engineDrained t e c =
     (if stateValue c \<noteq> Draining t e
      then apsnd Ret (recordProtocolViolation (''unexpected engine-drained from '' @ t @
             '' at epoch '' @ show_nat e) c)
      else let (c1, rejected) = rejectEpochRequests e
                 ''engine drained before delivering its response'' None c;
               c2 = removeTabRecord t c1;
               c3 = c2\<lparr>retiringTabs := retiringTabs c2 - {t},
                       stateValue := WaitingForTab OpenExisting\<rparr>;
               (c4, elected) = activateNext OpenExisting c3
           in return_checked c4
                (rejected @ [CloseEngineRoute t e, RetireTab t e] @ elected))"

definition ownerLost ::
    "tab_id \<Rightarrow> owner_epoch \<Rightarrow> string \<Rightarrow> 'q coordinator_core \<Rightarrow>
     'q coordinator_core \<times> ('q, 'r, 'p) coordinator_action list js" where
  "ownerLost t e why c = transitionToAbruptLoss t e why c"

definition terminalFailure ::
    "string \<Rightarrow> 'q coordinator_core \<Rightarrow>
     'q coordinator_core \<times> ('q, 'r, 'p) coordinator_action list js" where
  "terminalFailure why c =
     (case stateValue c of
        Failed _ _ \<Rightarrow> (c, Ret [])
      | st \<Rightarrow>
          let untouched = (case st of ResettingAfterLoss _ _ _ OpenExisting _ \<Rightarrow> True | _ \<Rightarrow> False);
              c1 = c\<lparr>queuedRequests := [], inFlight := [], stateValue := Failed why untouched\<rparr>
          in return_checked c1 [TerminalFailure why untouched])"

definition departForNavigation ::
    "tab_id \<Rightarrow> owner_epoch \<Rightarrow> string \<Rightarrow> 'q coordinator_core \<Rightarrow>
     'q coordinator_core \<times> ('q, 'r, 'p) coordinator_action list js" where
  "departForNavigation t e why c =
     (if owner_of (stateValue c) \<noteq> Some (t, e)
      then apsnd Ret (recordProtocolViolation (''unexpected navigation departure from '' @ t @
             '' at epoch '' @ show_nat e) c)
      else let act = (case stateValue c of Activating _ _ a _ \<Rightarrow> a | _ \<Rightarrow> OpenExisting);
               (c1, rejected) = rejectEpochRequests e
                 (''owner epoch '' @ show_nat e @ '' departed for navigation: '' @ why)
                 (Some OwnerEpochLost) c;
               c2 = removeTabRecord t c1;
               c3 = c2\<lparr>retiringTabs := retiringTabs c2 - {t}, stateValue := WaitingForTab act\<rparr>;
               (c4, elected) = activateNext act c3
           in return_checked c4 (rejected @ [CloseEngineRoute t e, DropTab t] @ elected))"

definition tabLost ::
    "tab_id \<Rightarrow> string \<Rightarrow> 'q coordinator_core \<Rightarrow>
     'q coordinator_core \<times> ('q, 'r, 'p) coordinator_action list js" where
  "tabLost t why c =
     (if t \<notin> set (tabs c) then (c, Ret [])
      else let (c1, loss) = (case owner_of (stateValue c) of
                 Some (ot, oe) \<Rightarrow>
                   (if ot = t then transitionToAbruptLoss t oe why c else (c, Ret []))
               | None \<Rightarrow> (c, Ret []))
           in case loss of
                Throw err \<Rightarrow> (c1, Throw err)
              | Ret acts \<Rightarrow>
                  let c2 = removeTabRecord t c1;
                      c3 = c2\<lparr>retiringTabs := retiringTabs c2 - {t}\<rparr>
                  in return_checked c3 (DropTab t # acts))"

definition resumeAfterLoss ::
    "'q coordinator_core \<Rightarrow>
     'q coordinator_core \<times> ('q, 'r, 'p) coordinator_action list" where
  "resumeAfterLoss c =
     (case stateValue c of
        ResettingAfterLoss pt pe ne act why \<Rightarrow>
          (let candidate = chooseCandidate (Some pt) c
           in if \<not> truthy_string candidate
              then (c\<lparr>stateValue := WaitingForTab act\<rparr>, [])
              else let t = the candidate
                   in (c\<lparr>currentEpoch := ne, stateValue := Activating t ne act LoadingAssets\<rparr>,
                       [ElectOwner t ne act]))
      | _ \<Rightarrow> (c, []))"

definition expectsEngine :: "tab_id \<Rightarrow> owner_epoch \<Rightarrow> 'q coordinator_core \<Rightarrow> bool" where
  "expectsEngine t e c \<longleftrightarrow>
     (case stateValue c of Activating st se _ _ \<Rightarrow> st = t \<and> se = e | _ \<Rightarrow> False)"

section \<open>The machine as a whole\<close>

text \<open>
  The calls the router makes, as events. \<open>beginEngineOpen\<close> answers with a boolean and
  emits no action.
\<close>

datatype ('q, 'r, 'p) core_event =
  EvRegisterTab tab_id
| EvRequest tab_id "'q cache_request"
| EvBeginEngineOpen tab_id owner_epoch
| EvEngineReady engine_ready
| EvEngineResponse owner_epoch route_id "'r cache_response"
| EvEnginePush owner_epoch 'p
| EvBeginGracefulDeparture tab_id owner_epoch
| EvEngineDrained tab_id owner_epoch
| EvOwnerLost tab_id owner_epoch string
| EvTerminalFailure string
| EvDepartForNavigation tab_id owner_epoch string
| EvTabLost tab_id string
| EvResumeAfterLoss

fun core_step ::
    "('q, 'r, 'p) core_event \<Rightarrow> 'q coordinator_core \<Rightarrow>
     'q coordinator_core \<times> ('q, 'r, 'p) coordinator_action list js" where
  "core_step (EvRegisterTab t) c = apsnd Ret (registerTab t c)"
| "core_step (EvRequest t req) c = request t req c"
| "core_step (EvBeginEngineOpen t e) c = apsnd (\<lambda>_. Ret []) (beginEngineOpen t e c)"
| "core_step (EvEngineReady r) c = engineReady r c"
| "core_step (EvEngineResponse e r resp) c = apsnd Ret (engineResponse e r resp c)"
| "core_step (EvEnginePush e p) c = apsnd Ret (enginePush e p c)"
| "core_step (EvBeginGracefulDeparture t e) c = apsnd Ret (beginGracefulDeparture t e c)"
| "core_step (EvEngineDrained t e) c = engineDrained t e c"
| "core_step (EvOwnerLost t e why) c = ownerLost t e why c"
| "core_step (EvTerminalFailure why) c = terminalFailure why c"
| "core_step (EvDepartForNavigation t e why) c = departForNavigation t e why c"
| "core_step (EvTabLost t why) c = tabLost t why c"
| "core_step EvResumeAfterLoss c = apsnd Ret (resumeAfterLoss c)"

text \<open>
  Tab ids reach the class only through \<open>validateTabToCoordinatorEnvelope\<close>, which refuses
  the empty string; every other event is unconstrained.
\<close>

fun admissible :: "('q, 'r, 'p) core_event \<Rightarrow> bool" where
  "admissible (EvRegisterTab t) = (t \<noteq> '''')"
| "admissible _ = True"

text \<open>A run from a fresh coordinator, with the events it received and what each returned.\<close>

inductive core_run ::
    "(('q, 'r, 'p) core_event \<times> ('q, 'r, 'p) coordinator_action list js) list \<Rightarrow>
     'q coordinator_core \<Rightarrow> bool" where
  start: "new_core sc = Ret c \<Longrightarrow> core_run [] c"
| step: "core_run tr c \<Longrightarrow> admissible ev \<Longrightarrow> core_step ev c = (c', res) \<Longrightarrow>
     core_run (tr @ [(ev, res)]) c'"

section \<open>Invariant\<close>

definition tabs_ok :: "'q coordinator_core \<Rightarrow> bool" where
  "tabs_ok c \<longleftrightarrow> distinct (tabs c) \<and> '''' \<notin> set (tabs c) \<and> retiringTabs c \<subseteq> set (tabs c) \<and>
     (\<forall>q \<in> set (queuedRequests c). q_tab q \<in> set (tabs c))"

definition flights_ok :: "'q coordinator_core \<Rightarrow> bool" where
  "flights_ok c \<longleftrightarrow> distinct (map fst (inFlight c)) \<and> 1 \<le> nextRouteId c \<and>
     (\<forall>(r, f) \<in> set (inFlight c).
        if_route f = r \<and> 1 \<le> r \<and> r < nextRouteId c \<and> if_tab f \<in> set (tabs c) \<and>
        messaging_epoch (stateValue c) = Some (if_epoch f))"

fun phase_ok :: "coordinator_state \<Rightarrow> 'q coordinator_core \<Rightarrow> bool" where
  "phase_ok (WaitingForTab _) c = (set (tabs c) \<subseteq> retiringTabs c)"
| "phase_ok (Activating t e _ _) c =
     (t \<in> set (tabs c) \<and> t \<notin> retiringTabs c \<and> e = currentEpoch c \<and> 1 \<le> e)"
| "phase_ok (Active t e) c =
     (t \<in> set (tabs c) \<and> t \<notin> retiringTabs c \<and> e = currentEpoch c \<and> 1 \<le> e \<and>
      (is_safe_nat (nextRouteId c) \<longrightarrow> queuedRequests c = []))"
| "phase_ok (Draining t e) c =
     (t \<in> set (tabs c) \<and> t \<in> retiringTabs c \<and> e = currentEpoch c \<and> 1 \<le> e)"
| "phase_ok (ResettingAfterLoss _ e n _ _) c = (e = currentEpoch c \<and> n = currentEpoch c + 1)"
| "phase_ok (Failed _ _) c = (queuedRequests c = [])"

definition core_inv :: "'q coordinator_core \<Rightarrow> bool" where
  "core_inv c \<longleftrightarrow> tabs_ok c \<and> flights_ok c \<and> phase_ok (stateValue c) c"

lemmas core_inv_defs = core_inv_def tabs_ok_def flights_ok_def

subsection \<open>Facts about the private methods\<close>

lemma chooseCandidate_SomeD:
  assumes "chooseCandidate avoid c = Some t"
  shows "t \<in> set (tabs c) \<and> t \<notin> retiringTabs c"
proof -
  let ?el = "filter (\<lambda>t. t \<notin> retiringTabs c) (tabs c)"
  have "t \<in> set ?el"
  proof (cases "find (\<lambda>t. Some t \<noteq> avoid) ?el")
    case None
    with assms show ?thesis by (cases ?el) (auto simp: chooseCandidate_def Let_def)
  next
    case (Some u)
    with assms have "u = t" by (simp add: chooseCandidate_def Let_def)
    with Some show ?thesis by (metis find_SomeD)
  qed
  then show ?thesis by simp
qed

lemma chooseCandidate_NoneD: "chooseCandidate avoid c = None \<Longrightarrow> set (tabs c) \<subseteq> retiringTabs c"
  by (auto simp: chooseCandidate_def Let_def filter_empty_conv split: option.splits list.splits)

lemma truthy_candidate:
  assumes "tabs_ok c"
  shows "truthy_string (chooseCandidate avoid c) \<longleftrightarrow> \<not> set (tabs c) \<subseteq> retiringTabs c"
proof (cases "chooseCandidate avoid c")
  case None
  then show ?thesis by (auto dest: chooseCandidate_NoneD)
next
  case (Some t)
  then show ?thesis using assms by (auto simp: tabs_ok_def dest: chooseCandidate_SomeD)
qed

lemma flights_ok_no_owner: "flights_ok c \<Longrightarrow> messaging_epoch (stateValue c) = None \<Longrightarrow> inFlight c = []"
  by (cases "inFlight c") (auto simp: flights_ok_def)

lemma assertInvariants_Ret: "flights_ok c \<Longrightarrow> assertInvariants c = Ret ()"
proof (cases "messaging_epoch (stateValue c)")
  case None
  moreover assume "flights_ok c"
  ultimately show ?thesis by (simp add: assertInvariants_def flights_ok_no_owner)
next
  case (Some e)
  moreover assume "flights_ok c"
  ultimately have "\<forall>p \<in> set (inFlight c). if_epoch (snd p) = e"
    by (fastforce simp: flights_ok_def)
  with Some show ?thesis by (auto simp: assertInvariants_def map_values_def list_ex_iff)
qed

lemma return_checked_ok: "flights_ok c \<Longrightarrow> return_checked c a = (c, Ret a)"
  by (simp add: return_checked_def assertInvariants_Ret)

text \<open>In a consistent state every in-flight request belongs to the owner's epoch.\<close>

lemma owner_epoch_flights:
  assumes "flights_ok c" and "owner_of (stateValue c) = Some (t, e)"
  shows "\<forall>p \<in> set (inFlight c). if_epoch (snd p) = e"
  using assms by (cases "stateValue c") (auto simp: flights_ok_def)

lemma reject_all_flights:
  assumes "flights_ok c" and "owner_of (stateValue c) = Some (t, e)"
  shows "rejectEpochRequests e err code c =
    (c\<lparr>inFlight := []\<rparr>,
     map (\<lambda>p. RejectRequest (if_tab (snd p)) (request_id (if_request (snd p))) err code) (inFlight c))"
proof -
  note * = owner_epoch_flights [OF assms]
  have "map_reject (\<lambda>(_, r). if_epoch r = e) (inFlight c) = []"
    using * by (intro map_reject_all) auto
  moreover have "filter (\<lambda>(_, r). if_epoch r = e) (inFlight c) = inFlight c"
    using * by (auto simp: filter_id_conv)
  ultimately show ?thesis
    by (simp add: rejectEpochRequests_def reject_def case_prod_beta)
qed

subsection \<open>Every operation keeps the invariant\<close>

lemma core_inv_flights: "core_inv c \<Longrightarrow> flights_ok c"
  by (simp add: core_inv_def)

lemma activateNext_eq:
  assumes "tabs_ok c"
  shows "activateNext act c =
    (if set (tabs c) \<subseteq> retiringTabs c then (c\<lparr>stateValue := WaitingForTab act\<rparr>, [])
     else let t = the (chooseCandidate None c); e = currentEpoch c + 1
          in (c\<lparr>currentEpoch := e, stateValue := Activating t e act LoadingAssets\<rparr>,
              [ElectOwner t e act]))"
  using truthy_candidate [OF assms, of None] by (simp add: activateNext_def)

lemma activateNext_inv:
  assumes "tabs_ok c" and "inFlight c = []" and "1 \<le> nextRouteId c"
  shows "core_inv (fst (activateNext act c))"
proof (cases "chooseCandidate None c")
  case None
  then show ?thesis using assms
    by (auto simp: activateNext_def core_inv_defs dest: chooseCandidate_NoneD)
next
  case (Some t)
  then show ?thesis using assms chooseCandidate_SomeD [OF Some]
    by (auto simp: activateNext_def core_inv_defs Let_def)
qed

lemma registerTab_inv: "core_inv c \<Longrightarrow> t \<noteq> '''' \<Longrightarrow> core_inv (fst (registerTab t c))"
proof (cases "t \<in> set (tabs c)")
  case True
  moreover assume "core_inv c"
  ultimately show ?thesis by (simp add: registerTab_def)
next
  case False
  assume inv: "core_inv c" and ne: "t \<noteq> ''''"
  let ?c = "c\<lparr>tabs := tabs c @ [t]\<rparr>"
  have ok: "tabs_ok ?c" using inv False ne by (auto simp: core_inv_defs)
  show ?thesis
  proof (cases "\<exists>act. stateValue c = WaitingForTab act")
    case True
    then obtain act where st: "stateValue c = WaitingForTab act" by blast
    have "inFlight c = []" using inv st by (auto simp: core_inv_def dest: flights_ok_no_owner)
    then have "core_inv (fst (activateNext act ?c))"
      using inv by (intro activateNext_inv ok) (auto simp: core_inv_defs)
    then show ?thesis using st False by (simp add: registerTab_def)
  next
    case no_wait: False
    then show ?thesis using inv ok False
      by (cases "stateValue c") (fastforce simp: registerTab_def core_inv_defs)+
  qed
qed

text \<open>A fresh route id is new in the map, so \<open>inFlight.set\<close> appends.\<close>

lemma route_appends:
  assumes "flights_ok c"
  shows "AList.update (nextRouteId c) f (inFlight c) = inFlight c @ [(nextRouteId c, f)]"
  using assms by (intro update_fresh) (auto simp: flights_ok_def)

lemma route_flights_ok:
  assumes "flights_ok c" and "messaging_epoch (stateValue c) = Some e" and "q_tab q \<in> set (tabs c)"
  shows "flights_ok (fst (route q t e c))"
  using assms by (auto simp: route_def Let_def flights_ok_def route_appends [OF assms(1)])

lemma route_frame [frame]:
  "stateValue (fst (route q t e c)) = stateValue c"
  "tabs (fst (route q t e c)) = tabs c"
  "retiringTabs (fst (route q t e c)) = retiringTabs c"
  "queuedRequests (fst (route q t e c)) = queuedRequests c"
  "currentEpoch (fst (route q t e c)) = currentEpoch c"
  "scope (fst (route q t e c)) = scope c"
  by (simp_all add: route_def Let_def)

lemma request_inv: "core_inv c \<Longrightarrow> core_inv (fst (request t req c))"
proof (cases "stateValue c")
  case (Active ot e)
  assume inv: "core_inv c"
  let ?q = "\<lparr>q_tab = t, q_request = req\<rparr>"
  show ?thesis
  proof (cases "t \<in> set (tabs c) \<and> t \<notin> retiringTabs c")
    case True
    have "flights_ok (fst (route ?q ot e c))"
      using inv Active True by (intro route_flights_ok) (auto simp: core_inv_def)
    moreover have "tabs_ok (fst (route ?q ot e c))"
      using inv by (simp add: core_inv_def tabs_ok_def frame)
    moreover have "phase_ok (Active ot e) (fst (route ?q ot e c))"
      using inv Active by (auto simp: core_inv_def is_safe_nat_def route_def Let_def)
    ultimately have "core_inv (fst (route ?q ot e c))"
      using Active by (simp add: core_inv_def frame)
    then show ?thesis using Active True by (simp add: request_def case_prod_beta)
  next
    case False
    then show ?thesis using inv by (auto simp: request_def)
  qed
qed (auto simp: request_def core_inv_defs)

lemma beginEngineOpen_inv: "core_inv c \<Longrightarrow> core_inv (fst (beginEngineOpen t e c))"
  by (auto simp: beginEngineOpen_def core_inv_defs split: coordinator_state.splits)

lemma recordProtocolViolation_inv [simp]:
  "core_inv (fst (recordProtocolViolation err c)) = core_inv c"
  by (cases "stateValue c") (auto simp: recordProtocolViolation_def core_inv_defs)

lemma abrupt_loss_eq:
  assumes "core_inv c" and "owner_of (stateValue c) = Some (t, e)"
  shows "transitionToAbruptLoss t e why c =
    (c\<lparr>inFlight := [],
       stateValue := ResettingAfterLoss t e (currentEpoch c + 1)
         (case stateValue c of Activating _ _ act LoadingAssets \<Rightarrow> act | _ \<Rightarrow> WipeBeforeOpen) why\<rparr>,
     Ret (map (\<lambda>p. RejectRequest (if_tab (snd p)) (request_id (if_request (snd p)))
            (''owner epoch '' @ show_nat e @ '' was lost: '' @ why) (Some OwnerEpochLost)) (inFlight c) @
          [CloseEngineRoute t e, ScheduleResetActivation]))"
proof -
  have fl: "flights_ok c" and nr: "1 \<le> nextRouteId c"
    using assms(1) by (auto simp: core_inv_defs)
  show ?thesis using assms(2) nr
    by (simp add: transitionToAbruptLoss_def reject_all_flights [OF fl assms(2)] return_checked_ok
        flights_ok_def)
qed

lemma abrupt_loss_inv: "core_inv c \<Longrightarrow> core_inv (fst (transitionToAbruptLoss t e why c))"
proof (cases "owner_of (stateValue c) = Some (t, e)")
  case True
  assume inv: "core_inv c"
  have "e = currentEpoch c" using inv True by (cases "stateValue c") (auto simp: core_inv_def)
  with inv show ?thesis
    unfolding abrupt_loss_eq [OF inv True] by (auto simp: core_inv_defs)
next
  case False
  moreover assume "core_inv c"
  ultimately show ?thesis by (simp add: transitionToAbruptLoss_def)
qed

lemma route_queued_frame [frame]:
  "stateValue (fst (route_queued qs t e c)) = stateValue c"
  "tabs (fst (route_queued qs t e c)) = tabs c"
  "retiringTabs (fst (route_queued qs t e c)) = retiringTabs c"
  "currentEpoch (fst (route_queued qs t e c)) = currentEpoch c"
  by (induction qs arbitrary: c)
    (simp_all add: route_def Let_def case_prod_beta)

lemma route_queued_flights_ok:
  assumes "flights_ok c" and "messaging_epoch (stateValue c) = Some e"
  shows "flights_ok (fst (route_queued qs t e c))"
  using assms
proof (induction qs arbitrary: c)
  case Nil
  then show ?case by (simp add: flights_ok_def)
next
  case (Cons q qs)
  let ?c = "c\<lparr>queuedRequests := qs\<rparr>"
  have c1: "flights_ok ?c" using Cons.prems by (simp add: flights_ok_def)
  show ?case
  proof (cases "q_tab q \<in> set (tabs c)")
    case True
    have "flights_ok (fst (route q t e ?c))"
      using True Cons.prems by (intro route_flights_ok c1) auto
    then show ?thesis using Cons.IH [of "fst (route q t e ?c)"] Cons.prems(2) True c1
      by (cases "is_safe_nat (nextRouteId c)") (simp_all add: Let_def route_def case_prod_beta)
  next
    case False
    then show ?thesis using Cons.IH [OF c1] Cons.prems by (simp add: Let_def)
  qed
qed

text \<open>Either the whole queue is routed or the route ids run out.\<close>

lemma route_queued_queue:
  "if is_ret (snd (route_queued qs t e c))
   then queuedRequests (fst (route_queued qs t e c)) = []
   else \<not> is_safe_nat (nextRouteId (fst (route_queued qs t e c)))"
  by (induction qs arbitrary: c) (simp_all add: route_def Let_def case_prod_beta)

lemma route_queued_subset:
  "set (queuedRequests (fst (route_queued qs t e c))) \<subseteq> set qs"
proof (induction qs arbitrary: c)
  case (Cons q qs)
  let ?c = "c\<lparr>queuedRequests := qs\<rparr>"
  show ?case using Cons.IH [of ?c] Cons.IH [of "fst (route q t e ?c)"]
    by (auto simp: route_def Let_def case_prod_beta)
qed simp

lemma engineReady_inv:
  assumes inv: "core_inv c"
  shows "core_inv (fst (engineReady r c :: ('q, 'r, 'p) core_result))"
proof (cases "stateValue c")
  case st: (Activating t e act ph)
  show ?thesis
  proof (cases "ph = OpeningDatabase \<and> t = r_tab r \<and> e = r_epoch r")
    case True
    show ?thesis
    proof (cases "ready_error r")
      case None
      let ?c = "c\<lparr>stateValue := Active t e\<rparr>"
      let ?d = "route_queued (queuedRequests c) t e ?c :: ('q, 'r, 'p) core_result"
      have nofl: "inFlight c = []" using inv st by (auto simp: core_inv_def dest: flights_ok_no_owner)
      then have "flights_ok ?c" using inv by (simp add: core_inv_defs)
      then have fl: "flights_ok (fst ?d)" by (rule route_queued_flights_ok) simp
      have "tabs_ok (fst ?d)"
        using inv route_queued_subset [of "queuedRequests c" t e ?c]
        by (auto simp: core_inv_def tabs_ok_def frame)
      moreover have "phase_ok (Active t e) (fst ?d)"
        using inv st route_queued_queue [of "queuedRequests c" t e ?c]
        by (auto simp: core_inv_def frame split: if_splits)
      moreover have "stateValue (fst ?d) = Active t e" by (simp add: frame)
      ultimately have "core_inv (fst ?d)" using fl by (simp add: core_inv_def del: phase_ok.simps)
      then show ?thesis using st True None fl
        by (cases ?d; cases "snd ?d") (auto simp: engineReady_def Let_def return_checked_ok)
    next
      case (Some err)
      have "core_inv (fst (transitionToAbruptLoss t e err (fst (recordProtocolViolation err c))))"
        using inv by (intro abrupt_loss_inv) simp
      then show ?thesis using st True Some
        by (simp add: engineReady_def Let_def case_prod_beta recordProtocolViolation_def)
    qed
  next
    case False
    then show ?thesis using inv st by (cases ph) (auto simp: engineReady_def)
  qed
qed (use inv in \<open>auto simp: engineReady_def\<close>)

lemma engineResponse_inv: "core_inv c \<Longrightarrow> core_inv (fst (engineResponse e r resp c))"
  by (cases "stateValue c")
    (auto simp: engineResponse_def dropStale_def acceptsEngineMessages_def core_inv_defs
      set_delete distinct_delete split: option.splits)

lemma enginePush_inv: "core_inv c \<Longrightarrow> core_inv (fst (enginePush e p c))"
  by (cases "stateValue c")
    (auto simp: enginePush_def dropStale_def acceptsEngineMessages_def core_inv_defs)

lemma beginGracefulDeparture_inv: "core_inv c \<Longrightarrow> core_inv (fst (beginGracefulDeparture t e c))"
proof (cases "stateValue c = Active t e")
  case True
  moreover assume "core_inv c"
  ultimately show ?thesis by (auto simp: beginGracefulDeparture_def core_inv_defs)
next
  case False
  moreover assume "core_inv c"
  ultimately show ?thesis by (simp add: beginGracefulDeparture_def)
qed

text \<open>Dropping the record of a tab when nothing is in flight.\<close>

lemma removeTabRecord_ok:
  assumes "tabs_ok c"
  shows "tabs_ok ((removeTabRecord t c)\<lparr>retiringTabs := retiringTabs c - {t}, stateValue := st\<rparr>)"
    "tabs_ok ((removeTabRecord t c)\<lparr>retiringTabs := retiringTabs c - {t}\<rparr>)"
  using assms by (auto simp: tabs_ok_def removeTabRecord_def)

lemma removeTabRecord_frame [simp]:
  "stateValue (removeTabRecord t c) = stateValue c"
  "retiringTabs (removeTabRecord t c) = retiringTabs c"
  "nextRouteId (removeTabRecord t c) = nextRouteId c"
  "currentEpoch (removeTabRecord t c) = currentEpoch c"
  "tabs (removeTabRecord t c) = remove1 t (tabs c)"
  "inFlight c = [] \<Longrightarrow> inFlight (removeTabRecord t c) = []"
  by (simp_all add: removeTabRecord_def)

text \<open>
  The common tail of \<open>engineDrained\<close> and \<open>departForNavigation\<close>: reject the epoch's
  requests, forget the tab, elect the next owner.
\<close>

definition after_departure ::
    "tab_id \<Rightarrow> database_action \<Rightarrow> 'q coordinator_core \<Rightarrow>
     'q coordinator_core \<times> ('q, 'r, 'p) coordinator_action list" where
  "after_departure t act c =
     activateNext act ((removeTabRecord t (c\<lparr>inFlight := []\<rparr>))
       \<lparr>retiringTabs := retiringTabs c - {t}, stateValue := WaitingForTab act\<rparr>)"

lemma after_departure_inv: "core_inv c \<Longrightarrow> core_inv (fst (after_departure t act c))"
proof -
  assume inv: "core_inv c"
  then have "tabs_ok (c\<lparr>inFlight := []\<rparr>)" by (simp add: core_inv_defs)
  from removeTabRecord_ok(1) [OF this, where t = t and st = "WaitingForTab act"] inv
  show ?thesis unfolding after_departure_def
    by (intro activateNext_inv) (auto simp: core_inv_defs)
qed

text \<open>After a departure \<open>assertInvariants\<close> does not throw.\<close>

lemma after_departure_checked:
  "core_inv c \<Longrightarrow>
     return_checked (fst (after_departure t act c :: ('q, 'r, 'p) core_effect)) a =
     (fst (after_departure t act c :: ('q, 'r, 'p) core_effect), Ret a)"
  by (rule return_checked_ok [OF core_inv_flights [OF after_departure_inv]])

lemma engineDrained_eq:
  assumes "core_inv c" and "stateValue c = Draining t e"
  shows "engineDrained t e c =
    (case after_departure t OpenExisting c of (c', elected) \<Rightarrow>
      (c', Ret (map (\<lambda>p. RejectRequest (if_tab (snd p)) (request_id (if_request (snd p)))
            ''engine drained before delivering its response'' None) (inFlight c) @
          [CloseEngineRoute t e, RetireTab t e] @ elected)))"
proof -
  have fl: "flights_ok c" using assms(1) by (simp add: core_inv_def)
  have own: "owner_of (stateValue c) = Some (t, e)" using assms(2) by simp
  show ?thesis using assms(2)
    by (simp add: engineDrained_def reject_all_flights [OF fl own] case_prod_beta Let_def
        after_departure_def [symmetric] after_departure_checked [OF assms(1)])
qed

lemma departForNavigation_eq:
  assumes "core_inv c" and own: "owner_of (stateValue c) = Some (t, e)"
  defines "act \<equiv> (case stateValue c of Activating _ _ a _ \<Rightarrow> a | _ \<Rightarrow> OpenExisting)"
  shows "departForNavigation t e why c =
    (case after_departure t act c of (c', elected) \<Rightarrow>
      (c', Ret (map (\<lambda>p. RejectRequest (if_tab (snd p)) (request_id (if_request (snd p)))
            (''owner epoch '' @ show_nat e @ '' departed for navigation: '' @ why)
            (Some OwnerEpochLost)) (inFlight c) @
          [CloseEngineRoute t e, DropTab t] @ elected)))"
proof -
  have fl: "flights_ok c" using assms(1) by (simp add: core_inv_def)
  show ?thesis using own
    by (simp add: departForNavigation_def reject_all_flights [OF fl own] case_prod_beta Let_def
        act_def [symmetric] after_departure_def [symmetric] after_departure_checked [OF assms(1)])
qed

lemma engineDrained_inv:
  assumes inv: "core_inv c"
  shows "core_inv (fst (engineDrained t e c))"
proof (cases "stateValue c = Draining t e")
  case True
  show ?thesis unfolding engineDrained_eq [OF inv True]
    by (simp add: case_prod_beta after_departure_inv inv)
next
  case False
  then show ?thesis using inv by (simp add: engineDrained_def)
qed

lemma departForNavigation_inv:
  assumes inv: "core_inv c"
  shows "core_inv (fst (departForNavigation t e why c))"
proof (cases "owner_of (stateValue c) = Some (t, e)")
  case True
  show ?thesis unfolding departForNavigation_eq [OF inv True]
    by (simp add: case_prod_beta after_departure_inv inv)
next
  case False
  then show ?thesis using inv by (simp add: departForNavigation_def)
qed

lemma terminalFailure_inv: "core_inv c \<Longrightarrow> core_inv (fst (terminalFailure why c))"
  by (cases "stateValue c")
    (auto simp: terminalFailure_def Let_def return_checked_def core_inv_defs)

lemma resumeAfterLoss_inv: "core_inv c \<Longrightarrow> core_inv (fst (resumeAfterLoss c))"
proof (cases "stateValue c")
  case (ResettingAfterLoss pt pe ne act why)
  assume inv: "core_inv c"
  then have fl: "inFlight c = []"
    using ResettingAfterLoss by (auto simp: core_inv_def dest: flights_ok_no_owner)
  show ?thesis
  proof (cases "chooseCandidate (Some pt) c")
    case None
    then show ?thesis using inv ResettingAfterLoss fl chooseCandidate_NoneD [OF None]
      by (auto simp: resumeAfterLoss_def core_inv_defs)
  next
    case (Some t)
    then show ?thesis using inv ResettingAfterLoss fl chooseCandidate_SomeD [OF Some]
      by (auto simp: resumeAfterLoss_def core_inv_defs Let_def)
  qed
qed (auto simp: resumeAfterLoss_def)

text \<open>Forgetting a tab that is not the owner.\<close>

lemma forget_tab_inv:
  assumes "core_inv c" and "\<And>e. owner_of (stateValue c) \<noteq> Some (t, e)"
  shows "core_inv ((removeTabRecord t c)\<lparr>retiringTabs := retiringTabs c - {t}\<rparr>)"
  using assms
  by (cases "stateValue c") (auto simp: removeTabRecord_def core_inv_defs)

definition tab_loss ::
    "tab_id \<Rightarrow> string \<Rightarrow> 'q coordinator_core \<Rightarrow> ('q, 'r, 'p) core_result" where
  "tab_loss t why c = (case owner_of (stateValue c) of
     Some (ot, oe) \<Rightarrow> (if ot = t then transitionToAbruptLoss t oe why c else (c, Ret []))
   | None \<Rightarrow> (c, Ret []))"

lemma tab_loss_spec:
  assumes inv: "core_inv c"
  obtains c1 acts where "tab_loss t why c = (c1, Ret acts)" "core_inv c1"
    "\<And>e. owner_of (stateValue c1) \<noteq> Some (t, e)"
proof (cases "\<exists>e. owner_of (stateValue c) = Some (t, e)")
  case True
  then obtain e where own: "owner_of (stateValue c) = Some (t, e)" by blast
  note eq = abrupt_loss_eq [OF inv own, of why]
  show ?thesis
    by (rule that) (use own eq in \<open>auto simp: tab_loss_def abrupt_loss_inv [OF inv, of t e why, unfolded eq, simplified]\<close>)
next
  case False
  then show ?thesis
    by (intro that [of c "[]"]) (auto simp: tab_loss_def inv split: option.splits)
qed

lemma tabLost_eq:
  assumes inv: "core_inv c" and t: "t \<in> set (tabs c)"
  shows "tabLost t why c = (case tab_loss t why c of (c1, loss) \<Rightarrow>
    ((removeTabRecord t c1)\<lparr>retiringTabs := retiringTabs c1 - {t}\<rparr>, map_js ((#) (DropTab t)) loss))"
proof (rule tab_loss_spec [OF inv, of t why])
  fix c1 and acts :: "('a, 'b, 'c) coordinator_action list"
  assume eq: "tab_loss t why c = (c1, Ret acts)" and "core_inv c1"
    and "\<And>e. owner_of (stateValue c1) \<noteq> Some (t, e)"
  then have "flights_ok ((removeTabRecord t c1)\<lparr>retiringTabs := retiringTabs c1 - {t}\<rparr>)"
    by (intro core_inv_flights forget_tab_inv)
  then show ?thesis using t eq
    by (simp add: tabLost_def tab_loss_def Let_def return_checked_ok)
qed

lemma tabLost_spec:
  fixes c :: "'q coordinator_core"
  assumes inv: "core_inv c"
  shows "core_inv (fst (tabLost t why c :: ('q, 'r, 'p) core_result))"
    and "is_ret (snd (tabLost t why c :: ('q, 'r, 'p) core_result))"
proof -
  obtain c1 and acts :: "('q, 'r, 'p) coordinator_action list"
    where "tab_loss t why c = (c1, Ret acts)" "core_inv c1"
      "\<And>e. owner_of (stateValue c1) \<noteq> Some (t, e)"
    by (rule tab_loss_spec [OF inv, of t why]) blast
  then have "t \<in> set (tabs c) \<Longrightarrow>
      core_inv (fst (tabLost t why c :: ('q, 'r, 'p) core_result)) \<and>
      is_ret (snd (tabLost t why c :: ('q, 'r, 'p) core_result))"
    by (simp add: tabLost_eq [OF inv] forget_tab_inv)
  then show "core_inv (fst (tabLost t why c :: ('q, 'r, 'p) core_result))"
    and "is_ret (snd (tabLost t why c :: ('q, 'r, 'p) core_result))"
    using inv by (auto simp: tabLost_def)
qed

lemma core_step_inv: "core_inv c \<Longrightarrow> admissible ev \<Longrightarrow> core_inv (fst (core_step ev c))"
  by (cases ev)
    (auto simp: registerTab_inv request_inv beginEngineOpen_inv engineReady_inv engineResponse_inv
      enginePush_inv beginGracefulDeparture_inv engineDrained_inv ownerLost_def abrupt_loss_inv
      terminalFailure_inv departForNavigation_inv tabLost_spec(1) resumeAfterLoss_inv)

lemma core_inv_init: "core_inv (init_core sc)"
  by (auto simp: core_inv_defs init_core_def)

lemma core_run_inv: "core_run tr c \<Longrightarrow> core_inv c"
proof (induction rule: core_run.induct)
  case (start sc c)
  then show ?case by (auto simp: new_core_def core_inv_init split: if_splits)
next
  case (step tr c ev c' res)
  then show ?case using core_step_inv [of c ev] by simp
qed

subsection \<open>Outcomes\<close>

lemma route_queued_ret:
  assumes "is_safe_nat (nextRouteId c + length qs - 1)"
  shows "is_ret (snd (route_queued qs t e c))"
  using assms
proof (induction qs arbitrary: c)
  case (Cons q qs)
  let ?c = "c\<lparr>queuedRequests := qs\<rparr>"
  show ?case using Cons.IH [of ?c] Cons.IH [of "fst (route q t e ?c)"] Cons.prems
    by (cases qs) (auto simp: route_def Let_def case_prod_beta is_safe_nat_def)
qed simp

text \<open>The outcome of every call: it returns unless it needs a route id and none is left.\<close>

definition ids_left :: "'q coordinator_core \<Rightarrow> bool" where
  "ids_left c \<longleftrightarrow> is_safe_nat (nextRouteId c + length (queuedRequests c))"

lemma engineReady_accept:
  fixes c :: "'q coordinator_core"
  assumes inv: "core_inv c" and st: "stateValue c = Activating (r_tab r) (r_epoch r) act OpeningDatabase"
    and ok: "ready_error r = None"
  defines "c1 \<equiv> c\<lparr>stateValue := Active (r_tab r) (r_epoch r)\<rparr>"
  shows "(engineReady r c :: ('q, 'r, 'p) core_result) =
    (case route_queued (queuedRequests c) (r_tab r) (r_epoch r) c1 of (c2, res) \<Rightarrow>
      (c2, map_js (\<lambda>acts. (if r_epoch r > 1 then [BroadcastEngineReplaced (r_epoch r)] else []) @ acts) res))"
proof (cases "route_queued (queuedRequests c) (r_tab r) (r_epoch r) c1 :: ('q, 'r, 'p) core_result")
  case (Pair c2 res)
  have "inFlight c = []" using inv st by (auto simp: core_inv_def dest: flights_ok_no_owner)
  then have "flights_ok c1" using inv by (simp add: core_inv_defs c1_def)
  then have "flights_ok (fst (route_queued (queuedRequests c) (r_tab r) (r_epoch r) c1
      :: ('q, 'r, 'p) core_result))"
    by (rule route_queued_flights_ok) (simp add: c1_def)
  then have "flights_ok c2" unfolding Pair by simp
  then show ?thesis using st ok Pair
    by (cases res) (simp_all add: engineReady_def Let_def return_checked_ok c1_def)
qed

lemma engineReady_refuse:
  assumes inv: "core_inv c" and st: "stateValue c = Activating (r_tab r) (r_epoch r) act OpeningDatabase"
    and bad: "ready_error r = Some err"
  shows "engineReady r c =
    (c\<lparr>protocolViolations := protocolViolations c + 1, inFlight := [],
       stateValue := ResettingAfterLoss (r_tab r) (r_epoch r) (currentEpoch c + 1) WipeBeforeOpen err\<rparr>,
     Ret [ProtocolViolation err, CloseEngineRoute (r_tab r) (r_epoch r), ScheduleResetActivation])"
proof -
  let ?c = "c\<lparr>protocolViolations := protocolViolations c + 1\<rparr>"
  have "core_inv ?c"
    using inv recordProtocolViolation_inv [of err c] by (simp add: recordProtocolViolation_def)
  moreover have "owner_of (stateValue ?c) = Some (r_tab r, r_epoch r)" using st by simp
  moreover have "inFlight c = []" using inv st by (auto simp: core_inv_def dest: flights_ok_no_owner)
  ultimately show ?thesis using st bad
    by (simp add: engineReady_def recordProtocolViolation_def abrupt_loss_eq)
qed

lemma engineReady_unexpected:
  assumes "\<And>act. stateValue c \<noteq> Activating (r_tab r) (r_epoch r) act OpeningDatabase"
  shows "engineReady r c =
    (c\<lparr>protocolViolations := protocolViolations c + 1\<rparr>,
     Ret [ProtocolViolation (''unexpected engine-ready from '' @ r_tab r @ '' at epoch '' @
       show_nat (r_epoch r))])"
  using assms
  by (auto simp: engineReady_def recordProtocolViolation_def
      split: coordinator_state.splits engine_startup_phase.splits)

lemma engineReady_cases:
  fixes c :: "'q coordinator_core"
  obtains (accept) act where
      "stateValue c = Activating (r_tab r) (r_epoch r) act OpeningDatabase" "ready_error r = None"
  | (refuse) act err where
      "stateValue c = Activating (r_tab r) (r_epoch r) act OpeningDatabase" "ready_error r = Some err"
  | (unexpected) "\<And>act. stateValue c \<noteq> Activating (r_tab r) (r_epoch r) act OpeningDatabase"
  by (cases "ready_error r") auto

lemma engineReady_ret:
  assumes inv: "core_inv c" and ids: "ids_left c"
  shows "is_ret (snd (engineReady r c))"
proof (cases c r rule: engineReady_cases)
  case (accept act)
  have "is_ret (snd (route_queued (queuedRequests c) (r_tab r) (r_epoch r)
      (c\<lparr>stateValue := Active (r_tab r) (r_epoch r)\<rparr>)))"
    using ids by (intro route_queued_ret) (auto simp: ids_left_def is_safe_nat_def)
  then show ?thesis unfolding engineReady_accept [OF inv accept] by (simp add: case_prod_beta)
qed (simp_all add: engineReady_refuse [OF inv] engineReady_unexpected)

lemma request_ret: "ids_left c \<Longrightarrow> is_ret (snd (request t req c))"
  by (cases "stateValue c")
    (auto simp: request_def route_def Let_def ids_left_def is_safe_nat_def)

lemma core_step_ret:
  assumes inv: "core_inv c" and ids: "ids_left c"
  shows "is_ret (snd (core_step ev c))"
proof (cases ev)
  case (EvOwnerLost t e why)
  then show ?thesis using inv
    by (cases "owner_of (stateValue c) = Some (t, e)")
      (simp_all add: ownerLost_def abrupt_loss_eq, simp add: transitionToAbruptLoss_def)
next
  case (EvEngineDrained t e)
  then show ?thesis using inv
    by (cases "stateValue c = Draining t e")
      (simp_all add: engineDrained_eq case_prod_beta, simp add: engineDrained_def)
next
  case (EvDepartForNavigation t e why)
  then show ?thesis using inv
    by (cases "owner_of (stateValue c) = Some (t, e)")
      (simp_all add: departForNavigation_eq case_prod_beta, simp add: departForNavigation_def)
next
  case (EvTerminalFailure why)
  then show ?thesis
    by (cases "stateValue c") (auto simp: terminalFailure_def Let_def return_checked_def assertInvariants_def)
next
  case (EvTabLost t why)
  then show ?thesis by (simp add: tabLost_spec(2) [OF inv])
qed (use inv ids in \<open>auto simp: request_ret engineReady_ret\<close>)

end
