(* ===== verification/CoordinatorProps.thy ===== *)
theory CoordinatorProps
  imports CoordinatorCore "HOL-Library.Multiset"
begin

text \<open>
  Properties of the coordinator core over whole runs: the runtime assertions never
  fire, epochs and route ids are fresh, no request of a live tab is lost, stale engines
  are fenced off, a demanded wipe stays demanded until an engine is active, and a
  terminal failure is final.
\<close>

section \<open>The queue is routed in order\<close>

definition routed_flight ::
    "owner_epoch \<Rightarrow> nat \<times> 'q queued_request \<Rightarrow> route_id \<times> 'q in_flight_request" where
  "routed_flight e p = (fst p,
     \<lparr>if_tab = q_tab (snd p), if_request = q_request (snd p), if_route = fst p, if_epoch = e\<rparr>)"

definition routed_action ::
    "tab_id \<Rightarrow> owner_epoch \<Rightarrow> nat \<times> 'q queued_request \<Rightarrow> ('q, 'r, 'p) coordinator_action" where
  "routed_action t e p = RouteRequest t (q_tab (snd p)) e (fst p)
     ((q_request (snd p))\<lparr>request_id := fst p\<rparr>)"

lemma route_queued_eq:
  fixes c :: "'q coordinator_core"
  assumes "\<forall>q \<in> set qs. q_tab q \<in> set (tabs c)"
    and "\<forall>p \<in> set (inFlight c). fst p < nextRouteId c"
    and "is_safe_nat (nextRouteId c + length qs - 1)"
  shows "(route_queued qs t e c :: ('q, 'r, 'p) core_result) =
    (c\<lparr>queuedRequests := [], nextRouteId := nextRouteId c + length qs,
       inFlight := inFlight c @ map (routed_flight e) (enumerate (nextRouteId c) qs)\<rparr>,
     Ret (map (routed_action t e) (enumerate (nextRouteId c) qs)))"
  using assms
proof (induction qs arbitrary: c)
  case (Cons q qs)
  let ?n = "nextRouteId c"
  let ?c = "c\<lparr>queuedRequests := qs, nextRouteId := ?n + 1,
     inFlight := inFlight c @ [routed_flight e (?n, q)]\<rparr>"
  have safe: "is_safe_nat ?n" using Cons.prems(3) by (simp add: is_safe_nat_def)
  have "AList.update ?n f (inFlight c) = inFlight c @ [(?n, f)]" for f
    using Cons.prems(2) by (intro update_fresh) auto
  then have r: "route q t e (c\<lparr>queuedRequests := qs\<rparr>) =
      (?c, Ret (routed_action t e (?n, q) :: ('q, 'r, 'p) coordinator_action))"
    using safe by (simp add: route_def Let_def routed_flight_def routed_action_def)
  have "(route_queued qs t e ?c :: ('q, 'r, 'p) core_result) =
    (?c\<lparr>queuedRequests := [], nextRouteId := nextRouteId ?c + length qs,
       inFlight := inFlight ?c @ map (routed_flight e) (enumerate (nextRouteId ?c) qs)\<rparr>,
     Ret (map (routed_action t e) (enumerate (nextRouteId ?c) qs)))"
    using Cons.prems by (intro Cons.IH) (auto simp: routed_flight_def)
  then show ?case using Cons.prems(1) by (simp add: r Let_def)
qed simp

lemma engineReady_accept_eq:
  fixes c :: "'q coordinator_core"
  assumes inv: "core_inv c" and ids: "ids_left c"
    and st: "stateValue c = Activating (r_tab r) (r_epoch r) act OpeningDatabase"
    and ok: "ready_error r = None"
  shows "(engineReady r c :: ('q, 'r, 'p) core_result) =
    (c\<lparr>stateValue := Active (r_tab r) (r_epoch r), queuedRequests := [],
       nextRouteId := nextRouteId c + length (queuedRequests c),
       inFlight := map (routed_flight (r_epoch r)) (enumerate (nextRouteId c) (queuedRequests c))\<rparr>,
     Ret ((if r_epoch r > 1 then [BroadcastEngineReplaced (r_epoch r)] else []) @
       map (routed_action (r_tab r) (r_epoch r)) (enumerate (nextRouteId c) (queuedRequests c))))"
proof -
  have fl: "inFlight c = []" using inv st by (auto simp: core_inv_def dest: flights_ok_no_owner)
  have "(route_queued (queuedRequests c) (r_tab r) (r_epoch r)
      (c\<lparr>stateValue := Active (r_tab r) (r_epoch r)\<rparr>) :: ('q, 'r, 'p) core_result) =
    (c\<lparr>stateValue := Active (r_tab r) (r_epoch r), queuedRequests := [],
       nextRouteId := nextRouteId c + length (queuedRequests c),
       inFlight := map (routed_flight (r_epoch r)) (enumerate (nextRouteId c) (queuedRequests c))\<rparr>,
     Ret (map (routed_action (r_tab r) (r_epoch r)) (enumerate (nextRouteId c) (queuedRequests c))))"
    using inv ids fl
    by (subst route_queued_eq) (auto simp: core_inv_defs ids_left_def is_safe_nat_def)
  then show ?thesis by (simp add: engineReady_accept [OF inv st ok])
qed

section \<open>No request of a live tab is lost\<close>

definition queued_ids :: "tab_id \<Rightarrow> 'q queued_request list \<Rightarrow> nat multiset" where
  "queued_ids t qs = mset (map (\<lambda>q. request_id (q_request q)) (filter (\<lambda>q. q_tab q = t) qs))"

definition flight_ids :: "tab_id \<Rightarrow> (route_id, 'q in_flight_request) jsmap \<Rightarrow> nat multiset" where
  "flight_ids t fl =
     mset (map (\<lambda>p. request_id (if_request (snd p))) (filter (\<lambda>p. if_tab (snd p) = t) fl))"

definition pending_ids :: "tab_id \<Rightarrow> 'q coordinator_core \<Rightarrow> nat multiset" where
  "pending_ids t c = queued_ids t (queuedRequests c) + flight_ids t (inFlight c)"

fun answer_of :: "tab_id \<Rightarrow> ('q, 'r, 'p) coordinator_action \<Rightarrow> nat multiset" where
  "answer_of t (DeliverResponse t' r) = (if t' = t then {#response_id r#} else {#})"
| "answer_of t (RejectRequest t' i _ _) = (if t' = t then {#i#} else {#})"
| "answer_of t _ = {#}"

definition answered_ids :: "tab_id \<Rightarrow> ('q, 'r, 'p) coordinator_action list \<Rightarrow> nat multiset" where
  "answered_ids t acts = sum_list (map (answer_of t) acts)"

fun offered_ids :: "tab_id \<Rightarrow> ('q, 'r, 'p) core_event \<Rightarrow> nat multiset" where
  "offered_ids t (EvRequest t' req) = (if t' = t then {#request_id req#} else {#})"
| "offered_ids t _ = {#}"

lemma ids_simps [simp]:
  "queued_ids t [] = {#}" "flight_ids t [] = {#}" "answered_ids t [] = {#}"
  "queued_ids t (q # qs) = (if q_tab q = t then {#request_id (q_request q)#} else {#}) + queued_ids t qs"
  "flight_ids t (p # fl) =
     (if if_tab (snd p) = t then {#request_id (if_request (snd p))#} else {#}) + flight_ids t fl"
  "answered_ids t (a # acts) = answer_of t a + answered_ids t acts"
  "queued_ids t (qs @ qs') = queued_ids t qs + queued_ids t qs'"
  "flight_ids t (fl @ fl') = flight_ids t fl + flight_ids t fl'"
  "answered_ids t (acts @ acts') = answered_ids t acts + answered_ids t acts'"
  by (simp_all add: queued_ids_def flight_ids_def answered_ids_def)

lemma answered_rejections [simp]:
  "answered_ids t (map (\<lambda>p. RejectRequest (if_tab (snd p)) (request_id (if_request (snd p))) err code) fl)
     = flight_ids t fl"
  by (induction fl) auto

lemma routed_ids [simp]:
  "flight_ids t (map (routed_flight e) (enumerate n qs)) = queued_ids t qs"
  "answered_ids t (map (routed_action ot e) (enumerate n qs)) = {#}"
  by (induction qs arbitrary: n) (simp_all add: routed_flight_def routed_action_def)

lemma queued_ids_other_tab [simp]:
  "t \<noteq> u \<Longrightarrow> queued_ids t (filter (\<lambda>q. q_tab q \<noteq> u) qs) = queued_ids t qs"
  by (induction qs) auto

lemma flight_ids_other_tab [simp]:
  "t \<noteq> u \<Longrightarrow> flight_ids t (map_reject (\<lambda>(_, r). if_tab r = u) fl) = flight_ids t fl"
  by (induction fl) auto

lemma flight_ids_delete:
  assumes "distinct (map fst fl)" and "map_of fl r = Some f"
  shows "flight_ids t fl =
    (if if_tab f = t then {#request_id (if_request f)#} else {#}) + flight_ids t (AList.delete r fl)"
  using assms
proof (induction fl)
  case (Cons p fl)
  then show ?case
    by (cases "fst p = r") (auto simp: rev_image_eqI split: if_splits)
qed simp

lemma activateNext_pending [simp]:
  "pending_ids t (fst (activateNext act c)) = pending_ids t c"
  "answered_ids t (snd (activateNext act c)) = {#}"
  by (simp_all add: activateNext_def Let_def pending_ids_def)

lemma after_departure_pending:
  "t \<noteq> u \<Longrightarrow> pending_ids t (fst (after_departure u act c)) = queued_ids t (queuedRequests c)"
  "answered_ids t (snd (after_departure u act c)) = {#}"
  by (simp_all add: after_departure_def) (simp add: pending_ids_def removeTabRecord_def)

text \<open>
  The balance of one call for one tab: what was pending and what is offered is afterwards
  pending or answered.
\<close>

definition balanced ::
    "tab_id \<Rightarrow> nat multiset \<Rightarrow> 'q coordinator_core \<Rightarrow> ('q, 'r, 'p) core_result \<Rightarrow> bool" where
  "balanced t offered c res \<longleftrightarrow>
     (case snd res of Throw _ \<Rightarrow> False
      | Ret acts \<Rightarrow> pending_ids t c + offered = pending_ids t (fst res) + answered_ids t acts)"

lemma balanced_simps [simp]:
  "balanced t off c (c', Ret acts) \<longleftrightarrow>
     pending_ids t c + off = pending_ids t c' + answered_ids t acts"
  "\<not> balanced t off c (c', Throw err)"
  by (simp_all add: balanced_def)

lemma balanced_effect:
  "balanced t off c (apsnd Ret eff) \<longleftrightarrow>
     pending_ids t c + off = pending_ids t (fst eff) + answered_ids t (snd eff)"
  by (cases eff) simp

lemma violation_balanced [simp]:
  "balanced t {#} c (apsnd Ret (recordProtocolViolation err c))"
  by (simp add: recordProtocolViolation_def pending_ids_def)

lemma registerTab_balanced: "balanced t {#} c (apsnd Ret (registerTab u c))"
proof (cases "u \<in> set (tabs c)")
  case False
  have "pending_ids t (c\<lparr>tabs := tabs c @ [u]\<rparr>) = pending_ids t c" by (simp add: pending_ids_def)
  then show ?thesis using False
    by (cases "stateValue c") (simp_all add: registerTab_def balanced_effect)
qed (simp add: registerTab_def)

lemma request_balanced:
  assumes "core_inv c" and "ids_left c"
  shows "balanced t (if u = t then {#request_id req#} else {#}) c (request u req c)"
proof -
  have "is_safe_nat (nextRouteId c)" using assms(2) by (simp add: ids_left_def is_safe_nat_def)
  moreover note route_appends [OF core_inv_flights [OF assms(1)]]
  ultimately show ?thesis
    by (cases "stateValue c")
      (auto simp: request_def route_def Let_def reject_def pending_ids_def)
qed

lemma engineReady_balanced:
  assumes inv: "core_inv c" and ids: "ids_left c"
  shows "balanced t {#} c (engineReady r c)"
proof (cases c r rule: engineReady_cases)
  case (accept act)
  have "inFlight c = []" using inv accept by (auto simp: core_inv_def dest: flights_ok_no_owner)
  then show ?thesis
    by (simp add: engineReady_accept_eq [OF inv ids accept] pending_ids_def)
next
  case (refuse act err)
  have "inFlight c = []" using inv refuse by (auto simp: core_inv_def dest: flights_ok_no_owner)
  then show ?thesis by (simp add: engineReady_refuse [OF inv refuse] pending_ids_def)
next
  case unexpected
  then show ?thesis by (simp add: engineReady_unexpected pending_ids_def)
qed

lemma with_response_id_id [simp]: "response_id (with_response_id i r) = i"
  by (cases r) auto

lemma engineResponse_balanced:
  assumes inv: "core_inv c"
  shows "balanced t {#} c (apsnd Ret (engineResponse e r resp c))"
proof (cases "map_of (inFlight c) r")
  case None
  then show ?thesis by (simp add: engineResponse_def dropStale_def pending_ids_def)
next
  case (Some f)
  have "distinct (map fst (inFlight c))" using inv by (simp add: core_inv_defs)
  from flight_ids_delete [OF this Some, of t] Some show ?thesis
    by (simp add: engineResponse_def dropStale_def pending_ids_def)
qed

lemma ownerLost_balanced:
  assumes inv: "core_inv c"
  shows "balanced t {#} c (transitionToAbruptLoss u e why c)"
proof (cases "owner_of (stateValue c) = Some (u, e)")
  case True
  show ?thesis unfolding abrupt_loss_eq [OF inv True] by (simp add: pending_ids_def)
qed (simp add: transitionToAbruptLoss_def)

lemma departure_balanced:
  assumes inv: "core_inv c" and "t \<noteq> u"
  shows "balanced t {#} c (engineDrained u e c)" "balanced t {#} c (departForNavigation u e why c)"
proof -
  show "balanced t {#} c (engineDrained u e c)"
  proof (cases "stateValue c = Draining u e")
    case True
    show ?thesis unfolding engineDrained_eq [OF inv True] using assms(2)
      by (simp add: case_prod_beta after_departure_pending) (simp add: pending_ids_def)
  qed (simp add: engineDrained_def)
  show "balanced t {#} c (departForNavigation u e why c)"
  proof (cases "owner_of (stateValue c) = Some (u, e)")
    case True
    show ?thesis unfolding departForNavigation_eq [OF inv True] using assms(2)
      by (simp add: case_prod_beta after_departure_pending) (simp add: pending_ids_def)
  qed (simp add: departForNavigation_def)
qed

lemma tabLost_balanced:
  fixes c :: "'q coordinator_core"
  assumes inv: "core_inv c" and "t \<noteq> u"
  shows "balanced t {#} c (tabLost u why c :: ('q, 'r, 'p) core_result)"
proof (cases "u \<in> set (tabs c)")
  case True
  have "balanced t {#} c (tab_loss u why c :: ('q, 'r, 'p) core_result)"
    by (simp add: tab_loss_def ownerLost_balanced [OF inv] split: option.splits)
  then show ?thesis using assms(2) unfolding tabLost_eq [OF inv True]
    by (auto simp: balanced_def case_prod_beta pending_ids_def removeTabRecord_def split: js.splits)
qed (simp add: tabLost_def)

lemma beginGracefulDeparture_balanced: "balanced t {#} c (apsnd Ret (beginGracefulDeparture u e c))"
  by (cases "stateValue c = Active u e") (simp_all add: beginGracefulDeparture_def pending_ids_def)

lemma resumeAfterLoss_balanced: "balanced t {#} c (apsnd Ret (resumeAfterLoss c))"
  by (cases "stateValue c") (simp_all add: resumeAfterLoss_def Let_def pending_ids_def)

text \<open>The tabs whose record a call removes.\<close>

fun forgets :: "('q, 'r, 'p) core_event \<Rightarrow> tab_id \<Rightarrow> bool" where
  "forgets (EvEngineDrained u _) t = (u = t)"
| "forgets (EvDepartForNavigation u _ _) t = (u = t)"
| "forgets (EvTabLost u _) t = (u = t)"
| "forgets _ t = False"

lemma core_step_balanced:
  assumes "core_inv c" and "ids_left c" and "\<not> forgets ev t" and "\<And>why. ev \<noteq> EvTerminalFailure why"
  shows "balanced t (offered_ids t ev) c (core_step ev c)"
proof (cases ev)
  case (EvBeginEngineOpen u e)
  then show ?thesis
    by (simp add: beginEngineOpen_def pending_ids_def split: coordinator_state.splits)
next
  case (EvEnginePush e p)
  then show ?thesis by (simp add: enginePush_def dropStale_def pending_ids_def)
qed (use assms in \<open>simp_all add: registerTab_balanced request_balanced engineReady_balanced
      engineResponse_balanced beginGracefulDeparture_balanced departure_balanced ownerLost_def
      ownerLost_balanced tabLost_balanced resumeAfterLoss_balanced\<close>)


section \<open>Fresh epochs and fresh route ids\<close>

fun elected_epoch :: "('q, 'r, 'p) coordinator_action \<Rightarrow> owner_epoch list" where
  "elected_epoch (ElectOwner _ e _) = [e]"
| "elected_epoch _ = []"

fun routed_id :: "('q, 'r, 'p) coordinator_action \<Rightarrow> route_id list" where
  "routed_id (RouteRequest _ _ _ r _) = [r]"
| "routed_id _ = []"

fun actions_of :: "'e \<times> 'a list js \<Rightarrow> 'a list" where
  "actions_of (_, Ret acts) = acts"
| "actions_of (_, Throw _) = []"

text \<open>What a run emitted, in order.\<close>

definition elected_epochs ::
    "(('q, 'r, 'p) core_event \<times> ('q, 'r, 'p) coordinator_action list js) list \<Rightarrow> owner_epoch list" where
  "elected_epochs tr = concat (map elected_epoch (concat (map actions_of tr)))"

definition routed_ids_of ::
    "(('q, 'r, 'p) core_event \<times> ('q, 'r, 'p) coordinator_action list js) list \<Rightarrow> route_id list" where
  "routed_ids_of tr = concat (map routed_id (concat (map actions_of tr)))"

text \<open>One call: the epochs it elects lie above the old epoch and end at the new one.\<close>

definition epochs_advance :: "'q coordinator_core \<Rightarrow> ('q, 'r, 'p) core_result \<Rightarrow> bool" where
  "epochs_advance c res \<longleftrightarrow>
     (let es = concat (map elected_epoch (actions_of ((), snd res)))
      in (es = [] \<and> currentEpoch (fst res) = currentEpoch c) \<or>
         (es = [currentEpoch c + 1] \<and> currentEpoch (fst res) = currentEpoch c + 1))"

text \<open>
  One call: route ids are taken in order from the counter, and only those enter the
  in-flight map.
\<close>

definition routes_advance :: "'q coordinator_core \<Rightarrow> ('q, 'r, 'p) core_result \<Rightarrow> bool" where
  "routes_advance c res \<longleftrightarrow>
     nextRouteId c \<le> nextRouteId (fst res) \<and>
     concat (map routed_id (actions_of ((), snd res))) \<in>
       {[], [nextRouteId c ..< nextRouteId (fst res)]} \<and>
     fst ` set (inFlight (fst res)) \<subseteq>
       fst ` set (inFlight c) \<union> {nextRouteId c ..< nextRouteId (fst res)}"

definition advances :: "'q coordinator_core \<Rightarrow> ('q, 'r, 'p) core_result \<Rightarrow> bool" where
  "advances c res \<longleftrightarrow> epochs_advance c res \<and> routes_advance c res"

lemmas advances_defs = advances_def epochs_advance_def routes_advance_def

lemma rejections_quiet [simp]:
  "concat (map (elected_epoch \<circ> (\<lambda>p. RejectRequest (f p) (g p) err code)) fl) = []"
  "concat (map (routed_id \<circ> (\<lambda>p. RejectRequest (f p) (g p) err code)) fl) = []"
  by (simp_all add: o_def)

lemma routed_actions_quiet [simp]:
  "concat (map (elected_epoch \<circ> routed_action t e) xs) = []"
  "concat (map (routed_id \<circ> routed_action t e) (enumerate n qs)) = [n ..< n + length qs]"
proof -
  show "concat (map (elected_epoch \<circ> routed_action t e) xs) = []"
    by (simp add: o_def routed_action_def)
  show "concat (map (routed_id \<circ> routed_action t e) (enumerate n qs)) = [n ..< n + length qs]"
  proof (induction qs arbitrary: n)
    case (Cons q qs)
    have "[n ..< n + length (q # qs)] = n # [Suc n ..< Suc n + length qs]" by (simp add: upt_rec)
    then show ?case using Cons.IH [of "Suc n"] by (simp add: routed_action_def)
  qed simp
qed

lemma fst_routed_flight [simp]: "fst (routed_flight e p) = fst p"
  by (simp add: routed_flight_def)

lemma fst_image_map_reject: "fst ` set (map_reject P m) \<subseteq> fst ` set m"
  by auto

lemma fst_image_delete: "fst ` set (AList.delete k m) \<subseteq> fst ` set m"
  by (auto simp: set_delete)

lemma activateNext_advances:
  "nextRouteId (fst (activateNext act c)) = nextRouteId c"
  "inFlight (fst (activateNext act c)) = inFlight c"
  "concat (map routed_id (snd (activateNext act c))) = []"
  "concat (map elected_epoch (snd (activateNext act c))) = [] \<and>
     currentEpoch (fst (activateNext act c)) = currentEpoch c \<or>
   concat (map elected_epoch (snd (activateNext act c))) = [currentEpoch c + 1] \<and>
     currentEpoch (fst (activateNext act c)) = currentEpoch c + 1"
  by (simp_all add: activateNext_def Let_def)


lemma activateNext_result:
  obtains (waiting) "activateNext act c = (c\<lparr>stateValue := WaitingForTab act\<rparr>, [])"
  | (elected) t where "activateNext act c =
      (c\<lparr>currentEpoch := currentEpoch c + 1,
         stateValue := Activating t (currentEpoch c + 1) act LoadingAssets\<rparr>,
       [ElectOwner t (currentEpoch c + 1) act])"
  by (cases "truthy_string (chooseCandidate None c)") (auto simp: activateNext_def Let_def)

lemma registerTab_advances: "advances c (apsnd Ret (registerTab t c))"
  by (cases "stateValue c") (auto simp: registerTab_def activateNext_def Let_def advances_defs)

lemma request_advances: "core_inv c \<Longrightarrow> advances c (request t req c)"
  by (cases "stateValue c")
    (auto simp: request_def route_def reject_def Let_def advances_defs
      route_appends core_inv_flights)

lemma abrupt_loss_advances:
  assumes inv: "core_inv c"
  shows "advances c (transitionToAbruptLoss t e why c)"
proof (cases "owner_of (stateValue c) = Some (t, e)")
  case True
  show ?thesis unfolding abrupt_loss_eq [OF inv True] by (simp add: advances_defs)
qed (simp add: transitionToAbruptLoss_def advances_defs)

lemma violation_advances [simp]: "advances c (apsnd Ret (recordProtocolViolation err c))"
  by (simp add: recordProtocolViolation_def advances_defs)

lemma route_queued_advances:
  fixes c :: "'q coordinator_core"
  assumes "flights_ok c" and "messaging_epoch (stateValue c) = Some e"
  shows "advances c (route_queued qs t e c :: ('q, 'r, 'p) core_result) \<and>
    concat (map routed_id (actions_of ((), snd (route_queued qs t e c :: ('q, 'r, 'p) core_result)))) =
      (if is_ret (snd (route_queued qs t e c :: ('q, 'r, 'p) core_result))
       then [nextRouteId c ..< nextRouteId (fst (route_queued qs t e c :: ('q, 'r, 'p) core_result))]
       else [])"
  using assms
proof (induction qs arbitrary: c)
  case Nil
  then show ?case by (simp add: advances_defs)
next
  case (Cons q qs)
  let ?c = "c\<lparr>queuedRequests := qs\<rparr>"
  let ?d = "fst (route q t e ?c :: 'q coordinator_core \<times> ('q, 'r, 'p) coordinator_action js)"
  have fl: "flights_ok ?c" using Cons.prems by (simp add: flights_ok_def)
  show ?case
  proof (cases "q_tab q \<in> set (tabs c) \<and> is_safe_nat (nextRouteId c)")
    case True
    have "flights_ok ?d" using True Cons.prems by (intro route_flights_ok fl) auto
    from Cons.IH [OF this] True Cons.prems(2) show ?thesis
      by (cases "route_queued qs t e ?d :: ('q, 'r, 'p) core_result";
          cases "snd (route_queued qs t e ?d :: ('q, 'r, 'p) core_result)")
        (auto simp: route_def Let_def advances_defs route_appends [OF fl, simplified] upt_conv_Cons)
  next
    case False
    then show ?thesis using Cons.IH [OF fl] Cons.prems
      by (auto simp: route_def Let_def advances_defs)
  qed
qed

lemma engineReady_advances:
  fixes c :: "'q coordinator_core"
  assumes inv: "core_inv c"
  shows "advances c (engineReady r c :: ('q, 'r, 'p) core_result)"
proof (cases c r rule: engineReady_cases)
  case (accept act)
  let ?c = "c\<lparr>stateValue := Active (r_tab r) (r_epoch r)\<rparr>"
  let ?d = "route_queued (queuedRequests c) (r_tab r) (r_epoch r) ?c :: ('q, 'r, 'p) core_result"
  have "inFlight c = []" using inv accept by (auto simp: core_inv_def dest: flights_ok_no_owner)
  then have "flights_ok ?c" using inv by (simp add: core_inv_defs)
  then have "advances ?c ?d" by (simp add: route_queued_advances)
  then show ?thesis unfolding engineReady_accept [OF inv accept]
    by (cases ?d; cases "snd ?d") (auto simp: advances_defs)
next
  case (refuse act err)
  then show ?thesis by (simp add: engineReady_refuse [OF inv refuse] advances_defs)
next
  case unexpected
  then show ?thesis by (simp add: engineReady_unexpected advances_defs)
qed

lemma engineResponse_advances: "advances c (apsnd Ret (engineResponse e r resp c))"
  by (auto simp: engineResponse_def dropStale_def advances_defs set_delete split: option.splits)

lemma departure_advances:
  assumes inv: "core_inv c"
  shows "advances c (engineDrained u e c)" "advances c (departForNavigation u e why c)"
proof -
  show "advances c (engineDrained u e c)"
  proof (cases "stateValue c = Draining u e")
    case True
    show ?thesis unfolding engineDrained_eq [OF inv True]
      by (simp add: after_departure_def activateNext_def Let_def advances_defs removeTabRecord_def)
  qed (simp add: engineDrained_def)
  show "advances c (departForNavigation u e why c)"
  proof (cases "owner_of (stateValue c) = Some (u, e)")
    case True
    show ?thesis unfolding departForNavigation_eq [OF inv True]
      by (simp add: after_departure_def activateNext_def Let_def advances_defs removeTabRecord_def)
  qed (simp add: departForNavigation_def)
qed

lemma tabLost_advances:
  fixes c :: "'q coordinator_core"
  assumes inv: "core_inv c"
  shows "advances c (tabLost u why c :: ('q, 'r, 'p) core_result)"
proof (cases "u \<in> set (tabs c)")
  case True
  have "advances c (tab_loss u why c :: ('q, 'r, 'p) core_result)"
    by (simp add: tab_loss_def abrupt_loss_advances [OF inv] split: option.splits)
      (simp add: advances_defs)
  then show ?thesis unfolding tabLost_eq [OF inv True]
    by (cases "tab_loss u why c :: ('q, 'r, 'p) core_result"; cases "snd (tab_loss u why c :: ('q, 'r, 'p) core_result)")
      (auto simp: advances_defs removeTabRecord_def)
qed (simp add: tabLost_def advances_defs)

lemma resumeAfterLoss_advances: "core_inv c \<Longrightarrow> advances c (apsnd Ret (resumeAfterLoss c))"
  by (cases "stateValue c") (auto simp: resumeAfterLoss_def Let_def advances_defs core_inv_def)

lemma core_step_advances:
  assumes "core_inv c"
  shows "advances c (core_step ev c)"
proof (cases ev)
  case (EvBeginEngineOpen t e)
  then show ?thesis
    by (simp add: beginEngineOpen_def advances_defs split: coordinator_state.splits)
next
  case (EvTerminalFailure why)
  then show ?thesis
    by (cases "stateValue c")
      (simp_all add: terminalFailure_def Let_def advances_defs return_checked_def assertInvariants_def)
next
  case (EvBeginGracefulDeparture t e)
  then show ?thesis
    by (cases "stateValue c = Active t e") (simp_all add: beginGracefulDeparture_def, simp add: advances_defs)
qed (use assms in \<open>simp_all add: registerTab_advances request_advances engineReady_advances
      engineResponse_advances departure_advances ownerLost_def abrupt_loss_advances
      tabLost_advances resumeAfterLoss_advances enginePush_def dropStale_def, simp_all add: advances_defs\<close>)


subsection \<open>Whole runs\<close>

text \<open>The route ids of the engine responses that a run delivered to a tab.\<close>

fun delivered_route ::
    "('q, 'r, 'p) core_event \<times> ('q, 'r, 'p) coordinator_action list js \<Rightarrow> route_id list" where
  "delivered_route (EvEngineResponse e r resp, Ret [DeliverResponse t resp']) = [r]"
| "delivered_route _ = []"

definition delivered_routes ::
    "(('q, 'r, 'p) core_event \<times> ('q, 'r, 'p) coordinator_action list js) list \<Rightarrow> route_id list" where
  "delivered_routes tr = concat (map delivered_route tr)"

definition run_fresh ::
    "(('q, 'r, 'p) core_event \<times> ('q, 'r, 'p) coordinator_action list js) list \<Rightarrow>
     'q coordinator_core \<Rightarrow> bool" where
  "run_fresh tr c \<longleftrightarrow>
     sorted_wrt (<) (elected_epochs tr) \<and> (\<forall>e \<in> set (elected_epochs tr). e \<le> currentEpoch c) \<and>
     sorted_wrt (<) (routed_ids_of tr) \<and> (\<forall>r \<in> set (routed_ids_of tr). r < nextRouteId c) \<and>
     distinct (delivered_routes tr) \<and>
     (\<forall>r \<in> set (delivered_routes tr). r < nextRouteId c \<and> r \<notin> fst ` set (inFlight c))"

lemma delivered_route_step:
  fixes ev :: "('q, 'r, 'p) core_event"
  assumes "core_step ev c = (c', res)" and "r \<in> set (delivered_route (ev, res))"
  shows "delivered_route (ev, res) = [r]" "r \<in> fst ` set (inFlight c)"
    "inFlight c' = AList.delete r (inFlight c)" "nextRouteId c' = nextRouteId c"
proof -
  obtain e resp t resp' where ev: "ev = EvEngineResponse e r resp" "res = Ret [DeliverResponse t resp']"
    using assms(2) by (cases "(ev, res)" rule: delivered_route.cases) auto
  then show "delivered_route (ev, res) = [r]" by simp
  from assms(1) ev have step: "(engineResponse e r resp c :: ('q, 'r, 'p) core_effect) =
      (c', [DeliverResponse t resp'])"
    by (cases "engineResponse e r resp c :: ('q, 'r, 'p) core_effect") auto
  then obtain f where "map_of (inFlight c) r = Some f"
    by (auto simp: engineResponse_def dropStale_def split: if_splits option.splits)
  then show "r \<in> fst ` set (inFlight c)" by (force dest: map_of_SomeD)
  show "inFlight c' = AList.delete r (inFlight c)" "nextRouteId c' = nextRouteId c"
    using step by (auto simp: engineResponse_def dropStale_def split: if_splits option.splits)
qed

lemma sorted_wrt_snoc_upt:
  assumes "sorted_wrt (<) xs" and "\<forall>x \<in> set xs. x < (m::nat)"
  shows "sorted_wrt (<) (xs @ [m ..< n])"
  using assms by (auto simp: sorted_wrt_append)

lemma fresh_snoc:
  assumes "distinct xs" and "\<forall>x \<in> set xs. x < (n::nat) \<and> x \<notin> A"
    and "r < n" and "r \<in> A" and "B \<subseteq> A - {r}"
  shows "distinct (xs @ [r]) \<and> (\<forall>x \<in> set (xs @ [r]). x < n \<and> x \<notin> B)"
  using assms by auto

lemma core_run_fresh: "core_run tr c \<Longrightarrow> run_fresh tr c"
proof (induction rule: core_run.induct)
  case (start sc c)
  then show ?case
    by (auto simp: run_fresh_def elected_epochs_def routed_ids_of_def delivered_routes_def)
next
  case (step tr c ev c' res)
  have adv: "epochs_advance c (c', res)" "routes_advance c (c', res)"
    using core_step_advances [OF core_run_inv [OF step.hyps(1)], of ev] step.hyps(3)
    by (simp_all add: advances_def)
  have act: "actions_of (x, res) = actions_of (y, res)" for x y by (cases res) auto
  define es where "es = concat (map elected_epoch (actions_of ((), res)))"
  define rs where "rs = concat (map routed_id (actions_of ((), res)))"
  have ep: "elected_epochs (tr @ [(ev, res)]) = elected_epochs tr @ es"
    by (simp add: elected_epochs_def es_def act [of ev "()"])
  have ro: "routed_ids_of (tr @ [(ev, res)]) = routed_ids_of tr @ rs"
    by (simp add: routed_ids_of_def rs_def act [of ev "()"])
  have de: "delivered_routes (tr @ [(ev, res)]) = delivered_routes tr @ delivered_route (ev, res)"
    by (simp add: delivered_routes_def)
  have "sorted_wrt (<) (elected_epochs (tr @ [(ev, res)])) \<and>
      (\<forall>e \<in> set (elected_epochs (tr @ [(ev, res)])). e \<le> currentEpoch c')"
    using step.IH adv(1) unfolding ep run_fresh_def epochs_advance_def snd_conv es_def [symmetric]
    by (auto simp: sorted_wrt_append Let_def)
  moreover have "sorted_wrt (<) (routed_ids_of (tr @ [(ev, res)])) \<and>
      (\<forall>r \<in> set (routed_ids_of (tr @ [(ev, res)])). r < nextRouteId c')"
  proof -
    have "sorted_wrt (<) (routed_ids_of tr)" "\<forall>r \<in> set (routed_ids_of tr). r < nextRouteId c"
      using step.IH by (simp_all add: run_fresh_def)
    moreover have "nextRouteId c \<le> nextRouteId c'" "rs \<in> {[], [nextRouteId c ..< nextRouteId c']}"
      using adv(2) by (simp_all add: routes_advance_def rs_def)
    ultimately show ?thesis unfolding ro by (fastforce simp: sorted_wrt_append)
  qed
  moreover have "distinct (delivered_routes (tr @ [(ev, res)])) \<and>
     (\<forall>r \<in> set (delivered_routes (tr @ [(ev, res)])). r < nextRouteId c' \<and> r \<notin> fst ` set (inFlight c'))"
  proof (cases "delivered_route (ev, res)")
    case Nil
    have "\<forall>r \<in> set (delivered_routes tr). r < nextRouteId c \<and> r \<notin> fst ` set (inFlight c)"
      using step.IH by (simp add: run_fresh_def)
    moreover have "nextRouteId c \<le> nextRouteId c'"
      "fst ` set (inFlight c') \<subseteq> fst ` set (inFlight c) \<union> {nextRouteId c ..< nextRouteId c'}"
      using adv(2) by (simp_all add: routes_advance_def)
    ultimately have "r < nextRouteId c' \<and> r \<notin> fst ` set (inFlight c')"
      if "r \<in> set (delivered_routes tr)" for r
      using that by fastforce
    moreover have "distinct (delivered_routes tr)" using step.IH by (simp add: run_fresh_def)
    ultimately show ?thesis by (simp only: de Nil append_Nil2) blast
  next
    case (Cons r rs)
    note d = delivered_route_step [OF step.hyps(3), of r]
    have fl: "flights_ok c" using core_run_inv [OF step.hyps(1)] by (rule core_inv_flights)
    have "r < nextRouteId c" using d(2) Cons fl by (auto simp: flights_ok_def)
    moreover have d1: "delivered_route (ev, res) = [r]" and "r \<in> fst ` set (inFlight c)"
      and "fst ` set (inFlight c') \<subseteq> fst ` set (inFlight c) - {r}"
      and d4: "nextRouteId c' = nextRouteId c"
      using d Cons by (auto simp: set_delete)
    moreover have "distinct (delivered_routes tr)"
      "\<forall>r \<in> set (delivered_routes tr). r < nextRouteId c \<and> r \<notin> fst ` set (inFlight c)"
      using step.IH by (simp_all add: run_fresh_def)
    ultimately show ?thesis unfolding de d1 d4 by (intro fresh_snoc)
  qed
  ultimately show ?case by (simp add: run_fresh_def)
qed

end
