(* ===== verification/CoordinatorRuns.thy ===== *)
theory CoordinatorRuns
  imports CoordinatorProps
begin

text \<open>
  Whole runs of the coordinator and the properties of \<open>worker/coordinator-core.ts\<close>: a
  budget that keeps the route ids inside the safe integers, the life of an owner epoch,
  the demand for a wiped database, and the claims themselves.
\<close>

section \<open>Executing a run\<close>

fun run_events ::
    "('q, 'r, 'p) core_event list \<Rightarrow> 'q coordinator_core \<Rightarrow>
     (('q, 'r, 'p) core_event \<times> ('q, 'r, 'p) coordinator_action list js) list \<times> 'q coordinator_core" where
  "run_events [] c = ([], c)"
| "run_events (ev # evs) c =
     (case core_step ev c of (c', res) \<Rightarrow> apfst ((#) (ev, res)) (run_events evs c'))"

lemma core_run_run_events:
  assumes "core_run tr c" and "list_all admissible evs"
  shows "core_run (tr @ fst (run_events evs c)) (snd (run_events evs c))"
  using assms
proof (induction evs arbitrary: tr c)
  case (Cons ev evs)
  obtain c' res where s: "core_step ev c = (c', res)" by fastforce
  have "core_run (tr @ [(ev, res)]) c'" using Cons.prems s by (auto intro: core_run.step)
  from Cons.IH [OF this] Cons.prems(2) s show ?case by simp
qed simp

lemma core_run_from_start:
  assumes "sc \<noteq> ''''" and "list_all admissible evs" and "run_events evs (init_core sc) = (tr, c)"
  shows "core_run tr c"
proof -
  have "core_run [] (init_core sc)" by (rule core_run.start [of sc]) (simp add: new_core_def assms(1))
  from core_run_run_events [OF this assms(2)] assms(3) show ?thesis by simp
qed

section \<open>The budget of route ids\<close>

text \<open>
  A call takes at most as many route ids as it removes from the queue, plus one for a
  request that it routes at once.
\<close>

fun request_event :: "('q, 'r, 'p) core_event \<Rightarrow> bool" where
  "request_event (EvRequest _ _) = True"
| "request_event _ = False"

definition route_budget :: "'q coordinator_core \<Rightarrow> nat" where
  "route_budget c = nextRouteId c + length (queuedRequests c)"

lemma route_queued_budget:
  fixes c :: "'q coordinator_core"
  shows "route_budget (fst (route_queued qs t e c :: ('q, 'r, 'p) core_result)) \<le> nextRouteId c + length qs"
proof (induction qs arbitrary: c)
  case (Cons q qs)
  have less: "route_budget (fst (route_queued qs t e c :: ('q, 'r, 'p) core_result)) \<le> Suc (n + length qs)"
    if "nextRouteId c \<le> Suc n" for c :: "'q coordinator_core" and n
    using Cons.IH [of c] that by linarith
  have budget: "route_budget (c\<lparr>queuedRequests := qs\<rparr>) = nextRouteId c + length qs"
    by (simp add: route_budget_def)
  show ?case
    by (cases "is_safe_nat (nextRouteId c)")
      (simp_all add: route_def Let_def case_prod_beta less budget)
qed (simp add: route_budget_def)

lemma budget_simps [simp]:
  "route_budget (fst (activateNext act c)) = route_budget c"
  "route_budget (fst (recordProtocolViolation err c)) = route_budget c"
  "route_budget (c\<lparr>tabs := ts\<rparr>) = route_budget c"
  "route_budget (c\<lparr>inFlight := fl\<rparr>) = route_budget c"
  "route_budget (c\<lparr>stateValue := st\<rparr>) = route_budget c"
  "route_budget (c\<lparr>retiringTabs := ts'\<rparr>) = route_budget c"
  by (simp_all add: route_budget_def activateNext_def recordProtocolViolation_def Let_def)

lemma removeTabRecord_budget: "route_budget (removeTabRecord t c) \<le> route_budget c"
  by (simp add: removeTabRecord_def route_budget_def)

lemma abrupt_loss_budget:
  assumes inv: "core_inv c"
  shows "route_budget (fst (transitionToAbruptLoss t e why c)) = route_budget c"
proof (cases "owner_of (stateValue c) = Some (t, e)")
  case True
  show ?thesis unfolding abrupt_loss_eq [OF inv True] by simp
qed (simp add: transitionToAbruptLoss_def)

lemma after_departure_budget:
  fixes c :: "'q coordinator_core"
  shows "route_budget (fst (after_departure t act c :: ('q, 'r, 'p) core_effect)) \<le> route_budget c"
  unfolding after_departure_def
  using removeTabRecord_budget [of t "c\<lparr>inFlight := []\<rparr>"] by simp

lemma departure_budget:
  fixes c :: "'q coordinator_core"
  assumes inv: "core_inv c"
  shows "route_budget (fst (engineDrained t e c :: ('q, 'r, 'p) core_result)) \<le> route_budget c"
    and "route_budget (fst (departForNavigation t e why c :: ('q, 'r, 'p) core_result)) \<le> route_budget c"
proof -
  show "route_budget (fst (engineDrained t e c :: ('q, 'r, 'p) core_result)) \<le> route_budget c"
  proof (cases "stateValue c = Draining t e")
    case True
    show ?thesis unfolding engineDrained_eq [OF inv True]
      by (simp add: case_prod_beta after_departure_budget)
  qed (simp add: engineDrained_def)
  show "route_budget (fst (departForNavigation t e why c :: ('q, 'r, 'p) core_result)) \<le> route_budget c"
  proof (cases "owner_of (stateValue c) = Some (t, e)")
    case True
    show ?thesis unfolding departForNavigation_eq [OF inv True]
      by (simp add: case_prod_beta after_departure_budget)
  qed (simp add: departForNavigation_def)
qed

lemma tabLost_budget:
  fixes c :: "'q coordinator_core"
  assumes inv: "core_inv c"
  shows "route_budget (fst (tabLost t why c :: ('q, 'r, 'p) core_result)) \<le> route_budget c"
proof (cases "t \<in> set (tabs c)")
  case True
  let ?c = "fst (tab_loss t why c :: ('q, 'r, 'p) core_result)"
  have "route_budget ?c = route_budget c"
    by (auto simp: tab_loss_def abrupt_loss_budget [OF inv] split: option.splits)
  then show ?thesis unfolding tabLost_eq [OF inv True]
    using removeTabRecord_budget [of t ?c] by (simp add: case_prod_beta)
qed (simp add: tabLost_def)

lemma engineReady_budget:
  fixes c :: "'q coordinator_core"
  assumes inv: "core_inv c"
  shows "route_budget (fst (engineReady r c :: ('q, 'r, 'p) core_result)) \<le> route_budget c"
proof (cases c r rule: engineReady_cases)
  case (accept act)
  show ?thesis unfolding engineReady_accept [OF inv accept] case_prod_beta fst_conv
    by (rule order_trans [OF route_queued_budget]) (simp add: route_budget_def)
next
  case (refuse act err)
  show ?thesis unfolding engineReady_refuse [OF inv refuse] by (simp add: route_budget_def)
next
  case unexpected
  show ?thesis unfolding engineReady_unexpected [OF unexpected] by (simp add: route_budget_def)
qed

lemma core_step_budget:
  assumes "core_inv c"
  shows "route_budget (fst (core_step ev c)) \<le> route_budget c + (if request_event ev then 1 else 0)"
proof (cases ev)
  case (EvRegisterTab t)
  then show ?thesis by (simp add: registerTab_def Let_def split: coordinator_state.splits)
next
  case (EvRequest t req)
  then show ?thesis
    by (cases "stateValue c") (simp_all add: request_def route_def Let_def route_budget_def)
next
  case (EvBeginEngineOpen t e)
  then show ?thesis by (simp add: beginEngineOpen_def split: coordinator_state.splits)
next
  case (EvEngineResponse e r resp)
  then show ?thesis
    by (simp add: engineResponse_def dropStale_def route_budget_def split: option.splits)
next
  case (EvEnginePush e p)
  then show ?thesis by (simp add: enginePush_def dropStale_def route_budget_def)
next
  case (EvBeginGracefulDeparture t e)
  then show ?thesis by (simp add: beginGracefulDeparture_def)
next
  case (EvTerminalFailure why)
  then show ?thesis
    by (simp add: terminalFailure_def return_checked_def Let_def route_budget_def
        split: coordinator_state.splits)
next
  case EvResumeAfterLoss
  then show ?thesis
    by (simp add: resumeAfterLoss_def Let_def route_budget_def split: coordinator_state.splits)
qed (use assms in \<open>simp_all add: engineReady_budget departure_budget ownerLost_def
      abrupt_loss_budget tabLost_budget\<close>)

text \<open>The requests that a run received.\<close>

definition request_count ::
    "(('q, 'r, 'p) core_event \<times> ('q, 'r, 'p) coordinator_action list js) list \<Rightarrow> nat" where
  "request_count tr = length (filter (\<lambda>p. request_event (fst p)) tr)"

lemma core_run_budget: "core_run tr c \<Longrightarrow> route_budget c \<le> request_count tr + 1"
proof (induction rule: core_run.induct)
  case (start sc c)
  then show ?case
    by (auto simp: new_core_def init_core_def route_budget_def split: if_splits)
next
  case (step tr c ev c' res)
  then show ?case using core_step_budget [OF core_run_inv [OF step.hyps(1)], of ev]
    by (auto simp: request_count_def split: if_splits)
qed

lemma core_run_ids_left:
  assumes "core_run tr c" and "request_count tr < max_safe_integer"
  shows "ids_left c"
  using core_run_budget [OF assms(1)] assms(2)
  by (simp add: ids_left_def is_safe_nat_def route_budget_def)

section \<open>The life of an owner, the demand for a wipe, failure\<close>

fun is_failed :: "coordinator_state \<Rightarrow> bool" where
  "is_failed (Failed _ _) = True"
| "is_failed _ = False"

text \<open>The database action that the next engine to open will be asked for.\<close>

fun demand :: "coordinator_state \<Rightarrow> database_action option" where
  "demand (WaitingForTab act) = Some act"
| "demand (Activating _ _ act _) = Some act"
| "demand (ResettingAfterLoss _ _ _ act _) = Some act"
| "demand _ = None"

text \<open>An engine that was opening its database has become the active one.\<close>

definition opened :: "coordinator_state \<Rightarrow> coordinator_state \<Rightarrow> bool" where
  "opened st st' \<longleftrightarrow>
     (case st of Activating t e _ OpeningDatabase \<Rightarrow> st' = Active t e | _ \<Rightarrow> False)"

fun elected_action :: "('q, 'r, 'p) coordinator_action \<Rightarrow> database_action list" where
  "elected_action (ElectOwner _ _ act) = [act]"
| "elected_action _ = []"

definition elected_actions ::
    "'e \<times> ('q, 'r, 'p) coordinator_action list js \<Rightarrow> database_action list" where
  "elected_actions res = concat (map elected_action (actions_of res))"

definition lifecycle :: "'q coordinator_core \<Rightarrow> ('q, 'r, 'p) core_result \<Rightarrow> bool" where
  "lifecycle c res \<longleftrightarrow>
     (\<forall>t e. owner_of (stateValue (fst res)) = Some (t, e) \<longrightarrow>
        owner_of (stateValue c) = Some (t, e) \<or> e = currentEpoch c + 1) \<and>
     (demand (stateValue c) = Some WipeBeforeOpen \<longrightarrow>
        (demand (stateValue (fst res)) = Some WipeBeforeOpen \<or>
         opened (stateValue c) (stateValue (fst res)) \<or> is_failed (stateValue (fst res))) \<and>
        set (elected_actions res) \<subseteq> {WipeBeforeOpen}) \<and>
     (is_failed (stateValue c) \<longrightarrow>
        stateValue (fst res) = stateValue c \<and> elected_actions res = [])"

lemmas lifecycle_defs = lifecycle_def elected_actions_def opened_def

lemma rejections_elect_nothing [simp]:
  "concat (map (elected_action \<circ> (\<lambda>p. RejectRequest (f p) (g p) err code)) fl) = []"
  "concat (map (elected_action \<circ> routed_action t e) xs) = []"
  by (simp_all add: o_def routed_action_def)

lemma lifecycle_refl:
  "stateValue c' = stateValue c \<Longrightarrow> elected_actions (c', res) = [] \<Longrightarrow> lifecycle c (c', res)"
  by (simp add: lifecycle_def)

lemma violation_lifecycle [simp]: "lifecycle c (apsnd Ret (recordProtocolViolation err c))"
  by (simp add: recordProtocolViolation_def lifecycle_defs)

lemma registerTab_lifecycle: "lifecycle c (apsnd Ret (registerTab t c))"
  by (cases "stateValue c") (auto simp: registerTab_def activateNext_def Let_def lifecycle_defs)

lemma request_lifecycle: "lifecycle c (request t req c)"
  by (cases "stateValue c") (auto simp: request_def route_def reject_def Let_def lifecycle_defs)

lemma abrupt_loss_lifecycle:
  assumes inv: "core_inv c"
  shows "lifecycle c (transitionToAbruptLoss t e why c)"
proof (cases "owner_of (stateValue c) = Some (t, e)")
  case True
  show ?thesis unfolding abrupt_loss_eq [OF inv True] using True
    by (cases "stateValue c") (simp_all add: lifecycle_defs split: engine_startup_phase.splits)
qed (simp add: transitionToAbruptLoss_def lifecycle_defs)

lemma route_queued_elects_nothing:
  fixes c :: "'q coordinator_core"
  shows "elected_actions (x, snd (route_queued qs t e c :: ('q, 'r, 'p) core_result)) = []"
proof (induction qs arbitrary: c)
  case (Cons q qs)
  let ?c = "c\<lparr>queuedRequests := qs\<rparr>"
  have push: "elected_actions (x, map_js ((#) a) res) = []"
    if "elected_action a = []" "elected_actions (x, res) = []"
    for a :: "('q, 'r, 'p) coordinator_action" and res
    using that by (cases res) (simp_all add: elected_actions_def)
  show ?case
    by (cases "is_safe_nat (nextRouteId c)")
      (simp_all add: route_def Let_def case_prod_beta Cons.IH push, simp add: elected_actions_def)
qed (simp add: elected_actions_def)

lemma engineReady_lifecycle:
  fixes c :: "'q coordinator_core"
  assumes inv: "core_inv c"
  shows "lifecycle c (engineReady r c :: ('q, 'r, 'p) core_result)"
proof (cases c r rule: engineReady_cases)
  case (accept act)
  let ?c = "c\<lparr>stateValue := Active (r_tab r) (r_epoch r)\<rparr>"
  let ?d = "route_queued (queuedRequests c) (r_tab r) (r_epoch r) ?c :: ('q, 'r, 'p) core_result"
  have "elected_actions (x, snd (engineReady r c :: ('q, 'r, 'p) core_result)) = []" for x :: "'q coordinator_core"
    unfolding engineReady_accept [OF inv accept]
    using route_queued_elects_nothing [of x "queuedRequests c" "r_tab r" "r_epoch r" ?c]
    by (cases "snd ?d") (auto simp: elected_actions_def case_prod_beta)
  moreover have "stateValue (fst (engineReady r c :: ('q, 'r, 'p) core_result)) = Active (r_tab r) (r_epoch r)"
    unfolding engineReady_accept [OF inv accept] by (simp add: case_prod_beta frame)
  ultimately show ?thesis using accept
    by (cases "engineReady r c :: ('q, 'r, 'p) core_result") (simp add: lifecycle_def opened_def)
next
  case (refuse act err)
  show ?thesis unfolding engineReady_refuse [OF inv refuse] by (simp add: lifecycle_defs refuse)
next
  case unexpected
  show ?thesis unfolding engineReady_unexpected [OF unexpected] by (simp add: lifecycle_defs)
qed

lemma after_departure_state:
  fixes c :: "'q coordinator_core"
  shows "(\<exists>c1. (after_departure t act c :: ('q, 'r, 'p) core_effect) = (c1, []) \<and>
      stateValue c1 = WaitingForTab act) \<or>
    (\<exists>c1 u. (after_departure t act c :: ('q, 'r, 'p) core_effect) =
        (c1, [ElectOwner u (currentEpoch c + 1) act]) \<and>
      stateValue c1 = Activating u (currentEpoch c + 1) act LoadingAssets)"
  by (simp add: after_departure_def activateNext_def Let_def)

lemma departure_lifecycle:
  fixes c :: "'q coordinator_core"
  assumes inv: "core_inv c"
  shows "lifecycle c (engineDrained t e c :: ('q, 'r, 'p) core_result)"
    and "lifecycle c (departForNavigation t e why c :: ('q, 'r, 'p) core_result)"
proof -
  have state: "(after_departure t act c :: ('q, 'r, 'p) core_effect) = (c1, es) \<Longrightarrow>
      stateValue c1 = WaitingForTab act \<and> es = [] \<or>
      (\<exists>u. stateValue c1 = Activating u (currentEpoch c + 1) act LoadingAssets \<and>
        es = [ElectOwner u (currentEpoch c + 1) act])" for act c1 es
    using after_departure_state [of t act c, where 'r = 'r and 'p = 'p] by auto
  show "lifecycle c (engineDrained t e c :: ('q, 'r, 'p) core_result)"
  proof (cases "stateValue c = Draining t e")
    case True
    show ?thesis unfolding engineDrained_eq [OF inv True]
      by (auto simp: lifecycle_defs True dest!: state split: prod.split)
  qed (simp add: engineDrained_def)
  show "lifecycle c (departForNavigation t e why c :: ('q, 'r, 'p) core_result)"
  proof (cases "owner_of (stateValue c) = Some (t, e)")
    case True
    show ?thesis unfolding departForNavigation_eq [OF inv True] using True
      by (cases "stateValue c") (auto simp: lifecycle_defs dest!: state split: prod.split)
  qed (simp add: departForNavigation_def)
qed

lemma tabLost_lifecycle:
  fixes c :: "'q coordinator_core"
  assumes inv: "core_inv c"
  shows "lifecycle c (tabLost t why c :: ('q, 'r, 'p) core_result)"
proof (cases "t \<in> set (tabs c)")
  case True
  have loss: "lifecycle c (tab_loss t why c :: ('q, 'r, 'p) core_result)"
    by (simp add: tab_loss_def abrupt_loss_lifecycle [OF inv] split: option.splits)
      (simp add: lifecycle_defs)
  show ?thesis
  proof (cases "tab_loss t why c :: ('q, 'r, 'p) core_result")
    case (Pair c1 res)
    then show ?thesis using loss unfolding tabLost_eq [OF inv True]
      by (cases res) (simp_all add: lifecycle_defs)
  qed
qed (simp add: tabLost_def lifecycle_defs)

lemma resumeAfterLoss_lifecycle: "core_inv c \<Longrightarrow> lifecycle c (apsnd Ret (resumeAfterLoss c))"
  by (cases "stateValue c") (auto simp: resumeAfterLoss_def Let_def lifecycle_defs core_inv_def)

lemma core_step_lifecycle:
  assumes "core_inv c"
  shows "lifecycle c (core_step ev c)"
proof (cases ev)
  case (EvBeginEngineOpen t e)
  then show ?thesis
    by (simp add: beginEngineOpen_def lifecycle_defs split: coordinator_state.splits)
next
  case (EvEngineResponse e r resp)
  then show ?thesis
    by (simp add: engineResponse_def dropStale_def lifecycle_defs split: option.splits)
next
  case (EvTerminalFailure why)
  then show ?thesis
    by (cases "stateValue c")
      (simp_all add: terminalFailure_def Let_def lifecycle_defs return_checked_def assertInvariants_def)
next
  case (EvBeginGracefulDeparture t e)
  then show ?thesis
    by (cases "stateValue c = Active t e") (simp_all add: beginGracefulDeparture_def, simp add: lifecycle_defs)
qed (use assms in \<open>simp_all add: registerTab_lifecycle request_lifecycle engineReady_lifecycle
      departure_lifecycle ownerLost_def abrupt_loss_lifecycle tabLost_lifecycle
      resumeAfterLoss_lifecycle enginePush_def dropStale_def, simp_all add: lifecycle_defs\<close>)

text \<open>An owner epoch that was granted and no longer belongs to an owner.\<close>

definition retired :: "owner_epoch \<Rightarrow> 'q coordinator_core \<Rightarrow> bool" where
  "retired e c \<longleftrightarrow> e \<le> currentEpoch c \<and> (\<forall>t. owner_of (stateValue c) \<noteq> Some (t, e))"

lemma retired_step:
  assumes "core_inv c" and "retired e c" and "core_step ev c = (c', res)"
  shows "retired e c'"
proof -
  have "lifecycle c (c', res)" "currentEpoch c \<le> currentEpoch c'"
    using core_step_lifecycle [OF assms(1), of ev] core_step_advances [OF assms(1), of ev] assms(3)
    by (auto simp: advances_def epochs_advance_def Let_def)
  then show ?thesis using assms(2) by (auto simp: lifecycle_def retired_def)
qed

lemma retired_run_events:
  assumes "core_inv c" and "retired e c" and "list_all admissible evs"
  shows "retired e (snd (run_events evs c))"
  using assms
proof (induction evs arbitrary: c)
  case (Cons ev evs)
  obtain c' res where s: "core_step ev c = (c', res)" by fastforce
  have "core_inv c'" using core_step_inv [OF Cons.prems(1), of ev] Cons.prems(3) s by simp
  with Cons s show ?case by (auto intro: retired_step)
qed simp

lemma retired_messages:
  assumes "retired e c"
  shows "core_step (EvEngineResponse e r resp) c =
      (c\<lparr>staleMessageDrops := staleMessageDrops c + 1\<rparr>, Ret [DropStaleEngineMessage e (Some r) StaleEpoch])"
    and "core_step (EvEnginePush e p) c =
      (c\<lparr>staleMessageDrops := staleMessageDrops c + 1\<rparr>, Ret [DropStaleEngineMessage e None StaleEpoch])"
    and "\<And>rd. r_epoch rd = e \<Longrightarrow> stateValue (fst (core_step (EvEngineReady rd) c)) = stateValue c"
proof -
  have acc: "\<not> acceptsEngineMessages e c"
    using assms by (cases "stateValue c") (auto simp: retired_def acceptsEngineMessages_def)
  show "core_step (EvEngineResponse e r resp) c =
      (c\<lparr>staleMessageDrops := staleMessageDrops c + 1\<rparr>, Ret [DropStaleEngineMessage e (Some r) StaleEpoch])"
    and "core_step (EvEnginePush e p) c =
      (c\<lparr>staleMessageDrops := staleMessageDrops c + 1\<rparr>, Ret [DropStaleEngineMessage e None StaleEpoch])"
    using acc by (simp_all add: engineResponse_def enginePush_def dropStale_def)
  fix rd :: engine_ready
  assume "r_epoch rd = e"
  then have "stateValue c \<noteq> Activating (r_tab rd) (r_epoch rd) act OpeningDatabase" for act
    using assms by (auto simp: retired_def)
  then show "stateValue (fst (core_step (EvEngineReady rd) c)) = stateValue c"
    by (simp add: engineReady_unexpected)
qed

text \<open>A tab's requests over a whole run.\<close>

fun terminal_event :: "('q, 'r, 'p) core_event \<Rightarrow> bool" where
  "terminal_event (EvTerminalFailure _) = True"
| "terminal_event _ = False"

definition offered_in_run ::
    "tab_id \<Rightarrow> (('q, 'r, 'p) core_event \<times> ('q, 'r, 'p) coordinator_action list js) list \<Rightarrow> nat multiset" where
  "offered_in_run t tr = sum_list (map (\<lambda>p. offered_ids t (fst p)) tr)"

definition answered_in_run ::
    "tab_id \<Rightarrow> (('q, 'r, 'p) core_event \<times> ('q, 'r, 'p) coordinator_action list js) list \<Rightarrow> nat multiset" where
  "answered_in_run t tr = answered_ids t (concat (map actions_of tr))"

lemma run_balanced:
  assumes "core_run tr c" and "request_count tr < max_safe_integer"
    and "\<forall>p \<in> set tr. \<not> forgets (fst p) t \<and> \<not> terminal_event (fst p)"
  shows "offered_in_run t tr = pending_ids t c + answered_in_run t tr"
  using assms
proof (induction rule: core_run.induct)
  case (start sc c)
  then show ?case
    by (auto simp: new_core_def init_core_def pending_ids_def offered_in_run_def answered_in_run_def
        split: if_splits)
next
  case (step tr c ev c' res)
  have count: "request_count tr < max_safe_integer"
    using step.prems(1) by (simp add: request_count_def)
  have "balanced t (offered_ids t ev) c (c', res)"
    using core_step_balanced [of c ev t] core_run_inv [OF step.hyps(1)]
      core_run_ids_left [OF step.hyps(1) count] step.prems(2) step.hyps(3)
    by (cases ev) auto
  then obtain acts where "res = Ret acts" "pending_ids t c + offered_ids t ev = pending_ids t c' + answered_ids t acts"
    by (cases res) auto
  then show ?case using step.IH count step.prems(2)
    by (simp add: offered_in_run_def answered_in_run_def)
qed

lemma failed_run_events:
  assumes "core_inv c" and "stateValue c = Failed why untouched" and "list_all admissible evs"
  shows "stateValue (snd (run_events evs c)) = Failed why untouched \<and>
    (\<forall>p \<in> set (fst (run_events evs c)). elected_actions p = [])"
  using assms
proof (induction evs arbitrary: c)
  case (Cons ev evs)
  obtain c' res where s: "core_step ev c = (c', res)" by fastforce
  have inv': "core_inv c'" using core_step_inv [OF Cons.prems(1), of ev] Cons.prems(3) s by simp
  have "lifecycle c (c', res)" using core_step_lifecycle [OF Cons.prems(1), of ev] s by simp
  then have "stateValue c' = Failed why untouched" "elected_actions (c', res) = []"
    using Cons.prems(2) by (simp_all add: lifecycle_def)
  moreover have "elected_actions (ev, res) = elected_actions (c', res)"
    by (cases res) (simp_all add: elected_actions_def)
  ultimately show ?case using Cons.IH [OF inv'] Cons.prems(3) s by (simp add: case_prod_beta)
qed simp

section \<open>Elections\<close>

lemma chooseCandidate_first:
  "chooseCandidate None c =
     (case filter (\<lambda>t. t \<notin> retiringTabs c) (tabs c) of [] \<Rightarrow> None | t # _ \<Rightarrow> Some t)"
  by (auto simp: chooseCandidate_def Let_def find_None_iff filter_empty_conv split: list.splits option.splits)

lemma remove1_filter_distinct: "distinct xs \<Longrightarrow> remove1 x xs = filter (\<lambda>y. y \<noteq> x) xs"
  by (induction xs) (auto intro: filter_True [symmetric])

lemma after_departure_eq:
  fixes c :: "'q coordinator_core" and t :: tab_id
  assumes inv: "core_inv c"
  defines "eligible \<equiv> filter (\<lambda>u. u \<noteq> t \<and> u \<notin> retiringTabs c) (tabs c)"
  shows "(after_departure t act c :: ('q, 'r, 'p) core_effect) =
    (c\<lparr>tabs := remove1 t (tabs c), retiringTabs := retiringTabs c - {t},
       queuedRequests := filter (\<lambda>q. q_tab q \<noteq> t) (queuedRequests c), inFlight := [],
       currentEpoch := (if eligible = [] then currentEpoch c else currentEpoch c + 1),
       stateValue := (case eligible of [] \<Rightarrow> WaitingForTab act
         | u # _ \<Rightarrow> Activating u (currentEpoch c + 1) act LoadingAssets)\<rparr>,
     (case eligible of [] \<Rightarrow> [] | u # _ \<Rightarrow> [ElectOwner u (currentEpoch c + 1) act]))"
proof -
  have el: "filter (\<lambda>u. u \<in> retiringTabs c \<longrightarrow> u = t) (remove1 t (tabs c)) = eligible"
    using inv by (simp add: core_inv_def tabs_ok_def remove1_filter_distinct eligible_def)
      (rule filter_cong, auto)
  have ne: "'''' \<notin> set eligible" using inv by (auto simp: core_inv_defs eligible_def)
  show ?thesis
    using el ne
    by (cases eligible) (auto simp: after_departure_def activateNext_def removeTabRecord_def
        chooseCandidate_first Let_def)
qed

text \<open>The tabs that may own the engine, in registration order.\<close>

definition eligible_tabs :: "'q coordinator_core \<Rightarrow> tab_id list" where
  "eligible_tabs c = filter (\<lambda>t. t \<notin> retiringTabs c) (tabs c)"

text \<open>The first eligible tab other than the lost owner, the lost owner itself if alone.\<close>

definition successor :: "tab_id \<Rightarrow> 'q coordinator_core \<Rightarrow> tab_id option" where
  "successor lost c =
     (case filter (\<lambda>t. t \<noteq> lost) (eligible_tabs c) of
        t # _ \<Rightarrow> Some t
      | [] \<Rightarrow> (if lost \<in> set (eligible_tabs c) then Some lost else None))"

lemma find_as_filter: "find P xs = (case filter P xs of [] \<Rightarrow> None | x # _ \<Rightarrow> Some x)"
  by (induction xs) auto

lemma chooseCandidate_avoiding: "chooseCandidate (Some lost) c = successor lost c"
proof (cases "filter (\<lambda>t. t \<noteq> lost) (eligible_tabs c)")
  case Nil
  then have "\<forall>t \<in> set (eligible_tabs c). t = lost" by (simp add: filter_empty_conv)
  with Nil show ?thesis
    by (cases "eligible_tabs c")
      (auto simp: chooseCandidate_def successor_def eligible_tabs_def [symmetric] find_as_filter Let_def)
next
  case (Cons u us)
  then show ?thesis
    by (simp add: chooseCandidate_def successor_def eligible_tabs_def [symmetric] find_as_filter Let_def)
qed

lemma successor_eligible:
  assumes "successor lost c = Some t"
  shows "t \<in> set (eligible_tabs c)"
proof (cases "filter (\<lambda>t. t \<noteq> lost) (eligible_tabs c)")
  case Nil
  with assms show ?thesis by (auto simp: successor_def split: if_splits)
next
  case (Cons u us)
  from Cons have "u \<in> set (filter (\<lambda>t. t \<noteq> lost) (eligible_tabs c))" by (simp only: list.set_intros)
  moreover have "t = u" using assms Cons by (simp add: successor_def)
  ultimately show ?thesis by simp
qed

section \<open>Example runs\<close>

definition demo_ready :: "tab_id \<Rightarrow> owner_epoch \<Rightarrow> engine_open_outcome \<Rightarrow> engine_ready" where
  "demo_ready t e out = \<lparr>r_tab = t, r_epoch = e, r_lock_name = ''lock'',
     r_expected_lock_name = ''lock'', r_lock_held = True, r_proof = proofFor out, r_outcome = out\<rparr>"

definition demo_request :: "nat \<Rightarrow> unit cache_request" where
  "demo_request i = \<lparr>request_id = i, request_body = ()\<rparr>"

text \<open>Two tabs; both queue a request under the same id; the first is elected and opens.\<close>

definition demo_opening :: "(unit, nat, nat) core_event list" where
  "demo_opening = [EvRegisterTab ''a'', EvRegisterTab ''b'', EvRequest ''b'' (demo_request 7),
     EvRequest ''a'' (demo_request 7), EvBeginEngineOpen ''a'' 1]"

definition demo_active :: "(unit, nat, nat) core_event list" where
  "demo_active = demo_opening @ [EvEngineReady (demo_ready ''a'' 1 OutcomeOpenedExisting),
     EvEngineResponse 1 1 (ResponseOk 1 5)]"

definition demo_lost :: "(unit, nat, nat) core_event list" where
  "demo_lost = demo_active @ [EvOwnerLost ''a'' 1 ''crash'']"

definition demo_draining :: "(unit, nat, nat) core_event list" where
  "demo_draining = demo_active @ [EvBeginGracefulDeparture ''a'' 1]"

definition demo_failed :: "(unit, nat, nat) core_event list" where
  "demo_failed = demo_lost @ [EvTerminalFailure ''gone'']"

definition demo_recovery :: "(unit, nat, nat) core_event list" where
  "demo_recovery = [EvResumeAfterLoss, EvBeginEngineOpen ''b'' 2]"

definition demo_reopening :: "(unit, nat, nat) core_event list" where
  "demo_reopening = demo_lost @ demo_recovery"

definition demo_trace where
  "demo_trace evs = fst (run_events evs (init_core ''scope'' :: unit coordinator_core))"

definition demo_state where
  "demo_state evs = snd (run_events evs (init_core ''scope'' :: unit coordinator_core))"

lemmas demo_defs = demo_opening_def demo_active_def demo_lost_def demo_draining_def
  demo_failed_def demo_trace_def demo_state_def

lemma demo_run: "list_all admissible evs \<Longrightarrow> core_run (demo_trace evs) (demo_state evs)"
  by (rule core_run_from_start [of "''scope''" evs]) (simp_all add: demo_trace_def demo_state_def)

lemma demo_admissible:
  "list_all admissible demo_opening" "list_all admissible demo_active" "list_all admissible demo_lost"
  "list_all admissible demo_draining" "list_all admissible demo_failed"
  by (simp_all add: demo_defs)

lemma demo_recovery_admissible: "list_all admissible demo_recovery"
  by (simp add: demo_recovery_def)

lemmas demo_runs = demo_admissible [THEN demo_run]

end
