(* ===== verification/CoordinatorClaims.thy ===== *)
theory CoordinatorClaims
  imports CoordinatorRuns
begin

text \<open>
  The properties of the coordinator core, over the runs of \<open>core_run\<close>.
\<close>

lemma demo_counts:
  "request_count (demo_trace demo_opening) < max_safe_integer"
  "request_count (demo_trace demo_active) < max_safe_integer"
  "request_count (demo_trace demo_lost) < max_safe_integer"
proof -
  have "request_count (demo_trace demo_opening) = 2" "request_count (demo_trace demo_active) = 2"
    "request_count (demo_trace demo_lost) = 2"
    by code_simp+
  then show "request_count (demo_trace demo_opening) < max_safe_integer"
    "request_count (demo_trace demo_active) < max_safe_integer"
    "request_count (demo_trace demo_lost) < max_safe_integer"
    by (simp_all add: max_safe_integer_def)
qed

lemma demo_states:
  "stateValue (demo_state demo_opening) = Activating ''a'' 1 OpenExisting OpeningDatabase"
  "stateValue (demo_state demo_active) = Active ''a'' 1"
  "stateValue (demo_state demo_lost) = ResettingAfterLoss ''a'' 1 2 WipeBeforeOpen ''crash''"
  "stateValue (demo_state demo_draining) = Draining ''a'' 1"
  "stateValue (demo_state demo_failed) = Failed ''gone'' False"
  by code_simp+

lemma demo_reopening_ok:
  "list_all admissible demo_reopening" "request_count (demo_trace demo_reopening) < max_safe_integer"
proof -
  have "list_all admissible demo_reopening" "request_count (demo_trace demo_reopening) = 2"
    by code_simp+
  then show "list_all admissible demo_reopening"
    "request_count (demo_trace demo_reopening) < max_safe_integer"
    by (simp_all add: max_safe_integer_def)
qed

text \<open>
  C1: no internal assertion of the coordinator ever fires. In every state reached by any
  sequence of calls (lost tabs, stale engines and protocol violations included) that
  carried fewer than \<open>2^53 - 1\<close> requests, every further call returns normally; it leaves a
  state that satisfies \<open>assertInvariants\<close> and the full well-formedness invariant.
\<close>

theorem coordinator_never_throws:
  assumes "core_run tr c" and "request_count tr < max_safe_integer" and "admissible ev"
  shows "\<exists>c' acts. core_step ev c = (c', Ret acts) \<and> core_inv c' \<and> assertInvariants c' = Ret ()"
proof -
  note inv = core_run_inv [OF assms(1)]
  obtain c' res where s: "core_step ev c = (c', res)" by fastforce
  have "is_ret res" using core_step_ret [OF inv core_run_ids_left [OF assms(1,2)], of ev] s by simp
  moreover have "core_inv c'" using core_step_inv [OF inv assms(3)] s by simp
  ultimately show ?thesis using s by (auto simp: assertInvariants_Ret core_inv_flights)
qed

theorem coordinator_never_throws_witness:
  "\<exists>c' acts. core_step (EvOwnerLost ''a'' 1 ''crash'') (demo_state demo_active) = (c', Ret acts) \<and>
     core_inv c' \<and> assertInvariants c' = Ret ()"
  by (rule coordinator_never_throws [OF demo_runs(2) demo_counts(2)]) simp

text \<open>
  C2: over a whole run the epochs of the elected owners increase strictly, the route ids
  handed to engines increase strictly, and no route id is answered twice: each engine
  response is delivered to a tab at most once.
\<close>

theorem epochs_and_routes_fresh:
  assumes "core_run tr c"
  shows "sorted_wrt (<) (elected_epochs tr) \<and> sorted_wrt (<) (routed_ids_of tr) \<and>
    distinct (delivered_routes tr)"
  using core_run_fresh [OF assms] by (simp add: run_fresh_def)

theorem epochs_and_routes_fresh_witness:
  "routed_ids_of (demo_trace demo_active) = [1, 2] \<and> delivered_routes (demo_trace demo_active) = [1] \<and>
   sorted_wrt (<) (elected_epochs (demo_trace demo_active)) \<and>
   sorted_wrt (<) (routed_ids_of (demo_trace demo_active)) \<and>
   distinct (delivered_routes (demo_trace demo_active))"
proof -
  have "routed_ids_of (demo_trace demo_active) = [1, 2]" "delivered_routes (demo_trace demo_active) = [1]"
    by code_simp+
  then show ?thesis using epochs_and_routes_fresh [OF demo_runs(2)] by blast
qed

text \<open>
  C3: requests are conserved. For a tab that was not removed during the run, and with no
  terminal failure, the multiset of request ids it sent equals the ids still queued or in
  flight plus the ids it was answered with (a response or a rejection), whatever owners were
  lost, drained or replaced on the way: nothing is lost and nothing is answered twice.
\<close>

theorem requests_conserved:
  assumes "core_run tr c" and "request_count tr < max_safe_integer"
    and "\<forall>p \<in> set tr. \<not> forgets (fst p) t \<and> \<not> terminal_event (fst p)"
  shows "offered_in_run t tr = pending_ids t c + answered_in_run t tr"
  by (rule run_balanced [OF assms])

theorem requests_conserved_witness:
  "offered_in_run ''b'' (demo_trace demo_lost) =
     pending_ids ''b'' (demo_state demo_lost) + answered_in_run ''b'' (demo_trace demo_lost)"
proof (rule requests_conserved [OF demo_runs(3) demo_counts(3)])
  have "list_all (\<lambda>p. \<not> forgets (fst p) ''b'' \<and> \<not> terminal_event (fst p)) (demo_trace demo_lost)"
    by code_simp
  then show "\<forall>p \<in> set (demo_trace demo_lost). \<not> forgets (fst p) ''b'' \<and> \<not> terminal_event (fst p)"
    by (simp add: list_all_iff)
qed

text \<open>
  C4: a lost owner is fenced for ever. Once an epoch was granted and has no owner any more,
  then after any further calls its responses and pushes change nothing but the counter of
  stale drops, and its \<open>engine-ready\<close> does not change the state.
\<close>

theorem stale_engine_fenced:
  fixes c :: "'q coordinator_core" and evs :: "('q, 'r, 'p) core_event list"
  assumes "core_run tr c" and "retired e c" and "list_all admissible evs"
  defines "c' \<equiv> snd (run_events evs c)"
  shows "core_step (EvEngineResponse e r resp :: ('q, 'r, 'p) core_event) c' =
      (c'\<lparr>staleMessageDrops := staleMessageDrops c' + 1\<rparr>,
       Ret [DropStaleEngineMessage e (Some r) StaleEpoch]) \<and>
    core_step (EvEnginePush e p :: ('q, 'r, 'p) core_event) c' =
      (c'\<lparr>staleMessageDrops := staleMessageDrops c' + 1\<rparr>,
       Ret [DropStaleEngineMessage e None StaleEpoch]) \<and>
    (r_epoch rd = e \<longrightarrow>
       stateValue (fst (core_step (EvEngineReady rd :: ('q, 'r, 'p) core_event) c')) = stateValue c')"
proof -
  have "retired e c'"
    unfolding c'_def by (rule retired_run_events [OF core_run_inv [OF assms(1)] assms(2,3)])
  then show ?thesis by (intro conjI impI retired_messages)
qed

theorem stale_engine_fenced_witness:
  "core_step (EvEngineResponse 1 2 (ResponseOk 2 9) :: (unit, nat, nat) core_event)
       (snd (run_events demo_recovery (demo_state demo_lost))) =
     ((snd (run_events demo_recovery (demo_state demo_lost)))\<lparr>staleMessageDrops := 1\<rparr>,
      Ret [DropStaleEngineMessage 1 (Some 2) StaleEpoch])"
proof -
  have "currentEpoch (demo_state demo_lost) = 1" by code_simp
  then have "retired 1 (demo_state demo_lost)" by (simp add: retired_def demo_states)
  moreover have "staleMessageDrops (snd (run_events demo_recovery (demo_state demo_lost))) = 0"
    by code_simp
  ultimately show ?thesis
    using stale_engine_fenced [OF demo_runs(3) _ demo_recovery_admissible, of 1 2 "ResponseOk 2 9" 0
        "demo_ready ''a'' 1 OutcomeOpenedExisting"] by simp
qed

text \<open>
  C5: the demand for a wiped database is never lost. Losing an owner that had begun to open
  the database, or was active or draining, demands \<open>wipe-before-open\<close>; and while a wipe is
  demanded, every call keeps the demand, opens the engine it was made to, or fails for good,
  and every owner elected meanwhile is told to wipe.
\<close>

theorem wipe_demand_persists:
  fixes c :: "'q coordinator_core" and ev :: "('q, 'r, 'p) core_event"
  assumes "core_run tr c"
  shows "(owner_of (stateValue c) = Some (t, e) \<and> (\<forall>act. stateValue c \<noteq> Activating t e act LoadingAssets) \<longrightarrow>
      demand (stateValue (fst (core_step (EvOwnerLost t e why :: ('q, 'r, 'p) core_event) c))) = Some WipeBeforeOpen) \<and>
    (demand (stateValue c) = Some WipeBeforeOpen \<longrightarrow>
      (case core_step ev c of (c', res) \<Rightarrow>
        (demand (stateValue c') = Some WipeBeforeOpen \<or> opened (stateValue c) (stateValue c') \<or>
         is_failed (stateValue c')) \<and>
        set (elected_actions (c', res)) \<subseteq> {WipeBeforeOpen}))"
proof -
  note inv = core_run_inv [OF assms]
  have "demand (stateValue (fst (core_step (EvOwnerLost t e why :: ('q, 'r, 'p) core_event) c))) = Some WipeBeforeOpen"
    if own: "owner_of (stateValue c) = Some (t, e)"
      and "\<forall>act. stateValue c \<noteq> Activating t e act LoadingAssets"
    using that unfolding core_step.simps ownerLost_def abrupt_loss_eq [OF inv own]
    by (cases "stateValue c") (auto split: engine_startup_phase.splits)
  moreover have "lifecycle c (core_step ev c)" by (rule core_step_lifecycle [OF inv])
  ultimately show ?thesis by (cases "core_step ev c") (simp add: lifecycle_def)
qed

theorem wipe_demand_persists_witness:
  "demand (stateValue (fst (core_step (EvOwnerLost ''a'' 1 ''gone'' :: (unit, nat, nat) core_event) (demo_state demo_active)))) =
     Some WipeBeforeOpen"
  using wipe_demand_persists [OF demo_runs(2), of "''a''" 1 "''gone''" "EvResumeAfterLoss :: (unit, nat, nat) core_event"]
  by (simp add: demo_states)

text \<open>
  C6: what makes an opening engine the owner. The engine's \<open>engine-ready\<close> is accepted exactly
  when it holds the owner lock, names the expected lock and its proof fits its open outcome;
  any other answer is a protocol violation after which the next engine has to wipe. The
  database action the engine was elected with plays no part: an engine told to wipe becomes
  the owner with the proof \<open>opened-existing\<close>.
\<close>

theorem engine_ready_verdict:
  assumes "core_run tr c" and "request_count tr < max_safe_integer"
    and "stateValue c = Activating (r_tab r) (r_epoch r) act OpeningDatabase"
  shows "stateValue (fst (engineReady r c)) =
    (if r_lock_held r \<and> r_lock_name r = r_expected_lock_name r \<and> r_proof r = proofFor (r_outcome r)
     then Active (r_tab r) (r_epoch r)
     else ResettingAfterLoss (r_tab r) (r_epoch r) (currentEpoch c + 1) WipeBeforeOpen
       (the (ready_error r)))"
proof (cases "ready_error r")
  case None
  then have "r_lock_held r \<and> r_lock_name r = r_expected_lock_name r \<and> r_proof r = proofFor (r_outcome r)"
    by (auto simp: ready_error_def split: if_splits)
  then show ?thesis
    by (simp add: engineReady_accept_eq [OF core_run_inv [OF assms(1)]
          core_run_ids_left [OF assms(1,2)] assms(3) None])
next
  case (Some err)
  then have "\<not> (r_lock_held r \<and> r_lock_name r = r_expected_lock_name r \<and> r_proof r = proofFor (r_outcome r))"
    by (auto simp: ready_error_def split: if_splits)
  then show ?thesis
    by (simp add: engineReady_refuse [OF core_run_inv [OF assms(1)] assms(3) Some] Some)
qed

theorem engine_ready_verdict_witness:
  "stateValue (fst (engineReady (demo_ready ''b'' 2 OutcomeOpenedExisting) (demo_state demo_reopening))) =
     Active ''b'' 2 \<and>
   stateValue (demo_state demo_reopening) = Activating ''b'' 2 WipeBeforeOpen OpeningDatabase"
proof -
  have st: "stateValue (demo_state demo_reopening) = Activating ''b'' 2 WipeBeforeOpen OpeningDatabase"
    by code_simp
  show ?thesis
    using engine_ready_verdict [OF demo_run [OF demo_reopening_ok(1)] demo_reopening_ok(2),
        of "demo_ready ''b'' 2 OutcomeOpenedExisting" WipeBeforeOpen] st
    by (simp add: demo_ready_def)
qed

text \<open>
  When an engine becomes ready, the requests that waited are routed to it in the order
  they arrived, under consecutive fresh route ids, each with its id replaced by its route id;
  the queue is left empty and exactly those requests are in flight.
\<close>

theorem engine_ready_routes_in_order:
  fixes c :: "'q coordinator_core"
  assumes "core_run tr c" and "request_count tr < max_safe_integer"
    and "stateValue c = Activating (r_tab r) (r_epoch r) act OpeningDatabase" and "ready_error r = None"
  shows "(engineReady r c :: ('q, 'r, 'p) core_result) =
    (c\<lparr>stateValue := Active (r_tab r) (r_epoch r), queuedRequests := [],
       nextRouteId := nextRouteId c + length (queuedRequests c),
       inFlight := map (\<lambda>(i, q). (i, \<lparr>if_tab = q_tab q, if_request = q_request q, if_route = i,
         if_epoch = r_epoch r\<rparr>)) (enumerate (nextRouteId c) (queuedRequests c))\<rparr>,
     Ret ((if r_epoch r > 1 then [BroadcastEngineReplaced (r_epoch r)] else []) @
       map (\<lambda>(i, q). RouteRequest (r_tab r) (q_tab q) (r_epoch r) i ((q_request q)\<lparr>request_id := i\<rparr>))
         (enumerate (nextRouteId c) (queuedRequests c))))"
  unfolding engineReady_accept_eq [OF core_run_inv [OF assms(1)] core_run_ids_left [OF assms(1,2)] assms(3,4)]
  by (simp add: routed_flight_def routed_action_def case_prod_beta)

theorem engine_ready_routes_in_order_witness:
  "snd (engineReady (demo_ready ''a'' 1 OutcomeOpenedExisting) (demo_state demo_opening)
        :: (unit, nat, nat) core_result) =
     Ret [RouteRequest ''a'' ''b'' 1 1 (demo_request 1), RouteRequest ''a'' ''a'' 1 2 (demo_request 2)]"
proof -
  have "queuedRequests (demo_state demo_opening) =
      [\<lparr>q_tab = ''b'', q_request = demo_request 7\<rparr>, \<lparr>q_tab = ''a'', q_request = demo_request 7\<rparr>]"
    "nextRouteId (demo_state demo_opening) = 1"
    "ready_error (demo_ready ''a'' 1 OutcomeOpenedExisting) = None"
    by code_simp+
  then show ?thesis
    using engine_ready_routes_in_order [OF demo_runs(1) demo_counts(1), where 'r = nat and 'p = nat,
        of "demo_ready ''a'' 1 OutcomeOpenedExisting" OpenExisting]
    by (simp add: demo_states demo_ready_def demo_request_def)
qed

text \<open>
  A graceful departure hands over without loss of data. When the draining owner reports
  that it drained, its unanswered requests are rejected, the tab and its queue entries are
  removed, the requests of the other tabs stay queued in order, and the first remaining tab
  in registration order that is not retiring is elected under the next epoch with
  \<open>open-existing\<close>; with none, the coordinator waits for a tab.
\<close>

theorem graceful_handover:
  fixes c :: "'q coordinator_core"
  assumes "core_run tr c" and "stateValue c = Draining t e"
  defines "eligible \<equiv> filter (\<lambda>u. u \<noteq> t \<and> u \<notin> retiringTabs c) (tabs c)"
  shows "(engineDrained t e c :: ('q, 'r, 'p) core_result) =
    (c\<lparr>tabs := remove1 t (tabs c), retiringTabs := retiringTabs c - {t},
       queuedRequests := filter (\<lambda>q. q_tab q \<noteq> t) (queuedRequests c), inFlight := [],
       currentEpoch := (if eligible = [] then e else e + 1),
       stateValue := (case eligible of [] \<Rightarrow> WaitingForTab OpenExisting
         | u # _ \<Rightarrow> Activating u (e + 1) OpenExisting LoadingAssets)\<rparr>,
     Ret (map (\<lambda>p. RejectRequest (if_tab (snd p)) (request_id (if_request (snd p)))
            ''engine drained before delivering its response'' None) (inFlight c) @
       [CloseEngineRoute t e, RetireTab t e] @
       (case eligible of [] \<Rightarrow> [] | u # _ \<Rightarrow> [ElectOwner u (e + 1) OpenExisting])))"
proof -
  note inv = core_run_inv [OF assms(1)]
  have e: "currentEpoch c = e" using inv assms(2) by (simp add: core_inv_def)
  show ?thesis
    unfolding engineDrained_eq [OF inv assms(2)] after_departure_eq [OF inv] eligible_def e by simp
qed

theorem graceful_handover_witness:
  "snd (engineDrained ''a'' 1 (demo_state demo_draining) :: (unit, nat, nat) core_result) =
     Ret [RejectRequest ''a'' 7 ''engine drained before delivering its response'' None,
       CloseEngineRoute ''a'' 1, RetireTab ''a'' 1, ElectOwner ''b'' 2 OpenExisting]"
proof -
  have "tabs (demo_state demo_draining) = [''a'', ''b'']" "retiringTabs (demo_state demo_draining) = {''a''}"
    "inFlight (demo_state demo_draining) = [(2, \<lparr>if_tab = ''a'', if_request = demo_request 7,
       if_route = 2, if_epoch = 1\<rparr>)]"
    by code_simp+
  then show ?thesis
    using graceful_handover [OF demo_runs(4) demo_states(4), where 'r = nat and 'p = nat]
    by (simp add: demo_request_def)
qed

text \<open>
  C9: terminal failure is final. After any further calls the coordinator is still failed with
  the same reason, no owner was elected, a new tab is told of the failure, and the request of
  a registered tab is rejected with the reason.
\<close>

theorem terminal_failure_final:
  fixes c :: "'q coordinator_core" and evs :: "('q, 'r, 'p) core_event list"
  assumes "core_run tr c" and "stateValue c = Failed why untouched" and "list_all admissible evs"
  defines "c' \<equiv> snd (run_events evs c)"
  shows "stateValue c' = Failed why untouched \<and>
    (\<forall>p \<in> set (fst (run_events evs c)). elected_actions p = []) \<and>
    (t \<notin> set (tabs c') \<longrightarrow>
      snd (registerTab t c' :: ('q, 'r, 'p) core_effect) = [TerminalFailure why untouched]) \<and>
    (t \<in> set (tabs c') \<and> t \<notin> retiringTabs c' \<longrightarrow>
      (request t req c' :: ('q, 'r, 'p) core_result) = (c', Ret [RejectRequest t (request_id req) why None]))"
proof -
  have "stateValue c' = Failed why untouched \<and> (\<forall>p \<in> set (fst (run_events evs c)). elected_actions p = [])"
    unfolding c'_def by (rule failed_run_events [OF core_run_inv [OF assms(1)] assms(2,3)])
  then show ?thesis by (simp add: registerTab_def request_def reject_def)
qed

theorem terminal_failure_final_witness:
  "stateValue (snd (run_events demo_recovery (demo_state demo_failed))) = Failed ''gone'' False"
  using terminal_failure_final [OF demo_runs(5) demo_states(5) demo_recovery_admissible] by blast

text \<open>
  C10: recovery makes progress. After an abrupt loss, resuming elects the first eligible tab
  other than the lost owner (the lost owner itself only when no other is eligible) under the
  next epoch and with the demanded database action; only when no tab is eligible does the
  coordinator wait, keeping the demand. A coordinator that waits has no eligible tab, and the
  next tab to register is elected at once.
\<close>

theorem recovery_elects:
  fixes c :: "'q coordinator_core"
  assumes "core_run tr c"
  shows "(stateValue c = ResettingAfterLoss pt pe ne act why \<longrightarrow>
      (resumeAfterLoss c :: ('q, 'r, 'p) core_effect) =
        (case successor pt c of
           None \<Rightarrow> (c\<lparr>stateValue := WaitingForTab act\<rparr>, [])
         | Some t \<Rightarrow> (c\<lparr>currentEpoch := currentEpoch c + 1,
              stateValue := Activating t (currentEpoch c + 1) act LoadingAssets\<rparr>,
              [ElectOwner t (currentEpoch c + 1) act]))) \<and>
    (stateValue c = WaitingForTab act \<longrightarrow> eligible_tabs c = [] \<and>
      (t \<noteq> '''' \<and> t \<notin> set (tabs c) \<longrightarrow>
        snd (registerTab t c :: ('q, 'r, 'p) core_effect) = [ElectOwner t (currentEpoch c + 1) act]))"
proof -
  note inv = core_run_inv [OF assms]
  have ne: "'''' \<notin> set (eligible_tabs c)" using inv by (auto simp: core_inv_defs eligible_tabs_def)
  have "(resumeAfterLoss c :: ('q, 'r, 'p) core_effect) =
        (case successor pt c of
           None \<Rightarrow> (c\<lparr>stateValue := WaitingForTab act\<rparr>, [])
         | Some t \<Rightarrow> (c\<lparr>currentEpoch := currentEpoch c + 1,
              stateValue := Activating t (currentEpoch c + 1) act LoadingAssets\<rparr>,
              [ElectOwner t (currentEpoch c + 1) act]))"
    if st: "stateValue c = ResettingAfterLoss pt pe ne act why"
    using inv st ne successor_eligible [of pt c]
    by (cases "successor pt c") (auto simp: resumeAfterLoss_def chooseCandidate_avoiding core_inv_def Let_def)
  moreover have "eligible_tabs c = [] \<and> (t \<noteq> '''' \<and> t \<notin> set (tabs c) \<longrightarrow>
      snd (registerTab t c :: ('q, 'r, 'p) core_effect) = [ElectOwner t (currentEpoch c + 1) act])"
    if st: "stateValue c = WaitingForTab act"
  proof -
    have all: "set (tabs c) \<subseteq> retiringTabs c" "retiringTabs c \<subseteq> set (tabs c)"
      using inv st by (auto simp: core_inv_defs)
    then have none: "eligible_tabs c = []" by (auto simp: eligible_tabs_def filter_empty_conv)
    moreover have "chooseCandidate None (c\<lparr>tabs := tabs c @ [t]\<rparr>) = Some t" if "t \<notin> set (tabs c)"
      using all that none by (auto simp: chooseCandidate_first eligible_tabs_def)
    ultimately show ?thesis using st
      by (auto simp: registerTab_def activateNext_def Let_def)
  qed
  ultimately show ?thesis by blast
qed

theorem recovery_elects_witness:
  "snd (resumeAfterLoss (demo_state demo_lost) :: (unit, nat, nat) core_effect) =
     [ElectOwner ''b'' 2 WipeBeforeOpen]"
proof -
  have "successor ''a'' (demo_state demo_lost) = Some ''b''" "currentEpoch (demo_state demo_lost) = 1"
    by code_simp+
  then show ?thesis
    using recovery_elects [OF demo_runs(3), of "''a''" 1 2 WipeBeforeOpen "''crash''" "''z''",
        where 'r = nat and 'p = nat] demo_states(3) by simp
qed

end
