(* ===== verification/JsValue.thy ===== *)
theory JsValue
  imports Prelude
begin

text \<open>
  Untrusted JavaScript values as a validator sees them: the results of \<open>typeof\<close>,
  \<open>Array.isArray\<close>, property reads and \<open>Object.keys\<close>. A number is an integer or one of the
  other numbers (fractions, infinities, \<open>NaN\<close>), which no validator tells apart. An object
  lists its own properties in order; a \<open>MessagePort\<close> has its methods on the prototype and no
  own property. Characters are the code points below 256.
\<close>

datatype jsvalue =
  JUndefined
| JNull
| JBool bool
| JInt int
| JNonInteger
| JString string
| JFunction nat
| JArray "jsvalue list"
| JObject "(string \<times> jsvalue) list"
| JPort nat

text \<open>\<open>value.key\<close>, \<open>undefined\<close> when there is no such property\<close>

fun get :: "jsvalue \<Rightarrow> string \<Rightarrow> jsvalue" where
  "get (JObject m) k = (case map_of m k of None \<Rightarrow> JUndefined | Some v \<Rightarrow> v)"
| "get _ _ = JUndefined"

text \<open>\<open>Object.keys(value)\<close>\<close>

fun own_keys :: "jsvalue \<Rightarrow> string list" where
  "own_keys (JObject m) = map fst m"
| "own_keys _ = []"

fun isRecord :: "jsvalue \<Rightarrow> bool" where
  "isRecord (JObject _) = True"
| "isRecord (JPort _) = True"
| "isRecord _ = False"

fun isString :: "jsvalue \<Rightarrow> bool" where
  "isString (JString _) = True"
| "isString _ = False"

fun isNonEmptyString :: "jsvalue \<Rightarrow> bool" where
  "isNonEmptyString (JString s) = (s \<noteq> '''')"
| "isNonEmptyString _ = False"

definition isOptionalString :: "jsvalue \<Rightarrow> bool" where
  "isOptionalString v \<longleftrightarrow> v = JUndefined \<or> isString v"

text \<open>\<open>Number.isSafeInteger\<close>\<close>

fun isSafeInteger :: "jsvalue \<Rightarrow> bool" where
  "isSafeInteger (JInt i) = (\<bar>i\<bar> \<le> 9007199254740991)"
| "isSafeInteger _ = False"

fun isSafeNonNegativeInteger :: "jsvalue \<Rightarrow> bool" where
  "isSafeNonNegativeInteger (JInt i) = (isSafeInteger (JInt i) \<and> 0 \<le> i)"
| "isSafeNonNegativeInteger _ = False"

fun isPositiveInteger :: "jsvalue \<Rightarrow> bool" where
  "isPositiveInteger (JInt i) = (isSafeInteger (JInt i) \<and> 0 < i)"
| "isPositiveInteger _ = False"

definition isOptionalPositiveInteger :: "jsvalue \<Rightarrow> bool" where
  "isOptionalPositiveInteger v \<longleftrightarrow> v = JUndefined \<or> isPositiveInteger v"

fun isArray :: "jsvalue \<Rightarrow> bool" where
  "isArray (JArray _) = True"
| "isArray _ = False"

text \<open>\<open>Array.isArray(value) && value.every(p)\<close>\<close>

fun array_every :: "(jsvalue \<Rightarrow> bool) \<Rightarrow> jsvalue \<Rightarrow> bool" where
  "array_every p (JArray vs) = list_all p vs"
| "array_every p _ = False"

fun array_length :: "jsvalue \<Rightarrow> nat" where
  "array_length (JArray vs) = length vs"
| "array_length _ = 0"

definition isStringArray :: "jsvalue \<Rightarrow> bool" where
  "isStringArray v \<longleftrightarrow> array_every isString v"

definition hasOwn :: "jsvalue \<Rightarrow> string \<Rightarrow> bool" where
  "hasOwn v k \<longleftrightarrow> k \<in> set (own_keys v)"

definition hasOnlyKeys :: "jsvalue \<Rightarrow> string list \<Rightarrow> bool" where
  "hasOnlyKeys v ks \<longleftrightarrow> list_all (\<lambda>k. k \<in> set ks) (own_keys v)"

definition isOptionalRecord :: "jsvalue \<Rightarrow> bool" where
  "isOptionalRecord v \<longleftrightarrow> v = JUndefined \<or> isRecord v"

fun isFunction :: "jsvalue \<Rightarrow> bool" where
  "isFunction (JFunction _) = True"
| "isFunction _ = False"

fun isMessagePort :: "jsvalue \<Rightarrow> bool" where
  "isMessagePort (JPort _) = True"
| "isMessagePort (JObject m) =
     (isFunction (get (JObject m) ''postMessage'') \<and> isFunction (get (JObject m) ''close'') \<and>
      isFunction (get (JObject m) ''start''))"
| "isMessagePort _ = False"

text \<open>\<open>new TextEncoder().encode(s).length\<close> for code points below 256\<close>

definition utf8_length :: "string \<Rightarrow> nat" where
  "utf8_length s = sum_list (map (\<lambda>c. if (of_char c :: nat) < 128 then 1 else 2) s)"

text \<open>\<open>{ ...value, key: v }\<close>\<close>

fun with_field :: "string \<Rightarrow> jsvalue \<Rightarrow> jsvalue \<Rightarrow> jsvalue" where
  "with_field k v (JObject m) = JObject (AList.update k v m)"
| "with_field k v w = w"

section \<open>Facts\<close>

lemma own_keys_with_field: "own_keys (with_field k v (JObject m)) = (if k \<in> set (map fst m) then map fst m else map fst m @ [k])"
  by (induction m) auto

lemma get_with_field [simp]: "get (with_field k v (JObject m)) k' = (if k' = k then v else get (JObject m) k')"
  by simp

lemma hasOnlyKeys_with_field:
  "hasOnlyKeys (JObject m) ks \<Longrightarrow> k \<in> set ks \<Longrightarrow> hasOnlyKeys (with_field k v (JObject m)) ks"
  by (auto simp: hasOnlyKeys_def own_keys_with_field list_all_iff simp del: with_field.simps)

lemma hasOnlyKeys_update:
  "hasOnlyKeys (JObject m) ks \<Longrightarrow> k \<in> set ks \<Longrightarrow> hasOnlyKeys (JObject (AList.update k v m)) ks"
  using hasOnlyKeys_with_field [of m ks k v] by simp

lemma hasOwn_with_field:
 "hasOwn (JObject m) k' \<Longrightarrow> hasOwn (with_field k v (JObject m)) k'"
  by (auto simp: hasOwn_def own_keys_with_field simp del: with_field.simps)

lemma hasOnlyKeys_get:
  assumes "hasOnlyKeys v ks" and "k \<notin> set ks"
  shows "get v k = JUndefined"
proof (cases v)
  case (JObject m)
  with assms have "k \<notin> fst ` set m" by (auto simp: hasOnlyKeys_def list_all_iff)
  then have "map_of m k = None" by (simp add: map_of_eq_None_iff)
  with JObject show ?thesis by simp
qed auto

text \<open>Two values that no property read tells apart.\<close>

definition same_fields :: "jsvalue \<Rightarrow> jsvalue \<Rightarrow> bool" where
  "same_fields v w \<longleftrightarrow> (\<forall>k. get v k = get w k)"

lemma same_fieldsI:
  assumes "hasOnlyKeys v ks" and "hasOnlyKeys w ks" and "list_all (\<lambda>k. get v k = get w k) ks"
  shows "same_fields v w"
  unfolding same_fields_def
proof
  fix k
  show "get v k = get w k"
    by (cases "k \<in> set ks") (use assms hasOnlyKeys_get in \<open>auto simp: list_all_iff\<close>)
qed

lemma hasOnlyKeys_simps [simp]:
  "hasOnlyKeys (JObject []) ks"
  "hasOnlyKeys (JObject ((k, v) # m)) ks \<longleftrightarrow> k \<in> set ks \<and> hasOnlyKeys (JObject m) ks"
  by (simp_all add: hasOnlyKeys_def)

lemma isString_iff: "isString v \<longleftrightarrow> (\<exists>s. v = JString s)"
  by (cases v) auto

lemma isNonEmptyString_iff: "isNonEmptyString v \<longleftrightarrow> (\<exists>s. v = JString s \<and> s \<noteq> '''')"
  by (cases v) auto

lemma isPositiveInteger_iff:
  "isPositiveInteger v \<longleftrightarrow> (\<exists>n. v = JInt (int n) \<and> 1 \<le> n \<and> is_safe_nat n)"
proof (cases v)
  case (JInt i)
  show ?thesis
  proof
    assume "isPositiveInteger v"
    with JInt have "v = JInt (int (nat i)) \<and> 1 \<le> nat i \<and> is_safe_nat (nat i)"
      by (auto simp: is_safe_nat_code)
    then show "\<exists>n. v = JInt (int n) \<and> 1 \<le> n \<and> is_safe_nat n" by blast
  qed (auto simp: is_safe_nat_code)
qed auto

lemma isSafeNonNegativeInteger_nat [simp]:
  "isSafeNonNegativeInteger (JInt (int n)) = is_safe_nat n"
  by (simp add: is_safe_nat_code)

end
