(* ===== verification/WireProtocol.thy ===== *)
theory WireProtocol
  imports JsValue
begin

text \<open>
  The validators of \<open>graphql-cache/protocol.ts\<close> (cache responses, pushes, search arguments,
  record keys, revisions) and \<open>isCacheRequest\<close> of \<open>worker/coordinator-protocol.ts\<close>, with one
  definition per request kind. The regular expressions of the source are written out as
  scans over the characters.
\<close>

section \<open>Scalars of the wire format\<close>

definition digits :: string where
  "digits = ''0123456789''"

text \<open>\<open>/^(0|[1-9][0-9]*)$/\<close>\<close>

fun canonical_decimal :: "string \<Rightarrow> bool" where
  "canonical_decimal [] = False"
| "canonical_decimal (c # cs) =
     (c = CHR ''0'' \<and> cs = [] \<or>
      c \<in> set digits \<and> c \<noteq> CHR ''0'' \<and> list_all (\<lambda>d. d \<in> set digits) cs)"

text \<open>\<open>BigInt(value)\<close> on a decimal string\<close>

definition decimal_value :: "string \<Rightarrow> int" where
  "decimal_value s = foldl (\<lambda>n c. 10 * n + (of_char c - 48)) 0 s"

fun isCacheRevision :: "jsvalue \<Rightarrow> bool" where
  "isCacheRevision (JString s) = (canonical_decimal s \<and> decimal_value s \<le> 18446744073709551615)"
| "isCacheRevision _ = False"

definition parseCacheRevision :: "jsvalue \<Rightarrow> jsvalue js" where
  "parseCacheRevision v = (if \<not> isCacheRevision v then Throw ''invalid cache revision'' else Ret v)"

definition ident_start :: "char \<Rightarrow> bool" where
  "ident_start c \<longleftrightarrow> (let n = of_char c :: nat
     in (65 \<le> n \<and> n \<le> 90) \<or> (97 \<le> n \<and> n \<le> 122) \<or> c = CHR ''_'')"

definition ident_char :: "char \<Rightarrow> bool" where
  "ident_char c \<longleftrightarrow> ident_start c \<or> (let n = of_char c :: nat in 48 \<le> n \<and> n \<le> 57)"

text \<open>\<open>/^[A-Za-z_][A-Za-z0-9_]*:/\<close>: an identifier and a colon at the start\<close>

fun record_key_prefix :: "string \<Rightarrow> bool" where
  "record_key_prefix [] = False"
| "record_key_prefix (c # cs) =
     (ident_start c \<and> (case dropWhile ident_char cs of [] \<Rightarrow> False | d # _ \<Rightarrow> d = CHR '':''))"

fun isValidNormalizedRecordKey :: "jsvalue \<Rightarrow> bool" where
  "isValidNormalizedRecordKey (JString s) = (length s \<le> 1024 \<and> record_key_prefix s)"
| "isValidNormalizedRecordKey _ = False"

definition isValidCacheSearchProfile :: "jsvalue \<Rightarrow> bool" where
  "isValidCacheSearchProfile v \<longleftrightarrow> v = JString ''quick-access-v1''"

fun isValidCacheSearchLimit :: "jsvalue \<Rightarrow> bool" where
  "isValidCacheSearchLimit (JInt i) = (isSafeInteger (JInt i) \<and> 1 \<le> i \<and> i \<le> 500)"
| "isValidCacheSearchLimit _ = False"

fun isValidCacheSearchQuery :: "jsvalue \<Rightarrow> bool" where
  "isValidCacheSearchQuery (JString s) = (utf8_length s \<le> 512)"
| "isValidCacheSearchQuery _ = False"

definition bucket_char :: "char \<Rightarrow> bool" where
  "bucket_char c \<longleftrightarrow> (let n = of_char c :: nat in 97 \<le> n \<and> n \<le> 122) \<or> c = CHR ''_''"

text \<open>\<open>/^[a-z_]{1,64}$/\<close>\<close>

fun isValidCacheSearchBucket :: "jsvalue \<Rightarrow> bool" where
  "isValidCacheSearchBucket (JString s) = (1 \<le> length s \<and> length s \<le> 64 \<and> list_all bucket_char s)"
| "isValidCacheSearchBucket _ = False"

definition isValidCacheSearchNowMs :: "jsvalue \<Rightarrow> bool" where
  "isValidCacheSearchNowMs v \<longleftrightarrow> isSafeNonNegativeInteger v"

definition isValidCacheSearchCursor :: "jsvalue \<Rightarrow> bool" where
  "isValidCacheSearchCursor v \<longleftrightarrow>
     isRecord v \<and> list_all (\<lambda>k. k = ''timestampMs'' \<or> k = ''recordKey'') (own_keys v) \<and>
     hasOwn v ''timestampMs'' \<and> hasOwn v ''recordKey'' \<and>
     isSafeInteger (get v ''timestampMs'') \<and> isValidNormalizedRecordKey (get v ''recordKey'')"

definition validateRecordSelectionKeys :: "string list \<Rightarrow> string list js" where
  "validateRecordSelectionKeys keys =
     (if length keys > 500 then Throw ''record selection accepts at most 500 keys''
      else if list_ex (\<lambda>k. \<not> isValidNormalizedRecordKey (JString k)) keys
      then Throw ''invalid normalized record key'' else Ret keys)"

text \<open>
  \<open>validateCacheSearchArgs\<close>: the defaults for \<open>query\<close>, \<open>buckets\<close> and \<open>nowMs\<close> are written
  back; the clock is an argument.
\<close>

definition or_default :: "jsvalue \<Rightarrow> jsvalue \<Rightarrow> jsvalue" where
  "or_default d v = (if v = JUndefined then d else v)"

definition validateCacheSearchArgs :: "int \<Rightarrow> jsvalue \<Rightarrow> jsvalue js" where
  "validateCacheSearchArgs date_now args =
     (if \<not> isValidCacheSearchProfile (get args ''profile'') then Throw ''invalid cache search profile''
      else if \<not> isValidCacheSearchLimit (get args ''limit'')
      then Throw ''cache search limit must be an integer between 1 and 500''
      else let query = or_default (JString '''') (get args ''query'')
      in if \<not> isValidCacheSearchQuery query then Throw ''cache search query is too long''
      else let buckets = or_default (JArray []) (get args ''buckets'')
      in if \<not> array_every isValidCacheSearchBucket buckets then Throw ''invalid cache search bucket''
      else let nowMs = or_default (JInt date_now) (get args ''nowMs'')
      in if \<not> isValidCacheSearchNowMs nowMs then Throw ''invalid cache search nowMs''
      else if get args ''cursor'' \<noteq> JUndefined \<and> \<not> isValidCacheSearchCursor (get args ''cursor'')
      then Throw ''invalid cache search cursor''
      else Ret (with_field ''nowMs'' nowMs (with_field ''buckets'' buckets (with_field ''query'' query args))))"

section \<open>Responses and pushes\<close>

definition isWireStringArray :: "jsvalue \<Rightarrow> bool" where
  "isWireStringArray v \<longleftrightarrow> array_every isString v"

definition isCacheResponseErrorCode :: "jsvalue \<Rightarrow> bool" where
  "isCacheResponseErrorCode v \<longleftrightarrow>
     v = JString ''owner-epoch-lost'' \<or> v = JString ''admitted-enqueue-uncertain''"

definition isCacheResponse :: "jsvalue \<Rightarrow> bool" where
  "isCacheResponse v \<longleftrightarrow>
     isRecord v \<and> isSafeNonNegativeInteger (get v ''id'') \<and>
     (if get v ''ok'' = JBool True
      then hasOnlyKeys v [''id'', ''ok'', ''result''] \<and> hasOwn v ''result''
      else get v ''ok'' = JBool False \<and> hasOnlyKeys v [''id'', ''ok'', ''error'', ''errorCode''] \<and>
        isString (get v ''error'') \<and>
        (get v ''errorCode'' = JUndefined \<or> isCacheResponseErrorCode (get v ''errorCode'')))"

definition is_settlement :: "jsvalue \<Rightarrow> bool" where
  "is_settlement s \<longleftrightarrow>
     isRecord s \<and> isString (get s ''transactionId'') \<and>
     (if get s ''status'' = JString ''committed'' then hasOnlyKeys s [''transactionId'', ''status'']
      else if get s ''status'' = JString ''superseded''
      then hasOnlyKeys s [''transactionId'', ''status'', ''replacementTransactionId''] \<and>
        isString (get s ''replacementTransactionId'')
      else get s ''status'' = JString ''permanently-failed'' \<and>
        hasOnlyKeys s [''transactionId'', ''status'', ''error''] \<and> isString (get s ''error''))"

definition isCachePush :: "jsvalue \<Rightarrow> bool" where
  "isCachePush v \<longleftrightarrow>
     isRecord v \<and>
     (if get v ''kind'' = JString ''ops-affected''
      then hasOnlyKeys v [''kind'', ''opIds'', ''keys''] \<and> isWireStringArray (get v ''opIds'') \<and>
        isWireStringArray (get v ''keys'')
      else if get v ''kind'' = JString ''cache-changed''
      then hasOnlyKeys v [''kind'', ''revision''] \<and> isCacheRevision (get v ''revision'')
      else get v ''kind'' = JString ''mutation-settled'' \<and>
        hasOnlyKeys v [''kind'', ''settlement''] \<and> is_settlement (get v ''settlement''))"

definition isWorkerMessage :: "jsvalue \<Rightarrow> bool" where
  "isWorkerMessage v \<longleftrightarrow> isCacheResponse v \<or> isCachePush v"

end
