(* ===== verification/RequestValidation.thy ===== *)
theory RequestValidation
  imports WireProtocol
begin

text \<open>
  \<open>isCacheRequest\<close> of \<open>worker/coordinator-protocol.ts\<close>: the strict validation of a cache RPC
  request, one definition per request kind, and the fact the coordinator relies on when it
  rewrites a request's id: validity depends on the id only through its being a safe
  non-negative integer.
\<close>

section \<open>Parts of a request\<close>

definition isPath :: "jsvalue \<Rightarrow> bool" where
  "isPath v \<longleftrightarrow> array_every (\<lambda>s. isRecord s \<and> hasOnlyKeys s [''field''] \<and> isString (get s ''field'')) v"

definition isEntityResolvers :: "jsvalue \<Rightarrow> bool" where
  "isEntityResolvers v \<longleftrightarrow> v = JUndefined \<or>
     array_every (\<lambda>r. isRecord r \<and> isString (get r ''parentType'') \<and> isString (get r ''fieldName'') \<and>
       isString (get r ''targetType'') \<and> isStringArray (get r ''argumentPath'')) v"

definition isWriteRegistration :: "jsvalue \<Rightarrow> bool" where
  "isWriteRegistration v \<longleftrightarrow> v = JUndefined \<or>
     isRecord v \<and> hasOnlyKeys v [''opId'', ''entityResolvers''] \<and> isNonEmptyString (get v ''opId'') \<and>
     isEntityResolvers (get v ''entityResolvers'')"

definition isSearchRequest :: "jsvalue \<Rightarrow> bool" where
  "isSearchRequest v \<longleftrightarrow>
     isRecord v \<and>
     hasOnlyKeys v [''profile'', ''buckets'', ''query'', ''cursor'', ''limit'', ''nowMs''] \<and>
     isValidCacheSearchProfile (get v ''profile'') \<and>
     array_every isValidCacheSearchBucket (get v ''buckets'') \<and>
     isValidCacheSearchQuery (get v ''query'') \<and> isValidCacheSearchLimit (get v ''limit'') \<and>
     isValidCacheSearchNowMs (get v ''nowMs'') \<and>
     (get v ''cursor'' = JUndefined \<or> isValidCacheSearchCursor (get v ''cursor''))"

definition commonRequest :: "jsvalue \<Rightarrow> bool" where
  "commonRequest v \<longleftrightarrow> isSafeNonNegativeInteger (get v ''id'') \<and> isNonEmptyString (get v ''kind'')"

section \<open>The request kinds\<close>

definition init_request :: "jsvalue \<Rightarrow> bool" where
  "init_request v \<longleftrightarrow> hasOnlyKeys v [''id'', ''kind'', ''scope'', ''hotCapacity''] \<and>
     isNonEmptyString (get v ''scope'') \<and> isOptionalPositiveInteger (get v ''hotCapacity'')"

definition bare_request :: "jsvalue \<Rightarrow> bool" where
  "bare_request v \<longleftrightarrow> hasOnlyKeys v [''id'', ''kind'']"

definition read_request :: "jsvalue \<Rightarrow> bool" where
  "read_request v \<longleftrightarrow>
     hasOnlyKeys v [''id'', ''kind'', ''opId'', ''query'', ''operationName'', ''variables'',
       ''priority'', ''entityResolvers''] \<and>
     isOptionalString (get v ''opId'') \<and> isString (get v ''query'') \<and>
     isOptionalString (get v ''operationName'') \<and> isOptionalRecord (get v ''variables'') \<and>
     (get v ''priority'' = JUndefined \<or> get v ''priority'' = JString ''user-visible'') \<and>
     isEntityResolvers (get v ''entityResolvers'')"

definition write_request :: "jsvalue \<Rightarrow> bool" where
  "write_request v \<longleftrightarrow>
     hasOnlyKeys v [''id'', ''kind'', ''originOpId'', ''registration'', ''query'',
       ''operationName'', ''variables'', ''data'', ''identity''] \<and>
     isOptionalString (get v ''originOpId'') \<and> isWriteRegistration (get v ''registration'') \<and>
     isString (get v ''query'') \<and> isOptionalString (get v ''operationName'') \<and>
     isOptionalRecord (get v ''variables'') \<and> hasOwn v ''data'' \<and> isOptionalString (get v ''identity'')"

definition hydrate_request :: "jsvalue \<Rightarrow> bool" where
  "hydrate_request v \<longleftrightarrow>
     hasOnlyKeys v [''id'', ''kind'', ''query'', ''operationName'', ''variables'', ''data'', ''identity''] \<and>
     isString (get v ''query'') \<and> isOptionalString (get v ''operationName'') \<and>
     isOptionalRecord (get v ''variables'') \<and> hasOwn v ''data'' \<and> isOptionalString (get v ''identity'')"

definition enqueue_request :: "jsvalue \<Rightarrow> bool" where
  "enqueue_request v \<longleftrightarrow>
     hasOnlyKeys v [''id'', ''kind'', ''originOpId'', ''uuid'', ''query'', ''operationName'',
       ''variables'', ''data'', ''linkPatches'', ''revalidations'', ''createdAtMs'', ''owner'',
       ''nowMs'', ''leaseExpiresAtMs''] \<and>
     isOptionalString (get v ''originOpId'') \<and> isString (get v ''uuid'') \<and>
     isString (get v ''query'') \<and> isOptionalString (get v ''operationName'') \<and>
     isOptionalRecord (get v ''variables'') \<and> hasOwn v ''data'' \<and>
     (get v ''linkPatches'' = JUndefined \<or> isArray (get v ''linkPatches'')) \<and>
     (get v ''revalidations'' = JUndefined \<or> isArray (get v ''revalidations'')) \<and>
     isSafeNonNegativeInteger (get v ''createdAtMs'') \<and> isString (get v ''owner'') \<and>
     isSafeNonNegativeInteger (get v ''nowMs'') \<and> isSafeNonNegativeInteger (get v ''leaseExpiresAtMs'')"

definition claim_request :: "jsvalue \<Rightarrow> bool" where
  "claim_request v \<longleftrightarrow>
     hasOnlyKeys v [''id'', ''kind'', ''owner'', ''nowMs'', ''leaseExpiresAtMs''] \<and>
     isString (get v ''owner'') \<and> isSafeNonNegativeInteger (get v ''nowMs'') \<and>
     isSafeNonNegativeInteger (get v ''leaseExpiresAtMs'')"

definition defer_request :: "jsvalue \<Rightarrow> bool" where
  "defer_request v \<longleftrightarrow>
     hasOnlyKeys v [''id'', ''kind'', ''transactionId'', ''leaseOwner'', ''leaseGeneration'',
       ''nextAttemptAtMs'', ''error''] \<and>
     isString (get v ''transactionId'') \<and> isString (get v ''leaseOwner'') \<and>
     isString (get v ''leaseGeneration'') \<and> isSafeNonNegativeInteger (get v ''nextAttemptAtMs'') \<and>
     isString (get v ''error'')"

definition commit_request :: "jsvalue \<Rightarrow> bool" where
  "commit_request v \<longleftrightarrow>
     hasOnlyKeys v [''id'', ''kind'', ''transactionId'', ''leaseOwner'', ''leaseGeneration'',
       ''query'', ''operationName'', ''variables'', ''data''] \<and>
     isString (get v ''transactionId'') \<and> isString (get v ''leaseOwner'') \<and>
     isString (get v ''leaseGeneration'') \<and> isString (get v ''query'') \<and>
     isOptionalString (get v ''operationName'') \<and> isOptionalRecord (get v ''variables'') \<and>
     hasOwn v ''data''"

definition rollback_request :: "jsvalue \<Rightarrow> bool" where
  "rollback_request v \<longleftrightarrow>
     hasOnlyKeys v [''id'', ''kind'', ''transactionId'', ''leaseOwner'', ''leaseGeneration'', ''error''] \<and>
     isString (get v ''transactionId'') \<and> isString (get v ''leaseOwner'') \<and>
     isString (get v ''leaseGeneration'') \<and> isString (get v ''error'')"

definition read_records_request :: "jsvalue \<Rightarrow> bool" where
  "read_records_request v \<longleftrightarrow>
     hasOnlyKeys v [''id'', ''kind'', ''document'', ''fragmentName'', ''keys''] \<and>
     isString (get v ''document'') \<and> isString (get v ''fragmentName'') \<and>
     array_length (get v ''keys'') \<le> 500 \<and> array_every isValidNormalizedRecordKey (get v ''keys'')"

definition search_request :: "jsvalue \<Rightarrow> bool" where
  "search_request v \<longleftrightarrow>
     hasOnlyKeys v [''id'', ''kind'', ''request''] \<and> isSearchRequest (get v ''request'')"

fun below_500 :: "jsvalue \<Rightarrow> bool" where
  "below_500 (JInt i) = (i < 500)"
| "below_500 _ = False"

fun short_string :: "nat \<Rightarrow> jsvalue \<Rightarrow> bool" where
  "short_string n (JString s) = (length s \<le> n)"
| "short_string _ _ = False"

definition entity_filter_request :: "jsvalue \<Rightarrow> bool" where
  "entity_filter_request v \<longleftrightarrow>
     (let request = get v ''request''; mail = get request ''mail''; baseline = get request ''baseline''
      in hasOnlyKeys v [''id'', ''kind'', ''request''] \<and> isRecord request \<and>
        hasOnlyKeys request [''filters'', ''sortMethod'', ''sortDirection'', ''limit'', ''baseline'', ''mail''] \<and>
        isRecord (get request ''filters'') \<and>
        get request ''sortMethod'' \<in> JString ` {''CREATED_AT'', ''UPDATED_AT'', ''VIEWED_AT'', ''VIEWED_UPDATED''} \<and>
        get request ''sortDirection'' \<in> JString ` {''ASC'', ''DESC''} \<and>
        isValidCacheSearchLimit (get request ''limit'') \<and>
        (mail = JUndefined \<or>
          isRecord mail \<and> hasOnlyKeys mail [''view'', ''cursor''] \<and>
          get mail ''view'' \<in> JString ` {''ALL'', ''INBOX'', ''DRAFTS'', ''SENT''} \<and>
          below_500 (get request ''limit'') \<and> baseline = JUndefined \<and>
          (get mail ''cursor'' = JUndefined \<or> short_string 4096 (get mail ''cursor''))) \<and>
        (baseline = JUndefined \<or>
          array_length baseline \<le> 5000 \<and>
          array_every (\<lambda>e. isRecord e \<and> hasOnlyKeys e [''key'', ''sortTimestamp''] \<and>
            isValidNormalizedRecordKey (get e ''key'') \<and> short_string 64 (get e ''sortTimestamp'')) baseline))"

definition inspect_request :: "jsvalue \<Rightarrow> bool" where
  "inspect_request v \<longleftrightarrow>
     hasOnlyKeys v [''id'', ''kind'', ''query'', ''operationName'', ''path'', ''variableFilters''] \<and>
     isString (get v ''query'') \<and> isOptionalString (get v ''operationName'') \<and> isPath (get v ''path'') \<and>
     (get v ''variableFilters'' = JUndefined \<or> array_every isRecord (get v ''variableFilters''))"

definition inspect_variants_request :: "jsvalue \<Rightarrow> bool" where
  "inspect_variants_request v \<longleftrightarrow>
     hasOnlyKeys v [''id'', ''kind'', ''query'', ''operationName'', ''path''] \<and>
     isString (get v ''query'') \<and> isOptionalString (get v ''operationName'') \<and> isPath (get v ''path'')"

definition teardown_request :: "jsvalue \<Rightarrow> bool" where
  "teardown_request v \<longleftrightarrow> hasOnlyKeys v [''id'', ''kind'', ''opId''] \<and> isString (get v ''opId'')"

definition keys_request :: "jsvalue \<Rightarrow> bool" where
  "keys_request v \<longleftrightarrow> hasOnlyKeys v [''id'', ''kind'', ''keys''] \<and> isStringArray (get v ''keys'')"

text \<open>The \<open>switch (value.kind)\<close>.\<close>

definition request_kinds :: "(string \<times> (jsvalue \<Rightarrow> bool)) list" where
  "request_kinds =
     [(''init'', init_request), (''current-revision'', bare_request), (''read'', read_request),
      (''write'', write_request), (''hydrate'', hydrate_request),
      (''enqueue-optimistic-mutation'', enqueue_request), (''claim-next-mutation'', claim_request),
      (''defer-optimistic-write'', defer_request), (''commit-optimistic-write'', commit_request),
      (''rollback-optimistic-write'', rollback_request),
      (''read-records-by-keys'', read_records_request), (''search'', search_request),
      (''entity-filter'', entity_filter_request), (''inspect-query'', inspect_request),
      (''inspect-query-variants'', inspect_variants_request), (''teardown'', teardown_request),
      (''invalidate'', keys_request), (''delete-records'', keys_request), (''clear'', bare_request)]"

definition isCacheRequest :: "jsvalue \<Rightarrow> bool" where
  "isCacheRequest v \<longleftrightarrow>
     isRecord v \<and> commonRequest v \<and>
     (case get v ''kind'' of
        JString k \<Rightarrow> (case map_of request_kinds k of None \<Rightarrow> False | Some p \<Rightarrow> p v)
      | _ \<Rightarrow> False)"

section \<open>Rewriting the id\<close>

lemmas request_kind_defs = init_request_def bare_request_def read_request_def write_request_def
  hydrate_request_def enqueue_request_def claim_request_def defer_request_def commit_request_def
  rollback_request_def read_records_request_def search_request_def entity_filter_request_def
  inspect_request_def inspect_variants_request_def teardown_request_def keys_request_def

lemma request_kind_with_id:
  assumes "(k, p) \<in> set request_kinds" and "p (JObject m)"
  shows "p (with_field ''id'' i (JObject m))"
  using assms
  by (auto simp: request_kinds_def request_kind_defs Let_def hasOnlyKeys_with_field hasOwn_with_field
      simp del: with_field.simps)

lemma isCacheRequest_with_id:
  assumes "isCacheRequest v" and "is_safe_nat i"
  shows "isCacheRequest (with_field ''id'' (JInt (int i)) v)"
proof (cases v)
  case (JObject m)
  obtain k p where k: "get v ''kind'' = JString k" "map_of request_kinds k = Some p" "p v" "k \<noteq> ''''"
    using assms(1)
    by (auto simp: isCacheRequest_def commonRequest_def split: jsvalue.splits option.splits)
  then have "p (with_field ''id'' (JInt (int i)) v)"
    using request_kind_with_id [OF map_of_SomeD] JObject by blast
  with k JObject assms(2) show ?thesis
    by (simp add: isCacheRequest_def commonRequest_def del: isSafeNonNegativeInteger.simps)
qed (use assms in \<open>auto simp: isCacheRequest_def commonRequest_def\<close>)

end
