(* ===== verification/CoordinatorProtocol.thy ===== *)
theory CoordinatorProtocol
  imports RequestValidation CoordinatorCore
begin

text \<open>
  The envelopes between the tabs, the coordinator and the engine and their validators
  (\<open>worker/coordinator-protocol.ts\<close>). Each envelope type of the source is a datatype with the
  object it is sent as (\<open>encode\<close>), the reading that the casts of the source perform
  (\<open>decode\<close>) and the constraints the validator adds to the type. The locale
  \<open>envelope_codec\<close> states what every validator promises and is interpreted on all five.
\<close>

section \<open>Validation results and headers\<close>

datatype 'a validation = Pass 'a | Fail string

definition hasVersion :: "jsvalue \<Rightarrow> bool" where
  "hasVersion v \<longleftrightarrow> get v ''coordinatorVersion'' = JInt 3"

definition header_ok :: "jsvalue \<Rightarrow> bool" where
  "header_ok v \<longleftrightarrow> isRecord v \<and> hasVersion v \<and> isString (get v ''kind'')"

fun the_string :: "jsvalue \<Rightarrow> string" where
  "the_string (JString s) = s"
| "the_string _ = ''''"

fun the_nat :: "jsvalue \<Rightarrow> nat" where
  "the_nat (JInt i) = nat i"
| "the_nat _ = 0"

fun optional_nat :: "jsvalue \<Rightarrow> nat option" where
  "optional_nat (JInt i) = Some (nat i)"
| "optional_nat _ = None"

definition js_nat :: "nat \<Rightarrow> jsvalue" where
  "js_nat n = JInt (int n)"

definition isDatabaseAction :: "jsvalue \<Rightarrow> bool" where
  "isDatabaseAction v \<longleftrightarrow> v = JString ''open-existing'' \<or> v = JString ''wipe-before-open''"

definition isDatabaseActionProof :: "jsvalue \<Rightarrow> bool" where
  "isDatabaseActionProof v \<longleftrightarrow> v = JString ''opened-existing'' \<or> v = JString ''wiped-before-open''"

definition isEngineOpenOutcome :: "jsvalue \<Rightarrow> bool" where
  "isEngineOpenOutcome v \<longleftrightarrow>
     v \<in> JString ` {''opened-existing'', ''opened-new'', ''reset-incompatible'', ''reset-corrupt'',
       ''reset-storage-uncertain''}"

definition isEngineFatalCode :: "jsvalue \<Rightarrow> bool" where
  "isEngineFatalCode v \<longleftrightarrow> v = JString ''storage-reset-required'' \<or> v = JString ''runtime-failure''"

definition isActivationFailureCode :: "jsvalue \<Rightarrow> bool" where
  "isActivationFailureCode v \<longleftrightarrow>
     v = JString ''initialization-failed'' \<or> v = JString ''recovery-open-failed''"

definition invalid_envelope :: "jsvalue \<Rightarrow> 'a validation" where
  "invalid_envelope v = Fail (''invalid '' @ the_string (get v ''kind'') @ '' coordinator envelope'')"

section \<open>Validators\<close>

definition tab_envelope_kinds :: "(string \<times> (jsvalue \<Rightarrow> bool)) list" where
  "tab_envelope_kinds =
     [(''register-tab'', \<lambda>v.
         hasOnlyKeys v [''coordinatorVersion'', ''kind'', ''scope'', ''tabId'', ''livenessLockName'', ''hotCapacity''] \<and>
         isNonEmptyString (get v ''scope'') \<and> isNonEmptyString (get v ''livenessLockName'') \<and>
         isOptionalPositiveInteger (get v ''hotCapacity'')),
      (''cache-request'', \<lambda>v.
         hasOnlyKeys v [''coordinatorVersion'', ''kind'', ''tabId'', ''request''] \<and>
         isCacheRequest (get v ''request'')),
      (''attach-engine-port'', \<lambda>v.
         hasOnlyKeys v [''coordinatorVersion'', ''kind'', ''tabId'', ''ownerEpoch'', ''enginePort''] \<and>
         isPositiveInteger (get v ''ownerEpoch'') \<and> isMessagePort (get v ''enginePort'')),
      (''graceful-departure'', \<lambda>v.
         hasOnlyKeys v [''coordinatorVersion'', ''kind'', ''tabId'', ''ownerEpoch''] \<and>
         isPositiveInteger (get v ''ownerEpoch'')),
      (''navigation-departure'', \<lambda>v.
         hasOnlyKeys v [''coordinatorVersion'', ''kind'', ''tabId'', ''ownerEpoch'', ''reason''] \<and>
         isPositiveInteger (get v ''ownerEpoch'') \<and> isNonEmptyString (get v ''reason'')),
      (''engine-lost'', \<lambda>v.
         hasOnlyKeys v [''coordinatorVersion'', ''kind'', ''tabId'', ''ownerEpoch'', ''reason''] \<and>
         isPositiveInteger (get v ''ownerEpoch'') \<and> isNonEmptyString (get v ''reason'')),
      (''disconnect-tab'', \<lambda>v.
         hasOnlyKeys v [''coordinatorVersion'', ''kind'', ''tabId'', ''reason''] \<and>
         isNonEmptyString (get v ''reason''))]"

text \<open>The \<open>switch\<close> that ends each validator: pass by the check of the kind, or fail naming it.\<close>

definition check_kind :: "(string \<times> (jsvalue \<Rightarrow> bool)) list \<Rightarrow> jsvalue \<Rightarrow> jsvalue validation" where
  "check_kind kinds v =
     (case map_of kinds (the_string (get v ''kind'')) of
        Some p \<Rightarrow> (if p v then Pass v else invalid_envelope v)
      | None \<Rightarrow> invalid_envelope v)"

definition validateTabToCoordinatorEnvelope :: "jsvalue \<Rightarrow> jsvalue validation" where
  "validateTabToCoordinatorEnvelope v =
     (if \<not> header_ok v then Fail ''invalid coordinator envelope header''
      else if \<not> isNonEmptyString (get v ''tabId'') then Fail ''invalid coordinator tab identity''
      else check_kind tab_envelope_kinds v)"

definition coordinator_to_tab_kinds :: "(string \<times> (jsvalue \<Rightarrow> bool)) list" where
  "coordinator_to_tab_kinds =
     [(''registered'', \<lambda>v.
         hasOnlyKeys v [''coordinatorVersion'', ''kind'', ''tabId''] \<and> isNonEmptyString (get v ''tabId'')),
      (''become-owner'', \<lambda>v.
         hasOnlyKeys v [''coordinatorVersion'', ''kind'', ''scope'', ''tabId'', ''ownerEpoch'',
           ''databaseAction'', ''ownerLockName'', ''hotCapacity''] \<and>
         isNonEmptyString (get v ''scope'') \<and> isNonEmptyString (get v ''tabId'') \<and>
         isPositiveInteger (get v ''ownerEpoch'') \<and> isDatabaseAction (get v ''databaseAction'') \<and>
         isNonEmptyString (get v ''ownerLockName'') \<and> isOptionalPositiveInteger (get v ''hotCapacity'')),
      (''cache-message'', \<lambda>v.
         hasOnlyKeys v [''coordinatorVersion'', ''kind'', ''message''] \<and> isWorkerMessage (get v ''message'')),
      (''terminate-engine'', \<lambda>v.
         hasOnlyKeys v [''coordinatorVersion'', ''kind'', ''tabId'', ''ownerEpoch'', ''reason''] \<and>
         isNonEmptyString (get v ''tabId'') \<and> isPositiveInteger (get v ''ownerEpoch'') \<and>
         isNonEmptyString (get v ''reason'')),
      (''retire-complete'', \<lambda>v.
         hasOnlyKeys v [''coordinatorVersion'', ''kind'', ''tabId'', ''ownerEpoch''] \<and>
         isNonEmptyString (get v ''tabId'') \<and> isPositiveInteger (get v ''ownerEpoch'')),
      (''engine-startup'', \<lambda>v.
         hasOnlyKeys v [''coordinatorVersion'', ''kind'', ''ownerEpoch'', ''phase'', ''databaseAction'', ''timeoutMs''] \<and>
         isPositiveInteger (get v ''ownerEpoch'') \<and>
         (get v ''phase'' = JString ''loading-assets'' \<or> get v ''phase'' = JString ''opening-database'') \<and>
         isDatabaseAction (get v ''databaseAction'') \<and> isPositiveInteger (get v ''timeoutMs'')),
      (''engine-replaced'', \<lambda>v.
         hasOnlyKeys v [''coordinatorVersion'', ''kind'', ''ownerEpoch''] \<and>
         isPositiveInteger (get v ''ownerEpoch'')),
      (''terminal-error'', \<lambda>v.
         hasOnlyKeys v [''coordinatorVersion'', ''kind'', ''error'', ''storageUntouched''] \<and>
         isNonEmptyString (get v ''error'') \<and>
         (get v ''storageUntouched'' = JUndefined \<or> get v ''storageUntouched'' = JBool True)),
      (''protocol-error'', \<lambda>v.
         hasOnlyKeys v [''coordinatorVersion'', ''kind'', ''error''] \<and> isNonEmptyString (get v ''error''))]"

definition validateCoordinatorToTabEnvelope :: "jsvalue \<Rightarrow> jsvalue validation" where
  "validateCoordinatorToTabEnvelope v =
     (if \<not> header_ok v then Fail ''invalid coordinator envelope header''
      else check_kind coordinator_to_tab_kinds v)"

definition validatePageToEngineEnvelope :: "jsvalue \<Rightarrow> jsvalue validation" where
  "validatePageToEngineEnvelope v =
     (if isRecord v \<and> hasVersion v \<and> get v ''kind'' = JString ''activate-engine'' \<and>
         hasOnlyKeys v [''coordinatorVersion'', ''kind'', ''scope'', ''tabId'', ''ownerEpoch'',
           ''databaseAction'', ''ownerLockName'', ''hotCapacity''] \<and>
         isNonEmptyString (get v ''scope'') \<and> isNonEmptyString (get v ''tabId'') \<and>
         isPositiveInteger (get v ''ownerEpoch'') \<and> isDatabaseAction (get v ''databaseAction'') \<and>
         isNonEmptyString (get v ''ownerLockName'') \<and> isOptionalPositiveInteger (get v ''hotCapacity'')
      then Pass v else Fail ''invalid activate-engine envelope'')"

definition coordinator_to_engine_kinds :: "(string \<times> (jsvalue \<Rightarrow> bool)) list" where
  "coordinator_to_engine_kinds =
     [(''engine-request'', \<lambda>v.
         hasOnlyKeys v [''coordinatorVersion'', ''kind'', ''ownerEpoch'', ''routeId'', ''request''] \<and>
         isPositiveInteger (get v ''ownerEpoch'') \<and> isPositiveInteger (get v ''routeId'') \<and>
         isCacheRequest (get v ''request'') \<and> get (get v ''request'') ''id'' = get v ''routeId''),
      (''open-engine'', \<lambda>v.
         hasOnlyKeys v [''coordinatorVersion'', ''kind'', ''ownerEpoch''] \<and>
         isPositiveInteger (get v ''ownerEpoch'')),
      (''drain-engine'', \<lambda>v.
         hasOnlyKeys v [''coordinatorVersion'', ''kind'', ''ownerEpoch''] \<and>
         isPositiveInteger (get v ''ownerEpoch'')),
      (''heartbeat'', \<lambda>v.
         hasOnlyKeys v [''coordinatorVersion'', ''kind'', ''ownerEpoch'', ''heartbeatId''] \<and>
         isPositiveInteger (get v ''ownerEpoch'') \<and> isPositiveInteger (get v ''heartbeatId''))]"

definition validateCoordinatorToEngineEnvelope :: "jsvalue \<Rightarrow> jsvalue validation" where
  "validateCoordinatorToEngineEnvelope v =
     (if \<not> header_ok v then Fail ''invalid coordinator envelope header''
      else check_kind coordinator_to_engine_kinds v)"

definition engine_to_coordinator_kinds :: "(string \<times> (jsvalue \<Rightarrow> bool)) list" where
  "engine_to_coordinator_kinds =
     [(''engine-ready'', \<lambda>v.
         hasOnlyKeys v [''coordinatorVersion'', ''kind'', ''tabId'', ''ownerEpoch'', ''ownerLockName'',
           ''ownerLockHeld'', ''databaseActionProof'', ''openOutcome''] \<and>
         isNonEmptyString (get v ''tabId'') \<and> isPositiveInteger (get v ''ownerEpoch'') \<and>
         isNonEmptyString (get v ''ownerLockName'') \<and> get v ''ownerLockHeld'' = JBool True \<and>
         isDatabaseActionProof (get v ''databaseActionProof'') \<and> isEngineOpenOutcome (get v ''openOutcome'')),
      (''engine-response'', \<lambda>v.
         hasOnlyKeys v [''coordinatorVersion'', ''kind'', ''ownerEpoch'', ''routeId'', ''response''] \<and>
         isPositiveInteger (get v ''ownerEpoch'') \<and> isPositiveInteger (get v ''routeId'') \<and>
         isCacheResponse (get v ''response'') \<and>
         (get (get v ''response'') ''ok'' = JBool True \<or> get (get v ''response'') ''errorCode'' = JUndefined) \<and>
         get (get v ''response'') ''id'' = get v ''routeId''),
      (''engine-push'', \<lambda>v.
         hasOnlyKeys v [''coordinatorVersion'', ''kind'', ''ownerEpoch'', ''push''] \<and>
         isPositiveInteger (get v ''ownerEpoch'') \<and> isCachePush (get v ''push'')),
      (''engine-assets-ready'', \<lambda>v.
         hasOnlyKeys v [''coordinatorVersion'', ''kind'', ''tabId'', ''ownerEpoch''] \<and>
         isNonEmptyString (get v ''tabId'') \<and> isPositiveInteger (get v ''ownerEpoch'')),
      (''engine-drained'', \<lambda>v.
         hasOnlyKeys v [''coordinatorVersion'', ''kind'', ''tabId'', ''ownerEpoch''] \<and>
         isNonEmptyString (get v ''tabId'') \<and> isPositiveInteger (get v ''ownerEpoch'')),
      (''engine-fatal'', \<lambda>v.
         hasOnlyKeys v [''coordinatorVersion'', ''kind'', ''tabId'', ''ownerEpoch'', ''reason'', ''fatalCode''] \<and>
         isNonEmptyString (get v ''tabId'') \<and> isPositiveInteger (get v ''ownerEpoch'') \<and>
         isNonEmptyString (get v ''reason'') \<and> isEngineFatalCode (get v ''fatalCode'')),
      (''activation-failed'', \<lambda>v.
         hasOnlyKeys v [''coordinatorVersion'', ''kind'', ''tabId'', ''ownerEpoch'', ''reason'', ''failureCode''] \<and>
         isNonEmptyString (get v ''tabId'') \<and> isPositiveInteger (get v ''ownerEpoch'') \<and>
         isNonEmptyString (get v ''reason'') \<and> isActivationFailureCode (get v ''failureCode'')),
      (''heartbeat-ack'', \<lambda>v.
         hasOnlyKeys v [''coordinatorVersion'', ''kind'', ''ownerEpoch'', ''heartbeatId''] \<and>
         isPositiveInteger (get v ''ownerEpoch'') \<and> isPositiveInteger (get v ''heartbeatId''))]"

definition validateEngineToCoordinatorEnvelope :: "jsvalue \<Rightarrow> jsvalue validation" where
  "validateEngineToCoordinatorEnvelope v =
     (if \<not> header_ok v then Fail ''invalid coordinator envelope header''
      else check_kind engine_to_coordinator_kinds v)"

section \<open>Lock names\<close>

definition tabLivenessLockName :: "string \<Rightarrow> string \<Rightarrow> string" where
  "tabLivenessLockName sc t = ''graphql-cache-tab:'' @ sc @ '':'' @ t"

definition databaseOwnerLockName :: "string \<Rightarrow> string" where
  "databaseOwnerLockName sc =
     (let databaseIdentity = ''graphql-cache:'' @ sc; byteLength = utf8_length databaseIdentity
      in ''conation:turso-opfs:v1:'' @ show_nat byteLength @ '':'' @ databaseIdentity)"

end
