(* ===== verification/EnvelopeCodec.thy ===== *)
theory EnvelopeCodec
  imports CoordinatorProtocol
begin

text \<open>
  The envelope types of \<open>worker/coordinator-protocol.ts\<close> as datatypes, the objects they are
  sent as, and the contract of the five validators as a locale: a validator passes exactly
  the objects that read like the encoding of one well-formed envelope.
\<close>

section \<open>The contract\<close>

locale envelope_codec =
  fixes validate :: "jsvalue \<Rightarrow> jsvalue validation"
    and encode :: "'e \<Rightarrow> jsvalue"
    and decode :: "jsvalue \<Rightarrow> 'e option"
    and wf :: "'e \<Rightarrow> bool"
  assumes complete: "wf e \<Longrightarrow> validate (encode e) = Pass (encode e)"
    and sound: "validate v = Pass w \<Longrightarrow>
      w = v \<and> (\<exists>e. decode v = Some e \<and> wf e \<and> same_fields v (encode e))"
    and decode_encode: "decode (encode e) = Some e"
    and decode_cong: "same_fields v w \<Longrightarrow> decode v = decode w"
begin

lemma validate_encode: "validate (encode e) = Pass w \<longleftrightarrow> w = encode e \<and> wf e"
  using complete [of e] sound [of "encode e" w] by (auto simp: decode_encode)

lemma reads_as_one_envelope:
  assumes "validate v = Pass w"
  shows "\<exists>!e. wf e \<and> same_fields v (encode e)"
proof -
  obtain e where e: "decode v = Some e" "wf e" "same_fields v (encode e)"
    using sound [OF assms] by blast
  have "e' = e" if "same_fields v (encode e')" for e'
    using decode_cong [OF that] e(1) by (simp add: decode_encode)
  with e show ?thesis by blast
qed

end

section \<open>Building blocks\<close>

definition envelope :: "string \<Rightarrow> (string \<times> jsvalue) list \<Rightarrow> jsvalue" where
  "envelope kind fs =
     JObject ((''coordinatorVersion'', JInt 3) # (''kind'', JString kind) # fs)"

fun optional_field :: "string \<Rightarrow> nat option \<Rightarrow> (string \<times> jsvalue) list" where
  "optional_field k None = []"
| "optional_field k (Some n) = [(k, js_nat n)]"

definition positive :: "nat \<Rightarrow> bool" where
  "positive n \<longleftrightarrow> 1 \<le> n \<and> is_safe_nat n"

fun action_string :: "database_action \<Rightarrow> string" where
  "action_string OpenExisting = ''open-existing''"
| "action_string WipeBeforeOpen = ''wipe-before-open''"

definition read_action :: "jsvalue \<Rightarrow> database_action" where
  "read_action v = (if v = JString ''open-existing'' then OpenExisting else WipeBeforeOpen)"

lemma envelope_simps [simp]:
  "isRecord (envelope k fs)"
  "get (envelope k fs) ''coordinatorVersion'' = JInt 3"
  "get (envelope k fs) ''kind'' = JString k"
  "f \<noteq> ''coordinatorVersion'' \<Longrightarrow> f \<noteq> ''kind'' \<Longrightarrow> get (envelope k fs) f = get (JObject fs) f"
  "hasVersion (envelope k fs)"
  "header_ok (envelope k fs)"
  by (auto simp: envelope_def hasVersion_def header_ok_def)

lemma hasOnlyKeys_envelope [simp]:
  "hasOnlyKeys (envelope k fs) (''coordinatorVersion'' # ''kind'' # ks) \<longleftrightarrow>
     hasOnlyKeys (JObject fs) (''coordinatorVersion'' # ''kind'' # ks)"
  by (simp add: envelope_def)

lemma isPositiveInteger_js_nat [simp]: "isPositiveInteger (js_nat n) = positive n"
  by (auto simp: js_nat_def positive_def is_safe_nat_code)

lemma the_nat_js_nat [simp]: "the_nat (js_nat n) = n" "optional_nat (js_nat n) = Some n" "js_nat n \<noteq> JUndefined"
  by (simp_all add: js_nat_def)

lemma positive_integerE:
  assumes "isPositiveInteger v"
  obtains n where "v = js_nat n" "positive n"
  using assms by (auto simp: isPositiveInteger_iff js_nat_def positive_def)

lemma optional_positiveE:
  assumes "isOptionalPositiveInteger v"
  obtains "v = JUndefined" | n where "v = js_nat n" "positive n"
  using assms by (auto simp: isOptionalPositiveInteger_def elim: positive_integerE)

lemma non_empty_stringE:
  assumes "isNonEmptyString v"
  obtains s where "v = JString s" "s \<noteq> ''''"
  using assms by (auto simp: isNonEmptyString_iff)

lemma database_actionE:
  assumes "isDatabaseAction v"
  obtains a where "v = JString (action_string a)"
  using assms by (auto simp: isDatabaseAction_def intro: that [of OpenExisting] that [of WipeBeforeOpen])

lemma action_string_simps [simp]:
  "isDatabaseAction (JString (action_string a))" "read_action (JString (action_string a)) = a"
  by (cases a; simp add: isDatabaseAction_def read_action_def)+

text \<open>Optional fields of an encoded envelope.\<close>

lemma optional_field_simps [simp]:
  "hasOnlyKeys (JObject (optional_field k x)) ks \<longleftrightarrow> (x \<noteq> None \<longrightarrow> k \<in> set ks)"
  "map_of (optional_field k x) f = (if f = k then map_option js_nat x else None)"
  by (cases x; simp)+

lemma optional_positive_simps [simp]:
  "isOptionalPositiveInteger JUndefined" "isOptionalPositiveInteger (js_nat n) = positive n"
  by (simp_all add: isOptionalPositiveInteger_def)

lemma check_kind_Pass:
  "check_kind kinds v = Pass w \<longleftrightarrow>
     w = v \<and> (\<exists>p. map_of kinds (the_string (get v ''kind'')) = Some p \<and> p v)"
  by (auto simp: check_kind_def invalid_envelope_def split: option.splits if_splits)

lemma header_okE:
  assumes "header_ok v"
  obtains k where "isRecord v" "get v ''coordinatorVersion'' = JInt 3" "get v ''kind'' = JString k"
  using assms by (auto simp: header_ok_def hasVersion_def isString_iff)

lemmas field_elims = positive_integerE optional_positiveE non_empty_stringE database_actionE

section \<open>Tab to coordinator\<close>

datatype tab_envelope =
  RegisterTabEnv string tab_id string "nat option"
| CacheRequestEnv tab_id jsvalue
| AttachEnginePortEnv tab_id nat jsvalue
| GracefulDepartureEnv tab_id nat
| NavigationDepartureEnv tab_id nat string
| EngineLostEnv tab_id nat string
| DisconnectTabEnv tab_id string

fun encode_tab :: "tab_envelope \<Rightarrow> jsvalue" where
  "encode_tab (RegisterTabEnv sc t lock hot) = envelope ''register-tab''
     ([(''scope'', JString sc), (''tabId'', JString t), (''livenessLockName'', JString lock)] @
      optional_field ''hotCapacity'' hot)"
| "encode_tab (CacheRequestEnv t req) = envelope ''cache-request''
     [(''tabId'', JString t), (''request'', req)]"
| "encode_tab (AttachEnginePortEnv t e port) = envelope ''attach-engine-port''
     [(''tabId'', JString t), (''ownerEpoch'', js_nat e), (''enginePort'', port)]"
| "encode_tab (GracefulDepartureEnv t e) = envelope ''graceful-departure''
     [(''tabId'', JString t), (''ownerEpoch'', js_nat e)]"
| "encode_tab (NavigationDepartureEnv t e why) = envelope ''navigation-departure''
     [(''tabId'', JString t), (''ownerEpoch'', js_nat e), (''reason'', JString why)]"
| "encode_tab (EngineLostEnv t e why) = envelope ''engine-lost''
     [(''tabId'', JString t), (''ownerEpoch'', js_nat e), (''reason'', JString why)]"
| "encode_tab (DisconnectTabEnv t why) = envelope ''disconnect-tab''
     [(''tabId'', JString t), (''reason'', JString why)]"

definition decode_tab :: "jsvalue \<Rightarrow> tab_envelope option" where
  "decode_tab v =
     (let k = the_string (get v ''kind''); t = the_string (get v ''tabId'');
          e = the_nat (get v ''ownerEpoch''); why = the_string (get v ''reason'')
      in if k = ''register-tab'' then Some (RegisterTabEnv (the_string (get v ''scope'')) t
           (the_string (get v ''livenessLockName'')) (optional_nat (get v ''hotCapacity'')))
         else if k = ''cache-request'' then Some (CacheRequestEnv t (get v ''request''))
         else if k = ''attach-engine-port'' then Some (AttachEnginePortEnv t e (get v ''enginePort''))
         else if k = ''graceful-departure'' then Some (GracefulDepartureEnv t e)
         else if k = ''navigation-departure'' then Some (NavigationDepartureEnv t e why)
         else if k = ''engine-lost'' then Some (EngineLostEnv t e why)
         else if k = ''disconnect-tab'' then Some (DisconnectTabEnv t why)
         else None)"

fun wf_tab :: "tab_envelope \<Rightarrow> bool" where
  "wf_tab (RegisterTabEnv sc t lock hot) \<longleftrightarrow> sc \<noteq> '''' \<and> t \<noteq> '''' \<and> lock \<noteq> '''' \<and>
     (case hot of None \<Rightarrow> True | Some n \<Rightarrow> positive n)"
| "wf_tab (CacheRequestEnv t req) \<longleftrightarrow> t \<noteq> '''' \<and> isCacheRequest req"
| "wf_tab (AttachEnginePortEnv t e port) \<longleftrightarrow> t \<noteq> '''' \<and> positive e \<and> isMessagePort port"
| "wf_tab (GracefulDepartureEnv t e) \<longleftrightarrow> t \<noteq> '''' \<and> positive e"
| "wf_tab (NavigationDepartureEnv t e why) \<longleftrightarrow> t \<noteq> '''' \<and> positive e \<and> why \<noteq> ''''"
| "wf_tab (EngineLostEnv t e why) \<longleftrightarrow> t \<noteq> '''' \<and> positive e \<and> why \<noteq> ''''"
| "wf_tab (DisconnectTabEnv t why) \<longleftrightarrow> t \<noteq> '''' \<and> why \<noteq> ''''"

lemma tab_complete: "wf_tab e \<Longrightarrow> validateTabToCoordinatorEnvelope (encode_tab e) = Pass (encode_tab e)"
  by (cases e) (simp_all add: validateTabToCoordinatorEnvelope_def check_kind_def tab_envelope_kinds_def
      split: option.splits)

lemma tab_decode_encode: "decode_tab (encode_tab e) = Some e"
  by (cases e) (simp_all add: decode_tab_def split: option.splits)

lemma tab_sound:
  assumes "validateTabToCoordinatorEnvelope v = Pass w"
  shows "w = v \<and> (\<exists>e. decode_tab v = Some e \<and> wf_tab e \<and> same_fields v (encode_tab e))"
proof -
  have head: "header_ok v" "isNonEmptyString (get v ''tabId'')"
    using assms by (auto simp: validateTabToCoordinatorEnvelope_def split: if_splits)
  obtain k where k: "get v ''coordinatorVersion'' = JInt 3" "get v ''kind'' = JString k"
    using head(1) by (rule header_okE)
  obtain t where t: "get v ''tabId'' = JString t" "t \<noteq> ''''"
    using head(2) by (rule non_empty_stringE)
  obtain p where p: "w = v" "map_of tab_envelope_kinds k = Some p" "p v"
    using assms head k by (auto simp: validateTabToCoordinatorEnvelope_def check_kind_Pass)
  show ?thesis
    using p(2,3) k t p(1)
    by (auto simp: tab_envelope_kinds_def decode_tab_def split: if_splits elim!: field_elims)
      (erule same_fieldsI; simp)+
qed

interpretation tab_codec: envelope_codec validateTabToCoordinatorEnvelope encode_tab decode_tab wf_tab
  by unfold_locales
    (blast intro: tab_complete tab_decode_encode dest: tab_sound | simp add: decode_tab_def same_fields_def Let_def)+

section \<open>Coordinator to tab\<close>

fun phase_string :: "engine_startup_phase \<Rightarrow> string" where
  "phase_string LoadingAssets = ''loading-assets''"
| "phase_string OpeningDatabase = ''opening-database''"

definition read_phase :: "jsvalue \<Rightarrow> engine_startup_phase" where
  "read_phase v = (if v = JString ''loading-assets'' then LoadingAssets else OpeningDatabase)"

lemma phase_string_simps [simp]:
  "JString (phase_string p) = JString ''loading-assets'' \<or> JString (phase_string p) = JString ''opening-database''"
  "phase_string p = ''loading-assets'' \<or> phase_string p = ''opening-database''"
  "read_phase (JString (phase_string p)) = p"
  by (cases p; simp add: read_phase_def)+

lemma read_phase_simps [simp]:
  "read_phase (JString ''loading-assets'') = LoadingAssets"
  "read_phase (JString ''opening-database'') = OpeningDatabase"
  by (simp_all add: read_phase_def)

datatype coordinator_to_tab =
  RegisteredEnv tab_id
| BecomeOwnerEnv string tab_id nat database_action string "nat option"
| CacheMessageEnv jsvalue
| TerminateEngineEnv tab_id nat string
| RetireCompleteEnv tab_id nat
| EngineStartupEnv nat engine_startup_phase database_action nat
| EngineReplacedEnv nat
| ProtocolErrorEnv string
| TerminalErrorEnv string bool

fun encode_to_tab :: "coordinator_to_tab \<Rightarrow> jsvalue" where
  "encode_to_tab (RegisteredEnv t) = envelope ''registered'' [(''tabId'', JString t)]"
| "encode_to_tab (BecomeOwnerEnv sc t e act lock hot) = envelope ''become-owner''
     ([(''scope'', JString sc), (''tabId'', JString t), (''ownerEpoch'', js_nat e),
       (''databaseAction'', JString (action_string act)), (''ownerLockName'', JString lock)] @
      optional_field ''hotCapacity'' hot)"
| "encode_to_tab (CacheMessageEnv msg) = envelope ''cache-message'' [(''message'', msg)]"
| "encode_to_tab (TerminateEngineEnv t e why) = envelope ''terminate-engine''
     [(''tabId'', JString t), (''ownerEpoch'', js_nat e), (''reason'', JString why)]"
| "encode_to_tab (RetireCompleteEnv t e) = envelope ''retire-complete''
     [(''tabId'', JString t), (''ownerEpoch'', js_nat e)]"
| "encode_to_tab (EngineStartupEnv e ph act ms) = envelope ''engine-startup''
     [(''ownerEpoch'', js_nat e), (''phase'', JString (phase_string ph)),
      (''databaseAction'', JString (action_string act)), (''timeoutMs'', js_nat ms)]"
| "encode_to_tab (EngineReplacedEnv e) = envelope ''engine-replaced'' [(''ownerEpoch'', js_nat e)]"
| "encode_to_tab (ProtocolErrorEnv err) = envelope ''protocol-error'' [(''error'', JString err)]"
| "encode_to_tab (TerminalErrorEnv err untouched) = envelope ''terminal-error''
     ((''error'', JString err) # (if untouched then [(''storageUntouched'', JBool True)] else []))"

definition decode_to_tab :: "jsvalue \<Rightarrow> coordinator_to_tab option" where
  "decode_to_tab v =
     (let k = the_string (get v ''kind''); t = the_string (get v ''tabId'');
          e = the_nat (get v ''ownerEpoch''); act = read_action (get v ''databaseAction'')
      in if k = ''registered'' then Some (RegisteredEnv t)
         else if k = ''become-owner'' then Some (BecomeOwnerEnv (the_string (get v ''scope'')) t e act
           (the_string (get v ''ownerLockName'')) (optional_nat (get v ''hotCapacity'')))
         else if k = ''cache-message'' then Some (CacheMessageEnv (get v ''message''))
         else if k = ''terminate-engine'' then Some (TerminateEngineEnv t e (the_string (get v ''reason'')))
         else if k = ''retire-complete'' then Some (RetireCompleteEnv t e)
         else if k = ''engine-startup'' then Some (EngineStartupEnv e (read_phase (get v ''phase'')) act
           (the_nat (get v ''timeoutMs'')))
         else if k = ''engine-replaced'' then Some (EngineReplacedEnv e)
         else if k = ''protocol-error'' then Some (ProtocolErrorEnv (the_string (get v ''error'')))
         else if k = ''terminal-error'' then Some (TerminalErrorEnv (the_string (get v ''error''))
           (get v ''storageUntouched'' = JBool True))
         else None)"

fun wf_to_tab :: "coordinator_to_tab \<Rightarrow> bool" where
  "wf_to_tab (RegisteredEnv t) \<longleftrightarrow> t \<noteq> ''''"
| "wf_to_tab (BecomeOwnerEnv sc t e act lock hot) \<longleftrightarrow> sc \<noteq> '''' \<and> t \<noteq> '''' \<and> positive e \<and> lock \<noteq> '''' \<and>
     (case hot of None \<Rightarrow> True | Some n \<Rightarrow> positive n)"
| "wf_to_tab (CacheMessageEnv msg) \<longleftrightarrow> isWorkerMessage msg"
| "wf_to_tab (TerminateEngineEnv t e why) \<longleftrightarrow> t \<noteq> '''' \<and> positive e \<and> why \<noteq> ''''"
| "wf_to_tab (RetireCompleteEnv t e) \<longleftrightarrow> t \<noteq> '''' \<and> positive e"
| "wf_to_tab (EngineStartupEnv e ph act ms) \<longleftrightarrow> positive e \<and> positive ms"
| "wf_to_tab (EngineReplacedEnv e) \<longleftrightarrow> positive e"
| "wf_to_tab (ProtocolErrorEnv err) \<longleftrightarrow> err \<noteq> ''''"
| "wf_to_tab (TerminalErrorEnv err untouched) \<longleftrightarrow> err \<noteq> ''''"

lemma to_tab_complete:
  "wf_to_tab e \<Longrightarrow> validateCoordinatorToTabEnvelope (encode_to_tab e) = Pass (encode_to_tab e)"
  by (cases e) (simp_all add: validateCoordinatorToTabEnvelope_def check_kind_def
      coordinator_to_tab_kinds_def split: option.splits)

lemma to_tab_decode_encode: "decode_to_tab (encode_to_tab e) = Some e"
  by (cases e) (simp_all add: decode_to_tab_def split: option.splits)

lemma to_tab_sound:
  assumes "validateCoordinatorToTabEnvelope v = Pass w"
  shows "w = v \<and> (\<exists>e. decode_to_tab v = Some e \<and> wf_to_tab e \<and> same_fields v (encode_to_tab e))"
proof -
  have head: "header_ok v" using assms by (auto simp: validateCoordinatorToTabEnvelope_def split: if_splits)
  obtain k where k: "get v ''coordinatorVersion'' = JInt 3" "get v ''kind'' = JString k"
    using head by (rule header_okE)
  obtain p where p: "w = v" "map_of coordinator_to_tab_kinds k = Some p" "p v"
    using assms head k by (auto simp: validateCoordinatorToTabEnvelope_def check_kind_Pass)
  show ?thesis
    using p(2,3) k p(1)
    by (auto simp: coordinator_to_tab_kinds_def decode_to_tab_def split: if_splits elim!: field_elims)
      (erule same_fieldsI; simp)+
qed

interpretation to_tab_codec: envelope_codec validateCoordinatorToTabEnvelope encode_to_tab
    decode_to_tab wf_to_tab
  by unfold_locales
    (blast intro: to_tab_complete to_tab_decode_encode dest: to_tab_sound
      | simp add: decode_to_tab_def same_fields_def Let_def)+

section \<open>Page to engine\<close>

datatype page_to_engine = ActivateEngineEnv string tab_id nat database_action string "nat option"

fun encode_to_page_engine :: "page_to_engine \<Rightarrow> jsvalue" where
  "encode_to_page_engine (ActivateEngineEnv sc t e act lock hot) = envelope ''activate-engine''
     ([(''scope'', JString sc), (''tabId'', JString t), (''ownerEpoch'', js_nat e),
       (''databaseAction'', JString (action_string act)), (''ownerLockName'', JString lock)] @
      optional_field ''hotCapacity'' hot)"

definition decode_to_page_engine :: "jsvalue \<Rightarrow> page_to_engine option" where
  "decode_to_page_engine v = Some (ActivateEngineEnv (the_string (get v ''scope''))
     (the_string (get v ''tabId'')) (the_nat (get v ''ownerEpoch'')) (read_action (get v ''databaseAction''))
     (the_string (get v ''ownerLockName'')) (optional_nat (get v ''hotCapacity'')))"

fun wf_page_to_engine :: "page_to_engine \<Rightarrow> bool" where
  "wf_page_to_engine (ActivateEngineEnv sc t e act lock hot) \<longleftrightarrow> sc \<noteq> '''' \<and> t \<noteq> '''' \<and> positive e \<and>
     lock \<noteq> '''' \<and> (case hot of None \<Rightarrow> True | Some n \<Rightarrow> positive n)"

lemma page_to_engine_sound:
  assumes "validatePageToEngineEnvelope v = Pass w"
  shows "w = v \<and> (\<exists>e. decode_to_page_engine v = Some e \<and> wf_page_to_engine e \<and>
    same_fields v (encode_to_page_engine e))"
  using assms
  by (auto simp: validatePageToEngineEnvelope_def decode_to_page_engine_def hasVersion_def
      split: if_splits elim!: field_elims) (erule same_fieldsI; simp)+

interpretation page_codec: envelope_codec validatePageToEngineEnvelope encode_to_page_engine
    decode_to_page_engine wf_page_to_engine
proof
  show "wf_page_to_engine e \<Longrightarrow>
      validatePageToEngineEnvelope (encode_to_page_engine e) = Pass (encode_to_page_engine e)" for e
    by (cases e) (simp add: validatePageToEngineEnvelope_def split: option.splits)
  show "decode_to_page_engine (encode_to_page_engine e) = Some e" for e
    by (cases e) (simp add: decode_to_page_engine_def split: option.splits)
  show "same_fields v w \<Longrightarrow> decode_to_page_engine v = decode_to_page_engine w" for v w
    by (simp add: decode_to_page_engine_def same_fields_def)
qed (rule page_to_engine_sound)

section \<open>Coordinator to engine\<close>

datatype coordinator_to_engine =
  OpenEngineEnv nat
| EngineRequestEnv nat nat jsvalue
| DrainEngineEnv nat
| HeartbeatEnv nat nat

fun encode_to_engine :: "coordinator_to_engine \<Rightarrow> jsvalue" where
  "encode_to_engine (OpenEngineEnv e) = envelope ''open-engine'' [(''ownerEpoch'', js_nat e)]"
| "encode_to_engine (EngineRequestEnv e r req) = envelope ''engine-request''
     [(''ownerEpoch'', js_nat e), (''routeId'', js_nat r), (''request'', req)]"
| "encode_to_engine (DrainEngineEnv e) = envelope ''drain-engine'' [(''ownerEpoch'', js_nat e)]"
| "encode_to_engine (HeartbeatEnv e i) = envelope ''heartbeat''
     [(''ownerEpoch'', js_nat e), (''heartbeatId'', js_nat i)]"

definition decode_to_engine :: "jsvalue \<Rightarrow> coordinator_to_engine option" where
  "decode_to_engine v =
     (let k = the_string (get v ''kind''); e = the_nat (get v ''ownerEpoch'')
      in if k = ''open-engine'' then Some (OpenEngineEnv e)
         else if k = ''engine-request''
         then Some (EngineRequestEnv e (the_nat (get v ''routeId'')) (get v ''request''))
         else if k = ''drain-engine'' then Some (DrainEngineEnv e)
         else if k = ''heartbeat'' then Some (HeartbeatEnv e (the_nat (get v ''heartbeatId'')))
         else None)"

fun wf_to_engine :: "coordinator_to_engine \<Rightarrow> bool" where
  "wf_to_engine (OpenEngineEnv e) \<longleftrightarrow> positive e"
| "wf_to_engine (EngineRequestEnv e r req) \<longleftrightarrow> positive e \<and> positive r \<and> isCacheRequest req \<and>
     get req ''id'' = js_nat r"
| "wf_to_engine (DrainEngineEnv e) \<longleftrightarrow> positive e"
| "wf_to_engine (HeartbeatEnv e i) \<longleftrightarrow> positive e \<and> positive i"

lemma to_engine_complete:
  "wf_to_engine e \<Longrightarrow> validateCoordinatorToEngineEnvelope (encode_to_engine e) = Pass (encode_to_engine e)"
  by (cases e) (simp_all add: validateCoordinatorToEngineEnvelope_def check_kind_def
      coordinator_to_engine_kinds_def)

lemma to_engine_sound:
  assumes "validateCoordinatorToEngineEnvelope v = Pass w"
  shows "w = v \<and> (\<exists>e. decode_to_engine v = Some e \<and> wf_to_engine e \<and> same_fields v (encode_to_engine e))"
proof -
  have head: "header_ok v"
    using assms by (auto simp: validateCoordinatorToEngineEnvelope_def split: if_splits)
  obtain k where k: "get v ''coordinatorVersion'' = JInt 3" "get v ''kind'' = JString k"
    using head by (rule header_okE)
  obtain p where p: "w = v" "map_of coordinator_to_engine_kinds k = Some p" "p v"
    using assms head k by (auto simp: validateCoordinatorToEngineEnvelope_def check_kind_Pass)
  show ?thesis
    using p(2,3) k p(1)
    by (auto simp: coordinator_to_engine_kinds_def decode_to_engine_def split: if_splits elim!: field_elims)
      (erule same_fieldsI; simp)+
qed

interpretation to_engine_codec: envelope_codec validateCoordinatorToEngineEnvelope encode_to_engine
    decode_to_engine wf_to_engine
proof
  show "decode_to_engine (encode_to_engine e) = Some e" for e
    by (cases e) (simp_all add: decode_to_engine_def)
  show "same_fields v w \<Longrightarrow> decode_to_engine v = decode_to_engine w" for v w
    by (simp add: decode_to_engine_def same_fields_def Let_def)
qed (blast intro: to_engine_complete dest: to_engine_sound)+

section \<open>Engine to coordinator\<close>

fun proof_string :: "database_action_proof \<Rightarrow> string" where
  "proof_string OpenedExisting = ''opened-existing''"
| "proof_string WipedBeforeOpen = ''wiped-before-open''"

definition read_proof :: "jsvalue \<Rightarrow> database_action_proof" where
  "read_proof v = (if v = JString ''opened-existing'' then OpenedExisting else WipedBeforeOpen)"

definition read_outcome :: "jsvalue \<Rightarrow> engine_open_outcome" where
  "read_outcome v =
     (if v = JString ''opened-existing'' then OutcomeOpenedExisting
      else if v = JString ''opened-new'' then OutcomeOpenedNew
      else if v = JString ''reset-incompatible'' then ResetIncompatible
      else if v = JString ''reset-corrupt'' then ResetCorrupt else ResetStorageUncertain)"

datatype engine_fatal_code = StorageResetRequired | RuntimeFailure
datatype activation_failure_code = InitializationFailed | RecoveryOpenFailed

fun fatal_string :: "engine_fatal_code \<Rightarrow> string" where
  "fatal_string StorageResetRequired = ''storage-reset-required''"
| "fatal_string RuntimeFailure = ''runtime-failure''"

definition read_fatal :: "jsvalue \<Rightarrow> engine_fatal_code" where
  "read_fatal v = (if v = JString ''storage-reset-required'' then StorageResetRequired else RuntimeFailure)"

fun failure_string :: "activation_failure_code \<Rightarrow> string" where
  "failure_string InitializationFailed = ''initialization-failed''"
| "failure_string RecoveryOpenFailed = ''recovery-open-failed''"

definition read_failure :: "jsvalue \<Rightarrow> activation_failure_code" where
  "read_failure v = (if v = JString ''initialization-failed'' then InitializationFailed else RecoveryOpenFailed)"

lemma proof_string_simps [simp]:
  "isDatabaseActionProof (JString (proof_string p))" "read_proof (JString (proof_string p)) = p"
  by (cases p; simp add: isDatabaseActionProof_def read_proof_def)+

lemma outcome_string_simps [simp]:
  "isEngineOpenOutcome (JString (outcome_string out))" "read_outcome (JString (outcome_string out)) = out"
  by (cases out; simp add: isEngineOpenOutcome_def read_outcome_def image_iff)+

lemma fatal_string_simps [simp]:
  "isEngineFatalCode (JString (fatal_string f))" "read_fatal (JString (fatal_string f)) = f"
  by (cases f; simp add: isEngineFatalCode_def read_fatal_def)+

lemma failure_string_simps [simp]:
  "isActivationFailureCode (JString (failure_string g))" "read_failure (JString (failure_string g)) = g"
  by (cases g; simp add: isActivationFailureCode_def read_failure_def)+

lemma code_elims:
  "isDatabaseActionProof v \<Longrightarrow> (\<And>p. v = JString (proof_string p) \<Longrightarrow> P) \<Longrightarrow> P"
  "isEngineOpenOutcome v \<Longrightarrow> (\<And>out. v = JString (outcome_string out) \<Longrightarrow> P) \<Longrightarrow> P"
  "isEngineFatalCode v \<Longrightarrow> (\<And>f. v = JString (fatal_string f) \<Longrightarrow> P) \<Longrightarrow> P"
  "isActivationFailureCode v \<Longrightarrow> (\<And>g. v = JString (failure_string g) \<Longrightarrow> P) \<Longrightarrow> P"
  by (auto simp: isDatabaseActionProof_def isEngineOpenOutcome_def isEngineFatalCode_def
      isActivationFailureCode_def)
    (metis proof_string.simps outcome_string.simps fatal_string.simps failure_string.simps)+

datatype engine_envelope =
  EngineAssetsReadyEnv tab_id nat
| EngineReadyEnv tab_id nat string database_action_proof engine_open_outcome
| EngineResponseEnv nat nat jsvalue
| EnginePushEnv nat jsvalue
| EngineDrainedEnv tab_id nat
| EngineFatalEnv tab_id nat string engine_fatal_code
| ActivationFailedEnv tab_id nat string activation_failure_code
| HeartbeatAckEnv nat nat

fun encode_engine :: "engine_envelope \<Rightarrow> jsvalue" where
  "encode_engine (EngineAssetsReadyEnv t e) = envelope ''engine-assets-ready''
     [(''tabId'', JString t), (''ownerEpoch'', js_nat e)]"
| "encode_engine (EngineReadyEnv t e lock p out) = envelope ''engine-ready''
     [(''tabId'', JString t), (''ownerEpoch'', js_nat e), (''ownerLockName'', JString lock),
      (''ownerLockHeld'', JBool True), (''databaseActionProof'', JString (proof_string p)),
      (''openOutcome'', JString (outcome_string out))]"
| "encode_engine (EngineResponseEnv e r resp) = envelope ''engine-response''
     [(''ownerEpoch'', js_nat e), (''routeId'', js_nat r), (''response'', resp)]"
| "encode_engine (EnginePushEnv e push) = envelope ''engine-push''
     [(''ownerEpoch'', js_nat e), (''push'', push)]"
| "encode_engine (EngineDrainedEnv t e) = envelope ''engine-drained''
     [(''tabId'', JString t), (''ownerEpoch'', js_nat e)]"
| "encode_engine (EngineFatalEnv t e why code) = envelope ''engine-fatal''
     [(''tabId'', JString t), (''ownerEpoch'', js_nat e), (''reason'', JString why),
      (''fatalCode'', JString (fatal_string code))]"
| "encode_engine (ActivationFailedEnv t e why code) = envelope ''activation-failed''
     [(''tabId'', JString t), (''ownerEpoch'', js_nat e), (''reason'', JString why),
      (''failureCode'', JString (failure_string code))]"
| "encode_engine (HeartbeatAckEnv e i) = envelope ''heartbeat-ack''
     [(''ownerEpoch'', js_nat e), (''heartbeatId'', js_nat i)]"

definition decode_engine :: "jsvalue \<Rightarrow> engine_envelope option" where
  "decode_engine v =
     (let k = the_string (get v ''kind''); t = the_string (get v ''tabId'');
          e = the_nat (get v ''ownerEpoch''); why = the_string (get v ''reason'')
      in if k = ''engine-assets-ready'' then Some (EngineAssetsReadyEnv t e)
         else if k = ''engine-ready'' then Some (EngineReadyEnv t e (the_string (get v ''ownerLockName''))
           (read_proof (get v ''databaseActionProof'')) (read_outcome (get v ''openOutcome'')))
         else if k = ''engine-response''
         then Some (EngineResponseEnv e (the_nat (get v ''routeId'')) (get v ''response''))
         else if k = ''engine-push'' then Some (EnginePushEnv e (get v ''push''))
         else if k = ''engine-drained'' then Some (EngineDrainedEnv t e)
         else if k = ''engine-fatal'' then Some (EngineFatalEnv t e why (read_fatal (get v ''fatalCode'')))
         else if k = ''activation-failed''
         then Some (ActivationFailedEnv t e why (read_failure (get v ''failureCode'')))
         else if k = ''heartbeat-ack'' then Some (HeartbeatAckEnv e (the_nat (get v ''heartbeatId'')))
         else None)"

fun wf_engine :: "engine_envelope \<Rightarrow> bool" where
  "wf_engine (EngineAssetsReadyEnv t e) \<longleftrightarrow> t \<noteq> '''' \<and> positive e"
| "wf_engine (EngineReadyEnv t e lock p out) \<longleftrightarrow> t \<noteq> '''' \<and> positive e \<and> lock \<noteq> ''''"
| "wf_engine (EngineResponseEnv e r resp) \<longleftrightarrow> positive e \<and> positive r \<and> isCacheResponse resp \<and>
     (get resp ''ok'' = JBool True \<or> get resp ''errorCode'' = JUndefined) \<and> get resp ''id'' = js_nat r"
| "wf_engine (EnginePushEnv e push) \<longleftrightarrow> positive e \<and> isCachePush push"
| "wf_engine (EngineDrainedEnv t e) \<longleftrightarrow> t \<noteq> '''' \<and> positive e"
| "wf_engine (EngineFatalEnv t e why code) \<longleftrightarrow> t \<noteq> '''' \<and> positive e \<and> why \<noteq> ''''"
| "wf_engine (ActivationFailedEnv t e why code) \<longleftrightarrow> t \<noteq> '''' \<and> positive e \<and> why \<noteq> ''''"
| "wf_engine (HeartbeatAckEnv e i) \<longleftrightarrow> positive e \<and> positive i"

lemma engine_complete:
  "wf_engine e \<Longrightarrow> validateEngineToCoordinatorEnvelope (encode_engine e) = Pass (encode_engine e)"
  by (cases e) (auto simp: validateEngineToCoordinatorEnvelope_def check_kind_def
      engine_to_coordinator_kinds_def)

lemma engine_sound:
  assumes "validateEngineToCoordinatorEnvelope v = Pass w"
  shows "w = v \<and> (\<exists>e. decode_engine v = Some e \<and> wf_engine e \<and> same_fields v (encode_engine e))"
proof -
  have head: "header_ok v"
    using assms by (auto simp: validateEngineToCoordinatorEnvelope_def split: if_splits)
  obtain k where k: "get v ''coordinatorVersion'' = JInt 3" "get v ''kind'' = JString k"
    using head by (rule header_okE)
  obtain p where p: "w = v" "map_of engine_to_coordinator_kinds k = Some p" "p v"
    using assms head k by (auto simp: validateEngineToCoordinatorEnvelope_def check_kind_Pass)
  show ?thesis
    using p(2,3) k p(1)
    by (auto simp: engine_to_coordinator_kinds_def decode_engine_def split: if_splits
        elim!: field_elims code_elims) (erule same_fieldsI; simp)+
qed

interpretation engine_codec: envelope_codec validateEngineToCoordinatorEnvelope encode_engine
    decode_engine wf_engine
proof
  show "decode_engine (encode_engine e) = Some e" for e
    by (cases e) (simp_all add: decode_engine_def)
  show "same_fields v w \<Longrightarrow> decode_engine v = decode_engine w" for v w
    by (simp add: decode_engine_def same_fields_def Let_def)
qed (blast intro: engine_complete dest: engine_sound)+

end
