(* ===== verification/ProtocolClaims.thy ===== *)
theory ProtocolClaims
  imports EnvelopeCodec CoordinatorRuns
begin

text \<open>
  Properties of the envelope validators, and of the coordinator core together with them:
  what the core routes to the engine and delivers to the tabs passes the validators on the
  receiving side.
\<close>

section \<open>The queue and the route counter under calls that route nothing\<close>

definition keeps_routes :: "'q coordinator_core \<Rightarrow> 'q coordinator_core \<Rightarrow> bool" where
  "keeps_routes c c' \<longleftrightarrow>
     nextRouteId c' = nextRouteId c \<and> set (queuedRequests c') \<subseteq> set (queuedRequests c)"

lemma activateNext_keeps: "keeps_routes c (fst (activateNext act (c\<lparr>tabs := ts\<rparr>)))"
  by (simp add: activateNext_def Let_def keeps_routes_def)

lemma abrupt_loss_keeps:
  assumes inv: "core_inv c"
  shows "keeps_routes c (fst (transitionToAbruptLoss t e why c))"
proof (cases "owner_of (stateValue c) = Some (t, e)")
  case True
  show ?thesis unfolding abrupt_loss_eq [OF inv True] by (simp add: keeps_routes_def)
qed (simp add: transitionToAbruptLoss_def keeps_routes_def)

lemma departure_keeps:
  fixes c :: "'q coordinator_core"
  assumes inv: "core_inv c"
  shows "keeps_routes c (fst (engineDrained t e c :: ('q, 'r, 'p) core_result))"
    and "keeps_routes c (fst (departForNavigation t e why c :: ('q, 'r, 'p) core_result))"
proof -
  show "keeps_routes c (fst (engineDrained t e c :: ('q, 'r, 'p) core_result))"
  proof (cases "stateValue c = Draining t e")
    case True
    show ?thesis unfolding engineDrained_eq [OF inv True] after_departure_eq [OF inv]
      by (simp add: keeps_routes_def)
  qed (simp add: engineDrained_def recordProtocolViolation_def keeps_routes_def)
  show "keeps_routes c (fst (departForNavigation t e why c :: ('q, 'r, 'p) core_result))"
  proof (cases "owner_of (stateValue c) = Some (t, e)")
    case True
    show ?thesis unfolding departForNavigation_eq [OF inv True] after_departure_eq [OF inv]
      by (simp add: keeps_routes_def)
  qed (simp add: departForNavigation_def recordProtocolViolation_def keeps_routes_def)
qed

lemma tabLost_keeps:
  fixes c :: "'q coordinator_core"
  assumes inv: "core_inv c"
  shows "keeps_routes c (fst (tabLost t why c :: ('q, 'r, 'p) core_result))"
proof (cases "t \<in> set (tabs c)")
  case True
  have "keeps_routes c (fst (tab_loss t why c :: ('q, 'r, 'p) core_result))"
    by (simp add: tab_loss_def abrupt_loss_keeps [OF inv] split: option.splits)
      (simp add: keeps_routes_def)
  then show ?thesis unfolding tabLost_eq [OF inv True]
    by (auto simp: case_prod_beta keeps_routes_def removeTabRecord_def)
qed (simp add: tabLost_def keeps_routes_def)

fun may_route :: "('q, 'r, 'p) core_event \<Rightarrow> bool" where
  "may_route (EvRequest _ _) = True"
| "may_route (EvEngineReady _) = True"
| "may_route _ = False"

lemma core_step_keeps:
  assumes "core_inv c" and "\<not> may_route ev"
  shows "keeps_routes c (fst (core_step ev c))"
proof (cases ev)
  case (EvRegisterTab t)
  then show ?thesis
    by (simp add: registerTab_def Let_def activateNext_keeps split: coordinator_state.splits)
      (simp add: keeps_routes_def)
next
  case (EvBeginEngineOpen t e)
  then show ?thesis by (simp add: beginEngineOpen_def keeps_routes_def split: coordinator_state.splits)
next
  case (EvEngineResponse e r resp)
  then show ?thesis
    by (simp add: engineResponse_def dropStale_def keeps_routes_def split: option.splits)
next
  case (EvEnginePush e p)
  then show ?thesis by (simp add: enginePush_def dropStale_def keeps_routes_def)
next
  case (EvBeginGracefulDeparture t e)
  then show ?thesis by (simp add: beginGracefulDeparture_def recordProtocolViolation_def keeps_routes_def)
next
  case (EvTerminalFailure why)
  then show ?thesis
    by (simp add: terminalFailure_def return_checked_def Let_def keeps_routes_def
        split: coordinator_state.splits)
next
  case EvResumeAfterLoss
  then show ?thesis
    by (simp add: resumeAfterLoss_def Let_def keeps_routes_def split: coordinator_state.splits)
qed (use assms in \<open>simp_all add: departure_keeps ownerLost_def abrupt_loss_keeps tabLost_keeps\<close>)

section \<open>What is routed\<close>

fun routed_request :: "('q, 'r, 'p) coordinator_action \<Rightarrow> (owner_epoch \<times> route_id \<times> 'q cache_request) list" where
  "routed_request (RouteRequest _ _ e r req) = [(e, r, req)]"
| "routed_request _ = []"

definition routed_requests :: "'e \<times> ('q, 'r, 'p) coordinator_action list js \<Rightarrow>
    (owner_epoch \<times> route_id \<times> 'q cache_request) list" where
  "routed_requests res = concat (map routed_request (actions_of res))"

fun offered_bodies :: "('q, 'r, 'p) core_event \<Rightarrow> 'q set" where
  "offered_bodies (EvRequest _ req) = {request_body req}"
| "offered_bodies _ = {}"

definition queued_bodies :: "'q coordinator_core \<Rightarrow> 'q set" where
  "queued_bodies c = (\<lambda>q. request_body (q_request q)) ` set (queuedRequests c)"

definition well_routed :: "'q set \<Rightarrow> 'q coordinator_core \<Rightarrow> owner_epoch \<times> route_id \<times> 'q cache_request \<Rightarrow> bool" where
  "well_routed B c' x \<longleftrightarrow> (case x of (e, r, req) \<Rightarrow>
     request_id req = r \<and> request_body req \<in> B \<and> 1 \<le> r \<and> r < nextRouteId c' \<and> 1 \<le> e \<and> e = currentEpoch c')"

lemma no_routed_ids: "concat (map routed_id acts) = [] \<Longrightarrow> concat (map routed_request acts) = []"
proof (induction acts)
  case (Cons a acts)
  then show ?case by (cases a) auto
qed simp

lemma routed_actions_requests [simp]:
  "concat (map (routed_request \<circ> routed_action t e) xs) =
     map (\<lambda>(i, q). (e, i, (q_request q)\<lparr>request_id := i\<rparr>)) xs"
  by (induction xs) (auto simp: routed_action_def)

lemma core_step_routed:
  fixes ev :: "('q, 'r, 'p) core_event"
  assumes inv: "core_inv c" and ids: "ids_left c" and s: "core_step ev c = (c', res)"
  defines "B \<equiv> queued_bodies c \<union> offered_bodies ev"
  shows "queued_bodies c' \<subseteq> B \<and> (\<forall>x \<in> set (routed_requests (ev, res)). well_routed B c' x)"
proof (cases "may_route ev")
  case False
  have k: "keeps_routes c c'" using core_step_keeps [OF inv False] s by simp
  then have "concat (map routed_id (actions_of ((), res))) = []"
    using core_step_advances [OF inv, of ev] s by (auto simp: advances_def routes_advance_def keeps_routes_def)
  then have "routed_requests (ev, res) = []"
    using no_routed_ids [of "actions_of (ev, res)"] by (cases res) (auto simp: routed_requests_def)
  with k show ?thesis by (auto simp: B_def queued_bodies_def keeps_routes_def)
next
  case True
  then consider (req) t req where "ev = EvRequest t req" | (ready) r where "ev = EvEngineReady r"
    by (cases ev) auto
  then show ?thesis
  proof cases
    case req
    show ?thesis
      using s req inv
      by (cases "stateValue c")
        (auto simp: request_def route_def reject_def Let_def B_def queued_bodies_def routed_requests_def
          well_routed_def core_inv_defs split: if_splits)
  next
    case ready
    show ?thesis
    proof (cases c r rule: engineReady_cases)
      case (accept act)
      have nr: "1 \<le> nextRouteId c" "1 \<le> r_epoch r" "r_epoch r = currentEpoch c"
        using inv accept(1) by (auto simp: core_inv_defs)
      have "routed_requests (ev, res) = map (\<lambda>(i, q). (r_epoch r, i, (q_request q)\<lparr>request_id := i\<rparr>))
          (enumerate (nextRouteId c) (queuedRequests c))"
        and "nextRouteId c' = nextRouteId c + length (queuedRequests c)" "queued_bodies c' = {}"
        and "currentEpoch c' = currentEpoch c"
        using s ready engineReady_accept_eq [OF inv ids accept, where 'r = 'r and 'p = 'p]
        by (auto simp: routed_requests_def queued_bodies_def)
      then show ?thesis using nr
        by (auto simp: well_routed_def B_def queued_bodies_def in_set_enumerate_eq)
    next
      case (refuse act err)
      show ?thesis using s ready engineReady_refuse [OF inv refuse, where 'b = 'r and 'c = 'p]
        by (auto simp: routed_requests_def B_def queued_bodies_def)
    next
      case unexpected
      show ?thesis using s ready engineReady_unexpected [OF unexpected, where 'b = 'r and 'c = 'p]
        by (auto simp: routed_requests_def B_def queued_bodies_def)
    qed
  qed
qed

section \<open>Routed requests on the wire\<close>

text \<open>
  The core's request as an object: the received object with its \<open>id\<close> replaced,
  \<open>{ ...request, id: routeId }\<close>.
\<close>

definition encode_request :: "(string \<times> jsvalue) list cache_request \<Rightarrow> jsvalue" where
  "encode_request req = with_field ''id'' (js_nat (request_id req)) (JObject (request_body req))"

text \<open>A response as an object; a rejection is sent as an error response.\<close>

fun code_string :: "cache_response_error_code \<Rightarrow> string" where
  "code_string OwnerEpochLost = ''owner-epoch-lost''"
| "code_string AdmittedEnqueueUncertain = ''admitted-enqueue-uncertain''"

fun encode_response :: "jsvalue cache_response \<Rightarrow> jsvalue" where
  "encode_response (ResponseOk i res) =
     JObject [(''id'', js_nat i), (''ok'', JBool True), (''result'', res)]"
| "encode_response (ResponseError i err code) =
     JObject ([(''id'', js_nat i), (''ok'', JBool False), (''error'', JString err)] @
       (case code of None \<Rightarrow> [] | Some c \<Rightarrow> [(''errorCode'', JString (code_string c))]))"

lemma encode_response_valid: "isCacheResponse (encode_response resp) \<longleftrightarrow> is_safe_nat (response_id resp)"
proof (cases resp)
  case (ResponseOk i res)
  then show ?thesis
    by (simp add: isCacheResponse_def js_nat_def hasOwn_def is_safe_nat_code)
next
  case (ResponseError i err code)
  have "isCacheResponseErrorCode (JString (code_string c))" for c
    by (cases c) (simp_all add: isCacheResponseErrorCode_def)
  with ResponseError show ?thesis
    by (cases code) (simp_all add: isCacheResponse_def js_nat_def is_safe_nat_code)
qed

lemma run_bodies:
  fixes tr :: "(((string \<times> jsvalue) list, 'r, 'p) core_event \<times> _ list js) list"
  assumes "core_run tr c" and "request_count tr < max_safe_integer"
    and "\<forall>p \<in> set tr. \<forall>b \<in> offered_bodies (fst p). isCacheRequest (JObject b)"
  shows "(\<forall>b \<in> queued_bodies c. isCacheRequest (JObject b)) \<and>
    (\<forall>p \<in> set tr. \<forall>(e, r, req) \<in> set (routed_requests p).
       request_id req = r \<and> isCacheRequest (JObject (request_body req)) \<and>
       1 \<le> r \<and> r < nextRouteId c \<and> 1 \<le> e \<and> e \<le> currentEpoch c)"
  using assms
proof (induction rule: core_run.induct)
  case (start sc c)
  then show ?case by (auto simp: new_core_def init_core_def queued_bodies_def split: if_splits)
next
  case (step tr c ev c' res)
  have count: "request_count tr < max_safe_integer" using step.prems(1) by (simp add: request_count_def)
  note inv = core_run_inv [OF step.hyps(1)]
  have IH: "\<forall>b \<in> queued_bodies c. isCacheRequest (JObject b)"
    "\<forall>p \<in> set tr. \<forall>(e, r, req) \<in> set (routed_requests p).
       request_id req = r \<and> isCacheRequest (JObject (request_body req)) \<and>
       1 \<le> r \<and> r < nextRouteId c \<and> 1 \<le> e \<and> e \<le> currentEpoch c"
    using step.IH [OF count] step.prems(2) by auto
  note routed = core_step_routed [OF inv core_run_ids_left [OF step.hyps(1) count] step.hyps(3)]
  have mono: "nextRouteId c \<le> nextRouteId c'" "currentEpoch c \<le> currentEpoch c'"
    using core_step_advances [OF inv, of ev] step.hyps(3)
    by (auto simp: advances_def routes_advance_def epochs_advance_def Let_def)
  have off: "\<forall>b \<in> offered_bodies ev. isCacheRequest (JObject b)" using step.prems(2) by simp
  show ?case
  proof (intro conjI ballI)
    fix b assume "b \<in> queued_bodies c'"
    then show "isCacheRequest (JObject b)" using routed IH(1) off by blast
  next
    fix p x assume "p \<in> set (tr @ [(ev, res)])" and x: "x \<in> set (routed_requests p)"
    then consider "p \<in> set tr" | "p = (ev, res)" by auto
    then show "case x of (e, r, req) \<Rightarrow> request_id req = r \<and> isCacheRequest (JObject (request_body req)) \<and>
        1 \<le> r \<and> r < nextRouteId c' \<and> 1 \<le> e \<and> e \<le> currentEpoch c'"
    proof cases
      case 1
      then show ?thesis using IH(2) x mono by fastforce
    next
      case 2
      then have "well_routed (queued_bodies c \<union> offered_bodies ev) c' x" using routed x by blast
      then show ?thesis using IH(1) off by (auto simp: well_routed_def)
    qed
  qed
qed

section \<open>Claims\<close>

text \<open>
  C11: sending and validating fit together. For each of the five directions, the object an
  envelope is sent as passes the validator of that direction, unchanged, exactly when the
  envelope is well formed (non-empty names, positive safe epochs and ids, valid payloads).
\<close>

theorem envelopes_validate_exactly:
  "(validateTabToCoordinatorEnvelope (encode_tab e1) = Pass w \<longleftrightarrow> w = encode_tab e1 \<and> wf_tab e1) \<and>
   (validateCoordinatorToTabEnvelope (encode_to_tab e2) = Pass w \<longleftrightarrow> w = encode_to_tab e2 \<and> wf_to_tab e2) \<and>
   (validatePageToEngineEnvelope (encode_to_page_engine e3) = Pass w \<longleftrightarrow>
      w = encode_to_page_engine e3 \<and> wf_page_to_engine e3) \<and>
   (validateCoordinatorToEngineEnvelope (encode_to_engine e4) = Pass w \<longleftrightarrow>
      w = encode_to_engine e4 \<and> wf_to_engine e4) \<and>
   (validateEngineToCoordinatorEnvelope (encode_engine e5) = Pass w \<longleftrightarrow> w = encode_engine e5 \<and> wf_engine e5)"
  by (intro conjI tab_codec.validate_encode to_tab_codec.validate_encode page_codec.validate_encode
      to_engine_codec.validate_encode engine_codec.validate_encode)

text \<open>
  C12: the casts after validation are sound. An untrusted value that a validator passes reads
  like the encoding of exactly one well-formed envelope of the direction's type: every
  property read of the value gives what that envelope has.
\<close>

theorem validated_reads_as_one_envelope:
  "(validateTabToCoordinatorEnvelope v = Pass w1 \<longrightarrow> (\<exists>!e. wf_tab e \<and> same_fields v (encode_tab e))) \<and>
   (validateCoordinatorToTabEnvelope v = Pass w2 \<longrightarrow> (\<exists>!e. wf_to_tab e \<and> same_fields v (encode_to_tab e))) \<and>
   (validatePageToEngineEnvelope v = Pass w3 \<longrightarrow>
      (\<exists>!e. wf_page_to_engine e \<and> same_fields v (encode_to_page_engine e))) \<and>
   (validateCoordinatorToEngineEnvelope v = Pass w4 \<longrightarrow>
      (\<exists>!e. wf_to_engine e \<and> same_fields v (encode_to_engine e))) \<and>
   (validateEngineToCoordinatorEnvelope v = Pass w5 \<longrightarrow> (\<exists>!e. wf_engine e \<and> same_fields v (encode_engine e)))"
  by (intro conjI impI)
    (erule tab_codec.reads_as_one_envelope to_tab_codec.reads_as_one_envelope
      page_codec.reads_as_one_envelope to_engine_codec.reads_as_one_envelope
      engine_codec.reads_as_one_envelope)+

definition demo_heartbeat :: jsvalue where
  "demo_heartbeat = JObject [(''kind'', JString ''heartbeat''), (''heartbeatId'', JInt 4),
     (''ownerEpoch'', JInt 2), (''coordinatorVersion'', JInt 3)]"

theorem validated_reads_as_one_envelope_witness:
  "\<exists>!e. wf_to_engine e \<and> same_fields demo_heartbeat (encode_to_engine e)"
proof -
  have "validateCoordinatorToEngineEnvelope demo_heartbeat = Pass demo_heartbeat" by code_simp
  with validated_reads_as_one_envelope [of demo_heartbeat] show ?thesis by blast
qed

text \<open>
  The coordinator never sends the engine a request that the engine's validator refuses.
  In a run whose received requests were valid (and with the epoch still a safe integer),
  every request that was ever routed, with its id replaced by its route id, passes the
  engine's validator inside its envelope; its route id and epoch are those of the envelope.
\<close>

theorem routed_requests_validate:
  fixes tr :: "(((string \<times> jsvalue) list, 'r, 'p) core_event \<times> _ list js) list"
  assumes "core_run tr c" and "request_count tr < max_safe_integer" and "is_safe_nat (currentEpoch c)"
    and "\<forall>p \<in> set tr. \<forall>b \<in> offered_bodies (fst p). isCacheRequest (JObject b)"
    and "p \<in> set tr" and "(e, r, req) \<in> set (routed_requests p)"
  shows "validateCoordinatorToEngineEnvelope (encode_to_engine (EngineRequestEnv e r (encode_request req))) =
    Pass (encode_to_engine (EngineRequestEnv e r (encode_request req)))"
proof (rule to_engine_complete)
  have req: "request_id req = r" "isCacheRequest (JObject (request_body req))" "1 \<le> r"
      "r < nextRouteId c" "1 \<le> e" "e \<le> currentEpoch c"
    using run_bodies [OF assms(1,2,4)] assms(5,6) by fastforce+
  have "r \<le> max_safe_integer"
    using req(4) core_run_budget [OF assms(1)] assms(2) by (simp add: route_budget_def)
  then have "positive r" "positive e" using req assms(3) by (simp_all add: positive_def is_safe_nat_def)
  then show "wf_to_engine (EngineRequestEnv e r (encode_request req))"
    using isCacheRequest_with_id [OF req(2), of r] req(1)
    by (simp add: encode_request_def js_nat_def positive_def)
qed

definition demo_body :: "(string \<times> jsvalue) list" where
  "demo_body = [(''id'', JInt 7), (''kind'', JString ''clear'')]"

definition demo_wire_events :: "((string \<times> jsvalue) list, nat, nat) core_event list" where
  "demo_wire_events = [EvRegisterTab ''a'', EvRequest ''a'' \<lparr>request_id = 7, request_body = demo_body\<rparr>,
     EvBeginEngineOpen ''a'' 1, EvEngineReady (demo_ready ''a'' 1 OutcomeOpenedNew)]"

theorem routed_requests_validate_witness:
  "validateCoordinatorToEngineEnvelope (encode_to_engine (EngineRequestEnv 1 1
      (encode_request \<lparr>request_id = 1, request_body = demo_body\<rparr>))) =
   Pass (encode_to_engine (EngineRequestEnv 1 1 (encode_request \<lparr>request_id = 1, request_body = demo_body\<rparr>)))"
proof -
  obtain tr c where run: "run_events demo_wire_events (init_core ''scope'') = (tr, c)" by fastforce
  have "core_run tr c"
    by (rule core_run_from_start [OF _ _ run]) (simp_all add: demo_wire_events_def)
  moreover have tr: "tr = fst (run_events demo_wire_events (init_core ''scope''))"
    and c: "c = snd (run_events demo_wire_events (init_core ''scope''))" using run by simp_all
  moreover have "request_count (fst (run_events demo_wire_events (init_core ''scope''))) = 1"
    "is_safe_nat (currentEpoch (snd (run_events demo_wire_events (init_core ''scope''))))"
    "list_all (\<lambda>p. \<forall>b \<in> offered_bodies (fst p). isCacheRequest (JObject b))
       (fst (run_events demo_wire_events (init_core ''scope'')))"
    "list_ex (\<lambda>p. (1, 1, \<lparr>request_id = 1, request_body = demo_body\<rparr>) \<in> set (routed_requests p))
       (fst (run_events demo_wire_events (init_core ''scope'')))"
    by code_simp+
  ultimately show ?thesis
    using routed_requests_validate [of tr c] by (auto simp: list_all_iff list_ex_iff max_safe_integer_def)
qed

section \<open>Lock names\<close>

lemma first_colon:
  assumes "xs @ CHR '':'' # u = ys @ CHR '':'' # w" and "CHR '':'' \<notin> set xs" and "CHR '':'' \<notin> set ys"
  shows "xs = ys \<and> u = w"
proof -
  have split: "takeWhile (\<lambda>c. c \<noteq> CHR '':'') (zs @ CHR '':'' # v) = zs" if "CHR '':'' \<notin> set zs" for zs v
    using that by (subst takeWhile_append2) auto
  have "xs = ys" using split [OF assms(2), of u] split [OF assms(3), of w] assms(1) by simp
  with assms(1) show ?thesis by simp
qed

lemma last_colon:
  assumes "xs @ CHR '':'' # u = ys @ CHR '':'' # w" and "CHR '':'' \<notin> set u" and "CHR '':'' \<notin> set w"
  shows "xs = ys \<and> u = w"
proof -
  have "rev u @ CHR '':'' # rev xs = rev w @ CHR '':'' # rev ys"
    using arg_cong [OF assms(1), of rev] by simp
  from first_colon [OF this] assms(2,3) show ?thesis by simp
qed

lemma show_nat_no_colon: "CHR '':'' \<notin> set (show_nat n)"
proof (induction n rule: show_nat.induct)
  case (1 n)
  have digit: "CHR '':'' \<noteq> char_of (48 + k)" if "k < 10" for k :: nat
  proof
    assume "CHR '':'' = char_of (48 + k)"
    then have "of_char (CHR '':'') = (of_char (char_of (48 + k)) :: nat)" by simp
    then show False using that by (simp add: of_char_of)
  qed
  show ?case using 1 digit [of n] digit [of "n mod 10"]
    by (cases "n < 10") (subst show_nat.simps, simp)+
qed

text \<open>
  Lock names keep scopes and tabs apart. The database lock name determines the scope, the
  liveness lock name determines the tab within a scope (and scope and tab together when the
  tab id has no colon), and no liveness lock is a database lock.
\<close>

theorem lock_names_distinct:
  "(databaseOwnerLockName s = databaseOwnerLockName s' \<longleftrightarrow> s = s') \<and>
   (tabLivenessLockName s t = tabLivenessLockName s t' \<longleftrightarrow> t = t') \<and>
   (CHR '':'' \<notin> set t \<and> CHR '':'' \<notin> set t' \<longrightarrow>
     (tabLivenessLockName s t = tabLivenessLockName s' t' \<longleftrightarrow> s = s' \<and> t = t')) \<and>
   tabLivenessLockName s t \<noteq> databaseOwnerLockName s'"
proof -
  have "s = s'" if "databaseOwnerLockName s = databaseOwnerLockName s'"
  proof -
    let ?id = "\<lambda>s. ''graphql-cache:'' @ s"
    have "show_nat (utf8_length (?id s)) @ CHR '':'' # ?id s = show_nat (utf8_length (?id s')) @ CHR '':'' # ?id s'"
      using that unfolding databaseOwnerLockName_def Let_def append_assoc same_append_eq
      by (simp only: append_Cons append_Nil)
    from first_colon [OF this show_nat_no_colon show_nat_no_colon] have "?id s = ?id s'" ..
    then show ?thesis by (simp only: same_append_eq)
  qed
  moreover have "s = s' \<and> t = t'"
    if "CHR '':'' \<notin> set t" "CHR '':'' \<notin> set t'" "tabLivenessLockName s t = tabLivenessLockName s' t'"
    using that(3) last_colon [OF _ that(1,2), of s s'] by (simp add: tabLivenessLockName_def)
  ultimately show ?thesis
    by (auto simp: tabLivenessLockName_def databaseOwnerLockName_def Let_def)
qed

theorem lock_names_distinct_witness:
  "tabLivenessLockName ''s1'' ''tab'' \<noteq> tabLivenessLockName ''s2'' ''tab''"
  using lock_names_distinct [of "''s1''" "''s2''" "''tab''" "''tab''"] by simp

section \<open>Search arguments\<close>

text \<open>
  Search arguments that the page validated are accepted by the coordinator. The
  arguments \<open>validateCacheSearchArgs\<close> returns, with its defaults written in, pass
  \<open>isSearchRequest\<close> on the other side, and validating them again changes nothing.
\<close>

theorem validated_search_args_accepted:
  assumes "validateCacheSearchArgs now (JObject m) = Ret args"
    and "hasOnlyKeys (JObject m) [''profile'', ''buckets'', ''query'', ''cursor'', ''limit'', ''nowMs'']"
  shows "isSearchRequest args \<and> validateCacheSearchArgs now' args = Ret args"
proof -
  let ?q = "or_default (JString '''') (get (JObject m) ''query'')"
  let ?b = "or_default (JArray []) (get (JObject m) ''buckets'')"
  let ?n = "or_default (JInt now) (get (JObject m) ''nowMs'')"
  define m' where "m' = AList.update ''nowMs'' ?n (AList.update ''buckets'' ?b (AList.update ''query'' ?q m))"
  have ok: "isValidCacheSearchProfile (get (JObject m) ''profile'')"
      "isValidCacheSearchLimit (get (JObject m) ''limit'')" "isValidCacheSearchQuery ?q"
      "array_every isValidCacheSearchBucket ?b" "isValidCacheSearchNowMs ?n"
      "get (JObject m) ''cursor'' = JUndefined \<or> isValidCacheSearchCursor (get (JObject m) ''cursor'')"
    and args: "args = JObject m'"
    using assms(1) by (auto simp: validateCacheSearchArgs_def Let_def m'_def simp del: get.simps split: if_splits)
  have keys: "hasOnlyKeys args [''profile'', ''buckets'', ''query'', ''cursor'', ''limit'', ''nowMs'']"
    unfolding args m'_def by (intro hasOnlyKeys_update assms(2)) simp_all
  have maps: "map_of m' ''query'' = Some ?q" "map_of m' ''buckets'' = Some ?b" "map_of m' ''nowMs'' = Some ?n"
      "map_of m' ''profile'' = map_of m ''profile''" "map_of m' ''limit'' = map_of m ''limit''"
      "map_of m' ''cursor'' = map_of m ''cursor''"
    by (simp_all add: m'_def)
  have gets: "get args ''query'' = ?q" "get args ''buckets'' = ?b" "get args ''nowMs'' = ?n"
      "get args ''profile'' = get (JObject m) ''profile''" "get args ''limit'' = get (JObject m) ''limit''"
      "get args ''cursor'' = get (JObject m) ''cursor''"
    by (simp_all add: args maps)
  have dflt: "or_default d ?q = ?q" "or_default d ?b = ?b" "or_default d ?n = ?n" for d
    by (simp_all add: or_default_def)
  have "with_field ''nowMs'' ?n (with_field ''buckets'' ?b (with_field ''query'' ?q args)) = args"
    unfolding args with_field.simps update_triv [OF maps(1)] update_triv [OF maps(2)] update_triv [OF maps(3)] ..
  then have "validateCacheSearchArgs now' args = Ret args"
    unfolding validateCacheSearchArgs_def Let_def gets dflt using ok by simp
  moreover have "isSearchRequest args"
    unfolding isSearchRequest_def gets using ok keys by (simp add: args)
  ultimately show ?thesis by simp
qed

theorem validated_search_args_accepted_witness:
  "isSearchRequest (JObject [(''profile'', JString ''quick-access-v1''), (''limit'', JInt 20),
     (''query'', JString ''''), (''buckets'', JArray []), (''nowMs'', JInt 1000)])"
proof -
  have "validateCacheSearchArgs 1000 (JObject [(''profile'', JString ''quick-access-v1''), (''limit'', JInt 20)]) =
      Ret (JObject [(''profile'', JString ''quick-access-v1''), (''limit'', JInt 20),
        (''query'', JString ''''), (''buckets'', JArray []), (''nowMs'', JInt 1000)])"
    by code_simp
  from validated_search_args_accepted [OF this] show ?thesis by simp
qed

end
