(* ===== verification/Queues.thy ===== *)
theory Queues
  imports Prelude
begin

text \<open>
  The message queues of the collaboration package (\<open>websocket/core/queue\<close>): the interface
  \<open>Queue\<close> as a locale, and its implementations \<open>ArrayQueue\<close> and \<open>RingQueue\<close> with their
  interpretations. The ring of \<open>capacity + 1\<close> slots refines a list that keeps the last
  \<open>capacity\<close> elements.
\<close>

section \<open>Interface\<close>

text \<open>What a queue of bounded or unbounded capacity keeps of a list of added elements.\<close>

fun keep_last :: "nat option \<Rightarrow> 'e list \<Rightarrow> 'e list" where
  "keep_last None xs = xs"
| "keep_last (Some c) xs = drop (length xs - c) xs"

lemma keep_last_snoc: "keep_last c (keep_last c xs @ [e]) = keep_last c (xs @ [e])"
proof (cases c)
  case (Some n)
  then show ?thesis by (cases "length xs \<le> n") (auto simp: Suc_diff_le)
qed simp

text \<open>Reading until the queue returns \<open>undefined\<close>, at most \<open>n\<close> times.\<close>

fun read_all :: "('q \<Rightarrow> 'e option \<times> 'q) \<Rightarrow> nat \<Rightarrow> 'q \<Rightarrow> 'e list \<times> 'q" where
  "read_all rd 0 q = ([], q)"
| "read_all rd (Suc n) q =
     (case rd q of (None, q') \<Rightarrow> ([], q') | (Some e, q') \<Rightarrow> apfst ((#) e) (read_all rd n q'))"

text \<open>The calls on a queue, with what each returns.\<close>

datatype 'e queue_call = CallAdd 'e | CallClear | CallForEach | CallLength | CallIsEmpty | CallPeek | CallRead

datatype 'e queue_answer =
  NoAnswer | Visited "'e list option" | Count nat | Empty bool | Element "'e option"

fun call_queue ::
    "('e \<Rightarrow> 'q \<Rightarrow> 'q) \<Rightarrow> ('q \<Rightarrow> 'q) \<Rightarrow> ('q \<Rightarrow> 'e list option) \<Rightarrow> ('q \<Rightarrow> nat) \<Rightarrow> ('q \<Rightarrow> bool) \<Rightarrow>
     ('q \<Rightarrow> 'e option) \<Rightarrow> ('q \<Rightarrow> 'e option \<times> 'q) \<Rightarrow> 'e queue_call \<Rightarrow> 'q \<Rightarrow> 'e queue_answer \<times> 'q" where
  "call_queue add clear forEach len isEmpty peek read (CallAdd e) q = (NoAnswer, add e q)"
| "call_queue add clear forEach len isEmpty peek read CallClear q = (NoAnswer, clear q)"
| "call_queue add clear forEach len isEmpty peek read CallForEach q = (Visited (forEach q), q)"
| "call_queue add clear forEach len isEmpty peek read CallLength q = (Count (len q), q)"
| "call_queue add clear forEach len isEmpty peek read CallIsEmpty q = (Empty (isEmpty q), q)"
| "call_queue add clear forEach len isEmpty peek read CallPeek q = (Element (peek q), q)"
| "call_queue add clear forEach len isEmpty peek read CallRead q = apfst Element (read q)"

fun answers :: "('c \<Rightarrow> 'q \<Rightarrow> 'a \<times> 'q) \<Rightarrow> 'c list \<Rightarrow> 'q \<Rightarrow> 'a list" where
  "answers call [] q = []"
| "answers call (c # cs) q = (case call c q of (a, q') \<Rightarrow> a # answers call cs q')"

text \<open>The specification: a list that keeps its last \<open>capacity\<close> elements.\<close>

definition head_option :: "'e list \<Rightarrow> 'e option" where
  "head_option xs = (case xs of [] \<Rightarrow> None | e # _ \<Rightarrow> Some e)"

definition spec_call :: "nat option \<Rightarrow> 'e queue_call \<Rightarrow> 'e list \<Rightarrow> 'e queue_answer \<times> 'e list" where
  "spec_call cap = call_queue (\<lambda>e xs. keep_last cap (xs @ [e])) (\<lambda>_. []) Some length (\<lambda>xs. xs = [])
     head_option (\<lambda>xs. (head_option xs, tl xs))"

locale queue =
  fixes add :: "'e \<Rightarrow> 'q \<Rightarrow> 'q"
    and clear :: "'q \<Rightarrow> 'q"
    and forEach :: "'q \<Rightarrow> 'e list option"
    and len :: "'q \<Rightarrow> nat"
    and isEmpty :: "'q \<Rightarrow> bool"
    and peek :: "'q \<Rightarrow> 'e option"
    and read :: "'q \<Rightarrow> 'e option \<times> 'q"
    and contents :: "'q \<Rightarrow> 'e list"
    and capacity :: "'q \<Rightarrow> nat option"
    and inv :: "'q \<Rightarrow> bool"
  assumes add_inv: "inv q \<Longrightarrow> inv (add e q)"
    and add_contents: "inv q \<Longrightarrow> contents (add e q) = keep_last (capacity q) (contents q @ [e])"
    and add_capacity: "inv q \<Longrightarrow> capacity (add e q) = capacity q"
    and clear_inv: "inv q \<Longrightarrow> inv (clear q)"
    and clear_contents: "inv q \<Longrightarrow> contents (clear q) = []"
    and forEach_contents: "inv q \<Longrightarrow> forEach q = Some (contents q)"
    and len_contents: "inv q \<Longrightarrow> len q = length (contents q)"
    and isEmpty_contents: "inv q \<Longrightarrow> isEmpty q \<longleftrightarrow> contents q = []"
    and peek_contents: "inv q \<Longrightarrow> peek q = (case contents q of [] \<Rightarrow> None | e # _ \<Rightarrow> Some e)"
    and read_result: "inv q \<Longrightarrow> fst (read q) = (case contents q of [] \<Rightarrow> None | e # _ \<Rightarrow> Some e)"
    and read_inv: "inv q \<Longrightarrow> inv (snd (read q))"
    and read_contents: "inv q \<Longrightarrow> contents (snd (read q)) = tl (contents q)"
    and clear_capacity: "inv q \<Longrightarrow> capacity (clear q) = capacity q"
    and read_capacity: "inv q \<Longrightarrow> capacity (snd (read q)) = capacity q"
    and capacity_bound: "inv q \<Longrightarrow> capacity q = Some c \<Longrightarrow> length (contents q) \<le> c"
begin

lemma adds:
  assumes "inv q"
  shows "inv (fold add es q) \<and> capacity (fold add es q) = capacity q \<and>
    contents (fold add es q) = keep_last (capacity q) (contents q @ es)"
  using assms
proof (induction es rule: rev_induct)
  case Nil
  then show ?case using capacity_bound by (cases "capacity q") auto
next
  case (snoc e es)
  then have IH: "inv (fold add es q)" "capacity (fold add es q) = capacity q"
    "contents (fold add es q) = keep_last (capacity q) (contents q @ es)" by blast+
  then have "contents (fold add (es @ [e]) q) = keep_last (capacity q) (keep_last (capacity q) (contents q @ es) @ [e])"
    by (simp add: add_contents)
  also have "\<dots> = keep_last (capacity q) (contents q @ es @ [e])"
    by (simp add: keep_last_snoc)
  finally show ?case using IH by (simp add: add_inv add_capacity)
qed

lemma answers_refine:
  assumes "inv q"
  shows "answers (call_queue add clear forEach len isEmpty peek read) cs q =
    answers (spec_call (capacity q)) cs (contents q)"
  using assms
proof (induction cs arbitrary: q)
  case (Cons c cs)
  obtain q' where rd: "read q = (head_option (contents q), q')"
    using read_result [OF Cons.prems] by (cases "read q") (simp add: head_option_def)
  show ?case
  proof (cases c)
    case CallRead
    then show ?thesis
      using Cons.IH [of q'] read_inv [OF Cons.prems] read_contents [OF Cons.prems] read_capacity [OF Cons.prems] rd
      by (simp add: spec_call_def)
  qed (use Cons in \<open>simp_all add: spec_call_def add_inv add_contents add_capacity clear_inv clear_contents
      forEach_contents len_contents isEmpty_contents peek_contents clear_capacity head_option_def\<close>)
qed simp

lemma read_all_contents:
  assumes "inv q" and "length (contents q) < n"
  shows "fst (read_all read n q) = contents q \<and> inv (snd (read_all read n q)) \<and>
    contents (snd (read_all read n q)) = []"
  using assms
proof (induction n arbitrary: q)
  case (Suc n)
  obtain x q' where rd: "read q = (x, q')" by fastforce
  note q' = read_result [OF Suc.prems(1)] read_inv [OF Suc.prems(1)] read_contents [OF Suc.prems(1)]
  show ?case
  proof (cases "contents q")
    case Nil
    with q' rd show ?thesis by simp
  next
    case (Cons e es)
    with q' rd Suc.IH [of q'] Suc.prems show ?thesis by simp
  qed
qed simp

end

section \<open>ArrayQueue\<close>

record 'e array_queue =
  aq_elements :: "'e list"

definition aq_new :: "'e array_queue" where
  "aq_new = \<lparr>aq_elements = []\<rparr>"

definition aq_add :: "'e \<Rightarrow> 'e array_queue \<Rightarrow> 'e array_queue" where
  "aq_add e q = q\<lparr>aq_elements := aq_elements q @ [e]\<rparr>"

definition aq_clear :: "'e array_queue \<Rightarrow> 'e array_queue" where
  "aq_clear q = q\<lparr>aq_elements := []\<rparr>"

definition aq_forEach :: "'e array_queue \<Rightarrow> 'e list option" where
  "aq_forEach q = Some (aq_elements q)"

definition aq_length :: "'e array_queue \<Rightarrow> nat" where
  "aq_length q = length (aq_elements q)"

definition aq_isEmpty :: "'e array_queue \<Rightarrow> bool" where
  "aq_isEmpty q \<longleftrightarrow> length (aq_elements q) = 0"

definition aq_peek :: "'e array_queue \<Rightarrow> 'e option" where
  "aq_peek q = (case aq_elements q of [] \<Rightarrow> None | e # _ \<Rightarrow> Some e)"

definition aq_read :: "'e array_queue \<Rightarrow> 'e option \<times> 'e array_queue" where
  "aq_read q = (case aq_elements q of [] \<Rightarrow> (None, q) | e # es \<Rightarrow> (Some e, q\<lparr>aq_elements := es\<rparr>))"

interpretation array_queue: queue aq_add aq_clear aq_forEach aq_length aq_isEmpty aq_peek aq_read
    aq_elements "\<lambda>_. None" "\<lambda>_. True"
  by unfold_locales
    (auto simp: aq_add_def aq_clear_def aq_forEach_def aq_length_def aq_isEmpty_def aq_peek_def
      aq_read_def split: list.splits)

section \<open>RingQueue\<close>

text \<open>A slot of \<open>new Array(capacity + 1)\<close> is empty until it is written.\<close>

record 'e ring_queue =
  rq_elements :: "'e option list"
  rq_head :: nat
  rq_tail :: nat

definition rq_new :: "int \<Rightarrow> 'e ring_queue js" where
  "rq_new cap =
     (if cap \<le> 0 then Throw ''Capacity must be a positive integer''
      else Ret \<lparr>rq_elements = replicate (nat cap + 1) None, rq_head = 0, rq_tail = 0\<rparr>)"

definition rq_add :: "'e \<Rightarrow> 'e ring_queue \<Rightarrow> 'e ring_queue" where
  "rq_add e q =
     (let q1 = q\<lparr>rq_elements := (rq_elements q)[rq_head q := Some e],
                 rq_head := (rq_head q + 1) mod length (rq_elements q)\<rparr>
      in if rq_head q1 = rq_tail q1
         then q1\<lparr>rq_tail := (rq_tail q1 + 1) mod length (rq_elements q1)\<rparr> else q1)"

definition rq_clear :: "'e ring_queue \<Rightarrow> 'e ring_queue" where
  "rq_clear q = q\<lparr>rq_head := 0, rq_tail := 0\<rparr>"

text \<open>
  The loop of \<open>forEach\<close> from slot \<open>i\<close>, with fuel; \<open>None\<close> when the fuel runs out before the
  head is reached. One round of the array is enough fuel.
\<close>

fun rq_visit :: "nat \<Rightarrow> 'e ring_queue \<Rightarrow> nat \<Rightarrow> 'e option list option" where
  "rq_visit fuel q i =
     (if i = rq_head q then Some []
      else case fuel of
             0 \<Rightarrow> None
           | Suc f \<Rightarrow> map_option ((#) (rq_elements q ! i)) (rq_visit f q ((i + 1) mod length (rq_elements q))))"

declare rq_visit.simps [simp del]

definition rq_forEach :: "'e ring_queue \<Rightarrow> 'e option list option" where
  "rq_forEach q = rq_visit (length (rq_elements q)) q (rq_tail q)"

definition rq_length :: "'e ring_queue \<Rightarrow> nat" where
  "rq_length q =
     (if rq_tail q = rq_head q then 0
      else if rq_tail q < rq_head q then rq_head q - rq_tail q
      else length (rq_elements q) - rq_tail q + rq_head q)"

definition rq_isEmpty :: "'e ring_queue \<Rightarrow> bool" where
  "rq_isEmpty q \<longleftrightarrow> rq_head q = rq_tail q"

definition rq_peek :: "'e ring_queue \<Rightarrow> 'e option" where
  "rq_peek q = (if rq_isEmpty q then None else rq_elements q ! rq_tail q)"

definition rq_read :: "'e ring_queue \<Rightarrow> 'e option \<times> 'e ring_queue" where
  "rq_read q =
     (let e = rq_peek q
      in (e, if e \<noteq> None then q\<lparr>rq_tail := (rq_tail q + 1) mod length (rq_elements q)\<rparr> else q))"

subsection \<open>The ring as a list\<close>

definition rq_slot :: "'e ring_queue \<Rightarrow> nat \<Rightarrow> nat" where
  "rq_slot q k = (rq_tail q + k) mod length (rq_elements q)"

definition rq_contents :: "'e ring_queue \<Rightarrow> 'e list" where
  "rq_contents q = map (\<lambda>k. the (rq_elements q ! rq_slot q k)) [0 ..< rq_length q]"

definition rq_capacity :: "'e ring_queue \<Rightarrow> nat option" where
  "rq_capacity q = Some (length (rq_elements q) - 1)"

definition rq_inv :: "'e ring_queue \<Rightarrow> bool" where
  "rq_inv q \<longleftrightarrow>
     2 \<le> length (rq_elements q) \<and> rq_head q < length (rq_elements q) \<and> rq_tail q < length (rq_elements q) \<and>
     (\<forall>k < rq_length q. rq_elements q ! rq_slot q k \<noteq> None)"

lemma mod_offset_inject:
  assumes "(t + k) mod n = (t + l) mod (n::nat)" and "k < n" and "l < n"
  shows "k = l"
proof -
  have le: "a = b" if "(t + a) mod n = (t + b) mod n" "a \<le> b" "b < n" for a b
  proof -
    have "n dvd (t + b) - (t + a)"
      using that by (metis mod_eq_dvd_iff_nat add_le_cancel_left)
    then have "n dvd b - a" by simp
    with that show "a = b" by (metis dvd_imp_le diff_is_0_eq le_antisym less_imp_diff_less not_less zero_less_diff)
  qed
  show ?thesis using le [of k l] le [of l k] assms by (cases "k \<le> l") auto
qed

lemma rq_length_less: "rq_inv q \<Longrightarrow> rq_length q < length (rq_elements q)"
  by (auto simp: rq_inv_def rq_length_def)

lemma rq_slot_length: "rq_inv q \<Longrightarrow> rq_slot q (rq_length q) = rq_head q"
  by (auto simp: rq_inv_def rq_length_def rq_slot_def)

lemma rq_slot_head_iff:
  assumes "rq_inv q" and "k < length (rq_elements q)"
  shows "rq_slot q k = rq_head q \<longleftrightarrow> k = rq_length q"
  using rq_slot_length [OF assms(1)] rq_length_less [OF assms(1)] assms(2)
  by (metis mod_offset_inject rq_slot_def)

text \<open>The number of elements is the distance from tail to head, and determines the head.\<close>

lemma rq_length_eq:
  assumes "n = length (rq_elements q)" and "rq_tail q < n" and "l < n"
    and "rq_head q = (rq_tail q + l) mod n"
  shows "rq_length q = l"
proof (cases "rq_tail q + l < n")
  case True
  then show ?thesis using assms by (simp add: rq_length_def)
next
  case False
  then have "rq_head q = rq_tail q + l - n" using assms by (simp add: le_mod_geq)
  then show ?thesis using assms(1-3) False by (auto simp: rq_length_def)
qed

lemma rq_add_shape:
  assumes inv: "rq_inv q"
  defines "n \<equiv> length (rq_elements q)" and "l \<equiv> rq_length q"
  shows "rq_elements (rq_add e q) = (rq_elements q)[rq_head q := Some e]"
    and "rq_head (rq_add e q) = (rq_head q + 1) mod n"
    and "l + 1 < n \<Longrightarrow> rq_tail (rq_add e q) = rq_tail q \<and> rq_length (rq_add e q) = l + 1"
    and "\<not> l + 1 < n \<Longrightarrow> rq_tail (rq_add e q) = (rq_tail q + 1) mod n \<and> rq_length (rq_add e q) = l"
proof -
  show els: "rq_elements (rq_add e q) = (rq_elements q)[rq_head q := Some e]"
    and head: "rq_head (rq_add e q) = (rq_head q + 1) mod n"
    by (simp_all add: rq_add_def Let_def n_def)
  have l: "l < n" using rq_length_less [OF inv] by (simp add: l_def n_def)
  have t: "rq_tail q < n" "0 < n" using inv by (auto simp: rq_inv_def n_def)
  have h: "rq_head q = (rq_tail q + l) mod n"
    using rq_slot_length [OF inv] by (simp add: rq_slot_def l_def n_def)
  have next_head: "(rq_head q + 1) mod n = (rq_tail q + (l + 1)) mod n"
    unfolding h by (simp add: mod_Suc_eq)
  show "rq_tail (rq_add e q) = rq_tail q \<and> rq_length (rq_add e q) = l + 1" if "l + 1 < n"
  proof -
    have "(rq_tail q + (l + 1)) mod n \<noteq> rq_tail q"
      using mod_offset_inject [of "rq_tail q" "l + 1" n 0] that t by auto
    with next_head have "(rq_head q + 1) mod n \<noteq> rq_tail q" by simp
    then have tail: "rq_tail (rq_add e q) = rq_tail q"
      by (simp add: rq_add_def Let_def n_def)
    then show ?thesis
      using rq_length_eq [of n "rq_add e q" "l + 1"] that t head next_head els by (simp add: n_def)
  qed
  show "rq_tail (rq_add e q) = (rq_tail q + 1) mod n \<and> rq_length (rq_add e q) = l" if "\<not> l + 1 < n"
  proof -
    have ln: "l + 1 = n" using that l by simp
    then have hd: "(rq_head q + 1) mod n = rq_tail q" unfolding next_head using t by simp
    then have tail: "rq_tail (rq_add e q) = (rq_tail q + 1) mod n"
      by (simp add: rq_add_def Let_def n_def)
    have "((rq_tail q + 1) mod n + l) mod n = (rq_tail q + n) mod n"
      unfolding mod_add_left_eq by (simp add: ln [symmetric])
    then have "rq_tail q = ((rq_tail q + 1) mod n + l) mod n" using t by simp
    then show ?thesis
      using rq_length_eq [of n "rq_add e q" l] l t head hd tail els by (simp add: n_def)
  qed
qed

lemma rq_nth_contents: "k < rq_length q \<Longrightarrow> rq_contents q ! k = the (rq_elements q ! rq_slot q k)"
  by (simp add: rq_contents_def)

lemma rq_length_contents [simp]: "length (rq_contents q) = rq_length q"
  by (simp add: rq_contents_def)

lemma rq_add_slots:
  assumes inv: "rq_inv q" and k: "k < rq_length (rq_add e q)"
  defines "d \<equiv> (if rq_length q + 1 < length (rq_elements q) then 0 else 1)"
  shows "rq_elements (rq_add e q) ! rq_slot (rq_add e q) k =
    (if k + d = rq_length q then Some e else rq_elements q ! rq_slot q (k + d))"
proof -
  note add = rq_add_shape [OF inv, of e]
  have l: "rq_length q < length (rq_elements q)" "rq_head q < length (rq_elements q)"
    using rq_length_less [OF inv] inv by (auto simp: rq_inv_def)
  have kd: "k + d \<le> rq_length q" using k add(3,4) by (auto simp: d_def split: if_splits)
  have slot: "rq_slot (rq_add e q) k = rq_slot q (k + d)"
    using add(1,3,4) by (auto simp: rq_slot_def d_def mod_add_left_eq)
  show ?thesis
    using rq_slot_head_iff [OF inv, of "k + d"] kd l by (auto simp: slot add(1) nth_list_update)
qed

lemma rq_add_inv: "rq_inv q \<Longrightarrow> rq_inv (rq_add e q)"
proof -
  assume inv: "rq_inv q"
  note add = rq_add_shape [OF inv, of e]
  have n: "0 < length (rq_elements q)" using inv by (auto simp: rq_inv_def)
  have "rq_elements (rq_add e q) ! rq_slot (rq_add e q) k \<noteq> None" if k: "k < rq_length (rq_add e q)" for k
    unfolding rq_add_slots [OF inv k] using inv k add(3,4) by (auto simp: rq_inv_def split: if_splits)
  moreover have "rq_tail (rq_add e q) < length (rq_elements q)"
    using add(3,4) inv n by (cases "rq_length q + 1 < length (rq_elements q)") (auto simp: rq_inv_def)
  ultimately show ?thesis using add(1,2) inv n by (auto simp: rq_inv_def)
qed

lemma rq_add_contents:
  assumes inv: "rq_inv q"
  shows "rq_contents (rq_add e q) = keep_last (rq_capacity q) (rq_contents q @ [e])"
proof (rule nth_equalityI)
  note add = rq_add_shape [OF inv, of e]
  have l: "rq_length q < length (rq_elements q)" by (rule rq_length_less [OF inv])
  show "length (rq_contents (rq_add e q)) = length (keep_last (rq_capacity q) (rq_contents q @ [e]))"
    using add(3,4) l by (cases "rq_length q + 1 < length (rq_elements q)") (auto simp: rq_capacity_def)
  fix k assume "k < length (rq_contents (rq_add e q))"
  then have k: "k < rq_length (rq_add e q)" by simp
  show "rq_contents (rq_add e q) ! k = keep_last (rq_capacity q) (rq_contents q @ [e]) ! k"
  proof (cases "rq_length q + 1 < length (rq_elements q)")
    case True
    then show ?thesis using k add(3)
      by (auto simp: rq_nth_contents rq_add_slots [OF inv k] rq_capacity_def nth_append)
  next
    case False
    then have "length (rq_elements q) = Suc (rq_length q)" using l by simp
    then show ?thesis using k add(4)
      by (auto simp: rq_nth_contents rq_add_slots [OF inv k] rq_capacity_def nth_append)
  qed
qed

lemma rq_read_shape:
  assumes inv: "rq_inv q"
  shows "rq_read q = (if rq_length q = 0 then (None, q)
    else (rq_elements q ! rq_tail q, q\<lparr>rq_tail := rq_slot q 1\<rparr>))"
    and "rq_length q \<noteq> 0 \<Longrightarrow> rq_elements q ! rq_tail q = Some (hd (rq_contents q))"
    and "rq_length q \<noteq> 0 \<Longrightarrow> rq_length (q\<lparr>rq_tail := rq_slot q 1\<rparr>) = rq_length q - 1"
proof -
  have t: "rq_tail q < length (rq_elements q)" using inv by (simp add: rq_inv_def)
  have empty: "rq_isEmpty q \<longleftrightarrow> rq_length q = 0" using t by (auto simp: rq_isEmpty_def rq_length_def)
  have slot0: "rq_slot q 0 = rq_tail q" using t by (simp add: rq_slot_def)
  show first: "rq_elements q ! rq_tail q = Some (hd (rq_contents q))" if "rq_length q \<noteq> 0"
    using inv that slot0 by (auto simp: rq_inv_def rq_contents_def hd_map upt_conv_Cons)
  show "rq_read q = (if rq_length q = 0 then (None, q)
      else (rq_elements q ! rq_tail q, q\<lparr>rq_tail := rq_slot q 1\<rparr>))"
    using empty first by (auto simp: rq_read_def rq_peek_def Let_def rq_slot_def)
  show "rq_length (q\<lparr>rq_tail := rq_slot q 1\<rparr>) = rq_length q - 1" if nz: "rq_length q \<noteq> 0"
  proof (rule rq_length_eq [OF refl])
    obtain m where "rq_length q = Suc m" using nz by (cases "rq_length q") auto
    then have "rq_slot q (rq_length q) = (rq_slot q 1 + (rq_length q - 1)) mod length (rq_elements q)"
      by (simp add: rq_slot_def mod_add_left_eq)
    then show "rq_head (q\<lparr>rq_tail := rq_slot q 1\<rparr>) =
        (rq_tail (q\<lparr>rq_tail := rq_slot q 1\<rparr>) + (rq_length q - 1)) mod length (rq_elements (q\<lparr>rq_tail := rq_slot q 1\<rparr>))"
      using rq_slot_length [OF inv] by simp
  next
    show "rq_tail (q\<lparr>rq_tail := rq_slot q 1\<rparr>) < length (rq_elements (q\<lparr>rq_tail := rq_slot q 1\<rparr>))"
      using t by (simp add: rq_slot_def mod_less_divisor [OF le_less_trans [OF le0 t]])
  qed (use rq_length_less [OF inv] in simp)
qed

lemma rq_slot_tail: "rq_slot (q\<lparr>rq_tail := rq_slot q (Suc 0)\<rparr>) k = rq_slot q (Suc k)"
  by (simp add: rq_slot_def mod_add_left_eq)

lemma rq_read_ok:
  assumes inv: "rq_inv q"
  shows "rq_inv (snd (rq_read q))" "rq_contents (snd (rq_read q)) = tl (rq_contents q)"
proof -
  let ?q = "q\<lparr>rq_tail := rq_slot q 1\<rparr>"
  note rd = rq_read_shape [OF inv]
  have n: "0 < length (rq_elements q)" using inv by (auto simp: rq_inv_def)
  show "rq_inv (snd (rq_read q))"
  proof (cases "rq_length q = 0")
    case False
    have "rq_slot q 1 < length (rq_elements q)" using n by (simp add: rq_slot_def)
    then have "rq_inv ?q" using inv rd(3) [OF False] False
      by (simp add: rq_inv_def rq_slot_tail)
    then show ?thesis using rd(1) False by simp
  qed (use rd(1) inv in simp)
  show "rq_contents (snd (rq_read q)) = tl (rq_contents q)"
  proof (cases "rq_length q = 0")
    case True
    then show ?thesis using rd(1) by (simp add: rq_contents_def)
  next
    case False
    then have "length (rq_contents ?q) = length (tl (rq_contents q))" using rd(3) by simp
    moreover have "rq_contents ?q ! k = tl (rq_contents q) ! k" if "k < rq_length q - 1" for k
    proof -
      have "Suc k < rq_length q" "k < rq_length q - Suc 0" using that by simp_all
      then show ?thesis using rd(3) [OF False] by (simp add: rq_contents_def nth_tl rq_slot_tail)
    qed
    ultimately have "rq_contents ?q = tl (rq_contents q)" by (intro nth_equalityI) auto
    then show ?thesis using rd(1) False by simp
  qed
qed

lemma rq_visit_contents:
  assumes inv: "rq_inv q"
  shows "k \<le> rq_length q \<Longrightarrow> rq_length q - k \<le> fuel \<Longrightarrow>
    rq_visit fuel q (rq_slot q k) = Some (map Some (drop k (rq_contents q)))"
proof (induction "rq_length q - k" arbitrary: k fuel)
  case 0
  then show ?case using rq_slot_length [OF inv] by (subst rq_visit.simps) simp
next
  case (Suc d)
  have k: "k < rq_length q" "k < length (rq_elements q)" using Suc.hyps(2) rq_length_less [OF inv] by auto
  obtain f where f: "fuel = Suc f" using Suc by (cases fuel) auto
  have "rq_visit f q (rq_slot q (Suc k)) = Some (map Some (drop (Suc k) (rq_contents q)))"
    using Suc.hyps(1) [of "Suc k" f] Suc.hyps(2) Suc.prems f by simp
  moreover have "(rq_slot q k + 1) mod length (rq_elements q) = rq_slot q (Suc k)"
    by (simp add: rq_slot_def mod_simps)
  moreover have "rq_elements q ! rq_slot q k = Some (rq_contents q ! k)"
    using inv k by (auto simp: rq_inv_def rq_nth_contents)
  ultimately show ?case
    using rq_slot_head_iff [OF inv k(2)] k f
    by (subst rq_visit.simps) (simp add: Cons_nth_drop_Suc [symmetric])
qed

lemma rq_forEach_contents: "rq_inv q \<Longrightarrow> rq_forEach q = Some (map Some (rq_contents q))"
proof -
  assume inv: "rq_inv q"
  then have "rq_slot q 0 = rq_tail q" by (simp add: rq_slot_def rq_inv_def)
  moreover have "rq_length q - 0 \<le> length (rq_elements q)" using rq_length_less [OF inv] by simp
  ultimately show ?thesis
    using rq_visit_contents [OF inv, of 0 "length (rq_elements q)"] by (simp add: rq_forEach_def)
qed

interpretation ring_queue: queue rq_add rq_clear "\<lambda>q. map_option (map the) (rq_forEach q)" rq_length
    rq_isEmpty rq_peek rq_read rq_contents rq_capacity rq_inv
proof unfold_locales
  fix q :: "'a ring_queue" and e :: 'a and c :: nat
  assume inv: "rq_inv q"
  note rd = rq_read_shape [OF inv]
  show "rq_inv (rq_add e q)" by (rule rq_add_inv [OF inv])
  show "rq_contents (rq_add e q) = keep_last (rq_capacity q) (rq_contents q @ [e])"
    by (rule rq_add_contents [OF inv])
  show "rq_capacity (rq_add e q) = rq_capacity q" by (simp add: rq_capacity_def rq_add_shape(1) [OF inv])
  show "rq_capacity (rq_clear q) = rq_capacity q" "rq_capacity (snd (rq_read q)) = rq_capacity q"
    by (simp_all add: rq_capacity_def rq_clear_def rq_read_def Let_def)
  show "rq_inv (rq_clear q)" using inv by (auto simp: rq_inv_def rq_clear_def rq_length_def)
  show "rq_contents (rq_clear q) = []" by (simp add: rq_contents_def rq_clear_def rq_length_def)
  show "map_option (map the) (rq_forEach q) = Some (rq_contents q)"
    by (simp add: rq_forEach_contents [OF inv] o_def)
  show "rq_length q = length (rq_contents q)" by simp
  show empty: "rq_isEmpty q \<longleftrightarrow> rq_contents q = []"
    using inv by (auto simp: rq_isEmpty_def rq_contents_def rq_length_def rq_inv_def)
  show res: "fst (rq_read q) = (case rq_contents q of [] \<Rightarrow> None | e # _ \<Rightarrow> Some e)"
  proof (cases "rq_length q = 0")
    case True
    then show ?thesis using rd(1) by (simp add: rq_contents_def)
  next
    case False
    then have "rq_contents q \<noteq> []" by (simp add: rq_contents_def)
    then show ?thesis using rd(1,2) False by (cases "rq_contents q") auto
  qed
  show "rq_peek q = (case rq_contents q of [] \<Rightarrow> None | e # _ \<Rightarrow> Some e)"
    using res by (simp add: rq_read_def Let_def)
  show "rq_inv (snd (rq_read q))" "rq_contents (snd (rq_read q)) = tl (rq_contents q)"
    by (rule rq_read_ok [OF inv])+
  show "rq_capacity q = Some c \<Longrightarrow> length (rq_contents q) \<le> c"
    using rq_length_less [OF inv] by (simp add: rq_capacity_def)
qed

section \<open>Claims\<close>

text \<open>
  C16: the ring is a bounded queue. From its creation with a positive capacity, any sequence
  of calls gets the same answers from a \<open>RingQueue\<close> as from a list that keeps its last
  \<open>capacity\<close> elements; in particular its \<open>forEach\<close> terminates. Other capacities are refused.
\<close>

theorem ring_queue_refines_bounded_list:
  "(case rq_new cap of
      Throw err \<Rightarrow> cap \<le> 0
    | Ret q \<Rightarrow> 0 < cap \<and>
        answers (call_queue rq_add rq_clear (\<lambda>q. map_option (map the) (rq_forEach q)) rq_length rq_isEmpty
          rq_peek rq_read) calls q =
        answers (spec_call (Some (nat cap))) calls [])"
proof (cases "cap \<le> 0")
  case False
  define q :: "'a ring_queue" where "q = \<lparr>rq_elements = replicate (nat cap + 1) None, rq_head = 0, rq_tail = 0\<rparr>"
  have "rq_inv q" using False by (auto simp: rq_inv_def q_def rq_length_def)
  moreover have "rq_contents q = []" "rq_capacity q = Some (nat cap)"
    by (simp_all add: q_def rq_contents_def rq_length_def rq_capacity_def)
  ultimately show ?thesis
    using False ring_queue.answers_refine [of q calls] by (simp add: rq_new_def q_def)
qed (simp add: rq_new_def)

text \<open>
  The two buffers drain in order. A queue that was filled by any additions and is then
  read until it returns \<open>undefined\<close> yields, in order of addition, all elements
  (\<open>ArrayQueue\<close>) or the last \<open>capacity\<close> of them (\<open>RingQueue\<close>), and is empty afterwards.
\<close>

theorem queues_drain_in_order:
  "fst (read_all aq_read (length es + 1) (fold aq_add es aq_new)) = es \<and>
   (rq_new cap = Ret q \<longrightarrow>
     fst (read_all rq_read (length es + 1) (fold rq_add es q)) = drop (length es - nat cap) es \<and>
     rq_isEmpty (snd (read_all rq_read (length es + 1) (fold rq_add es q))))"
proof -
  have "aq_elements (fold aq_add es aq_new) = es"
    using array_queue.adds [where q = aq_new and es = es] by (simp add: aq_new_def)
  then have "fst (read_all aq_read (length es + 1) (fold aq_add es aq_new)) = es"
    using array_queue.read_all_contents [of "fold aq_add es aq_new" "length es + 1"] by simp
  moreover have "fst (read_all rq_read (length es + 1) (fold rq_add es q)) = drop (length es - nat cap) es \<and>
     rq_isEmpty (snd (read_all rq_read (length es + 1) (fold rq_add es q)))" if new: "rq_new cap = Ret q"
  proof -
    have q: "rq_inv q" "rq_contents q = []" "rq_capacity q = Some (nat cap)"
      using new by (auto simp: rq_new_def rq_inv_def rq_length_def rq_contents_def rq_capacity_def split: if_splits)
    have adds: "rq_inv (fold rq_add es q)" "rq_contents (fold rq_add es q) = drop (length es - nat cap) es"
      using ring_queue.adds [OF q(1), of es] q by simp_all
    have "length (rq_contents (fold rq_add es q)) < length es + 1" unfolding adds(2) by simp
    from ring_queue.read_all_contents [OF adds(1) this] adds(2) show ?thesis
      by (simp add: ring_queue.isEmpty_contents)
  qed
  ultimately show ?thesis by blast
qed

theorem queues_drain_in_order_witness:
  "fst (read_all rq_read (length [1, 2, 3 :: nat] + 1)
      (fold rq_add [1, 2, 3 :: nat] \<lparr>rq_elements = [None, None, None], rq_head = 0, rq_tail = 0\<rparr>)) = [2, 3]"
proof -
  have "rq_new 2 = Ret \<lparr>rq_elements = [None, None, None :: nat option], rq_head = 0, rq_tail = 0\<rparr>"
    by code_simp
  moreover have "drop (length [1, 2, 3 :: nat] - nat 2) [1, 2, 3] = [2, 3 :: nat]" by code_simp
  ultimately show ?thesis using queues_drain_in_order [of "[1, 2, 3 :: nat]" 2] by metis
qed

end
