(* ===== verification/Backoffs.thy ===== *)
theory Backoffs
  imports Prelude
begin

text \<open>
  The retry delays of the collaboration package (\<open>websocket/core/backoff\<close>): the interface
  \<open>Backoff\<close> as a locale and the constant, linear and exponential series. A number is an
  element of an ordered integral domain (integers or rationals; no rounding), so that the
  linear series may run over fractions as the source allows.
\<close>

section \<open>Interface\<close>

text \<open>
  A backoff is a series: \<open>series b i\<close> is the delay after \<open>i\<close> calls of \<open>next\<close>.
\<close>

locale backoff_series =
  fixes retries :: "'b \<Rightarrow> nat"
    and current :: "'b \<Rightarrow> 'n :: linordered_idom"
    and advance :: "'b \<Rightarrow> 'n \<times> 'b"
    and reset :: "'b \<Rightarrow> 'b"
    and series :: "'b \<Rightarrow> nat \<Rightarrow> 'n"
    and inv :: "'b \<Rightarrow> bool"
  assumes current_series: "inv b \<Longrightarrow> current b = series b (retries b)"
    and advance_current: "inv b \<Longrightarrow> fst (advance b) = current (snd (advance b))"
    and advance_retries: "inv b \<Longrightarrow> retries (snd (advance b)) = retries b + 1"
    and advance_inv: "inv b \<Longrightarrow> inv (snd (advance b))"
    and advance_series: "inv b \<Longrightarrow> series (snd (advance b)) = series b"
    and reset_retries: "inv b \<Longrightarrow> retries (reset b) = 0"
    and reset_inv: "inv b \<Longrightarrow> inv (reset b)"
    and reset_series: "inv b \<Longrightarrow> series (reset b) = series b"
    and series_nonneg: "inv b \<Longrightarrow> 0 \<le> series b i"
    and series_mono: "inv b \<Longrightarrow> i \<le> j \<Longrightarrow> series b i \<le> series b j"
begin

lemma advance_value: "inv b \<Longrightarrow> fst (advance b) = series b (retries b + 1)"
  by (simp add: advance_current current_series advance_inv advance_series advance_retries)

lemma advances:
  "inv b \<Longrightarrow> inv (((snd \<circ> advance) ^^ k) b) \<and> retries (((snd \<circ> advance) ^^ k) b) = retries b + k \<and>
     series (((snd \<circ> advance) ^^ k) b) = series b"
  by (induction k) (simp_all add: advance_inv advance_retries advance_series)

lemma delays_grow:
  assumes "inv b" and "j \<le> k"
  shows "0 \<le> fst (advance (((snd \<circ> advance) ^^ j) b)) \<and>
    fst (advance (((snd \<circ> advance) ^^ j) b)) \<le> fst (advance (((snd \<circ> advance) ^^ k) b))"
  using advances [OF assms(1), of j] advances [OF assms(1), of k] assms
  by (simp add: advance_value series_nonneg series_mono)

lemma restart:
  assumes "inv b"
  shows "fst (advance (reset (((snd \<circ> advance) ^^ k) b))) = series b 1"
  using advances [OF assms, of k]
  by (simp add: advance_value reset_inv reset_retries reset_series)

end

section \<open>ConstantBackoff\<close>

record constant_backoff =
  cb_backoff :: int
  cb_retries :: nat

definition cb_new :: "int \<Rightarrow> constant_backoff js" where
  "cb_new ms = (if ms < 0 then Throw ''Backoff must be a positive integer''
     else Ret \<lparr>cb_backoff = ms, cb_retries = 0\<rparr>)"

definition cb_current :: "constant_backoff \<Rightarrow> int" where
  "cb_current b = cb_backoff b"

definition cb_next :: "constant_backoff \<Rightarrow> int \<times> constant_backoff" where
  "cb_next b = (cb_backoff b, b\<lparr>cb_retries := cb_retries b + 1\<rparr>)"

definition cb_reset :: "constant_backoff \<Rightarrow> constant_backoff" where
  "cb_reset b = b\<lparr>cb_retries := 0\<rparr>"

interpretation constant_series: backoff_series cb_retries cb_current cb_next cb_reset "\<lambda>b i. cb_backoff b"
    "\<lambda>b. 0 \<le> cb_backoff b"
  by unfold_locales (simp_all add: cb_current_def cb_next_def cb_reset_def)

section \<open>ExponentialBackoff\<close>

record exponential_backoff =
  eb_base :: int
  eb_expMax :: "int option"
  eb_i :: int
  eb_retries :: nat

definition eb_new :: "int \<Rightarrow> int option \<Rightarrow> exponential_backoff js" where
  "eb_new base expMax =
     (if base < 0 then Throw ''Base must be a positive integer or zero''
      else if (case expMax of None \<Rightarrow> False | Some m \<Rightarrow> m < 0)
      then Throw ''ExpMax must be a undefined, a positive integer or zero''
      else Ret \<lparr>eb_base = base, eb_expMax = expMax, eb_i = 0, eb_retries = 0\<rparr>)"

text \<open>\<open>Math.pow(2, i)\<close>; the exponent is never negative.\<close>

definition eb_current :: "exponential_backoff \<Rightarrow> int" where
  "eb_current b = eb_base b * 2 ^ nat (eb_i b)"

definition eb_next :: "exponential_backoff \<Rightarrow> int \<times> exponential_backoff" where
  "eb_next b =
     (let b1 = b\<lparr>eb_retries := eb_retries b + 1,
                 eb_i := (case eb_expMax b of None \<Rightarrow> eb_i b + 1 | Some m \<Rightarrow> min (eb_i b + 1) m)\<rparr>
      in (eb_current b1, b1))"

definition eb_reset :: "exponential_backoff \<Rightarrow> exponential_backoff" where
  "eb_reset b = b\<lparr>eb_retries := 0, eb_i := 0\<rparr>"

text \<open>The series of the class comment: \<open>base * 2^min(i, expMax)\<close>.\<close>

definition exponent :: "int option \<Rightarrow> nat \<Rightarrow> nat" where
  "exponent expMax i = (case expMax of None \<Rightarrow> i | Some m \<Rightarrow> min i (nat m))"

definition eb_series :: "exponential_backoff \<Rightarrow> nat \<Rightarrow> int" where
  "eb_series b i = eb_base b * 2 ^ exponent (eb_expMax b) i"

definition eb_inv :: "exponential_backoff \<Rightarrow> bool" where
  "eb_inv b \<longleftrightarrow> 0 \<le> eb_base b \<and> (case eb_expMax b of None \<Rightarrow> True | Some m \<Rightarrow> 0 \<le> m) \<and>
     eb_i b = int (exponent (eb_expMax b) (eb_retries b))"

interpretation exponential_series: backoff_series eb_retries eb_current eb_next eb_reset eb_series eb_inv
proof unfold_locales
  fix b :: exponential_backoff and i j :: nat
  assume inv: "eb_inv b"
  show "eb_current b = eb_series b (eb_retries b)"
    using inv by (simp add: eb_current_def eb_series_def eb_inv_def)
  show "fst (eb_next b) = eb_current (snd (eb_next b))"
    "eb_retries (snd (eb_next b)) = eb_retries b + 1" "eb_series (snd (eb_next b)) = eb_series b"
    by (simp_all add: eb_next_def Let_def eb_series_def fun_eq_iff)
  show "eb_inv (snd (eb_next b))"
    using inv by (auto simp: eb_inv_def eb_next_def Let_def exponent_def min_def split: option.splits)
  show "eb_retries (eb_reset b) = 0" "eb_series (eb_reset b) = eb_series b"
    by (simp_all add: eb_reset_def eb_series_def fun_eq_iff)
  show "eb_inv (eb_reset b)"
    using inv by (auto simp: eb_inv_def eb_reset_def exponent_def split: option.splits)
  have base: "0 \<le> eb_base b" using inv by (simp add: eb_inv_def)
  then show "0 \<le> eb_series b i" by (simp add: eb_series_def)
  assume "i \<le> j"
  then have "exponent (eb_expMax b) i \<le> exponent (eb_expMax b) j"
    by (auto simp: exponent_def split: option.splits)
  then show "eb_series b i \<le> eb_series b j"
    using base by (auto simp: eb_series_def intro!: mult_left_mono power_increasing)
qed

section \<open>LinearBackoff\<close>

record 'n linear_backoff =
  lb_initial :: 'n
  lb_increment :: 'n
  lb_max :: "'n option"
  lb_i :: nat
  lb_retries :: nat

definition lb_new :: "'n :: linordered_idom \<Rightarrow> 'n \<Rightarrow> 'n option \<Rightarrow> 'n linear_backoff js" where
  "lb_new initial increment maximum =
     (if initial < 0 then Throw ''Initial must be a positive number or zero''
      else if increment < 0 then Throw ''Increment must be a positive number or zero''
      else if (case maximum of None \<Rightarrow> False | Some m \<Rightarrow> m < 0)
      then Throw ''Max must be undefined, a positive number or zero''
      else if (case maximum of None \<Rightarrow> False | Some m \<Rightarrow> m < initial)
      then Throw ''Max must be undefined or greater than or equal to initial''
      else Ret \<lparr>lb_initial = initial, lb_increment = increment, lb_max = maximum, lb_i = 0, lb_retries = 0\<rparr>)"

definition lb_current :: "'n :: linordered_idom linear_backoff \<Rightarrow> 'n" where
  "lb_current b =
     (case lb_max b of
        None \<Rightarrow> lb_initial b + lb_increment b * of_nat (lb_i b)
      | Some m \<Rightarrow> min (lb_initial b + lb_increment b * of_nat (lb_i b)) m)"

definition lb_next :: "'n :: linordered_idom linear_backoff \<Rightarrow> 'n \<times> 'n linear_backoff" where
  "lb_next b = (let b1 = b\<lparr>lb_retries := lb_retries b + 1, lb_i := lb_i b + 1\<rparr> in (lb_current b1, b1))"

definition lb_reset :: "'n linear_backoff \<Rightarrow> 'n linear_backoff" where
  "lb_reset b = b\<lparr>lb_retries := 0, lb_i := 0\<rparr>"

definition lb_series :: "'n :: linordered_idom linear_backoff \<Rightarrow> nat \<Rightarrow> 'n" where
  "lb_series b i =
     (case lb_max b of
        None \<Rightarrow> lb_initial b + lb_increment b * of_nat i
      | Some m \<Rightarrow> min (lb_initial b + lb_increment b * of_nat i) m)"

definition lb_inv :: "'n :: linordered_idom linear_backoff \<Rightarrow> bool" where
  "lb_inv b \<longleftrightarrow> 0 \<le> lb_initial b \<and> 0 \<le> lb_increment b \<and> lb_i b = lb_retries b \<and>
     (case lb_max b of None \<Rightarrow> True | Some m \<Rightarrow> lb_initial b \<le> m)"

interpretation linear_series: backoff_series lb_retries lb_current lb_next lb_reset lb_series lb_inv
proof unfold_locales
  fix b :: "'a :: linordered_idom linear_backoff" and i j :: nat
  assume inv: "lb_inv b"
  show "lb_current b = lb_series b (lb_retries b)"
    using inv by (simp add: lb_current_def lb_series_def lb_inv_def split: option.splits)
  show "fst (lb_next b) = lb_current (snd (lb_next b))"
    "lb_retries (snd (lb_next b)) = lb_retries b + 1" "lb_series (snd (lb_next b)) = lb_series b"
    by (simp_all add: lb_next_def Let_def lb_series_def fun_eq_iff split: option.splits)
  show "lb_inv (snd (lb_next b))" "lb_inv (lb_reset b)"
    using inv by (auto simp: lb_inv_def lb_next_def lb_reset_def Let_def split: option.splits)
  show "lb_retries (lb_reset b) = 0" "lb_series (lb_reset b) = lb_series b"
    by (simp_all add: lb_reset_def lb_series_def fun_eq_iff split: option.splits)
  have pos: "0 \<le> lb_initial b" "0 \<le> lb_increment b" using inv by (simp_all add: lb_inv_def)
  then show "0 \<le> lb_series b i"
    using inv by (auto simp: lb_series_def lb_inv_def split: option.splits)
  assume "i \<le> j"
  then have "lb_initial b + lb_increment b * of_nat i \<le> lb_initial b + lb_increment b * of_nat j"
    using pos by (simp add: mult_left_mono)
  then show "lb_series b i \<le> lb_series b j"
    by (auto simp: lb_series_def min_le_iff_disj split: option.splits)
qed

section \<open>Claims\<close>

text \<open>
  The delays of the exponential series. After \<open>k\<close> retries since its creation the next
  delay is \<open>base * 2^min(k + 1, expMax)\<close> (\<open>base * 2^(k + 1)\<close> without a maximum), a reset starts
  the series over, and delays never shrink in between. The doubling is already applied to the
  first delay that \<open>next\<close> returns.
\<close>

theorem exponential_delays:
  assumes "eb_new base expMax = Ret b" and "j \<le> k"
  defines "after \<equiv> \<lambda>n. ((snd \<circ> eb_next) ^^ n) b"
  shows "fst (eb_next (after k)) = base * 2 ^ exponent expMax (k + 1) \<and>
    eb_retries (after k) = k \<and> fst (eb_next (after j)) \<le> fst (eb_next (after k)) \<and>
    fst (eb_next (eb_reset (after k))) = fst (eb_next b)"
proof -
  have b: "eb_inv b" "eb_base b = base" "eb_expMax b = expMax" "eb_retries b = 0"
    using assms(1) by (auto simp: eb_new_def eb_inv_def exponent_def split: if_splits option.splits)
  note adv = exponential_series.advances [OF b(1)]
  have "fst (eb_next (after k)) = eb_series b (k + 1)"
    using adv [of k] b(4) by (simp add: after_def exponential_series.advance_value)
  moreover have "fst (eb_next b) = eb_series b 1"
    using b by (simp add: exponential_series.advance_value)
  ultimately show ?thesis
    using adv [of k] b exponential_series.delays_grow [OF b(1) assms(2)] exponential_series.restart [OF b(1), of k]
    by (simp add: after_def eb_series_def)
qed

theorem exponential_delays_witness:
  "fst (eb_next (((snd \<circ> eb_next) ^^ 5) \<lparr>eb_base = 1000, eb_expMax = Some 3, eb_i = 0, eb_retries = 0\<rparr>)) = 8000"
proof -
  have "eb_new 1000 (Some 3) = Ret \<lparr>eb_base = 1000, eb_expMax = Some 3, eb_i = 0, eb_retries = 0\<rparr>"
    by (simp add: eb_new_def)
  from exponential_delays [OF this, of 0 5] show ?thesis by (simp add: exponent_def)
qed

text \<open>
  The delays of the linear series. After \<open>k\<close> retries the next delay is
  \<open>initial + increment * (k + 1)\<close> cut off at \<open>max\<close>: the maximum bounds the delay itself, and
  not the number of steps as the class comment's formula has it.
\<close>

theorem linear_delays:
  fixes initial :: "'n :: linordered_idom"
  assumes "lb_new initial increment maximum = Ret b" and "j \<le> k"
  defines "after \<equiv> \<lambda>n. ((snd \<circ> lb_next) ^^ n) b"
  shows "fst (lb_next (after k)) =
      (case maximum of None \<Rightarrow> initial + increment * of_nat (k + 1)
       | Some m \<Rightarrow> min (initial + increment * of_nat (k + 1)) m) \<and>
    lb_retries (after k) = k \<and> fst (lb_next (after j)) \<le> fst (lb_next (after k)) \<and>
    fst (lb_next (lb_reset (after k))) = fst (lb_next b)"
proof -
  have b: "lb_inv b" "lb_initial b = initial" "lb_increment b = increment" "lb_max b = maximum" "lb_retries b = 0"
    using assms(1) by (auto simp: lb_new_def lb_inv_def split: if_splits option.splits)
  note adv = linear_series.advances [OF b(1)]
  have "fst (lb_next (after k)) = lb_series b (k + 1)"
    using adv [of k] b(5) by (simp add: after_def linear_series.advance_value)
  moreover have "fst (lb_next b) = lb_series b 1" using b by (simp add: linear_series.advance_value)
  ultimately show ?thesis
    using adv [of k] b linear_series.delays_grow [OF b(1) assms(2)] linear_series.restart [OF b(1), of k]
    by (simp add: after_def lb_series_def split: option.splits)
qed

theorem linear_delays_witness:
  "fst (lb_next (((snd \<circ> lb_next) ^^ 9)
     \<lparr>lb_initial = 1000 :: int, lb_increment = 1000, lb_max = Some 5000, lb_i = 0, lb_retries = 0\<rparr>)) = 5000"
proof -
  have "lb_new (1000 :: int) 1000 (Some 5000) =
      Ret \<lparr>lb_initial = 1000, lb_increment = 1000, lb_max = Some 5000, lb_i = 0, lb_retries = 0\<rparr>"
    by (simp add: lb_new_def)
  from linear_delays [OF this, of 0 9] show ?thesis by simp
qed

end
