(* ===== verification/Websocket.thy ===== *)
theory Websocket
  imports Queues Backoffs
begin

text \<open>
  The reconnecting websocket of the collaboration package (\<open>websocket/core/websocket.ts\<close>):
  connection attempts, buffering, retries with backoff, heartbeats and event dispatch.

  \<^item> The platform's sockets and timers are part of the state: a socket has its ready state,
    the data sent over it, whether the wrapper's handlers are attached, and whether it was
    abandoned while connecting; a timer is pending until it fires or is cleared.
  \<^item> \<open>tryConnect\<close> is asynchronous: the state counts the attempts that wait for their url, and
    an input resumes or rejects one of them.
  \<^item> A listener is the number of a client function. What it does is a parameter \<open>react\<close>: the
    list of calls it makes on the websocket for an event. None of the public methods
    dispatches an event synchronously, so the calls need no nesting. Listeners do not throw.
  \<^item> A handler returns \<open>None\<close> when its loop never ends.
\<close>

section \<open>Data\<close>

datatype ready_state = SockConnecting | SockOpen | SockClosing | SockClosed

datatype connection_state = Connecting | Open | Closing | Closed | Reconnecting

datatype ws_event_type =
  TUrlResolved | TOpen | TClose | TError | TMessage | TRetry | TReconnect | THeartbeatSent
| THeartbeatReceived | THeartbeatMissed

record retry_detail =
  rd_retries :: nat
  rd_backoff :: int
  rd_lastConnection :: "nat option"
  rd_url :: "string option"

datatype ('w, 'r) ws_event =
  UrlResolvedEvent string
| OpenEvent
| CloseEvent
| ErrorEvent
| MessageEvent 'r
| RetryEvent retry_detail
| ReconnectEvent nat nat "string option"
| HeartbeatSentEvent 'w
| HeartbeatReceivedEvent 'w
| HeartbeatMissedEvent nat bool

text \<open>Listener options are compared by reference, so they carry an identity.\<close>

record ws_listener =
  l_listener :: nat
  l_options :: "(nat \<times> bool) option"

record 'w heartbeat_options =
  hb_interval :: "int option"
  hb_timeout :: "int option"
  hb_pingMessage :: "'w option"
  hb_pongMessage :: "'w option"
  hb_maxMissedHeartbeats :: "nat option"
  hb_autoStart :: "bool option"

definition isRequiredHeartbeatOptions :: "'w heartbeat_options \<Rightarrow> bool" where
  "isRequiredHeartbeatOptions o1 \<longleftrightarrow>
     hb_interval o1 \<noteq> None \<and> hb_timeout o1 \<noteq> None \<and> hb_pingMessage o1 \<noteq> None \<and>
     hb_pongMessage o1 \<noteq> None \<and> hb_maxMissedHeartbeats o1 \<noteq> None"

text \<open>The implementations of \<open>WebsocketBuffer\<close> and of \<open>Backoff\<close> in the package.\<close>

datatype 'd ws_buffer = BufferArray "'d array_queue" | BufferRing "'d ring_queue"

fun buffer_add :: "'d \<Rightarrow> 'd ws_buffer \<Rightarrow> 'd ws_buffer" where
  "buffer_add e (BufferArray q) = BufferArray (aq_add e q)"
| "buffer_add e (BufferRing q) = BufferRing (rq_add e q)"

fun buffer_read :: "'d ws_buffer \<Rightarrow> 'd option \<times> 'd ws_buffer" where
  "buffer_read (BufferArray q) = apsnd BufferArray (aq_read q)"
| "buffer_read (BufferRing q) = apsnd BufferRing (rq_read q)"

datatype ws_backoff =
  BackoffConstant constant_backoff | BackoffExponential exponential_backoff
| BackoffLinear "int linear_backoff"

fun backoff_retries :: "ws_backoff \<Rightarrow> nat" where
  "backoff_retries (BackoffConstant b) = cb_retries b"
| "backoff_retries (BackoffExponential b) = eb_retries b"
| "backoff_retries (BackoffLinear b) = lb_retries b"

fun backoff_next :: "ws_backoff \<Rightarrow> int \<times> ws_backoff" where
  "backoff_next (BackoffConstant b) = apsnd BackoffConstant (cb_next b)"
| "backoff_next (BackoffExponential b) = apsnd BackoffExponential (eb_next b)"
| "backoff_next (BackoffLinear b) = apsnd BackoffLinear (lb_next b)"

fun backoff_reset :: "ws_backoff \<Rightarrow> ws_backoff" where
  "backoff_reset (BackoffConstant b) = BackoffConstant (cb_reset b)"
| "backoff_reset (BackoffExponential b) = BackoffExponential (eb_reset b)"
| "backoff_reset (BackoffLinear b) = BackoffLinear (lb_reset b)"

text \<open>The options of the constructor; \<open>serializer\<close> is the identity when none is given.\<close>

record ('d, 'w, 'r) ws_options =
  o_buffer :: "'d ws_buffer option"
  o_maxRetries :: "nat option"
  o_instantReconnect :: "bool option"
  o_backoff :: "ws_backoff option"
  o_heartbeat :: "'w heartbeat_options"
  o_listeners :: "ws_event_type \<Rightarrow> ws_listener list"
  o_serialize :: "'d \<Rightarrow> 'w"
  o_deserialize :: "'w \<Rightarrow> 'r option"

record 'w socket =
  sk_readyState :: ready_state
  sk_attached :: bool
  sk_abandoned :: bool
  sk_sent :: "'w list"
  sk_url :: string

datatype ws_timer = RetryTimer retry_detail | HeartbeatIntervalTimer | HeartbeatTimeoutTimer

record ('d, 'w, 'r) websocket =
  ws_options :: "('d, 'w, 'r) ws_options"
  ws_url :: "string option"
  ws_closedByUser :: bool
  ws_lastConnection :: "nat option"
  ws_socket :: "nat option"
  ws_connectPending :: bool
  ws_retryTimeout :: "nat option"
  ws_heartbeatInterval :: "nat option"
  ws_heartbeatTimeout :: "nat option"
  ws_missedHeartbeats :: nat
  ws_connectionState :: connection_state
  ws_sockets :: "(nat, 'w socket) jsmap"
  ws_timers :: "(nat, ws_timer) jsmap"
  ws_connects :: nat
  ws_nextId :: nat

section \<open>Options\<close>

text \<open>
  The constructor copies the options field by field; the copy of the heartbeat options has
  no \<open>autoStart\<close>.
\<close>

definition copy_options :: "('d, 'w, 'r) ws_options \<Rightarrow> ('d, 'w, 'r) ws_options" where
  "copy_options opts = opts\<lparr>o_heartbeat := (o_heartbeat opts)\<lparr>hb_autoStart := None\<rparr>\<rparr>"

definition ws_buffer_of :: "('d, 'w, 'r) websocket \<Rightarrow> 'd ws_buffer option" where
  "ws_buffer_of w = o_buffer (ws_options w)"

definition ws_backoff_of :: "('d, 'w, 'r) websocket \<Rightarrow> ws_backoff option" where
  "ws_backoff_of w = o_backoff (ws_options w)"

definition heartbeat_of :: "('d, 'w, 'r) websocket \<Rightarrow> 'w heartbeat_options" where
  "heartbeat_of w = o_heartbeat (ws_options w)"

definition set_buffer :: "'d ws_buffer \<Rightarrow> ('d, 'w, 'r) websocket \<Rightarrow> ('d, 'w, 'r) websocket" where
  "set_buffer b w = w\<lparr>ws_options := (ws_options w)\<lparr>o_buffer := Some b\<rparr>\<rparr>"

definition set_backoff :: "ws_backoff \<Rightarrow> ('d, 'w, 'r) websocket \<Rightarrow> ('d, 'w, 'r) websocket" where
  "set_backoff b w = w\<lparr>ws_options := (ws_options w)\<lparr>o_backoff := Some b\<rparr>\<rparr>"

definition set_listeners ::
    "ws_event_type \<Rightarrow> ws_listener list \<Rightarrow> ('d, 'w, 'r) websocket \<Rightarrow> ('d, 'w, 'r) websocket" where
  "set_listeners t ls w = w\<lparr>ws_options := (ws_options w)\<lparr>o_listeners := (o_listeners (ws_options w))(t := ls)\<rparr>\<rparr>"

section \<open>Platform\<close>

definition current_socket :: "('d, 'w, 'r) websocket \<Rightarrow> 'w socket option" where
  "current_socket w = (case ws_socket w of None \<Rightarrow> None | Some s \<Rightarrow> map_of (ws_sockets w) s)"

definition update_socket ::
    "nat \<Rightarrow> ('w socket \<Rightarrow> 'w socket) \<Rightarrow> ('d, 'w, 'r) websocket \<Rightarrow> ('d, 'w, 'r) websocket" where
  "update_socket s f w = w\<lparr>ws_sockets := map (\<lambda>(i, k). (i, if i = s then f k else k)) (ws_sockets w)\<rparr>"

text \<open>\<open>WebSocket.close\<close>: the close event comes later\<close>

fun sock_close :: "'w socket \<Rightarrow> 'w socket" where
  "sock_close k = (case sk_readyState k of
     SockConnecting \<Rightarrow> k\<lparr>sk_readyState := SockClosing\<rparr>
   | SockOpen \<Rightarrow> k\<lparr>sk_readyState := SockClosing\<rparr>
   | _ \<Rightarrow> k)"

definition clear_timer :: "nat option \<Rightarrow> ('d, 'w, 'r) websocket \<Rightarrow> ('d, 'w, 'r) websocket" where
  "clear_timer t w = (case t of None \<Rightarrow> w | Some i \<Rightarrow> w\<lparr>ws_timers := AList.delete i (ws_timers w)\<rparr>)"

definition set_timer :: "ws_timer \<Rightarrow> ('d, 'w, 'r) websocket \<Rightarrow> nat \<times> ('d, 'w, 'r) websocket" where
  "set_timer k w = (ws_nextId w,
     w\<lparr>ws_timers := ws_timers w @ [(ws_nextId w, k)], ws_nextId := ws_nextId w + 1\<rparr>)"

section \<open>Public methods\<close>

definition send :: "'d \<Rightarrow> ('d, 'w, 'r) websocket \<Rightarrow> bool \<times> ('d, 'w, 'r) websocket" where
  "send rawData w =
     (if ws_closedByUser w then (False, w)
      else let data = o_serialize (ws_options w) rawData
      in case (ws_socket w, current_socket w) of
           (Some s, Some k) \<Rightarrow>
             (if sk_readyState k = SockOpen
              then (True, update_socket s (\<lambda>k. k\<lparr>sk_sent := sk_sent k @ [data]\<rparr>) w)
              else case ws_buffer_of w of
                     None \<Rightarrow> (False, w)
                   | Some b \<Rightarrow> (False, set_buffer (buffer_add rawData b) w))
         | _ \<Rightarrow> (case ws_buffer_of w of
                   None \<Rightarrow> (False, w)
                 | Some b \<Rightarrow> (False, set_buffer (buffer_add rawData b) w)))"

definition cancelScheduledConnectionRetry :: "('d, 'w, 'r) websocket \<Rightarrow> ('d, 'w, 'r) websocket" where
  "cancelScheduledConnectionRetry w = clear_timer (ws_retryTimeout w) w"

definition stopHeartbeat :: "('d, 'w, 'r) websocket \<Rightarrow> ('d, 'w, 'r) websocket" where
  "stopHeartbeat w =
     (let w1 = (case ws_heartbeatInterval w of None \<Rightarrow> w
                | Some i \<Rightarrow> (clear_timer (Some i) w)\<lparr>ws_heartbeatInterval := None\<rparr>);
          w2 = (case ws_heartbeatTimeout w1 of None \<Rightarrow> w1
                | Some i \<Rightarrow> (clear_timer (Some i) w1)\<lparr>ws_heartbeatTimeout := None\<rparr>)
      in w2\<lparr>ws_missedHeartbeats := 0\<rparr>)"

definition startHeartbeat :: "('d, 'w, 'r) websocket \<Rightarrow> ('d, 'w, 'r) websocket" where
  "startHeartbeat w =
     (let w1 = (stopHeartbeat w)\<lparr>ws_missedHeartbeats := 0\<rparr>
      in if \<not> isRequiredHeartbeatOptions (heartbeat_of w1) then w1
         else if ws_connectionState w1 \<noteq> Open then w1
         else case set_timer HeartbeatIntervalTimer w1 of (i, w2) \<Rightarrow> w2\<lparr>ws_heartbeatInterval := Some i\<rparr>)"

definition isHeartbeatRunning :: "('d, 'w, 'r) websocket \<Rightarrow> bool" where
  "isHeartbeatRunning w \<longleftrightarrow> ws_heartbeatInterval w \<noteq> None"

definition close :: "('d, 'w, 'r) websocket \<Rightarrow> ('d, 'w, 'r) websocket" where
  "close w =
     (let w1 = (cancelScheduledConnectionRetry w)\<lparr>ws_closedByUser := True\<rparr>;
          w2 = (case ws_socket w1 of None \<Rightarrow> w1 | Some s \<Rightarrow> update_socket s sock_close w1)
      in stopHeartbeat w2)"

definition addEventListener ::
    "ws_event_type \<Rightarrow> ws_listener \<Rightarrow> ('d, 'w, 'r) websocket \<Rightarrow> ('d, 'w, 'r) websocket" where
  "addEventListener t l w = set_listeners t (o_listeners (ws_options w) t @ [l]) w"

definition removeEventListener ::
    "ws_event_type \<Rightarrow> ws_listener \<Rightarrow> ('d, 'w, 'r) websocket \<Rightarrow> ('d, 'w, 'r) websocket" where
  "removeEventListener t l w = set_listeners t
     (filter (\<lambda>k. l_listener k \<noteq> l_listener l \<or> l_options k \<noteq> l_options l) (o_listeners (ws_options w) t)) w"

text \<open>The part of \<open>tryConnect\<close> before its \<open>await\<close>.\<close>

definition tryConnect :: "('d, 'w, 'r) websocket \<Rightarrow> ('d, 'w, 'r) websocket" where
  "tryConnect w = w\<lparr>ws_connectPending := True, ws_connects := ws_connects w + 1\<rparr>"

definition clearWebsocket :: "('d, 'w, 'r) websocket \<Rightarrow> ('d, 'w, 'r) websocket" where
  "clearWebsocket w =
     (case ws_socket w of
        None \<Rightarrow> w
      | Some s \<Rightarrow> update_socket s
          (\<lambda>k. let k1 = k\<lparr>sk_attached := False\<rparr>
               in if sk_readyState k1 = SockConnecting then k1\<lparr>sk_abandoned := True\<rparr>
                  else if sk_readyState k1 \<noteq> SockClosed then sock_close k1 else k1) w)"

definition reconnect :: "('d, 'w, 'r) websocket \<Rightarrow> ('d, 'w, 'r) websocket" where
  "reconnect w =
     (let w1 = w\<lparr>ws_closedByUser := False\<rparr>
      in if ws_connectPending w1 then w1
         else tryConnect ((clearWebsocket (stopHeartbeat (cancelScheduledConnectionRetry w1)))
                \<lparr>ws_connectionState := Reconnecting\<rparr>))"

definition reconnectIfDisconnected :: "('d, 'w, 'r) websocket \<Rightarrow> ('d, 'w, 'r) websocket" where
  "reconnectIfDisconnected w =
     (if ws_connectPending w \<or> ws_closedByUser w then w
      else case current_socket w of
             None \<Rightarrow> reconnect w
           | Some k \<Rightarrow> (if sk_readyState k = SockOpen \<or> sk_readyState k = SockConnecting then w
                        else reconnect w))"

datatype 'd ws_call =
  CallSend 'd
| CallClose
| CallAddEventListener ws_event_type ws_listener
| CallRemoveEventListener ws_event_type ws_listener
| CallStartHeartbeat
| CallReconnect
| CallReconnectIfDisconnected

fun perform_call :: "'d ws_call \<Rightarrow> ('d, 'w, 'r) websocket \<Rightarrow> ('d, 'w, 'r) websocket" where
  "perform_call (CallSend d) w = snd (send d w)"
| "perform_call CallClose w = close w"
| "perform_call (CallAddEventListener t l) w = addEventListener t l w"
| "perform_call (CallRemoveEventListener t l) w = removeEventListener t l w"
| "perform_call CallStartHeartbeat w = startHeartbeat w"
| "perform_call CallReconnect w = reconnect w"
| "perform_call CallReconnectIfDisconnected w = reconnectIfDisconnected w"

section \<open>Events\<close>

type_synonym ('d, 'w, 'r) reaction = "nat \<Rightarrow> ('w, 'r) ws_event \<Rightarrow> 'd ws_call list"

definition is_once :: "ws_listener \<Rightarrow> bool" where
  "is_once l \<longleftrightarrow> (case l_options l of None \<Rightarrow> False | Some (_, once) \<Rightarrow> once)"

text \<open>
  The listeners registered when the dispatch begins are called in order; afterwards they,
  without the once-listeners, replace whatever the list has become in the meantime.
\<close>

definition dispatchEvent ::
    "('d, 'w, 'r) reaction \<Rightarrow> ws_event_type \<Rightarrow> ('w, 'r) ws_event \<Rightarrow> ('d, 'w, 'r) websocket \<Rightarrow>
     ('d, 'w, 'r) websocket" where
  "dispatchEvent react t ev w =
     (let ls = o_listeners (ws_options w) t;
          w1 = fold (\<lambda>l. fold perform_call (react (l_listener l) ev)) ls w
      in set_listeners t (filter (\<lambda>l. \<not> is_once l) ls) w1)"

partial_function (option) sendBufferedData ::
    "('d, 'w, 'r) websocket \<Rightarrow> ('d, 'w, 'r) websocket option" where
  "sendBufferedData w =
     (case ws_buffer_of w of
        None \<Rightarrow> Some w
      | Some b \<Rightarrow>
          (case buffer_read b of
             (None, b') \<Rightarrow> Some (set_buffer b' w)
           | (Some ele, b') \<Rightarrow> sendBufferedData (snd (send ele (set_buffer b' w)))))"

definition scheduleConnectionRetryIfNeeded :: "('d, 'w, 'r) websocket \<Rightarrow> ('d, 'w, 'r) websocket" where
  "scheduleConnectionRetryIfNeeded w =
     (if ws_closedByUser w then w
      else case ws_backoff_of w of
        None \<Rightarrow> w
      | Some b \<Rightarrow>
          let w1 = cancelScheduledConnectionRetry w;
              instant = (o_instantReconnect (ws_options w1) = Some True);
              (delay, b1) = (if instant then (0, b) else backoff_next b);
              w2 = set_backoff b1 w1;
              detail = \<lparr>rd_retries = (if instant then 0 else backoff_retries b1), rd_backoff = delay,
                        rd_lastConnection = ws_lastConnection w2, rd_url = ws_url w2\<rparr>
          in if (case o_maxRetries (ws_options w2) of None \<Rightarrow> True | Some m \<Rightarrow> rd_retries detail \<le> m)
             then case set_timer (RetryTimer detail) w2 of (i, w3) \<Rightarrow> w3\<lparr>ws_retryTimeout := Some i\<rparr>
             else w2)"

definition handleClose :: "('d, 'w, 'r) reaction \<Rightarrow> ('d, 'w, 'r) websocket \<Rightarrow> ('d, 'w, 'r) websocket" where
  "handleClose react w = scheduleConnectionRetryIfNeeded (dispatchEvent react TClose CloseEvent
     ((stopHeartbeat w)\<lparr>ws_connectionState := Closed\<rparr>))"

definition handleOpen ::
    "('d, 'w, 'r) reaction \<Rightarrow> nat \<Rightarrow> ('d, 'w, 'r) websocket \<Rightarrow> ('d, 'w, 'r) websocket option" where
  "handleOpen react now w =
     (let w1 = w\<lparr>ws_connectionState := Open\<rparr>;
          w2 = (case (ws_backoff_of w1, ws_lastConnection w1) of
                  (Some b, Some since) \<Rightarrow>
                    dispatchEvent react TReconnect (ReconnectEvent (backoff_retries b) since (ws_url w1)) w1
                | _ \<Rightarrow> w1);
          w3 = (case ws_backoff_of w2 of None \<Rightarrow> w2 | Some b \<Rightarrow> set_backoff (backoff_reset b) w2);
          w4 = (if hb_autoStart (heartbeat_of w3) \<noteq> Some False then startHeartbeat w3 else w3);
          w5 = w4\<lparr>ws_lastConnection := Some now\<rparr>
      in sendBufferedData (dispatchEvent react TOpen OpenEvent w5))"

definition handleRetry ::
    "('d, 'w, 'r) reaction \<Rightarrow> retry_detail \<Rightarrow> ('d, 'w, 'r) websocket \<Rightarrow> ('d, 'w, 'r) websocket" where
  "handleRetry react d w = tryConnect (clearWebsocket (dispatchEvent react TRetry (RetryEvent d)
     (w\<lparr>ws_connectionState := Reconnecting\<rparr>)))"

definition handleError :: "('d, 'w, 'r) reaction \<Rightarrow> ('d, 'w, 'r) websocket \<Rightarrow> ('d, 'w, 'r) websocket" where
  "handleError react w = dispatchEvent react TError ErrorEvent (w\<lparr>ws_connectionState := Closing\<rparr>)"

definition handleHeartbeatReceived ::
    "('d, 'w, 'r) reaction \<Rightarrow> 'w \<Rightarrow> ('d, 'w, 'r) websocket \<Rightarrow> ('d, 'w, 'r) websocket" where
  "handleHeartbeatReceived react data w =
     (let w1 = (case ws_heartbeatTimeout w of None \<Rightarrow> w
                | Some i \<Rightarrow> (clear_timer (Some i) w)\<lparr>ws_heartbeatTimeout := None\<rparr>);
          w2 = w1\<lparr>ws_missedHeartbeats := 0\<rparr>
      in dispatchEvent react THeartbeatReceived (HeartbeatReceivedEvent data) w2)"

text \<open>A message that cannot be deserialized is logged and rethrown; the state stays.\<close>

definition handleMessage ::
    "('d, 'w, 'r) reaction \<Rightarrow> 'w \<Rightarrow> ('d, 'w, 'r) websocket \<Rightarrow> ('d, 'w, 'r) websocket" where
  "handleMessage react data w =
     (if Some data = hb_pongMessage (heartbeat_of w) then handleHeartbeatReceived react data w
      else case o_deserialize (ws_options w) data of
             None \<Rightarrow> w
           | Some msg \<Rightarrow> dispatchEvent react TMessage (MessageEvent msg) w)"

definition handleHeartbeatTimeout ::
    "('d, 'w, 'r) reaction \<Rightarrow> ('d, 'w, 'r) websocket \<Rightarrow> ('d, 'w, 'r) websocket" where
  "handleHeartbeatTimeout react w =
     (let w1 = w\<lparr>ws_missedHeartbeats := ws_missedHeartbeats w + 1\<rparr>
      in if \<not> isRequiredHeartbeatOptions (heartbeat_of w1) then w1
         else let shouldReconnect = ws_missedHeartbeats w1 > the (hb_maxMissedHeartbeats (heartbeat_of w1));
                  w2 = dispatchEvent react THeartbeatMissed
                         (HeartbeatMissedEvent (ws_missedHeartbeats w1) shouldReconnect) w1
              in if shouldReconnect
                 then (case ws_socket w2 of None \<Rightarrow> w2 | Some s \<Rightarrow> update_socket s sock_close w2)
                 else w2)"

text \<open>\<open>send\<close> on a socket that is still connecting throws and leaves the state.\<close>

definition sendHeartbeat :: "('d, 'w, 'r) reaction \<Rightarrow> ('d, 'w, 'r) websocket \<Rightarrow> ('d, 'w, 'r) websocket" where
  "sendHeartbeat react w =
     (case (ws_socket w, current_socket w) of
        (Some s, Some k) \<Rightarrow>
          (if ws_closedByUser w then w
           else if \<not> isRequiredHeartbeatOptions (heartbeat_of w) then w
           else if sk_readyState k = SockClosing \<or> sk_readyState k = SockClosed then handleClose react w
           else if sk_readyState k = SockConnecting then w
           else let ping = the (hb_pingMessage (heartbeat_of w));
                    w1 = update_socket s (\<lambda>k. k\<lparr>sk_sent := sk_sent k @ [ping]\<rparr>) w;
                    w2 = dispatchEvent react THeartbeatSent (HeartbeatSentEvent ping) w1
                in case set_timer HeartbeatTimeoutTimer w2 of (i, w3) \<Rightarrow> w3\<lparr>ws_heartbeatTimeout := Some i\<rparr>)
      | _ \<Rightarrow> w)"

text \<open>The part of \<open>tryConnect\<close> after the url is resolved, with its \<open>finally\<close>.\<close>

definition tryConnect_resolved ::
    "('d, 'w, 'r) reaction \<Rightarrow> string \<Rightarrow> ('d, 'w, 'r) websocket \<Rightarrow> ('d, 'w, 'r) websocket" where
  "tryConnect_resolved react url w =
     (if ws_closedByUser w then w\<lparr>ws_connectPending := False\<rparr>
      else let w1 = dispatchEvent react TUrlResolved (UrlResolvedEvent url) (w\<lparr>ws_url := Some url\<rparr>);
               s = ws_nextId w1;
               w2 = w1\<lparr>ws_sockets := ws_sockets w1 @ [(s, \<lparr>sk_readyState = SockConnecting, sk_attached = True,
                         sk_abandoned = False, sk_sent = [], sk_url = the (ws_url w1)\<rparr>)],
                       ws_nextId := s + 1, ws_socket := Some s\<rparr>
           in w2\<lparr>ws_connectPending := False\<rparr>)"

definition tryConnect_rejected :: "('d, 'w, 'r) websocket \<Rightarrow> ('d, 'w, 'r) websocket" where
  "tryConnect_rejected w = w\<lparr>ws_connectPending := False\<rparr>"

definition ws_new :: "string option \<Rightarrow> ('d, 'w, 'r) ws_options \<Rightarrow> ('d, 'w, 'r) websocket" where
  "ws_new url opts = tryConnect \<lparr>ws_options = copy_options opts, ws_url = url, ws_closedByUser = False,
     ws_lastConnection = None, ws_socket = None, ws_connectPending = False, ws_retryTimeout = None,
     ws_heartbeatInterval = None, ws_heartbeatTimeout = None, ws_missedHeartbeats = 0,
     ws_connectionState = Connecting, ws_sockets = [], ws_timers = [], ws_connects = 0, ws_nextId = 0\<rparr>"

section \<open>The machine\<close>

datatype ('d, 'w) ws_input =
  InResolve string
| InReject
| InSockOpen nat nat
| InSockClose nat
| InSockError nat
| InSockMessage nat 'w
| InTimer nat
| InCall "'d ws_call"

text \<open>
  The platform's side: a connecting socket may open; a socket that is not closed may close,
  fail or deliver messages; a pending timer may fire. Handlers run only while attached; an
  abandoned socket is closed as soon as it opens.
\<close>

fun ws_step ::
    "('d, 'w, 'r) reaction \<Rightarrow> ('d, 'w) ws_input \<Rightarrow> ('d, 'w, 'r) websocket \<Rightarrow> ('d, 'w, 'r) websocket option" where
  "ws_step react (InResolve url) w =
     (if ws_connects w = 0 then Some w
      else Some (tryConnect_resolved react url (w\<lparr>ws_connects := ws_connects w - 1\<rparr>)))"
| "ws_step react InReject w =
     (if ws_connects w = 0 then Some w
      else Some (tryConnect_rejected (w\<lparr>ws_connects := ws_connects w - 1\<rparr>)))"
| "ws_step react (InSockOpen s now) w =
     (case map_of (ws_sockets w) s of
        None \<Rightarrow> Some w
      | Some k \<Rightarrow>
          (if sk_readyState k \<noteq> SockConnecting then Some w
           else let w1 = update_socket s (\<lambda>k. k\<lparr>sk_readyState := SockOpen\<rparr>) w
                in if sk_attached k then handleOpen react now w1
                   else if sk_abandoned k then Some (update_socket s sock_close w1)
                   else Some w1))"
| "ws_step react (InSockClose s) w =
     (case map_of (ws_sockets w) s of
        None \<Rightarrow> Some w
      | Some k \<Rightarrow>
          (if sk_readyState k = SockClosed then Some w
           else let w1 = update_socket s (\<lambda>k. k\<lparr>sk_readyState := SockClosed\<rparr>) w
                in if sk_attached k then Some (handleClose react w1) else Some w1))"
| "ws_step react (InSockError s) w =
     (case map_of (ws_sockets w) s of
        None \<Rightarrow> Some w
      | Some k \<Rightarrow>
          (if sk_readyState k = SockClosed then Some w
           else if sk_attached k then Some (handleError react w) else Some w))"
| "ws_step react (InSockMessage s data) w =
     (case map_of (ws_sockets w) s of
        None \<Rightarrow> Some w
      | Some k \<Rightarrow>
          (if sk_readyState k = SockOpen \<and> sk_attached k then Some (handleMessage react data w)
           else Some w))"
| "ws_step react (InTimer i) w =
     (case map_of (ws_timers w) i of
        None \<Rightarrow> Some w
      | Some (RetryTimer d) \<Rightarrow> Some (handleRetry react d (clear_timer (Some i) w))
      | Some HeartbeatIntervalTimer \<Rightarrow>
          (if ws_connectionState w = Open then Some (sendHeartbeat react w) else Some w)
      | Some HeartbeatTimeoutTimer \<Rightarrow> Some (handleHeartbeatTimeout react (clear_timer (Some i) w)))"
| "ws_step react (InCall c) w = Some (perform_call c w)"

text \<open>A run from a fresh websocket.\<close>

inductive ws_run ::
    "('d, 'w, 'r) reaction \<Rightarrow> ('d, 'w) ws_input list \<Rightarrow> ('d, 'w, 'r) websocket \<Rightarrow> bool" for react where
  start: "ws_run react [] (ws_new url opts)"
| step: "ws_run react ins w \<Longrightarrow> ws_step react i w = Some w' \<Longrightarrow> ws_run react (ins @ [i]) w'"

end
