(* ===== verification/WebsocketProps.thy ===== *)
theory WebsocketProps
  imports Websocket
begin

text \<open>
  Properties of the reconnecting websocket: flushing of the buffer, one connection at a
  time, finality of a user close, and the retry policy.
\<close>

section \<open>The buffer\<close>

text \<open>The interface \<open>WebsocketBuffer\<close>, a part of what a \<open>Queue\<close> promises.\<close>

locale message_buffer =
  fixes add :: "'e \<Rightarrow> 'q \<Rightarrow> 'q"
    and read :: "'q \<Rightarrow> 'e option \<times> 'q"
    and contents :: "'q \<Rightarrow> 'e list"
    and inv :: "'q \<Rightarrow> bool"
  assumes buffer_add_inv: "inv q \<Longrightarrow> inv (add e q)"
    and buffer_read: "inv q \<Longrightarrow> inv (snd (read q)) \<and> contents (snd (read q)) = tl (contents q) \<and>
      fst (read q) = (case contents q of [] \<Rightarrow> None | e # _ \<Rightarrow> Some e)"
    and buffer_readd: "inv q \<Longrightarrow> contents q = e # es \<Longrightarrow> contents (add e (snd (read q))) = es @ [e]"
begin

lemma read_cases:
  assumes "inv q"
  obtains (empty) q' where "contents q = []" "read q = (None, q')" "inv q'" "contents q' = []"
  | (first) e es q' where "contents q = e # es" "read q = (Some e, q')" "inv q'" "contents q' = es"
      "contents (add e q') = es @ [e]"
  using buffer_read [OF assms] buffer_readd [OF assms]
  by (cases "contents q"; cases "read q") auto

end

lemma keep_last_full: "length es < c \<Longrightarrow> keep_last (Some c) (es @ [e]) = es @ [e]"
  by simp

sublocale queue \<subseteq> message_buffer add read contents inv
proof
  fix q e es
  assume inv: "inv q"
  then show "inv (add e q)" by (rule add_inv)
  show "inv (snd (read q)) \<and> contents (snd (read q)) = tl (contents q) \<and>
      fst (read q) = (case contents q of [] \<Rightarrow> None | e # _ \<Rightarrow> Some e)"
    using inv by (simp add: read_inv read_contents read_result)
  assume c: "contents q = e # es"
  show "contents (add e (snd (read q))) = es @ [e]"
  proof (cases "capacity (snd (read q))")
    case None
    then show ?thesis using inv c by (simp add: add_contents read_inv read_contents)
  next
    case (Some n)
    then have "length (contents q) \<le> n" using inv capacity_bound [of q n] by (simp add: read_capacity)
    then show ?thesis using inv c Some by (simp add: add_contents read_inv read_contents)
  qed
qed

fun buffer_contents :: "'d ws_buffer \<Rightarrow> 'd list" where
  "buffer_contents (BufferArray q) = aq_elements q"
| "buffer_contents (BufferRing q) = rq_contents q"

fun buffer_ok :: "'d ws_buffer \<Rightarrow> bool" where
  "buffer_ok (BufferArray q) = True"
| "buffer_ok (BufferRing q) = rq_inv q"

interpretation ws_buf: message_buffer buffer_add buffer_read buffer_contents buffer_ok
proof
  fix b :: "'a ws_buffer" and e :: 'a and es :: "'a list"
  assume ok: "buffer_ok b"
  show "buffer_ok (buffer_add e b)" using ok ring_queue.add_inv by (cases b) auto
  show "buffer_ok (snd (buffer_read b)) \<and> buffer_contents (snd (buffer_read b)) = tl (buffer_contents b) \<and>
      fst (buffer_read b) = (case buffer_contents b of [] \<Rightarrow> None | e # _ \<Rightarrow> Some e)"
    using ok array_queue.buffer_read ring_queue.buffer_read by (cases b) auto
  assume "buffer_contents b = e # es"
  then show "buffer_contents (buffer_add e (snd (buffer_read b))) = es @ [e]"
    using ok array_queue.buffer_readd ring_queue.buffer_readd by (cases b) auto
qed

section \<open>Flushing the buffer\<close>

lemma map_of_update_socket [simp]:
  "map_of (ws_sockets (update_socket s f w)) i =
     map_option (\<lambda>k. if i = s then f k else k) (map_of (ws_sockets w) i)"
proof -
  have "map_of (map (\<lambda>(i, k). (i, if i = s then f k else k)) m) i =
      map_option (\<lambda>k. if i = s then f k else k) (map_of m i)" for m :: "(nat \<times> 'a socket) list"
    by (induction m) auto
  then show ?thesis by (simp add: update_socket_def)
qed

lemma update_socket_frame [simp]:
  "ws_socket (update_socket s f w) = ws_socket w" "ws_options (update_socket s f w) = ws_options w"
  "ws_closedByUser (update_socket s f w) = ws_closedByUser w"
  by (simp_all add: update_socket_def)

lemma current_socket_update [simp]:
  "ws_socket w = Some s \<Longrightarrow> current_socket (update_socket s f w) = map_option f (current_socket w)"
  by (simp add: current_socket_def)

lemma set_buffer_frame [simp]:
  "ws_socket (set_buffer b w) = ws_socket w" "current_socket (set_buffer b w) = current_socket w"
  "ws_closedByUser (set_buffer b w) = ws_closedByUser w" "ws_buffer_of (set_buffer b w) = Some b"
  "o_serialize (ws_options (set_buffer b w)) = o_serialize (ws_options w)"
  by (simp_all add: set_buffer_def current_socket_def ws_buffer_of_def split: option.split)

lemma flush_open:
  assumes "ws_socket w = Some s" and "current_socket w = Some k" and "sk_readyState k = SockOpen"
    and "\<not> ws_closedByUser w" and "ws_buffer_of w = Some b" and "buffer_ok b"
  shows "\<exists>w' b' k'. sendBufferedData w = Some w' \<and> ws_buffer_of w' = Some b' \<and> buffer_contents b' = [] \<and>
    current_socket w' = Some k' \<and> sk_readyState k' = SockOpen \<and>
    sk_sent k' = sk_sent k @ map (o_serialize (ws_options w)) (buffer_contents b)"
  using assms
proof (induction "buffer_contents b" arbitrary: b w k)
  case Nil
  from Nil.prems(6) show ?case
    by (cases b rule: ws_buf.read_cases) (use Nil in \<open>simp_all add: sendBufferedData.simps\<close>)
next
  case (Cons e es)
  obtain b' where b': "buffer_read b = (Some e, b')" "buffer_ok b'" "buffer_contents b' = es"
    using Cons.prems(6) Cons.hyps(2) by (cases b rule: ws_buf.read_cases) auto
  let ?w = "snd (send e (set_buffer b' w))"
  let ?k = "k\<lparr>sk_sent := sk_sent k @ [o_serialize (ws_options w) e]\<rparr>"
  have w: "?w = update_socket s (\<lambda>k. k\<lparr>sk_sent := sk_sent k @ [o_serialize (ws_options w) e]\<rparr>) (set_buffer b' w)"
    using Cons.prems by (simp add: send_def Let_def)
  have "\<exists>w' b'' k'. sendBufferedData ?w = Some w' \<and> ws_buffer_of w' = Some b'' \<and> buffer_contents b'' = [] \<and>
      current_socket w' = Some k' \<and> sk_readyState k' = SockOpen \<and>
      sk_sent k' = sk_sent ?k @ map (o_serialize (ws_options ?w)) (buffer_contents b')"
    by (rule Cons.hyps(1)) (use Cons.prems b' in \<open>simp_all add: w ws_buffer_of_def [of "update_socket s f x" for s f x]\<close>,
        simp_all add: ws_buffer_of_def set_buffer_def)
  moreover have "sendBufferedData w = sendBufferedData ?w"
    using b' Cons.prems(5) by (subst sendBufferedData.simps) simp
  moreover have "o_serialize (ws_options ?w) = o_serialize (ws_options w)" unfolding w by simp
  moreover have "buffer_contents b = e # buffer_contents b'" using b'(3) Cons.hyps(2) by simp
  ultimately show ?case by simp
qed

text \<open>The state in which the loop never ends.\<close>

definition stuck :: "('d, 'w, 'r) websocket \<Rightarrow> bool" where
  "stuck w \<longleftrightarrow> \<not> ws_closedByUser w \<and> (case current_socket w of None \<Rightarrow> True | Some k \<Rightarrow> sk_readyState k \<noteq> SockOpen) \<and>
     (case ws_buffer_of w of None \<Rightarrow> False | Some b \<Rightarrow> buffer_ok b \<and> buffer_contents b \<noteq> [])"

lemma stuck_step:
  assumes "stuck w" and "ws_buffer_of w = Some b" and "buffer_read b = (x, b')"
  shows "\<exists>e. x = Some e \<and> stuck (snd (send e (set_buffer b' w)))"
proof -
  have ok: "buffer_ok b" "buffer_contents b \<noteq> []" using assms by (auto simp: stuck_def)
  then obtain e es where e: "x = Some e" "buffer_ok b'" "buffer_contents (buffer_add e b') = es @ [e]"
    using assms(3) by (cases b rule: ws_buf.read_cases) auto
  have "buffer_ok (buffer_add e b')" using ws_buf.buffer_add_inv [OF e(2)] .
  with e assms(1) show ?thesis
    by (cases "ws_socket w"; cases "current_socket w") (auto simp: stuck_def send_def Let_def)
qed

lemma flush_stuck:
  assumes "stuck w"
  shows "sendBufferedData w = None"
proof -
  have "\<not> stuck w" if "sendBufferedData w = Some w'" for w w' :: "('d, 'w, 'r) websocket"
  proof (rule sendBufferedData.raw_induct [where P = "\<lambda>w w'. \<not> stuck w", OF _ that])
    fix f :: "('d, 'w, 'r) websocket \<Rightarrow> ('d, 'w, 'r) websocket option" and w w'
    assume 1: "\<And>w w'. f w = Some w' \<Longrightarrow> \<not> stuck w"
      "(case ws_buffer_of w of None \<Rightarrow> Some w
        | Some b \<Rightarrow> (case buffer_read b of (None, b') \<Rightarrow> Some (set_buffer b' w)
            | (Some ele, b') \<Rightarrow> f (snd (send ele (set_buffer b' w))))) = Some w'"
    show "\<not> stuck w"
    proof
      assume st: "stuck w"
      then obtain b where b: "ws_buffer_of w = Some b" by (cases "ws_buffer_of w") (auto simp: stuck_def)
      obtain x b' where rd: "buffer_read b = (x, b')" by fastforce
      from stuck_step [OF st b rd] obtain e where "x = Some e" "stuck (snd (send e (set_buffer b' w)))" by blast
      with 1 b rd show False by auto
    qed
  qed
  with assms show ?thesis by (cases "sendBufferedData w") auto
qed

section \<open>What listeners may change\<close>

fun is_retry :: "ws_timer \<Rightarrow> bool" where
  "is_retry (RetryTimer _) = True"
| "is_retry _ = False"

definition retry_timers :: "('d, 'w, 'r) websocket \<Rightarrow> nat list" where
  "retry_timers w = map fst (filter (\<lambda>p. is_retry (snd p)) (ws_timers w))"

fun quiet_call :: "'d ws_call \<Rightarrow> bool" where
  "quiet_call CallReconnect = False"
| "quiet_call CallReconnectIfDisconnected = False"
| "quiet_call _ = True"

text \<open>Listeners that do not ask for a new connection.\<close>

definition quiet :: "('d, 'w, 'r) reaction \<Rightarrow> bool" where
  "quiet react \<longleftrightarrow> (\<forall>l ev. list_all quiet_call (react l ev))"

text \<open>Timer ids are never reused.\<close>

definition timers_ok :: "('d, 'w, 'r) websocket \<Rightarrow> bool" where
  "timers_ok w \<longleftrightarrow> distinct (map fst (ws_timers w)) \<and> (\<forall>p \<in> set (ws_timers w). fst p < ws_nextId w)"

definition sock_calm :: "'w socket \<Rightarrow> 'w socket \<Rightarrow> bool" where
  "sock_calm k k' \<longleftrightarrow> sk_attached k' = sk_attached k \<and> sk_abandoned k' = sk_abandoned k \<and>
     (sk_readyState k' = sk_readyState k \<or>
      sk_readyState k \<in> {SockConnecting, SockOpen} \<and> sk_readyState k' = SockClosing)"

definition calm :: "('d, 'w, 'r) websocket \<Rightarrow> ('d, 'w, 'r) websocket \<Rightarrow> bool" where
  "calm w w' \<longleftrightarrow>
     ws_connects w' = ws_connects w \<and> ws_connectPending w' = ws_connectPending w \<and>
     ws_connectionState w' = ws_connectionState w \<and> ws_socket w' = ws_socket w \<and>
     ws_retryTimeout w' = ws_retryTimeout w \<and> ws_nextId w \<le> ws_nextId w' \<and>
     (ws_closedByUser w \<longrightarrow> ws_closedByUser w') \<and>
     set (retry_timers w') \<subseteq> set (retry_timers w) \<and> (timers_ok w \<longrightarrow> timers_ok w') \<and>
     list_all2 (\<lambda>p p'. fst p' = fst p \<and> sock_calm (snd p) (snd p')) (ws_sockets w) (ws_sockets w')"

lemma sock_calm_refl [simp]: "sock_calm k k"
  by (simp add: sock_calm_def)

lemma sock_calm_trans: "sock_calm a b \<Longrightarrow> sock_calm b c \<Longrightarrow> sock_calm a c"
  by (auto simp: sock_calm_def)

lemma calm_trans: "calm a b \<Longrightarrow> calm b c \<Longrightarrow> calm a c"
proof -
  assume ab: "calm a b" and bc: "calm b c"
  let ?R = "\<lambda>p p'. fst p' = fst p \<and> sock_calm (snd p) (snd p')"
  have "list_all2 ?R (ws_sockets a) (ws_sockets c)"
    by (rule list_all2_trans [of ?R ?R ?R, where bs = "ws_sockets b"])
      (use ab bc in \<open>auto simp: calm_def intro: sock_calm_trans\<close>)
  with ab bc show "calm a c" by (auto simp: calm_def)
qed

lemma calmI:
  assumes "ws_connects w' = ws_connects w" "ws_connectPending w' = ws_connectPending w"
    "ws_connectionState w' = ws_connectionState w" "ws_socket w' = ws_socket w"
    "ws_retryTimeout w' = ws_retryTimeout w" "ws_nextId w \<le> ws_nextId w'"
    "ws_closedByUser w \<longrightarrow> ws_closedByUser w'" "set (retry_timers w') \<subseteq> set (retry_timers w)"
    "timers_ok w \<longrightarrow> timers_ok w'" "ws_sockets w' = ws_sockets w"
  shows "calm w w'"
  using assms by (simp add: calm_def list_all2_same)

lemma calm_refl [simp]: "calm w w"
  by (rule calmI) auto

lemma retry_timers_delete: "set (retry_timers (clear_timer t w)) = set (retry_timers w) - set_option t"
  by (cases t) (auto simp: retry_timers_def clear_timer_def set_delete)

lemma clear_timer_frame [simp]:
  "ws_connects (clear_timer t w) = ws_connects w" "ws_connectPending (clear_timer t w) = ws_connectPending w"
  "ws_connectionState (clear_timer t w) = ws_connectionState w" "ws_socket (clear_timer t w) = ws_socket w"
  "ws_retryTimeout (clear_timer t w) = ws_retryTimeout w" "ws_nextId (clear_timer t w) = ws_nextId w"
  "ws_closedByUser (clear_timer t w) = ws_closedByUser w" "ws_sockets (clear_timer t w) = ws_sockets w"
  "ws_options (clear_timer t w) = ws_options w"
  by (cases t; simp add: clear_timer_def)+

lemma timers_ok_clear [simp]: "timers_ok w \<Longrightarrow> timers_ok (clear_timer t w)"
  by (cases t) (auto simp: timers_ok_def clear_timer_def set_delete distinct_delete)

lemma timers_ok_set_timer [simp]: "timers_ok w \<Longrightarrow> timers_ok (snd (set_timer k w))"
  by (auto simp: timers_ok_def set_timer_def)

lemma timers_ok_fields [simp]:
  "timers_ok w \<Longrightarrow> timers_ok (w\<lparr>ws_nextId := Suc (ws_nextId w)\<rparr>)"
  "timers_ok (w\<lparr>ws_connectionState := st\<rparr>) = timers_ok w"
  "timers_ok (w\<lparr>ws_closedByUser := u\<rparr>) = timers_ok w"
  "timers_ok (w\<lparr>ws_connects := n\<rparr>) = timers_ok w"
  "timers_ok (w\<lparr>ws_connectPending := b\<rparr>) = timers_ok w"
  "timers_ok (w\<lparr>ws_url := x\<rparr>) = timers_ok w"
  "timers_ok (w\<lparr>ws_missedHeartbeats := i\<rparr>) = timers_ok w"
  "timers_ok (w\<lparr>ws_heartbeatTimeout := h\<rparr>) = timers_ok w"
  "timers_ok (w\<lparr>ws_heartbeatInterval := h\<rparr>) = timers_ok w"
  "timers_ok (w\<lparr>ws_retryTimeout := h\<rparr>) = timers_ok w"
  "timers_ok (w\<lparr>ws_lastConnection := l\<rparr>) = timers_ok w"
  "timers_ok (w\<lparr>ws_options := opts\<rparr>) = timers_ok w"
  "timers_ok (w\<lparr>ws_sockets := s\<rparr>) = timers_ok w"
  "timers_ok (w\<lparr>ws_socket := c\<rparr>) = timers_ok w"
  by (auto simp: timers_ok_def)

lemma clear_timer_calm: "calm w (clear_timer t w)"
  by (rule calmI) (auto simp: retry_timers_delete)

lemma retry_timers_set_timer:
  "retry_timers (snd (set_timer k w)) = retry_timers w @ (if is_retry k then [ws_nextId w] else [])"
  by (simp add: retry_timers_def set_timer_def)

lemma stopHeartbeat_calm: "calm w (stopHeartbeat w)"
  by (rule calmI)
    (auto simp: stopHeartbeat_def Let_def retry_timers_def clear_timer_def set_delete timers_ok_def distinct_delete
      split: option.splits)

lemma startHeartbeat_calm: "calm w (startHeartbeat w)"
proof -
  have "calm (stopHeartbeat w) (startHeartbeat w)"
    by (rule calmI) (auto simp: startHeartbeat_def Let_def set_timer_def retry_timers_def timers_ok_def)
  with stopHeartbeat_calm show ?thesis by (rule calm_trans)
qed

lemma update_socket_calm:
  assumes "\<And>k. sock_calm k (f k)"
  shows "calm w (update_socket s f w)"
proof -
  have "list_all2 (\<lambda>p p'. fst p' = fst p \<and> sock_calm (snd p) (snd p')) m
      (map (\<lambda>(i, k). (i, if i = s then f k else k)) m)" for m :: "(nat \<times> 'a socket) list"
    using assms by (induction m) auto
  then show ?thesis by (simp add: calm_def update_socket_def retry_timers_def)
qed

lemma sock_close_calm: "sock_calm k (sock_close k)"
  by (cases "sk_readyState k") (simp_all add: sock_calm_def)

lemma send_calm: "calm w (snd (send d w))"
proof -
  have "calm w (update_socket s (\<lambda>k. k\<lparr>sk_sent := sk_sent k @ [x]\<rparr>) w)" for s x
    by (rule update_socket_calm) (simp add: sock_calm_def)
  moreover have "calm w (set_buffer b w)" for b
    by (rule calmI) (simp_all add: set_buffer_def retry_timers_def)
  ultimately show ?thesis by (auto simp: send_def Let_def split: option.splits)
qed

lemma close_calm: "calm w (close w)"
proof -
  let ?w = "(cancelScheduledConnectionRetry w)\<lparr>ws_closedByUser := True\<rparr>"
  have "retry_timers ?w = retry_timers (clear_timer (ws_retryTimeout w) w)"
    by (simp add: retry_timers_def cancelScheduledConnectionRetry_def)
  then have "calm w ?w"
    by (intro calmI) (auto simp: cancelScheduledConnectionRetry_def retry_timers_delete)
  moreover have "calm ?w (case ws_socket ?w of None \<Rightarrow> ?w | Some s \<Rightarrow> update_socket s sock_close ?w)"
    by (auto intro: update_socket_calm sock_close_calm split: option.splits)
  ultimately show ?thesis
    unfolding close_def Let_def by (blast intro: calm_trans stopHeartbeat_calm)
qed

lemma set_listeners_calm: "calm w (set_listeners t ls w)"
  by (rule calmI) (simp_all add: set_listeners_def retry_timers_def)

lemma quiet_call_calm: "quiet_call c \<Longrightarrow> calm w (perform_call c w)"
  by (cases c) (simp_all add: send_calm close_calm startHeartbeat_calm addEventListener_def
      removeEventListener_def set_listeners_calm)

lemma fold_calm: "(\<And>x w. x \<in> set xs \<Longrightarrow> calm w (f x w)) \<Longrightarrow> calm w (fold f xs w)"
  by (induction xs arbitrary: w) (auto intro: calm_trans)

lemma dispatch_calm:
  assumes "quiet react"
  shows "calm w (dispatchEvent react t ev w)"
proof -
  have "calm w (fold (\<lambda>l. fold perform_call (react (l_listener l) ev)) ls w)" for ls w
    by (intro fold_calm quiet_call_calm) (use assms in \<open>auto simp: quiet_def list_all_iff\<close>)
  then show ?thesis unfolding dispatchEvent_def Let_def by (rule calm_trans [OF _ set_listeners_calm])
qed

lemma sendBufferedData_calm: "sendBufferedData w = Some w' \<Longrightarrow> calm w w'"
proof (rule sendBufferedData.raw_induct [where P = calm])
  fix f and w w' :: "('d, 'w, 'r) websocket"
  assume 1: "\<And>w w'. f w = Some w' \<Longrightarrow> calm w w'"
    "(case ws_buffer_of w of None \<Rightarrow> Some w
      | Some b \<Rightarrow> (case buffer_read b of (None, b') \<Rightarrow> Some (set_buffer b' w)
          | (Some ele, b') \<Rightarrow> f (snd (send ele (set_buffer b' w))))) = Some w'"
  have buf: "calm w (set_buffer b w)" for b
    by (rule calmI) (simp_all add: set_buffer_def retry_timers_def)
  show "calm w w'"
    using 1(2) by (auto split: option.splits prod.splits intro: buf dest!: 1(1) intro: calm_trans [OF buf] calm_trans [OF send_calm])
qed

section \<open>One connection at a time\<close>

text \<open>The current socket, if any, is closing or closed.\<close>

definition current_closing :: "('d, 'w, 'r) websocket \<Rightarrow> bool" where
  "current_closing w \<longleftrightarrow>
     (\<forall>p \<in> set (ws_sockets w). ws_socket w = Some (fst p) \<longrightarrow> sk_readyState (snd p) \<in> {SockClosing, SockClosed})"

definition none_attached :: "('d, 'w, 'r) websocket \<Rightarrow> bool" where
  "none_attached w \<longleftrightarrow> (\<forall>p \<in> set (ws_sockets w). \<not> sk_attached (snd p))"

definition ws_inv :: "('d, 'w, 'r) websocket \<Rightarrow> bool" where
  "ws_inv w \<longleftrightarrow>
     distinct (map fst (ws_sockets w)) \<and> (\<forall>p \<in> set (ws_sockets w). fst p < ws_nextId w) \<and>
     (\<forall>p \<in> set (ws_sockets w). sk_attached (snd p) \<longrightarrow> ws_socket w = Some (fst p) \<and> ws_connects w = 0) \<and>
     ws_connects w \<le> 1 \<and> ws_connectPending w = (ws_connects w = 1) \<and>
     (ws_connects w = 1 \<longrightarrow> ws_connectionState w \<noteq> Open) \<and>
     set (retry_timers w) \<subseteq> set_option (ws_retryTimeout w) \<and> timers_ok w \<and>
     (retry_timers w \<noteq> [] \<longrightarrow> ws_connects w = 0 \<and> current_closing w)"

lemma calm_sockets:
  assumes "calm w w'" and "p' \<in> set (ws_sockets w')"
  obtains p where "p \<in> set (ws_sockets w)" "fst p' = fst p" "sock_calm (snd p) (snd p')"
proof -
  obtain i where i: "i < length (ws_sockets w')" "p' = ws_sockets w' ! i"
    using assms(2) by (auto simp: in_set_conv_nth)
  moreover have "length (ws_sockets w) = length (ws_sockets w')"
    "fst (ws_sockets w' ! i) = fst (ws_sockets w ! i)" "sock_calm (snd (ws_sockets w ! i)) (snd (ws_sockets w' ! i))"
    using assms(1) i(1) by (simp_all add: calm_def list_all2_conv_all_nth)
  ultimately show ?thesis using that [of "ws_sockets w ! i"] by simp
qed

lemma calm_keys: "calm w w' \<Longrightarrow> map fst (ws_sockets w') = map fst (ws_sockets w)"
  by (auto simp: calm_def list_all2_conv_all_nth intro: nth_equalityI)

lemma calm_closing: "calm w w' \<Longrightarrow> current_closing w \<Longrightarrow> current_closing w'"
  unfolding current_closing_def
proof (intro ballI impI)
  fix p' assume c: "calm w w'" and p': "p' \<in> set (ws_sockets w')" "ws_socket w' = Some (fst p')"
    and cl: "\<forall>p \<in> set (ws_sockets w). ws_socket w = Some (fst p) \<longrightarrow> sk_readyState (snd p) \<in> {SockClosing, SockClosed}"
  obtain p where p: "p \<in> set (ws_sockets w)" "fst p' = fst p" "sock_calm (snd p) (snd p')"
    using calm_sockets [OF c p'(1)] by blast
  have "ws_socket w = Some (fst p)" using c p' p by (simp add: calm_def)
  with cl p show "sk_readyState (snd p') \<in> {SockClosing, SockClosed}"
    by (fastforce simp: sock_calm_def)
qed

lemma calm_none_attached: "calm w w' \<Longrightarrow> none_attached w \<Longrightarrow> none_attached w'"
  by (auto simp: none_attached_def sock_calm_def elim!: calm_sockets)

lemma calm_no_retry: "calm w w' \<Longrightarrow> retry_timers w = [] \<Longrightarrow> retry_timers w' = []"
  by (auto simp: calm_def)

lemma calm_inv:
  assumes "ws_inv w" and c: "calm w w'"
  shows "ws_inv w'"
proof -
  have f: "ws_connects w' = ws_connects w" "ws_connectPending w' = ws_connectPending w"
    "ws_connectionState w' = ws_connectionState w" "ws_socket w' = ws_socket w"
    "ws_retryTimeout w' = ws_retryTimeout w" "ws_nextId w \<le> ws_nextId w'"
    "set (retry_timers w') \<subseteq> set (retry_timers w)" "timers_ok w \<longrightarrow> timers_ok w'" using c by (auto simp: calm_def)
  have keys: "map fst (ws_sockets w') = map fst (ws_sockets w)" by (rule calm_keys [OF c])
  have "fst p < ws_nextId w'" if p: "p \<in> set (ws_sockets w')" for p
  proof -
    obtain q where "q \<in> set (ws_sockets w)" "fst p = fst q" using calm_sockets [OF c p] by blast
    then show ?thesis using assms(1) f(6) by (fastforce simp: ws_inv_def)
  qed
  moreover have "ws_socket w' = Some (fst p) \<and> ws_connects w' = 0" if p: "p \<in> set (ws_sockets w')" and att: "sk_attached (snd p)" for p
  proof -
    obtain q where "q \<in> set (ws_sockets w)" "fst p = fst q" "sock_calm (snd q) (snd p)"
      using calm_sockets [OF c p] by blast
    then show ?thesis using assms(1) f att by (simp add: ws_inv_def sock_calm_def)
  qed
  moreover have "retry_timers w' \<noteq> [] \<longrightarrow> ws_connects w' = 0 \<and> current_closing w'"
    using assms(1) f(1) calm_closing [OF c] calm_no_retry [OF c] unfolding ws_inv_def by metis
  ultimately show ?thesis using assms(1) f keys unfolding ws_inv_def by (simp only:) blast
qed

lemma inv_lastConnection: "ws_inv (w\<lparr>ws_lastConnection := x\<rparr>) = ws_inv w"
  by (simp add: ws_inv_def retry_timers_def current_closing_def)

lemma inv_state: "ws_inv w \<Longrightarrow> ws_connects w = 0 \<or> st \<noteq> Open \<Longrightarrow> ws_inv (w\<lparr>ws_connectionState := st\<rparr>)"
  by (auto simp: ws_inv_def retry_timers_def current_closing_def)

lemma state_closing: "current_closing (w\<lparr>ws_connectionState := st\<rparr>) = current_closing w"
  by (simp add: current_closing_def)

lemma map_of_unique:
  "distinct (map fst m) \<Longrightarrow> map_of m s = Some k \<Longrightarrow> p \<in> set m \<Longrightarrow> fst p = s \<Longrightarrow> snd p = k"
  by (metis map_of_is_SomeI option.inject prod.collapse)

lemma set_update_socket:
  "set (ws_sockets (update_socket s f w)) = (\<lambda>p. (fst p, if fst p = s then f (snd p) else snd p)) ` set (ws_sockets w)"
  by (simp add: update_socket_def case_prod_beta)

lemma keys_update_socket [simp]: "map fst (ws_sockets (update_socket s f w)) = map fst (ws_sockets w)"
  by (auto simp: update_socket_def)

lemma update_socket_frame2 [simp]:
  "ws_connects (update_socket s f w) = ws_connects w" "ws_connectPending (update_socket s f w) = ws_connectPending w"
  "ws_connectionState (update_socket s f w) = ws_connectionState w"
  "ws_retryTimeout (update_socket s f w) = ws_retryTimeout w" "ws_nextId (update_socket s f w) = ws_nextId w"
  "retry_timers (update_socket s f w) = retry_timers w" "timers_ok (update_socket s f w) = timers_ok w"
  by (simp_all add: update_socket_def retry_timers_def)

text \<open>A socket that changes its ready state, as the platform does it.\<close>

lemma ready_inv:
  assumes inv: "ws_inv w" and k: "map_of (ws_sockets w) s = Some k"
    and st: "st = SockClosed \<or> sk_readyState k = SockConnecting"
  shows "ws_inv (update_socket s (\<lambda>k. k\<lparr>sk_readyState := st\<rparr>) w)"
proof -
  have "current_closing (update_socket s (\<lambda>k. k\<lparr>sk_readyState := st\<rparr>) w)" if "current_closing w"
  proof -
    have "st = SockClosed \<or> ws_socket w \<noteq> Some s"
      using that st map_of_SomeD [OF k] by (auto simp: current_closing_def)
    with that show ?thesis by (auto simp: current_closing_def set_update_socket)
  qed
  with inv show ?thesis by (auto simp: ws_inv_def set_update_socket)
qed

lemma schedule_frame:
  "ws_sockets (scheduleConnectionRetryIfNeeded w) = ws_sockets w"
  "ws_socket (scheduleConnectionRetryIfNeeded w) = ws_socket w"
  "ws_connects (scheduleConnectionRetryIfNeeded w) = ws_connects w"
  "ws_connectPending (scheduleConnectionRetryIfNeeded w) = ws_connectPending w"
  "ws_connectionState (scheduleConnectionRetryIfNeeded w) = ws_connectionState w"
  "ws_nextId w \<le> ws_nextId (scheduleConnectionRetryIfNeeded w)"
  by (auto simp: scheduleConnectionRetryIfNeeded_def Let_def cancelScheduledConnectionRetry_def set_backoff_def
      set_timer_def split: option.splits prod.splits)

lemma timers_ok_schedule: "timers_ok w \<Longrightarrow> timers_ok (scheduleConnectionRetryIfNeeded w)"
proof -
  assume "timers_ok w"
  then have "timers_ok (set_backoff b (cancelScheduledConnectionRetry w))" for b
    by (simp add: set_backoff_def cancelScheduledConnectionRetry_def)
  moreover from this have "timers_ok (snd (set_timer k (set_backoff b (cancelScheduledConnectionRetry w))))" for k b
    by (rule timers_ok_set_timer)
  ultimately show ?thesis using \<open>timers_ok w\<close>
    by (simp add: scheduleConnectionRetryIfNeeded_def Let_def case_prod_beta split: option.splits)
qed

lemma schedule_inv:
  assumes inv: "ws_inv w" and "ws_connects w = 0" and "current_closing w"
  shows "ws_inv (scheduleConnectionRetryIfNeeded w)"
proof -
  let ?w = "cancelScheduledConnectionRetry w"
  have none: "retry_timers ?w = []"
    using inv by (simp add: ws_inv_def cancelScheduledConnectionRetry_def set_empty [symmetric]
        retry_timers_delete del: set_empty)
  have "set (retry_timers (scheduleConnectionRetryIfNeeded w)) \<subseteq> set_option (ws_retryTimeout (scheduleConnectionRetryIfNeeded w))"
  proof (cases "ws_closedByUser w \<or> ws_backoff_of w = None")
    case True
    then show ?thesis using inv by (auto simp: scheduleConnectionRetryIfNeeded_def ws_inv_def)
  next
    case False
    have "retry_timers (set_backoff b ?w) = []" for b using none by (simp add: retry_timers_def set_backoff_def)
    then have "retry_timers (snd (set_timer (RetryTimer d) (set_backoff b ?w))) = [ws_nextId (set_backoff b ?w)]" for b d
      by (simp add: retry_timers_set_timer)
    moreover have "\<forall>p \<in> set (ws_timers ?w). \<not> is_retry (snd p)"
      using none by (simp add: retry_timers_def filter_empty_conv)
    ultimately show ?thesis using False
      by (auto simp: scheduleConnectionRetryIfNeeded_def Let_def set_timer_def retry_timers_def set_backoff_def
          split: option.splits prod.splits)
  qed
  with inv assms(2,3) show ?thesis
    unfolding ws_inv_def current_closing_def by (auto simp: schedule_frame timers_ok_schedule intro: less_le_trans [OF _ schedule_frame(6)])
qed

lemma handleClose_inv:
  assumes q: "quiet react" and inv: "ws_inv w" and "ws_connects w = 0" and "current_closing w"
  shows "ws_inv (handleClose react w)"
proof -
  let ?a = "(stopHeartbeat w)\<lparr>ws_connectionState := Closed\<rparr>"
  let ?b = "dispatchEvent react TClose CloseEvent ?a"
  have "calm w (stopHeartbeat w)" by (rule stopHeartbeat_calm)
  then have a: "ws_inv ?a" "current_closing ?a" "ws_connects ?a = 0"
    using assms by (simp_all add: calm_inv inv_state state_closing calm_closing) (simp add: calm_def)
  have c: "calm ?a ?b" by (rule dispatch_calm [OF q])
  then have "ws_connects ?b = 0" using a(3) by (simp add: calm_def)
  then have "ws_inv (scheduleConnectionRetryIfNeeded ?b)"
    using schedule_inv [of ?b] calm_inv [OF a(1) c] calm_closing [OF c a(2)] by blast
  then show ?thesis unfolding handleClose_def .
qed

lemma inv_options: "ws_inv (w\<lparr>ws_options := x\<rparr>) = ws_inv w"
  by (simp add: ws_inv_def retry_timers_def current_closing_def)

lemma handleOpen_inv:
  assumes q: "quiet react" and inv: "ws_inv w" and "ws_connects w = 0"
    and w': "handleOpen react now w = Some w'"
  shows "ws_inv w'"
proof -
  let ?a = "w\<lparr>ws_connectionState := Open\<rparr>"
  let ?b = "case (ws_backoff_of ?a, ws_lastConnection ?a) of
      (Some b, Some since) \<Rightarrow> dispatchEvent react TReconnect (ReconnectEvent (backoff_retries b) since (ws_url ?a)) ?a
    | _ \<Rightarrow> ?a"
  let ?c = "case ws_backoff_of ?b of None \<Rightarrow> ?b | Some b \<Rightarrow> set_backoff (backoff_reset b) ?b"
  let ?d = "if hb_autoStart (heartbeat_of ?c) \<noteq> Some False then startHeartbeat ?c else ?c"
  have a: "ws_inv ?a" using inv assms(3) by (simp add: inv_state)
  have "calm ?a ?b" using dispatch_calm [OF q] by (auto split: option.splits)
  with a have b: "ws_inv ?b" by (rule calm_inv)
  then have c: "ws_inv ?c" by (auto simp: set_backoff_def inv_options split: option.splits)
  have "calm ?c ?d" using startHeartbeat_calm by auto
  with c have "ws_inv ?d" by (rule calm_inv)
  then have "ws_inv (?d\<lparr>ws_lastConnection := Some now\<rparr>)" by (simp only: inv_lastConnection)
  then have "ws_inv (dispatchEvent react TOpen OpenEvent (?d\<lparr>ws_lastConnection := Some now\<rparr>))"
    by (rule calm_inv) (rule dispatch_calm [OF q])
  moreover have "sendBufferedData (dispatchEvent react TOpen OpenEvent (?d\<lparr>ws_lastConnection := Some now\<rparr>)) = Some w'"
    using w' unfolding handleOpen_def Let_def .
  ultimately show ?thesis using sendBufferedData_calm calm_inv by blast
qed

text \<open>A new attempt, after the current socket has been detached.\<close>

lemma clearWebsocket_frame:
  "ws_connects (clearWebsocket w) = ws_connects w" "ws_connectPending (clearWebsocket w) = ws_connectPending w"
  "ws_retryTimeout (clearWebsocket w) = ws_retryTimeout w" "ws_nextId (clearWebsocket w) = ws_nextId w"
  "retry_timers (clearWebsocket w) = retry_timers w" "map fst (ws_sockets (clearWebsocket w)) = map fst (ws_sockets w)"
  "ws_connectionState (clearWebsocket w) = ws_connectionState w" "timers_ok (clearWebsocket w) = timers_ok w"
  by (simp_all add: clearWebsocket_def split: option.splits)

lemma clearWebsocket_detaches:
  assumes "ws_inv w"
  shows "none_attached (clearWebsocket w)"
  using assms by (auto simp: clearWebsocket_def none_attached_def ws_inv_def set_update_socket Let_def
      split: option.splits ready_state.splits)

lemma keys_below: "(\<forall>p \<in> set m. fst p < n) = (\<forall>i \<in> set (map fst m). i < n)"
  by simp

lemma retry_timers_fields [simp]:
  "retry_timers (w\<lparr>ws_connectionState := st\<rparr>) = retry_timers w"
  "retry_timers (w\<lparr>ws_closedByUser := u\<rparr>) = retry_timers w"
  "retry_timers (w\<lparr>ws_connects := n\<rparr>) = retry_timers w"
  "retry_timers (w\<lparr>ws_connectPending := b\<rparr>) = retry_timers w"
  "retry_timers (w\<lparr>ws_url := x\<rparr>) = retry_timers w"
  "retry_timers (w\<lparr>ws_missedHeartbeats := i\<rparr>) = retry_timers w"
  "retry_timers (w\<lparr>ws_heartbeatTimeout := h\<rparr>) = retry_timers w"
  by (simp_all add: retry_timers_def)

lemma tryConnect_inv:
  assumes inv: "ws_inv w" and "ws_connects w = 0" and "retry_timers w = []"
  shows "ws_inv (tryConnect ((clearWebsocket w)\<lparr>ws_connectionState := Reconnecting\<rparr>))"
proof -
  have "distinct (map fst (ws_sockets (clearWebsocket w)))"
    "\<forall>p \<in> set (ws_sockets (clearWebsocket w)). fst p < ws_nextId (clearWebsocket w)" "timers_ok w"
    using inv unfolding keys_below clearWebsocket_frame by (simp_all add: ws_inv_def)
  then show ?thesis using clearWebsocket_detaches [OF inv] assms(2,3)
    by (auto simp: ws_inv_def tryConnect_def none_attached_def clearWebsocket_frame)
qed

lemma calm_connects: "calm w w' \<Longrightarrow> ws_connects w' = ws_connects w"
  by (simp add: calm_def)

lemma inv_closedByUser: "ws_inv (w\<lparr>ws_closedByUser := x\<rparr>) = ws_inv w"
  by (simp add: ws_inv_def current_closing_def)

lemma inv_cancel_no_retry: "ws_inv w \<Longrightarrow> retry_timers (cancelScheduledConnectionRetry w) = []"
  by (simp add: ws_inv_def cancelScheduledConnectionRetry_def set_empty [symmetric]
      retry_timers_delete del: set_empty)

lemma reconnect_inv:
  assumes inv: "ws_inv w"
  shows "ws_inv (reconnect w)"
proof (cases "ws_connectPending w")
  case True
  then show ?thesis using inv by (simp add: reconnect_def inv_closedByUser)
next
  case False
  let ?a = "w\<lparr>ws_closedByUser := False\<rparr>"
  let ?b = "stopHeartbeat (cancelScheduledConnectionRetry ?a)"
  have a: "ws_inv ?a" "ws_connects ?a = 0" using inv False by (simp add: inv_closedByUser) (use inv False in \<open>auto simp: ws_inv_def\<close>)
  have "calm ?a (cancelScheduledConnectionRetry ?a)"
    unfolding cancelScheduledConnectionRetry_def by (rule clear_timer_calm)
  then have c: "calm ?a ?b" by (rule calm_trans) (rule stopHeartbeat_calm)
  have "retry_timers ?b = []" by (rule calm_no_retry [OF stopHeartbeat_calm inv_cancel_no_retry [OF a(1)]])
  then have "ws_inv (tryConnect ((clearWebsocket ?b)\<lparr>ws_connectionState := Reconnecting\<rparr>))"
    using tryConnect_inv [OF calm_inv [OF a(1) c]] calm_connects [OF c] a(2) by simp
  then show ?thesis using False by (simp add: reconnect_def Let_def)
qed

lemma perform_call_inv: "ws_inv w \<Longrightarrow> ws_inv (perform_call c w)"
proof (cases "quiet_call c")
  case True
  moreover assume "ws_inv w"
  ultimately show ?thesis using calm_inv quiet_call_calm by blast
next
  case False
  moreover assume "ws_inv w"
  ultimately show ?thesis
    by (cases c) (auto simp: reconnectIfDisconnected_def reconnect_inv split: option.splits)
qed
lemma handleRetry_inv:
  assumes q: "quiet react" and inv: "ws_inv w" and i: "map_of (ws_timers w) i = Some (RetryTimer d)"
  shows "ws_inv (handleRetry react d (clear_timer (Some i) w))"
proof -
  let ?a = "(clear_timer (Some i) w)\<lparr>ws_connectionState := Reconnecting\<rparr>"
  let ?b = "dispatchEvent react TRetry (RetryEvent d) ?a"
  have "i \<in> set (retry_timers w)" using map_of_SomeD [OF i] by (force simp: retry_timers_def)
  with inv have w: "ws_connects w = 0" "ws_retryTimeout w = Some i"
    unfolding ws_inv_def by (fastforce simp: elem_set)+
  have "calm w (clear_timer (Some i) w)" by (rule clear_timer_calm)
  then have a: "ws_inv ?a" using inv by (simp add: calm_inv inv_state)
  have none: "retry_timers ?a = []"
    using inv_cancel_no_retry [OF inv] w(2) by (simp add: cancelScheduledConnectionRetry_def)
  have c: "calm ?a ?b" by (rule dispatch_calm [OF q])
  have st: "ws_connectionState (clearWebsocket ?b) = Reconnecting"
    using c by (simp add: clearWebsocket_frame calm_def)
  have "ws_inv (tryConnect ((clearWebsocket ?b)\<lparr>ws_connectionState := Reconnecting\<rparr>))"
    using tryConnect_inv [OF calm_inv [OF a c]] calm_connects [OF c] calm_no_retry [OF c none] w(1) by simp
  moreover have "(clearWebsocket ?b)\<lparr>ws_connectionState := Reconnecting\<rparr> = clearWebsocket ?b"
    using st by (metis websocket.surjective websocket.update_convs(11) websocket.select_convs(11))
  ultimately show ?thesis unfolding handleRetry_def by simp
qed

lemma tryConnect_resolved_inv:
  assumes q: "quiet react" and inv: "ws_inv w" and "ws_connects w \<noteq> 0"
  shows "ws_inv (tryConnect_resolved react url (w\<lparr>ws_connects := ws_connects w - 1\<rparr>))"
proof (cases "ws_closedByUser w")
  case True
  with inv assms(3) show ?thesis
    by (auto simp: tryConnect_resolved_def ws_inv_def current_closing_def)
next
  case False
  let ?a = "w\<lparr>ws_connects := ws_connects w - 1, ws_url := Some url\<rparr>"
  let ?b = "dispatchEvent react TUrlResolved (UrlResolvedEvent url) ?a"
  have w: "ws_connects ?a = 0" "none_attached ?a" "retry_timers ?a = []"
    using inv assms(3) by (auto simp: ws_inv_def none_attached_def)
  have c: "calm ?a ?b" by (rule dispatch_calm [OF q])
  have "timers_ok ?a" using inv by (simp add: ws_inv_def)
  then have ok: "timers_ok ?b" using c by (simp add: calm_def)
  have b: "ws_connects ?b = 0" "none_attached ?b" "retry_timers ?b = []"
    using c w calm_connects calm_none_attached calm_no_retry by metis+
  have keys: "map fst (ws_sockets ?b) = map fst (ws_sockets w)" using calm_keys [OF c] by simp
  have "\<forall>i \<in> set (map fst (ws_sockets ?b)). i < ws_nextId ?b"
    unfolding keys using inv c by (fastforce simp: ws_inv_def calm_def)
  then have "\<forall>p \<in> set (ws_sockets ?b). fst p < ws_nextId ?b" unfolding keys_below .
  moreover have "distinct (map fst (ws_sockets ?b))" unfolding keys using inv by (simp add: ws_inv_def)
  ultimately show ?thesis using b False ok
    by (auto simp: tryConnect_resolved_def Let_def ws_inv_def none_attached_def retry_timers_def timers_ok_def)
qed

lemma handleHeartbeatTimeout_inv:
  assumes q: "quiet react" and inv: "ws_inv w"
  shows "ws_inv (handleHeartbeatTimeout react w)"
proof -
  let ?a = "w\<lparr>ws_missedHeartbeats := ws_missedHeartbeats w + 1\<rparr>"
  have a: "calm w ?a" by (rule calmI) simp_all
  have b: "calm w (dispatchEvent react t ev ?a)" for t ev by (rule calm_trans [OF a dispatch_calm [OF q]])
  have "calm w (update_socket s sock_close (dispatchEvent react t ev ?a))" for s t ev
    by (rule calm_trans [OF b update_socket_calm]) (rule sock_close_calm)
  with a b have "calm w (handleHeartbeatTimeout react w)"
    by (auto simp: handleHeartbeatTimeout_def Let_def split: option.splits)
  with inv show ?thesis by (rule calm_inv)
qed

lemma sendHeartbeat_inv:
  assumes q: "quiet react" and inv: "ws_inv w" and st: "ws_connectionState w = Open"
  shows "ws_inv (sendHeartbeat react w)"
proof (cases "\<exists>s k. ws_socket w = Some s \<and> current_socket w = Some k \<and> \<not> ws_closedByUser w \<and>
    isRequiredHeartbeatOptions (heartbeat_of w) \<and> sk_readyState k \<noteq> SockConnecting")
  case False
  then have "sendHeartbeat react w = w \<or> sendHeartbeat react w = handleClose react w \<and> False"
    by (auto simp: sendHeartbeat_def split: option.splits)
  with inv show ?thesis by auto
next
  case True
  then obtain s k where w: "ws_socket w = Some s" "current_socket w = Some k" "\<not> ws_closedByUser w"
    "isRequiredHeartbeatOptions (heartbeat_of w)" "sk_readyState k \<noteq> SockConnecting" by blast
  have idle: "ws_connects w = 0" using inv st by (auto simp: ws_inv_def)
  show ?thesis
  proof (cases "sk_readyState k = SockOpen")
    case True
    let ?a = "update_socket s (\<lambda>k. k\<lparr>sk_sent := sk_sent k @ [the (hb_pingMessage (heartbeat_of w))]\<rparr>) w"
    let ?b = "dispatchEvent react THeartbeatSent (HeartbeatSentEvent (the (hb_pingMessage (heartbeat_of w)))) ?a"
    let ?c = "(snd (set_timer HeartbeatTimeoutTimer ?b))\<lparr>ws_heartbeatTimeout := Some (ws_nextId ?b)\<rparr>"
    have "calm w ?a" by (rule update_socket_calm) (simp add: sock_calm_def)
    then have "calm w ?b" by (rule calm_trans) (rule dispatch_calm [OF q])
    moreover have "calm ?b ?c" by (rule calmI) (auto simp: set_timer_def retry_timers_def timers_ok_def)
    ultimately have "calm w ?c" by (rule calm_trans)
    with inv have "ws_inv ?c" by (rule calm_inv)
    then show ?thesis using w True by (simp add: sendHeartbeat_def Let_def set_timer_def)
  next
    case False
    then have k: "sk_readyState k \<in> {SockClosing, SockClosed}" using w(5) by (cases "sk_readyState k") auto
    have "map_of (ws_sockets w) s = Some k" using w by (simp add: current_socket_def)
    then have "current_closing w"
      using inv w(1) k map_of_unique by (fastforce simp: current_closing_def ws_inv_def)
    then show ?thesis using handleClose_inv [OF q inv idle] w k by (auto simp: sendHeartbeat_def)
  qed
qed

lemma handleMessage_calm:
  assumes q: "quiet react"
  shows "calm w (handleMessage react data w)"
proof -
  let ?a = "case ws_heartbeatTimeout w of None \<Rightarrow> w
                | Some i \<Rightarrow> (clear_timer (Some i) w)\<lparr>ws_heartbeatTimeout := None\<rparr>"
  have "calm w (?a\<lparr>ws_missedHeartbeats := 0\<rparr>)"
    by (rule calmI) (auto simp: retry_timers_delete split: option.splits)
  then have "calm w (handleHeartbeatReceived react data w)"
    unfolding handleHeartbeatReceived_def Let_def by (rule calm_trans) (rule dispatch_calm [OF q])
  then show ?thesis using dispatch_calm [OF q] by (auto simp: handleMessage_def split: option.splits)
qed
lemma handleError_inv: "quiet react \<Longrightarrow> ws_inv w \<Longrightarrow> ws_inv (handleError react w)"
  unfolding handleError_def by (rule calm_inv [OF inv_state dispatch_calm]) auto

lemma inv_attached_idle:
  "ws_inv w \<Longrightarrow> map_of (ws_sockets w) s = Some k \<Longrightarrow> sk_attached k \<Longrightarrow> ws_socket w = Some s \<and> ws_connects w = 0"
  using map_of_SomeD [of "ws_sockets w" s k] unfolding ws_inv_def by fastforce

lemma sock_open_inv:
  assumes q: "quiet react" and inv: "ws_inv w" and w': "ws_step react (InSockOpen s now) w = Some w'"
  shows "ws_inv w'"
proof (cases "map_of (ws_sockets w) s")
  case None
  then show ?thesis using inv w' by simp
next
  case (Some k)
  let ?a = "update_socket s (\<lambda>k. k\<lparr>sk_readyState := SockOpen\<rparr>) w"
  show ?thesis
  proof (cases "sk_readyState k = SockConnecting")
    case True
    have a: "ws_inv ?a" by (rule ready_inv [OF inv Some]) (simp add: True)
    have "calm ?a (update_socket s sock_close ?a)" by (rule update_socket_calm) (rule sock_close_calm)
    then have "ws_inv (update_socket s sock_close ?a)" using a calm_inv by blast
    with a show ?thesis
      using w' Some True handleOpen_inv [OF q a] inv_attached_idle [OF inv Some]
      by (auto simp: Let_def split: if_splits)
  next
    case False
    then show ?thesis using inv w' Some by simp
  qed
qed

lemma sock_close_inv:
  assumes q: "quiet react" and inv: "ws_inv w" and w': "ws_step react (InSockClose s) w = Some w'"
  shows "ws_inv w'"
proof (cases "map_of (ws_sockets w) s")
  case None
  then show ?thesis using inv w' by simp
next
  case (Some k)
  let ?a = "update_socket s (\<lambda>k. k\<lparr>sk_readyState := SockClosed\<rparr>) w"
  have a: "ws_inv ?a" by (rule ready_inv [OF inv Some]) simp
  have "current_closing ?a" "ws_connects ?a = 0" if "sk_attached k"
    using inv_attached_idle [OF inv Some that] by (auto simp: current_closing_def set_update_socket)
  with a show ?thesis using w' Some inv handleClose_inv [OF q a] by (auto simp: Let_def split: if_splits)
qed

lemma ws_step_inv:
  assumes q: "quiet react" and inv: "ws_inv w" and w': "ws_step react i w = Some w'"
  shows "ws_inv w'"
proof (cases i)
  case (InResolve url)
  then show ?thesis using w' inv tryConnect_resolved_inv [OF q inv] by (auto split: if_splits)
next
  case InReject
  then show ?thesis using w' inv
    by (fastforce simp: tryConnect_rejected_def ws_inv_def current_closing_def split: if_splits)
next
  case (InSockError s)
  then show ?thesis using w' inv handleError_inv [OF q inv] by (auto split: option.splits if_splits)
next
  case (InSockMessage s data)
  then show ?thesis using w' inv calm_inv [OF inv handleMessage_calm [OF q]]
    by (auto split: option.splits if_splits)
next
  case (InTimer t)
  have "ws_inv (clear_timer (Some t) w)" by (rule calm_inv [OF inv clear_timer_calm])
  then show ?thesis
    using w' inv InTimer handleRetry_inv [OF q inv] handleHeartbeatTimeout_inv [OF q] sendHeartbeat_inv [OF q inv]
    by (auto split: option.splits ws_timer.splits if_splits)
next
  case (InCall c)
  then show ?thesis using w' perform_call_inv [OF inv] by auto
qed (use assms sock_open_inv sock_close_inv in \<open>blast+\<close>)

lemma ws_run_inv: "ws_run react ins w \<Longrightarrow> quiet react \<Longrightarrow> ws_inv w"
proof (induction rule: ws_run.induct)
  case (start url opts)
  show ?case by (simp add: ws_new_def tryConnect_def ws_inv_def retry_timers_def timers_ok_def)
next
  case (step ins w i w')
  then show ?case using ws_step_inv by blast
qed

section \<open>A user close is final\<close>

text \<open>No new socket, nothing more sent over an old one.\<close>

definition sent_data :: "('d, 'w, 'r) websocket \<Rightarrow> (nat \<times> 'w list) list" where
  "sent_data w = map (\<lambda>p. (fst p, sk_sent (snd p))) (ws_sockets w)"

fun lasting_call :: "'d ws_call \<Rightarrow> bool" where
  "lasting_call CallReconnect = False"
| "lasting_call _ = True"

definition lasting :: "('d, 'w, 'r) reaction \<Rightarrow> bool" where
  "lasting react \<longleftrightarrow> (\<forall>l ev. list_all lasting_call (react l ev))"

fun lasting_input :: "('d, 'w) ws_input \<Rightarrow> bool" where
  "lasting_input (InCall c) = lasting_call c"
| "lasting_input _ = True"

definition buffer_fine :: "('d, 'w, 'r) websocket \<Rightarrow> bool" where
  "buffer_fine w \<longleftrightarrow> (case ws_buffer_of w of None \<Rightarrow> True | Some b \<Rightarrow> buffer_ok b)"

definition stays_closed :: "('d, 'w, 'r) websocket \<Rightarrow> ('d, 'w, 'r) websocket \<Rightarrow> bool" where
  "stays_closed w w' \<longleftrightarrow> (ws_closedByUser w \<and> buffer_fine w \<longrightarrow>
     ws_closedByUser w' \<and> buffer_fine w' \<and> sent_data w' = sent_data w)"

lemma stays_trans [trans]: "stays_closed a b \<Longrightarrow> stays_closed b c \<Longrightarrow> stays_closed a c"
  by (simp add: stays_closed_def)

lemma stays_refl [simp]: "stays_closed w w"
  by (simp add: stays_closed_def)

lemma staysI:
  "ws_closedByUser w' = ws_closedByUser w \<Longrightarrow> ws_sockets w' = ws_sockets w \<Longrightarrow>
   o_buffer (ws_options w') = o_buffer (ws_options w) \<Longrightarrow> stays_closed w w'"
  by (simp add: stays_closed_def sent_data_def buffer_fine_def ws_buffer_of_def)

lemma stays_update: "(\<And>k. sk_sent (f k) = sk_sent k) \<Longrightarrow> stays_closed w (update_socket s f w)"
  by (auto simp: stays_closed_def sent_data_def update_socket_def buffer_fine_def ws_buffer_of_def)

lemma sock_close_sent [simp]: "sk_sent (sock_close k) = sk_sent k"
  by (cases "sk_readyState k") auto

lemma stays_send: "stays_closed w (snd (send d w))"
  by (simp add: stays_closed_def send_def)

lemma stays_stopHeartbeat: "stays_closed w (stopHeartbeat w)"
  by (rule staysI) (auto simp: stopHeartbeat_def Let_def split: option.splits)

lemma stays_startHeartbeat: "stays_closed w (startHeartbeat w)"
  by (rule stays_trans [OF stays_stopHeartbeat])
    (rule staysI; simp add: startHeartbeat_def Let_def set_timer_def)

lemma stays_close: "stays_closed w (close w)"
proof -
  let ?w = "(cancelScheduledConnectionRetry w)\<lparr>ws_closedByUser := True\<rparr>"
  have "stays_closed w ?w"
    by (simp add: stays_closed_def sent_data_def cancelScheduledConnectionRetry_def buffer_fine_def ws_buffer_of_def)
  moreover have "stays_closed ?w (case ws_socket ?w of None \<Rightarrow> ?w | Some s \<Rightarrow> update_socket s sock_close ?w)"
    by (auto intro: stays_update [OF sock_close_sent] split: option.splits)
  ultimately show ?thesis
    unfolding close_def Let_def by (blast intro: stays_trans stays_stopHeartbeat)
qed

lemma stays_listeners: "stays_closed w (set_listeners t ls w)"
  by (rule staysI) (simp_all add: set_listeners_def)

lemma stays_call: "lasting_call c \<Longrightarrow> stays_closed w (perform_call c w)"
  by (cases c) (simp_all add: stays_send stays_close stays_startHeartbeat addEventListener_def
      removeEventListener_def stays_listeners, simp add: stays_closed_def reconnectIfDisconnected_def)

lemma stays_fold: "(\<And>x w. x \<in> set xs \<Longrightarrow> stays_closed w (f x w)) \<Longrightarrow> stays_closed w (fold f xs w)"
  by (induction xs arbitrary: w) (auto intro: stays_trans)

lemma stays_dispatch:
  assumes "lasting react"
  shows "stays_closed w (dispatchEvent react t ev w)"
proof -
  have "stays_closed w (fold (\<lambda>l. fold perform_call (react (l_listener l) ev)) ls w)" for ls w
    by (intro stays_fold stays_call) (use assms in \<open>auto simp: lasting_def list_all_iff\<close>)
  then show ?thesis unfolding dispatchEvent_def Let_def by (rule stays_trans [OF _ stays_listeners])
qed

lemma stays_flush: "sendBufferedData w = Some w' \<Longrightarrow> stays_closed w w'"
proof (rule sendBufferedData.raw_induct [where P = stays_closed])
  fix f and w w' :: "('d, 'w, 'r) websocket"
  assume 1: "\<And>w w'. f w = Some w' \<Longrightarrow> stays_closed w w'"
    "(case ws_buffer_of w of None \<Rightarrow> Some w
      | Some b \<Rightarrow> (case buffer_read b of (None, b') \<Rightarrow> Some (set_buffer b' w)
          | (Some ele, b') \<Rightarrow> f (snd (send ele (set_buffer b' w))))) = Some w'"
  have buf: "stays_closed w (set_buffer b' w)" if "ws_buffer_of w = Some b" and "buffer_read b = (x, b')" for b b' x
    using that ws_buf.buffer_read [of b] by (auto simp: stays_closed_def sent_data_def buffer_fine_def set_buffer_def ws_buffer_of_def)
  show "stays_closed w w'"
    using 1(2) by (auto split: option.splits prod.splits intro: buf dest!: 1(1)
        intro: stays_trans [OF buf] stays_trans [OF stays_send])
qed
lemma stays_schedule: "stays_closed w (scheduleConnectionRetryIfNeeded w)"
  by (simp add: stays_closed_def scheduleConnectionRetryIfNeeded_def)

lemma stays_handleClose:
  assumes "lasting react"
  shows "stays_closed w (handleClose react w)"
proof -
  have "stays_closed w ((stopHeartbeat w)\<lparr>ws_connectionState := Closed\<rparr>)"
    by (rule stays_trans [OF stays_stopHeartbeat]) (rule staysI; simp)
  then show ?thesis
    unfolding handleClose_def by (intro stays_trans [OF _ stays_schedule] stays_trans [OF _ stays_dispatch [OF assms]])
qed

lemma handleOpen_prefix:
  assumes l: "lasting react"
  shows "\<exists>v. handleOpen react now w = sendBufferedData v \<and> stays_closed w v"
proof -
  let ?a = "w\<lparr>ws_connectionState := Open\<rparr>"
  let ?b = "case (ws_backoff_of ?a, ws_lastConnection ?a) of
      (Some b, Some since) \<Rightarrow> dispatchEvent react TReconnect (ReconnectEvent (backoff_retries b) since (ws_url ?a)) ?a
    | _ \<Rightarrow> ?a"
  let ?c = "case ws_backoff_of ?b of None \<Rightarrow> ?b | Some b \<Rightarrow> set_backoff (backoff_reset b) ?b"
  let ?d = "if hb_autoStart (heartbeat_of ?c) \<noteq> Some False then startHeartbeat ?c else ?c"
  let ?e = "?d\<lparr>ws_lastConnection := Some now\<rparr>"
  have "stays_closed w ?a" by (rule staysI) simp_all
  also have "stays_closed ?a ?b" using stays_dispatch [OF l] by (auto split: option.splits)
  also have "stays_closed ?b ?c" by (rule staysI) (auto simp: set_backoff_def split: option.splits)
  also have "stays_closed ?c ?d" using stays_startHeartbeat by auto
  also have "stays_closed ?d ?e" by (rule staysI) simp_all
  also have "stays_closed ?e (dispatchEvent react TOpen OpenEvent ?e)" by (rule stays_dispatch [OF l])
  finally have "stays_closed w (dispatchEvent react TOpen OpenEvent ?e)" .
  moreover have "handleOpen react now w = sendBufferedData (dispatchEvent react TOpen OpenEvent ?e)"
    unfolding handleOpen_def Let_def by (rule refl)
  ultimately show ?thesis by blast
qed

lemma stays_handleOpen: "lasting react \<Longrightarrow> handleOpen react now w = Some w' \<Longrightarrow> stays_closed w w'"
  using handleOpen_prefix [of react now w] stays_flush stays_trans by metis

lemma stays_clearWebsocket: "stays_closed w (clearWebsocket w)"
  unfolding clearWebsocket_def
  by (cases "ws_socket w") (auto simp: Let_def simp del: sock_close.simps intro!: stays_update)

lemma stays_sendHeartbeat: "lasting react \<Longrightarrow> stays_closed w (sendHeartbeat react w)"
  by (auto simp: stays_closed_def sendHeartbeat_def split: option.splits)

lemma stays_handleHeartbeatTimeout:
  assumes l: "lasting react"
  shows "stays_closed w (handleHeartbeatTimeout react w)"
proof -
  let ?a = "w\<lparr>ws_missedHeartbeats := ws_missedHeartbeats w + 1\<rparr>"
  have a: "stays_closed w ?a" by (rule staysI) simp_all
  have b: "stays_closed w (dispatchEvent react t ev ?a)" for t ev by (rule stays_trans [OF a stays_dispatch [OF l]])
  have "stays_closed w (update_socket s sock_close (dispatchEvent react t ev ?a))" for s t ev
    by (rule stays_trans [OF b stays_update]) (rule sock_close_sent)
  with a b show ?thesis by (auto simp: handleHeartbeatTimeout_def Let_def split: option.splits)
qed

lemma stays_handleMessage:
  assumes l: "lasting react"
  shows "stays_closed w (handleMessage react data w)"
proof -
  have "stays_closed w (handleHeartbeatReceived react data w)"
    unfolding handleHeartbeatReceived_def Let_def
    by (rule stays_trans [OF _ stays_dispatch [OF l]]) (rule staysI; simp split: option.splits)
  then show ?thesis using stays_dispatch [OF l] by (auto simp: handleMessage_def split: option.splits)
qed

lemma stays_handleRetry:
  assumes l: "lasting react"
  shows "stays_closed w (handleRetry react d (clear_timer (Some i) w))"
proof -
  let ?a = "(clear_timer (Some i) w)\<lparr>ws_connectionState := Reconnecting\<rparr>"
  have "stays_closed w ?a" by (rule staysI) simp_all
  also have "stays_closed ?a (clearWebsocket (dispatchEvent react TRetry (RetryEvent d) ?a))"
    by (rule stays_trans [OF stays_dispatch [OF l] stays_clearWebsocket])
  also have "stays_closed (clearWebsocket (dispatchEvent react TRetry (RetryEvent d) ?a))
      (handleRetry react d (clear_timer (Some i) w))"
    unfolding handleRetry_def by (rule staysI) (simp_all add: tryConnect_def)
  finally show ?thesis .
qed

lemma stays_open_close:
  assumes l: "lasting react" and i: "i = InSockOpen s now \<or> i = InSockClose s"
    and w': "ws_step react i w = Some w'"
  shows "stays_closed w w'"
proof -
  have st: "stays_closed w (update_socket s (\<lambda>k. k\<lparr>sk_readyState := x\<rparr>) w)" for x
    by (rule stays_update) simp
  have cl: "stays_closed w (update_socket s sock_close (update_socket s (\<lambda>k. k\<lparr>sk_readyState := x\<rparr>) w))" for x
    by (rule stays_trans [OF st stays_update]) (rule sock_close_sent)
  show ?thesis
    using w' i stays_trans [OF st stays_handleOpen [OF l]] stays_trans [OF st stays_handleClose [OF l]] st cl
    by (auto simp: Let_def simp del: sock_close.simps split: option.splits if_splits)
qed

lemma ws_step_stays:
  assumes l: "lasting react" and i: "lasting_input i" and w': "ws_step react i w = Some w'"
  shows "stays_closed w w'"
proof (cases i)
  case (InResolve url)
  then show ?thesis using w'
    by (auto simp: stays_closed_def tryConnect_resolved_def sent_data_def buffer_fine_def ws_buffer_of_def
        split: if_splits)
next
  case InReject
  then show ?thesis using w' by (auto simp: tryConnect_rejected_def intro!: staysI split: if_splits)
next
  case (InSockError s)
  have "stays_closed w (handleError react w)"
    unfolding handleError_def by (rule stays_trans [OF _ stays_dispatch [OF l]]) (rule staysI; simp)
  with InSockError w' show ?thesis by (auto split: option.splits if_splits)
next
  case (InSockMessage s data)
  then show ?thesis using w' stays_handleMessage [OF l] by (auto split: option.splits if_splits)
next
  case (InTimer t)
  have "stays_closed w (handleHeartbeatTimeout react (clear_timer (Some t) w))"
    by (rule stays_trans [OF _ stays_handleHeartbeatTimeout [OF l]]) (rule staysI; simp)
  then show ?thesis
    using w' InTimer stays_handleRetry [OF l] stays_sendHeartbeat [OF l]
    by (auto split: option.splits ws_timer.splits if_splits)
next
  case (InCall c)
  then show ?thesis using w' i stays_call by auto
qed (use stays_open_close [OF l _ w'] in \<open>blast+\<close>)
text \<open>In this state every handler returns: the loop drops the rest of the buffer.\<close>

lemma flush_closed:
  assumes "ws_closedByUser w" and "buffer_fine w"
  shows "\<exists>w'. sendBufferedData w = Some w'"
proof (cases "ws_buffer_of w")
  case None
  then show ?thesis by (simp add: sendBufferedData.simps)
next
  case (Some b)
  then have "buffer_ok b" using assms(2) by (simp add: buffer_fine_def)
  with Some assms(1) show ?thesis
  proof (induction "length (buffer_contents b)" arbitrary: b w)
    case 0
    from 0(4) show ?case
      by (cases b rule: ws_buf.read_cases) (use 0 in \<open>auto simp: sendBufferedData.simps\<close>)
  next
    case (Suc n)
    obtain e b' where b': "buffer_read b = (Some e, b')" "buffer_ok b'" "length (buffer_contents b') = n"
      using Suc.prems(3) Suc.hyps(2) by (cases b rule: ws_buf.read_cases) auto
    have "\<exists>w'. sendBufferedData (set_buffer b' w) = Some w'"
      by (rule Suc.hyps(1) [of b']) (use b' Suc.prems in simp_all)
    moreover have "sendBufferedData w = sendBufferedData (set_buffer b' w)"
      using b' Suc.prems by (subst sendBufferedData.simps) (simp add: send_def)
    ultimately show ?case by simp
  qed
qed

lemma handleOpen_closed:
  assumes l: "lasting react" and "ws_closedByUser w" and "buffer_fine w"
  shows "\<exists>w'. handleOpen react now w = Some w'"
proof -
  obtain v where "handleOpen react now w = sendBufferedData v" "stays_closed w v"
    using handleOpen_prefix [OF l] by blast
  then show ?thesis using assms(2,3) flush_closed [of v] by (auto simp: stays_closed_def)
qed

lemma ws_step_closed:
  assumes "lasting react" and "ws_closedByUser w" and "buffer_fine w"
  shows "\<exists>w'. ws_step react i w = Some w'"
proof (cases i)
  case (InSockOpen s now)
  have "buffer_fine (update_socket s f w)" for f
    using assms(3) by (simp add: buffer_fine_def ws_buffer_of_def)
  then show ?thesis using InSockOpen assms handleOpen_closed [OF assms(1)]
    by (auto simp: Let_def split: option.splits)
qed (auto simp: Let_def split: option.splits ws_timer.splits)

end
