(* ===== verification/WebsocketClaims.thy ===== *)
theory WebsocketClaims
  imports WebsocketProps
begin

text \<open>
  The properties of the reconnecting websocket: the buffer is flushed in order, one connection
  at a time, a user close is final, and the retry policy during an outage.
\<close>

section \<open>An outage\<close>

text \<open>Listeners that only observe.\<close>

definition silent :: "('d, 'w, 'r) reaction \<Rightarrow> bool" where
  "silent react \<longleftrightarrow> (\<forall>l ev. react l ev = [])"

definition pending_retries :: "('d, 'w, 'r) websocket \<Rightarrow> (nat, ws_timer) jsmap" where
  "pending_retries w = filter (\<lambda>p. is_retry (snd p)) (ws_timers w)"

text \<open>An attempt that fails: the retry timer fires, the url is resolved, the new socket closes.\<close>

definition failed_attempt ::
    "('d, 'w, 'r) reaction \<Rightarrow> string \<Rightarrow> ('d, 'w, 'r) websocket \<Rightarrow> ('d, 'w, 'r) websocket option" where
  "failed_attempt react url w =
     Option.bind (ws_step react (InTimer (the (ws_retryTimeout w))) w)
       (\<lambda>w1. Option.bind (ws_step react (InResolve url) w1)
         (\<lambda>w2. ws_step react (InSockClose (the (ws_socket w2))) w2))"

text \<open>The connection is lost, and then \<open>n\<close> attempts fail.\<close>

fun outage ::
    "('d, 'w, 'r) reaction \<Rightarrow> string \<Rightarrow> nat \<Rightarrow> ('d, 'w, 'r) websocket \<Rightarrow> ('d, 'w, 'r) websocket option" where
  "outage react url 0 w = ws_step react (InSockClose (the (ws_socket w))) w"
| "outage react url (Suc n) w = Option.bind (outage react url n w) (failed_attempt react url)"

definition nth_backoff :: "ws_backoff \<Rightarrow> nat \<Rightarrow> ws_backoff" where
  "nth_backoff b n = ((\<lambda>b. snd (backoff_next b)) ^^ n) b"

definition nth_delay :: "ws_backoff \<Rightarrow> nat \<Rightarrow> int" where
  "nth_delay b n = fst (backoff_next (nth_backoff b n))"

definition policy ::
    "('d, 'w, 'r) websocket \<Rightarrow> bool \<times> nat option \<times> bool option \<times> nat option" where
  "policy w = (ws_closedByUser w, o_maxRetries (ws_options w), o_instantReconnect (ws_options w), ws_lastConnection w)"

lemma silent_quiet: "silent react \<Longrightarrow> quiet react"
  by (simp add: silent_def quiet_def)

lemma silent_dispatch:
  assumes "silent react"
  shows "dispatchEvent react t ev w = set_listeners t (filter (\<lambda>l. \<not> is_once l) (o_listeners (ws_options w) t)) w"
proof -
  have "fold (\<lambda>l. fold perform_call (react (l_listener l) ev)) ls w = w" for ls :: "ws_listener list"
    using assms by (induction ls) (auto simp: silent_def)
  then show ?thesis by (simp add: dispatchEvent_def Let_def)
qed

lemma backoff_retries_next: "backoff_retries (snd (backoff_next b)) = Suc (backoff_retries b)"
  by (cases b) (simp_all add: cb_next_def eb_next_def lb_next_def Let_def)

lemma nth_backoff_Suc: "nth_backoff b (Suc n) = snd (backoff_next (nth_backoff b n))"
  by (simp add: nth_backoff_def)

text \<open>
  The delay of step \<open>i\<close> in the series that the comments of the backoff classes give (for the linear one the
  series of their example: the maximum bounds the delay)
\<close>

fun series_delay :: "ws_backoff \<Rightarrow> nat \<Rightarrow> int" where
  "series_delay (BackoffConstant b) i = cb_backoff b"
| "series_delay (BackoffExponential b) i =
     eb_base b * 2 ^ (case eb_expMax b of None \<Rightarrow> i | Some m \<Rightarrow> min i (nat m))"
| "series_delay (BackoffLinear b) i =
     (case lb_max b of None \<Rightarrow> lb_initial b + lb_increment b * int i
      | Some m \<Rightarrow> min (lb_initial b + lb_increment b * int i) m)"

lemma exponential_steps:
  assumes "eb_i e = 0"
  shows "\<exists>e'. nth_backoff (BackoffExponential e) n = BackoffExponential e' \<and> eb_base e' = eb_base e \<and> eb_expMax e' = eb_expMax e \<and>
    eb_i e' = (case eb_expMax e of None \<Rightarrow> int n | Some m \<Rightarrow> if n = 0 then 0 else min (int n) m)"
proof (induction n)
  case (Suc n)
  then obtain e' where "nth_backoff (BackoffExponential e) n = BackoffExponential e'" "eb_base e' = eb_base e" "eb_expMax e' = eb_expMax e"
    "eb_i e' = (case eb_expMax e of None \<Rightarrow> int n | Some m \<Rightarrow> if n = 0 then 0 else min (int n) m)" by blast
  then show ?case by (auto simp: nth_backoff_Suc eb_next_def Let_def split: option.splits)
qed (use assms in \<open>auto simp: nth_backoff_def split: option.splits\<close>)

lemma linear_steps:
  assumes "lb_i e = 0"
  shows "\<exists>e'. nth_backoff (BackoffLinear e) n = BackoffLinear e' \<and> lb_initial e' = lb_initial e \<and>
    lb_increment e' = lb_increment e \<and> lb_max e' = lb_max e \<and> lb_i e' = n"
  by (induction n) (auto simp: nth_backoff_Suc lb_next_def Let_def nth_backoff_def assms)

lemma constant_steps: "\<exists>e'. nth_backoff (BackoffConstant e) n = BackoffConstant e' \<and> cb_backoff e' = cb_backoff e"
  by (induction n) (auto simp: nth_backoff_Suc cb_next_def nth_backoff_def)

text \<open>From a reset backoff, the first delay is that of step one.\<close>

lemma nth_delay_series:
  assumes "backoff_reset b = b"
  shows "nth_delay b n = series_delay b (n + 1)"
proof (cases b)
  case (BackoffConstant e)
  then show ?thesis using constant_steps [of e n] by (auto simp: nth_delay_def cb_next_def)
next
  case (BackoffExponential e)
  then have "eb_i e = eb_i (eb_reset e)" using assms by simp
  then have "eb_i e = 0" unfolding eb_reset_def by simp
  from exponential_steps [OF this, of n] show ?thesis using BackoffExponential
    by (auto simp: nth_delay_def eb_next_def Let_def eb_current_def nat_add_distrib min_def split: option.splits)
next
  case (BackoffLinear e)
  then have "lb_i e = lb_i (lb_reset e)" using assms by simp
  then have "lb_i e = 0" unfolding lb_reset_def by simp
  from linear_steps [OF this, of n] show ?thesis using BackoffLinear
    by (auto simp: nth_delay_def lb_next_def Let_def lb_current_def split: option.splits)
qed

lemma reset_retries: "backoff_reset b = b \<Longrightarrow> backoff_retries b = 0"
proof -
  have "backoff_retries (backoff_reset b) = 0" by (cases b) (simp_all add: cb_reset_def eb_reset_def lb_reset_def)
  then show "backoff_reset b = b \<Longrightarrow> backoff_retries b = 0" by simp
qed

lemma backoff_retries_nth: "backoff_retries (nth_backoff b n) = backoff_retries b + n"
proof (induction n)
  case 0
  show ?case by (simp add: nth_backoff_def)
next
  case (Suc n)
  then show ?case by (simp add: nth_backoff_Suc backoff_retries_next)
qed

lemma policy_frame [simp]:
  "policy (clear_timer i w) = policy w" "policy (update_socket s f w) = policy w"
  "policy (stopHeartbeat w) = policy w" "policy (clearWebsocket w) = policy w"
  "policy (set_listeners t ls w) = policy w" "policy (tryConnect w) = policy w"
  "policy (w\<lparr>ws_connectionState := st\<rparr>) = policy w"
  by (auto simp: policy_def clear_timer_def update_socket_def stopHeartbeat_def clearWebsocket_def set_listeners_def
      tryConnect_def Let_def split: option.splits)

lemma backoff_frame [simp]:
  "ws_backoff_of (clear_timer i w) = ws_backoff_of w" "ws_backoff_of (update_socket s f w) = ws_backoff_of w"
  "ws_backoff_of (stopHeartbeat w) = ws_backoff_of w" "ws_backoff_of (clearWebsocket w) = ws_backoff_of w"
  "ws_backoff_of (set_listeners t ls w) = ws_backoff_of w" "ws_backoff_of (tryConnect w) = ws_backoff_of w"
  "ws_backoff_of (w\<lparr>ws_connectionState := st\<rparr>) = ws_backoff_of w"
  by (auto simp: ws_backoff_of_def clear_timer_def update_socket_def stopHeartbeat_def clearWebsocket_def
      set_listeners_def tryConnect_def Let_def split: option.splits)

lemma url_frame [simp]:
  "ws_url (clear_timer i w) = ws_url w" "ws_url (update_socket s f w) = ws_url w"
  "ws_url (stopHeartbeat w) = ws_url w" "ws_url (set_listeners t ls w) = ws_url w"
  by (auto simp: clear_timer_def update_socket_def stopHeartbeat_def set_listeners_def Let_def split: option.splits)

text \<open>What one scheduling does.\<close>

definition next_retry :: "('d, 'w, 'r) websocket \<Rightarrow> ws_backoff \<Rightarrow> retry_detail" where
  "next_retry w b = (let instant = (o_instantReconnect (ws_options w) = Some True)
     in \<lparr>rd_retries = (if instant then 0 else Suc (backoff_retries b)),
         rd_backoff = (if instant then 0 else fst (backoff_next b)),
         rd_lastConnection = ws_lastConnection w, rd_url = ws_url w\<rparr>)"

fun granted :: "nat option \<Rightarrow> retry_detail \<Rightarrow> ws_timer list" where
  "granted None d = [RetryTimer d]"
| "granted (Some m) d = (if rd_retries d \<le> m then [RetryTimer d] else [])"

lemma schedule_effect:
  assumes inv: "ws_inv w" and "\<not> ws_closedByUser w" and b: "ws_backoff_of w = Some b"
  shows "policy (scheduleConnectionRetryIfNeeded w) = policy w"
    "ws_url (scheduleConnectionRetryIfNeeded w) = ws_url w"
    "ws_backoff_of (scheduleConnectionRetryIfNeeded w) =
       Some (if o_instantReconnect (ws_options w) = Some True then b else snd (backoff_next b))"
    "map snd (pending_retries (scheduleConnectionRetryIfNeeded w)) = granted (o_maxRetries (ws_options w)) (next_retry w b)"
proof -
  let ?c = "cancelScheduledConnectionRetry w"
  have none: "\<forall>p \<in> set (ws_timers ?c). \<not> is_retry (snd p)"
    using inv_cancel_no_retry [OF inv] by (simp add: retry_timers_def filter_empty_conv)
  have c: "ws_options ?c = ws_options w" "ws_url ?c = ws_url w" "ws_lastConnection ?c = ws_lastConnection w"
    "ws_closedByUser ?c = ws_closedByUser w"
    by (auto simp: cancelScheduledConnectionRetry_def clear_timer_def split: option.splits)
  note defs = scheduleConnectionRetryIfNeeded_def Let_def case_prod_beta set_backoff_def set_timer_def c
    next_retry_def backoff_retries_next policy_def ws_backoff_of_def pending_retries_def
  show "policy (scheduleConnectionRetryIfNeeded w) = policy w"
    "ws_url (scheduleConnectionRetryIfNeeded w) = ws_url w"
    "ws_backoff_of (scheduleConnectionRetryIfNeeded w) =
       Some (if o_instantReconnect (ws_options w) = Some True then b else snd (backoff_next b))"
    "map snd (pending_retries (scheduleConnectionRetryIfNeeded w)) = granted (o_maxRetries (ws_options w)) (next_retry w b)"
    using assms none by (simp_all add: defs split: option.splits)
qed
lemma handleClose_effect:
  assumes s: "silent react" and inv: "ws_inv w" and "ws_connects w = 0" and "current_closing w"
    and "\<not> ws_closedByUser w" and b: "ws_backoff_of w = Some b"
  shows "policy (handleClose react w) = policy w" "ws_url (handleClose react w) = ws_url w"
    "ws_backoff_of (handleClose react w) =
       Some (if o_instantReconnect (ws_options w) = Some True then b else snd (backoff_next b))"
    "map snd (pending_retries (handleClose react w)) = granted (o_maxRetries (ws_options w)) (next_retry w b)"
proof -
  let ?a = "(stopHeartbeat w)\<lparr>ws_connectionState := Closed\<rparr>"
  let ?b = "dispatchEvent react TClose CloseEvent ?a"
  have "ws_inv (stopHeartbeat w)" by (rule calm_inv [OF inv stopHeartbeat_calm])
  then have "ws_inv ?a" by (rule inv_state) simp
  then have "ws_inv ?b" by (rule calm_inv) (rule dispatch_calm [OF silent_quiet [OF s]])
  moreover have p: "policy ?b = policy w" "ws_backoff_of ?b = ws_backoff_of w" "ws_url ?b = ws_url w"
    by (simp_all add: silent_dispatch [OF s])
  moreover from p(1) have "\<not> ws_closedByUser ?b" "next_retry ?b b = next_retry w b"
    "o_instantReconnect (ws_options ?b) = o_instantReconnect (ws_options w)"
    "o_maxRetries (ws_options ?b) = o_maxRetries (ws_options w)"
    using assms(5) p(3) by (simp_all add: policy_def next_retry_def)
  ultimately show "policy (handleClose react w) = policy w" "ws_url (handleClose react w) = ws_url w"
    "ws_backoff_of (handleClose react w) =
       Some (if o_instantReconnect (ws_options w) = Some True then b else snd (backoff_next b))"
    "map snd (pending_retries (handleClose react w)) = granted (o_maxRetries (ws_options w)) (next_retry w b)"
    using schedule_effect [of ?b b] b unfolding handleClose_def by simp_all
qed

text \<open>The states of an outage: a retry is pending, or the websocket has given up.\<close>

definition live_socket :: "('d, 'w, 'r) websocket \<Rightarrow> bool" where
  "live_socket w \<longleftrightarrow> (case current_socket w of None \<Rightarrow> False
     | Some k \<Rightarrow> sk_attached k \<and> sk_readyState k \<noteq> SockClosed)"

lemma lost_effect:
  assumes s: "silent react" and inv: "ws_inv w" and live: "live_socket w"
    and "\<not> ws_closedByUser w" and b: "ws_backoff_of w = Some b"
  obtains w' where "ws_step react (InSockClose (the (ws_socket w))) w = Some w'" "ws_inv w'" "policy w' = policy w"
    "ws_url w' = ws_url w"
    "ws_backoff_of w' = Some (if o_instantReconnect (ws_options w) = Some True then b else snd (backoff_next b))"
    "map snd (pending_retries w') = granted (o_maxRetries (ws_options w)) (next_retry w b)"
proof -
  obtain i k where k: "ws_socket w = Some i" "map_of (ws_sockets w) i = Some k" "sk_attached k"
    "sk_readyState k \<noteq> SockClosed"
    using live by (auto simp: live_socket_def current_socket_def split: option.splits)
  let ?a = "update_socket i (\<lambda>k. k\<lparr>sk_readyState := SockClosed\<rparr>) w"
  let ?w = "handleClose react ?a"
  have a: "ws_inv ?a" "current_closing ?a" "ws_connects ?a = 0"
    using ready_inv [OF inv k(2)] inv_attached_idle [OF inv k(2,3)] k(1)
    by (auto simp: current_closing_def set_update_socket)
  have st: "ws_step react (InSockClose i) w = Some ?w" using k by (simp add: Let_def)
  have p: "policy ?a = policy w" "ws_backoff_of ?a = Some b" "ws_url ?a = ws_url w" using b by simp_all
  have q: "\<not> ws_closedByUser ?a" "next_retry ?a b = next_retry w b" "ws_options ?a = ws_options w"
    using assms(4) p(1,3) by (simp_all add: policy_def next_retry_def)
  note e = handleClose_effect [OF s a(1) a(3) a(2) q(1) p(2)]
  show ?thesis
    by (rule that [of ?w]) (use st k(1) e p q sock_close_inv [OF silent_quiet [OF s] inv st] in \<open>simp_all del: ws_step.simps\<close>)
qed

lemma attempt_effect:
  assumes s: "silent react" and inv: "ws_inv w" and "\<not> ws_closedByUser w"
    and pend: "map snd (pending_retries w) = [RetryTimer d]"
  obtains w1 w2 where "ws_step react (InTimer (the (ws_retryTimeout w))) w = Some w1"
    "ws_step react (InResolve url) w1 = Some w2" "ws_inv w2" "live_socket w2" "policy w2 = policy w"
    "ws_backoff_of w2 = ws_backoff_of w" "ws_url w2 = Some url"
proof -
  note q = silent_quiet [OF s]
  obtain i where i: "pending_retries w = [(i, RetryTimer d)]" using pend by (auto simp: map_eq_Cons_conv)
  then have "(i, RetryTimer d) \<in> set (ws_timers w)"
    unfolding pending_retries_def by (metis filter_is_subset list.set_intros(1) subsetD)
  then have m: "map_of (ws_timers w) i = Some (RetryTimer d)"
    using inv by (simp add: ws_inv_def timers_ok_def)
  have "i \<in> set (retry_timers w)" using i by (simp add: retry_timers_def pending_retries_def)
  then have t: "ws_retryTimeout w = Some i" "ws_connects w = 0"
    using inv unfolding ws_inv_def by (fastforce simp: elem_set)+
  let ?w1 = "handleRetry react d (clear_timer (Some i) w)"
  have st1: "ws_step react (InTimer i) w = Some ?w1" using m by simp
  have inv1: "ws_inv ?w1" by (rule handleRetry_inv [OF q inv m])
  have w1: "policy ?w1 = policy w" "ws_backoff_of ?w1 = ws_backoff_of w"
    by (simp_all add: handleRetry_def silent_dispatch [OF s])
  have "ws_connects ?w1 = 1"
    using t(2) by (simp add: handleRetry_def tryConnect_def clearWebsocket_frame silent_dispatch [OF s] set_listeners_def)
  moreover have "\<not> ws_closedByUser ?w1" using w1(1) assms(3) by (simp add: policy_def)
  ultimately have "\<exists>w2. ws_step react (InResolve url) ?w1 = Some w2 \<and> live_socket w2 \<and> policy w2 = policy ?w1 \<and>
      ws_backoff_of w2 = ws_backoff_of ?w1 \<and> ws_url w2 = Some url"
    using inv1 by (auto simp: tryConnect_resolved_def Let_def silent_dispatch [OF s] live_socket_def current_socket_def
        policy_def ws_backoff_of_def set_listeners_def ws_inv_def map_add_def split: option.split dest: map_of_SomeD)
  then obtain w2 where w2: "ws_step react (InResolve url) ?w1 = Some w2" "live_socket w2" "policy w2 = policy ?w1"
      "ws_backoff_of w2 = ws_backoff_of ?w1" "ws_url w2 = Some url" by blast
  show ?thesis
    by (rule that [of ?w1 w2]) (use st1 t w1 w2 ws_step_inv [OF q inv1 w2(1)] in \<open>simp_all del: ws_step.simps\<close>)
qed
text \<open>The retry that follows the \<open>n\<close>-th failed attempt.\<close>

definition outage_retry :: "('d, 'w, 'r) websocket \<Rightarrow> ws_backoff \<Rightarrow> string \<Rightarrow> nat \<Rightarrow> retry_detail" where
  "outage_retry w b url n = (let instant = (o_instantReconnect (ws_options w) = Some True)
     in \<lparr>rd_retries = (if instant then 0 else Suc (backoff_retries b + n)),
         rd_backoff = (if instant then 0 else nth_delay b n),
         rd_lastConnection = ws_lastConnection w, rd_url = (if n = 0 then ws_url w else Some url)\<rparr>)"

lemma outage_effect:
  assumes s: "silent react" and inv: "ws_inv w" and "live_socket w"
    and "\<not> ws_closedByUser w" and b: "ws_backoff_of w = Some b"
    and "\<And>k. k < n \<Longrightarrow> granted (o_maxRetries (ws_options w)) (outage_retry w b url k) = [RetryTimer (outage_retry w b url k)]"
  shows "\<exists>w'. outage react url n w = Some w' \<and> ws_inv w' \<and> policy w' = policy w \<and>
    ws_url w' = (if n = 0 then ws_url w else Some url) \<and>
    ws_backoff_of w' = Some (if o_instantReconnect (ws_options w) = Some True then b else nth_backoff b (Suc n)) \<and>
    map snd (pending_retries w') = granted (o_maxRetries (ws_options w)) (outage_retry w b url n)"
  using assms(6)
proof (induction n)
  case 0
  have "next_retry w b = outage_retry w b url 0"
    by (simp add: next_retry_def outage_retry_def nth_delay_def nth_backoff_def Let_def)
  then show ?case
    by (rule_tac lost_effect [OF s inv assms(3,4) b]) (auto simp: nth_backoff_def simp del: ws_step.simps)
next
  case (Suc n)
  let ?inst = "o_instantReconnect (ws_options w) = Some True"
  let ?b = "if ?inst then b else nth_backoff b (Suc n)"
  obtain w' where w': "outage react url n w = Some w'" "ws_inv w'" "policy w' = policy w" "ws_backoff_of w' = Some ?b"
    "map snd (pending_retries w') = [RetryTimer (outage_retry w b url n)]"
    using Suc.IH Suc.prems by (metis less_Suc_eq)
  have open': "\<not> ws_closedByUser w'" using assms(4) w'(3) by (simp add: policy_def)
  obtain w1 w2 where w2: "ws_step react (InTimer (the (ws_retryTimeout w'))) w' = Some w1"
    "ws_step react (InResolve url) w1 = Some w2" "ws_inv w2" "live_socket w2" "policy w2 = policy w'"
    "ws_backoff_of w2 = Some ?b" "ws_url w2 = Some url"
    using attempt_effect [OF s w'(2) open' w'(5)] w'(4) by metis
  have p2: "policy w2 = policy w" using w2(5) w'(3) by simp
  then have opts: "o_instantReconnect (ws_options w2) = o_instantReconnect (ws_options w)"
    "o_maxRetries (ws_options w2) = o_maxRetries (ws_options w)" "\<not> ws_closedByUser w2"
    using assms(4) by (simp_all add: policy_def)
  have "next_retry w2 ?b = outage_retry w b url (Suc n)"
    using p2 opts w2(7) by (simp add: next_retry_def outage_retry_def nth_delay_def backoff_retries_nth policy_def Let_def)
  moreover obtain w3 where "ws_step react (InSockClose (the (ws_socket w2))) w2 = Some w3" "ws_inv w3"
    "policy w3 = policy w2" "ws_url w3 = ws_url w2" "ws_backoff_of w3 = Some (if ?inst then ?b else snd (backoff_next ?b))"
    "map snd (pending_retries w3) = granted (o_maxRetries (ws_options w)) (next_retry w2 ?b)"
    by (rule lost_effect [OF s w2(3,4) opts(3) w2(6)]) (use opts in simp)
  ultimately show ?case
    using w'(1) w2 p2 by (simp add: failed_attempt_def nth_backoff_Suc del: ws_step.simps)
qed
section \<open>Opening\<close>

fun buffer_capacity :: "'d ws_buffer \<Rightarrow> nat option" where
  "buffer_capacity (BufferArray q) = None"
| "buffer_capacity (BufferRing q) = rq_capacity q"

lemma buffer_adds:
  assumes "buffer_ok b"
  shows "buffer_ok (fold buffer_add ds b)"
    "buffer_contents (fold buffer_add ds b) = keep_last (buffer_capacity b) (buffer_contents b @ ds)"
proof -
  have "fold buffer_add ds (BufferArray q) = BufferArray (fold aq_add ds q)"
    "fold buffer_add ds (BufferRing r) = BufferRing (fold rq_add ds r)" for q r
    by (induction ds arbitrary: q r) auto
  then show "buffer_ok (fold buffer_add ds b)"
    "buffer_contents (fold buffer_add ds b) = keep_last (buffer_capacity b) (buffer_contents b @ ds)"
    using assms array_queue.adds [where es = ds] ring_queue.adds [where es = ds] by (cases b; simp)+
qed

lemma send_offline:
  assumes "\<not> ws_closedByUser w" and "ws_buffer_of w = Some b"
    and "\<And>k. current_socket w = Some k \<Longrightarrow> sk_readyState k \<noteq> SockOpen"
  shows "fold (\<lambda>d v. snd (send d v)) ds w = (if ds = [] then w else set_buffer (fold buffer_add ds b) w)"
  using assms
proof (induction ds arbitrary: w b)
  case (Cons d ds)
  have d: "snd (send d w) = set_buffer (buffer_add d b) w"
    using Cons.prems by (auto simp: send_def Let_def split: option.splits)
  have "set_buffer x (set_buffer y w) = set_buffer x w" for x y by (simp add: set_buffer_def)
  then show ?case
    using Cons.IH [of "set_buffer (buffer_add d b) w" "buffer_add d b"] Cons.prems by (simp add: d)
qed simp

text \<open>What the opening handler leaves alone.\<close>

definition open_frame :: "('d, 'w, 'r) websocket \<Rightarrow>
    nat option \<times> (nat, 'w socket) jsmap \<times> bool \<times> 'd ws_buffer option \<times> ('d \<Rightarrow> 'w) \<times> bool \<times> ws_listener list" where
  "open_frame w = (ws_socket w, ws_sockets w, ws_closedByUser w, ws_buffer_of w, o_serialize (ws_options w),
     ws_connectPending w, o_listeners (ws_options w) TOpen)"

lemma stopHeartbeat_frame [simp]:
  "open_frame (stopHeartbeat w) = open_frame w" "ws_connectionState (stopHeartbeat w) = ws_connectionState w"
  by (simp_all add: stopHeartbeat_def open_frame_def ws_buffer_of_def Let_def split: option.splits)

lemma startHeartbeat_frame:
  "open_frame (if p then startHeartbeat w else w) = open_frame w"
  "ws_connectionState (if p then startHeartbeat w else w) = ws_connectionState w"
  using stopHeartbeat_frame [of w]
  by (auto simp: startHeartbeat_def open_frame_def ws_buffer_of_def set_timer_def Let_def)

lemma handleOpen_silent_prefix:
  assumes react: "\<And>l ev. ev \<noteq> OpenEvent \<Longrightarrow> react l ev = []"
  obtains v where "handleOpen react now w = sendBufferedData (dispatchEvent react TOpen OpenEvent v)"
    "open_frame v = open_frame w" "ws_connectionState v = Open"
proof -
  let ?a = "w\<lparr>ws_connectionState := Open\<rparr>"
  let ?b = "case (ws_backoff_of ?a, ws_lastConnection ?a) of
      (Some b, Some since) \<Rightarrow> dispatchEvent react TReconnect (ReconnectEvent (backoff_retries b) since (ws_url ?a)) ?a
    | _ \<Rightarrow> ?a"
  let ?c = "case ws_backoff_of ?b of None \<Rightarrow> ?b | Some b \<Rightarrow> set_backoff (backoff_reset b) ?b"
  let ?d = "if hb_autoStart (heartbeat_of ?c) \<noteq> Some False then startHeartbeat ?c else ?c"
  let ?e = "?d\<lparr>ws_lastConnection := Some now\<rparr>"
  have fold: "fold (\<lambda>l. fold perform_call (react (l_listener l) (ReconnectEvent n m u))) ls x = x"
    for n m u x and ls :: "ws_listener list"
    by (induction ls) (auto simp: react)
  have "open_frame ?a = open_frame w" "ws_connectionState ?a = Open" by (simp_all add: open_frame_def ws_buffer_of_def)
  then have "open_frame ?b = open_frame w" "ws_connectionState ?b = Open"
    by (auto simp: dispatchEvent_def Let_def fold set_listeners_def open_frame_def ws_buffer_of_def split: option.splits)
  then have "open_frame ?c = open_frame w" "ws_connectionState ?c = Open"
    by (auto simp: set_backoff_def open_frame_def ws_buffer_of_def split: option.splits)
  then have "open_frame ?d = open_frame w" "ws_connectionState ?d = Open" by (simp_all only: startHeartbeat_frame)
  then have "open_frame ?e = open_frame w" "ws_connectionState ?e = Open" by (simp_all add: open_frame_def ws_buffer_of_def)
  moreover have "handleOpen react now w = sendBufferedData (dispatchEvent react TOpen OpenEvent ?e)"
    unfolding handleOpen_def Let_def by (rule refl)
  ultimately show ?thesis using that by blast
qed

section \<open>Sequences of inputs\<close>

fun ws_steps ::
    "('d, 'w, 'r) reaction \<Rightarrow> ('d, 'w) ws_input list \<Rightarrow> ('d, 'w, 'r) websocket \<Rightarrow> ('d, 'w, 'r) websocket option" where
  "ws_steps react [] w = Some w"
| "ws_steps react (i # ins) w = Option.bind (ws_step react i w) (ws_steps react ins)"

lemma ws_steps_closed:
  assumes "lasting react" and "list_all lasting_input ins" and "ws_closedByUser w" and "buffer_fine w"
  shows "\<exists>w'. ws_steps react ins w = Some w' \<and> ws_closedByUser w' \<and> sent_data w' = sent_data w"
  using assms(2-4)
proof (induction ins arbitrary: w)
  case (Cons i ins)
  obtain v where v: "ws_step react i w = Some v" using ws_step_closed [OF assms(1) Cons.prems(2,3)] by blast
  have "stays_closed w v" by (rule ws_step_stays [OF assms(1) _ v]) (use Cons.prems(1) in simp)
  then have "ws_closedByUser v" "buffer_fine v" "sent_data v = sent_data w"
    using Cons.prems(2,3) by (simp_all add: stays_closed_def)
  then show ?case using Cons.IH [of v] Cons.prems(1) v by (auto simp del: ws_step.simps)
qed simp

lemma close_closes: "ws_closedByUser (close w) \<and> sent_data (close w) = sent_data w \<and> buffer_fine (close w) = buffer_fine w"
proof -
  let ?v = "w\<lparr>ws_closedByUser := True\<rparr>"
  have "close w = close ?v"
    by (simp add: close_def cancelScheduledConnectionRetry_def clear_timer_def split: option.splits)
  moreover have "ws_closedByUser (close w)"
    using close_calm [of ?v] \<open>close w = close ?v\<close> by (simp add: calm_def)
  moreover have "ws_buffer_of (close w) = ws_buffer_of w"
    by (auto simp: close_def cancelScheduledConnectionRetry_def clear_timer_def stopHeartbeat_def ws_buffer_of_def
        update_socket_def Let_def split: option.splits)
  moreover have "sent_data (close w) = sent_data w"
    by (auto simp: close_def cancelScheduledConnectionRetry_def clear_timer_def stopHeartbeat_def sent_data_def
        update_socket_def Let_def simp del: sock_close.simps split: option.splits)
  ultimately show ?thesis by (simp add: buffer_fine_def)
qed
section \<open>Claims\<close>

text \<open>A connecting websocket, and one with \<open>instantReconnect\<close>, for the examples.\<close>

definition demo_options :: "(nat, nat, nat) ws_options" where
  "demo_options = \<lparr>o_buffer = Some (BufferArray aq_new), o_maxRetries = Some 2, o_instantReconnect = None,
     o_backoff = Some (BackoffConstant \<lparr>cb_backoff = 500, cb_retries = 0\<rparr>),
     o_heartbeat = \<lparr>hb_interval = None, hb_timeout = None, hb_pingMessage = None, hb_pongMessage = None,
       hb_maxMissedHeartbeats = None, hb_autoStart = None\<rparr>,
     o_listeners = (\<lambda>_. [\<lparr>l_listener = 0, l_options = None\<rparr>]), o_serialize = (\<lambda>d. d), o_deserialize = Some\<rparr>"

definition demo_ws :: "(nat, nat, nat) websocket" where
  "demo_ws = tryConnect_resolved (\<lambda>_ _. []) ''u'' ((ws_new (Some ''u'') demo_options)\<lparr>ws_connects := 0\<rparr>)"

definition instant_ws :: "(nat, nat, nat) websocket" where
  "instant_ws = the (ws_step (\<lambda>_ _. []) (InResolve ''u'')
     (ws_new (Some ''u'') (demo_options\<lparr>o_instantReconnect := Some True, o_maxRetries := Some 1\<rparr>)))"

text \<open>
  C20: data offered while the connection is being made is delivered in order, as long as the listeners only
  observe (they call no method of the websocket, \<open>silent\<close>) and the user has not closed it. When the
  socket opens, the handler returns; it has sent what the buffer held and everything offered since,
  each serialized, in order (a ring buffer: the last \<open>capacity\<close> of them), and the buffer is
  empty. An \<open>open\<close> listener that sends or reconnects is outside the property: what it sends goes out
  before the buffer, and C21 shows what reconnecting does.
\<close>

theorem offline_data_flushed_on_open:
  assumes "silent react" and "ws_socket w = Some s" and k: "map_of (ws_sockets w) s = Some k"
    and "sk_attached k" and "sk_readyState k = SockConnecting" and "\<not> ws_closedByUser w"
    and b: "ws_buffer_of w = Some b" and "buffer_ok b"
  shows "\<exists>w' b' k'. ws_step react (InSockOpen s now) (fold (\<lambda>d v. snd (send d v)) ds w) = Some w' \<and>
    ws_connectionState w' = Open \<and> ws_buffer_of w' = Some b' \<and> buffer_contents b' = [] \<and>
    current_socket w' = Some k' \<and> sk_readyState k' = SockOpen \<and>
    sk_sent k' = sk_sent k @
      map (o_serialize (ws_options w)) (keep_last (buffer_capacity b) (buffer_contents b @ ds))"
proof -
  let ?b = "if ds = [] then b else fold buffer_add ds b"
  let ?v = "fold (\<lambda>d v. snd (send d v)) ds w"
  let ?k = "k\<lparr>sk_readyState := SockOpen\<rparr>"
  let ?u = "update_socket s (\<lambda>k. k\<lparr>sk_readyState := SockOpen\<rparr>) ?v"
  have v: "?v = (if ds = [] then w else set_buffer (fold buffer_add ds b) w)"
    by (rule send_offline [OF assms(6) b]) (use assms(2,5) k in \<open>simp add: current_socket_def\<close>)
  have contents: "buffer_contents ?b = keep_last (buffer_capacity b) (buffer_contents b @ ds)"
    using buffer_adds(2) [OF assms(8), of ds] buffer_adds(2) [OF assms(8), of "[]"] by auto
  have u: "ws_socket ?u = Some s" "map_of (ws_sockets ?u) s = Some ?k" "\<not> ws_closedByUser ?u"
    "ws_buffer_of ?u = Some ?b" "o_serialize (ws_options ?u) = o_serialize (ws_options w)"
    using assms(2,6) b k by (simp_all add: v) (simp_all add: ws_buffer_of_def set_buffer_def)
  obtain x where x: "handleOpen react now ?u = sendBufferedData (dispatchEvent react TOpen OpenEvent x)"
    "open_frame x = open_frame ?u" "ws_connectionState x = Open"
    using handleOpen_silent_prefix [of react now ?u] assms(1) by (auto simp: silent_def)
  let ?y = "dispatchEvent react TOpen OpenEvent x"
  have y: "ws_socket ?y = Some s" "current_socket ?y = Some ?k" "\<not> ws_closedByUser ?y" "ws_buffer_of ?y = Some ?b"
    "o_serialize (ws_options ?y) = o_serialize (ws_options w)" "ws_connectionState ?y = Open"
    using u x(2,3) by (auto simp: silent_dispatch [OF assms(1)] set_listeners_def open_frame_def current_socket_def
        ws_buffer_of_def)
  have "buffer_ok ?b" using buffer_adds(1) [OF assms(8)] assms(8) by simp
  then obtain w' b' k' where w': "sendBufferedData ?y = Some w'" "ws_buffer_of w' = Some b'" "buffer_contents b' = []"
    "current_socket w' = Some k'" "sk_readyState k' = SockOpen"
    "sk_sent k' = sk_sent ?k @ map (o_serialize (ws_options ?y)) (buffer_contents ?b)"
    using flush_open [OF y(1,2) _ y(3,4)] by auto
  have "ws_connectionState w' = Open" using sendBufferedData_calm [OF w'(1)] y(6) by (simp add: calm_def)
  moreover have "map_of (ws_sockets ?v) s = Some k" using k by (simp add: v set_buffer_def)
  then have "ws_step react (InSockOpen s now) ?v = Some w'"
    using assms(4,5) x(1) w'(1) by (simp add: Let_def)
  ultimately show ?thesis using w' contents y(5) by auto
qed

theorem offline_data_flushed_on_open_witness:
  "\<exists>w' b' k'. ws_step (\<lambda>_ _. []) (InSockOpen 0 9) (fold (\<lambda>d v. snd (send d v)) [7, 8] demo_ws) = Some w' \<and>
    ws_connectionState w' = Open \<and> ws_buffer_of w' = Some b' \<and> buffer_contents b' = [] \<and>
    current_socket w' = Some k' \<and> sk_readyState k' = SockOpen \<and> sk_sent k' = [7, 8]"
proof -
  let ?k = "\<lparr>sk_readyState = SockConnecting, sk_attached = True, sk_abandoned = False, sk_sent = [] :: nat list, sk_url = ''u''\<rparr>"
  have h: "ws_socket demo_ws = Some 0" "map_of (ws_sockets demo_ws) 0 = Some ?k" "\<not> ws_closedByUser demo_ws"
    "ws_buffer_of demo_ws = Some (BufferArray aq_new)" "o_serialize (ws_options demo_ws) = (\<lambda>d. d)"
    by (simp_all add: demo_ws_def demo_options_def ws_new_def tryConnect_def tryConnect_resolved_def Let_def
        dispatchEvent_def set_listeners_def copy_options_def ws_buffer_of_def)
  have "silent (\<lambda>_ _. [] :: nat ws_call list)" by (simp add: silent_def)
  from offline_data_flushed_on_open [OF this h(1,2) _ _ h(3,4), of 9 "[7, 8]"] show ?thesis
    by (simp add: h(5) aq_new_def del: ws_step.simps)
qed
text \<open>
  C21: reconnecting from an \<open>open\<close> listener hangs. When the only \<open>open\<close> listener calls
  \<open>reconnect()\<close> and the buffer is not empty, the open handler never returns: every element it
  reads is put back, since the socket is closing by then.
\<close>

theorem reconnect_in_open_listener_hangs:
  assumes "\<And>l ev. ev \<noteq> OpenEvent \<Longrightarrow> react l ev = []" and "react (l_listener l) OpenEvent = [CallReconnect]"
    and "o_listeners (ws_options w) TOpen = [l]" and "ws_socket w = Some s" and k: "map_of (ws_sockets w) s = Some k"
    and "sk_attached k" and "sk_readyState k = SockConnecting" and "\<not> ws_connectPending w"
    and "ws_buffer_of w = Some b" and "buffer_ok b" and "buffer_contents b \<noteq> []"
  shows "ws_step react (InSockOpen s now) w = None"
proof -
  let ?u = "update_socket s (\<lambda>k. k\<lparr>sk_readyState := SockOpen\<rparr>) w"
  obtain x where x: "handleOpen react now ?u = sendBufferedData (dispatchEvent react TOpen OpenEvent x)"
    "open_frame x = open_frame ?u" "ws_connectionState x = Open"
    using handleOpen_silent_prefix [of react now ?u] assms(1) by auto
  have xs: "ws_socket x = Some s" "map_of (ws_sockets x) s = Some (k\<lparr>sk_readyState := SockOpen\<rparr>)"
    "ws_buffer_of x = Some b" "\<not> ws_connectPending x" "o_listeners (ws_options x) TOpen = [l]"
    using x(2) assms(3,4,8,9) k by (auto simp: open_frame_def ws_buffer_of_def)
  let ?z = "stopHeartbeat (cancelScheduledConnectionRetry (x\<lparr>ws_closedByUser := False\<rparr>))"
  have "open_frame ?z = open_frame (x\<lparr>ws_closedByUser := False\<rparr>)"
    by (simp add: cancelScheduledConnectionRetry_def) (simp add: open_frame_def ws_buffer_of_def)
  then have z: "ws_socket ?z = Some s" "map_of (ws_sockets ?z) s = Some (k\<lparr>sk_readyState := SockOpen\<rparr>)"
    "ws_buffer_of ?z = Some b" "\<not> ws_closedByUser ?z"
    using xs by (auto simp: open_frame_def ws_buffer_of_def)
  have "stuck (set_listeners t ls (reconnect x))" for t ls
    using xs(4) z assms(10,11)
    by (simp add: reconnect_def Let_def stuck_def tryConnect_def clearWebsocket_def set_listeners_def current_socket_def)
      (simp add: ws_buffer_of_def)
  then have "stuck (dispatchEvent react TOpen OpenEvent x)"
    using xs(5) assms(2) by (simp add: dispatchEvent_def)
  then have "handleOpen react now ?u = None" using x(1) flush_stuck by simp
  then show ?thesis using k assms(6,7) by (simp add: Let_def)
qed

theorem reconnect_in_open_listener_hangs_witness:
  "ws_step (\<lambda>_ ev. if ev = OpenEvent then [CallReconnect] else []) (InSockOpen 0 9) (snd (send 7 demo_ws)) = None"
proof -
  let ?k = "\<lparr>sk_readyState = SockConnecting, sk_attached = True, sk_abandoned = False, sk_sent = [] :: nat list, sk_url = ''u''\<rparr>"
  let ?w = "snd (send 7 demo_ws)"
  have h: "o_listeners (ws_options ?w) TOpen = [\<lparr>l_listener = 0, l_options = None\<rparr>]" "ws_socket ?w = Some 0"
    "map_of (ws_sockets ?w) 0 = Some ?k" "\<not> ws_connectPending ?w"
    "ws_buffer_of ?w = Some (BufferArray (aq_add 7 aq_new))"
    by (simp_all add: demo_ws_def demo_options_def ws_new_def tryConnect_def tryConnect_resolved_def Let_def
        dispatchEvent_def set_listeners_def copy_options_def ws_buffer_of_def send_def current_socket_def set_buffer_def
        is_once_def)
  show ?thesis
    by (rule reconnect_in_open_listener_hangs [OF _ _ h(1,2,3) _ _ h(4,5)]) (simp_all add: aq_add_def aq_new_def)
qed

text \<open>
  C22: one connection at a time. In every run whose listeners do not themselves reconnect, at
  most one socket has handlers, and it is the current one; at most one attempt waits for its
  url, and while it does no socket has handlers and no retry is scheduled; and at most one retry is
  scheduled, only while the current socket is closing or closed (and may still have its handlers).
\<close>

theorem one_connection_at_a_time:
  assumes "ws_run react ins w" and "quiet react"
  shows "(\<forall>p \<in> set (ws_sockets w). sk_attached (snd p) \<longrightarrow> ws_socket w = Some (fst p)) \<and>
    distinct (map fst (ws_sockets w)) \<and> ws_connects w \<le> 1 \<and> card (set (retry_timers w)) \<le> 1 \<and>
    (ws_connects w = 1 \<longrightarrow> none_attached w \<and> retry_timers w = []) \<and>
    (retry_timers w \<noteq> [] \<longrightarrow> current_closing w)"
proof -
  have inv: "ws_inv w" by (rule ws_run_inv [OF assms])
  have "card (set (retry_timers w)) \<le> card (set_option (ws_retryTimeout w))"
    using inv by (intro card_mono) (auto simp: ws_inv_def)
  also have "\<dots> \<le> 1" by (cases "ws_retryTimeout w") auto
  finally show ?thesis using inv by (auto simp: ws_inv_def none_attached_def)
qed

theorem one_connection_at_a_time_witness:
  "\<exists>w. ws_run ((\<lambda>_ _. [CallSend 3]) :: (nat, nat, nat) reaction) [InResolve ''u'', InCall CallReconnect] w \<and> ws_connects w = 1 \<and>
     none_attached w \<and> length (ws_sockets w) = 1 \<and> retry_timers w = []"
proof -
  let ?r = "(\<lambda>_ _. [CallSend 3]) :: (nat, nat, nat) reaction"
  let ?w1 = "the (ws_step ?r (InResolve ''u'') (ws_new (Some ''u'') demo_options))"
  let ?w2 = "the (ws_step ?r (InCall CallReconnect) ?w1)"
  have "ws_run ?r ([] @ [InResolve ''u'']) ?w1"
    by (rule ws_run.step [OF ws_run.start]) (simp add: ws_new_def tryConnect_def)
  then have run: "ws_run ?r (([] @ [InResolve ''u'']) @ [InCall CallReconnect]) ?w2"
    by (rule ws_run.step) simp
  have "quiet ?r" by (simp add: quiet_def)
  moreover have "ws_connects ?w2 = 1" "length (ws_sockets ?w2) = 1" by code_simp+
  ultimately show ?thesis
    using one_connection_at_a_time [OF run] run by (intro exI [of _ ?w2]) (simp del: ws_step.simps)
qed
text \<open>
  C23: a user close is final. After \<open>close()\<close>, as long as neither the client nor a listener
  calls \<open>reconnect()\<close>, every input is handled and returns, whatever urls resolve, sockets
  open, timers fire and methods are called: no socket is created, nothing more is sent over
  any socket, and \<open>send\<close> refuses.
\<close>

theorem user_close_is_final:
  assumes "lasting react" and "list_all lasting_input ins" and "buffer_fine w"
  shows "\<exists>w'. ws_steps react ins (close w) = Some w' \<and> sent_data w' = sent_data w \<and>
    (\<forall>d. send d w' = (False, w'))"
proof -
  obtain w' where "ws_steps react ins (close w) = Some w'" "ws_closedByUser w'" "sent_data w' = sent_data (close w)"
    using ws_steps_closed [OF assms(1,2), of "close w"] close_closes [of w] assms(3) by auto
  then show ?thesis using close_closes [of w] by (simp add: send_def)
qed

theorem user_close_is_final_witness:
  "\<exists>w'. ws_steps (\<lambda>_ _. [CallSend 5, CallReconnectIfDisconnected])
      [InSockOpen 0 1, InSockClose 0, InTimer 1, InResolve ''v'', InCall (CallSend 6)] (close demo_ws) = Some w' \<and>
     sent_data w' = [(0, [])] \<and> (\<forall>d. send d w' = (False, w'))"
proof -
  have "lasting (\<lambda>_ _. [CallSend 5, CallReconnectIfDisconnected] :: nat ws_call list)" by (simp add: lasting_def)
  moreover have "sent_data demo_ws = [(0, [])]" by code_simp
  moreover have "buffer_fine demo_ws" by code_simp
  ultimately show ?thesis
    using user_close_is_final [of "\<lambda>_ _. [CallSend 5, CallReconnectIfDisconnected]"
        "[InSockOpen 0 1, InSockClose 0, InTimer 1, InResolve ''v'', InCall (CallSend 6)]" demo_ws]
    by (simp del: ws_step.simps ws_steps.simps)
qed

text \<open>
  C24: the retry policy, without \<open>instantReconnect\<close> (C25 has it with) and with listeners that only observe
  (\<open>silent\<close>). When the connection of a websocket that the user has not closed is lost while its
  backoff is reset, as a successful opening leaves it, and \<open>n\<close> attempts have failed since, exactly one
  retry is pending, counted \<open>n + 1\<close>. Its delay is that of step \<open>n + 1\<close> in the series of the backoff:
  the constant; \<open>base * 2^min(n + 1, expMax)\<close>; \<open>initial + increment * (n + 1)\<close> cut off at the maximum.
  So the first retry waits for step 1, not for step 0 as the classes' comments have it. With a limit of
  \<open>m\<close> retries, none is pending once \<open>m\<close> attempts have failed. The handlers return.
\<close>

theorem retry_policy:
  assumes "ws_run react ins w" and "silent react" and "live_socket w" and "\<not> ws_closedByUser w"
    and "ws_backoff_of w = Some b" and "backoff_reset b = b" and "o_instantReconnect (ws_options w) \<noteq> Some True"
    and "case o_maxRetries (ws_options w) of None \<Rightarrow> True | Some m \<Rightarrow> n \<le> m"
  shows "\<exists>w'. outage react url n w = Some w' \<and>
    map snd (pending_retries w') =
      (if o_maxRetries (ws_options w) = Some n then []
       else [RetryTimer \<lparr>rd_retries = n + 1, rd_backoff = series_delay b (n + 1), rd_lastConnection = ws_lastConnection w,
               rd_url = (if n = 0 then ws_url w else Some url)\<rparr>])"
proof -
  have d: "outage_retry w b url k = \<lparr>rd_retries = Suc k, rd_backoff = series_delay b (Suc k),
      rd_lastConnection = ws_lastConnection w, rd_url = (if k = 0 then ws_url w else Some url)\<rparr>" for k
    using reset_retries [OF assms(6)] nth_delay_series [OF assms(6)] assms(7) by (simp add: outage_retry_def)
  have "\<exists>w'. outage react url n w = Some w' \<and>
      map snd (pending_retries w') = granted (o_maxRetries (ws_options w)) (outage_retry w b url n)"
    using outage_effect [OF assms(2) ws_run_inv [OF assms(1) silent_quiet [OF assms(2)]] assms(3-5), of n url] assms(8)
    by (cases "o_maxRetries (ws_options w)") (auto simp: d)
  then show ?thesis using assms(8) by (cases "o_maxRetries (ws_options w)") (auto simp: d)
qed

theorem retry_policy_witness:
  "map_option (\<lambda>w'. map snd (pending_retries w')) (outage (\<lambda>_ _. []) ''v'' 1 demo_ws) =
     Some [RetryTimer \<lparr>rd_retries = 2, rd_backoff = 500, rd_lastConnection = None, rd_url = Some ''v''\<rparr>] \<and>
   map_option (\<lambda>w'. map snd (pending_retries w')) (outage (\<lambda>_ _. []) ''v'' 2 demo_ws) = Some []"
proof -
  let ?r = "(\<lambda>_ _. []) :: (nat, nat, nat) reaction"
  let ?b = "BackoffConstant \<lparr>cb_backoff = 500, cb_retries = 0\<rparr>"
  have "ws_run ?r ([] @ [InResolve ''u'']) demo_ws"
    by (rule ws_run.step [OF ws_run.start [where url = "Some ''u''" and opts = demo_options]])
      (simp add: demo_ws_def ws_new_def tryConnect_def)
  moreover have "silent ?r" by (simp add: silent_def)
  moreover have "live_socket demo_ws" "\<not> ws_closedByUser demo_ws" "ws_backoff_of demo_ws = Some ?b"
    "backoff_reset ?b = ?b" "o_instantReconnect (ws_options demo_ws) \<noteq> Some True"
    "o_maxRetries (ws_options demo_ws) = Some 2" "ws_lastConnection demo_ws = None"
    by code_simp+
  ultimately show ?thesis
    using retry_policy [of ?r "[] @ [InResolve ''u'']" demo_ws ?b 1 "''v''"]
      retry_policy [of ?r "[] @ [InResolve ''u'']" demo_ws ?b 2 "''v''"] by auto
qed

text \<open>
  C25: \<open>instantReconnect\<close> removes the delay and the limit of every retry, and not only of the
  first one: after any number of failed attempts, and with any \<open>maxRetries\<close>, one retry is
  pending, without delay, counted 0.
\<close>

theorem instant_reconnect_never_backs_off:
  assumes "ws_run react ins w" and "silent react" and "live_socket w" and "\<not> ws_closedByUser w"
    and "ws_backoff_of w = Some b" and "o_instantReconnect (ws_options w) = Some True"
  shows "\<exists>w'. outage react url n w = Some w' \<and>
    map snd (pending_retries w') =
      [RetryTimer \<lparr>rd_retries = 0, rd_backoff = 0, rd_lastConnection = ws_lastConnection w,
         rd_url = (if n = 0 then ws_url w else Some url)\<rparr>]"
proof -
  have d: "outage_retry w b url k = \<lparr>rd_retries = 0, rd_backoff = 0,
      rd_lastConnection = ws_lastConnection w, rd_url = (if k = 0 then ws_url w else Some url)\<rparr>" for k
    using assms(6) by (simp add: outage_retry_def)
  show ?thesis
    using outage_effect [OF assms(2) ws_run_inv [OF assms(1) silent_quiet [OF assms(2)]] assms(3-5), of n url]
    by (cases "o_maxRetries (ws_options w)") (auto simp: d)
qed

theorem instant_reconnect_never_backs_off_witness:
  "map_option (\<lambda>w'. map snd (pending_retries w')) (outage (\<lambda>_ _. []) ''v'' 7 instant_ws) =
     Some [RetryTimer \<lparr>rd_retries = 0, rd_backoff = 0, rd_lastConnection = None, rd_url = Some ''v''\<rparr>]"
proof -
  let ?r = "(\<lambda>_ _. []) :: (nat, nat, nat) reaction"
  have "ws_run ?r ([] @ [InResolve ''u'']) instant_ws"
    unfolding instant_ws_def by (rule ws_run.step [OF ws_run.start]) (simp add: ws_new_def tryConnect_def)
  moreover have "silent ?r" by (simp add: silent_def)
  moreover have "live_socket instant_ws" "\<not> ws_closedByUser instant_ws"
    "ws_backoff_of instant_ws = Some (BackoffConstant \<lparr>cb_backoff = 500, cb_retries = 0\<rparr>)"
    "o_instantReconnect (ws_options instant_ws) = Some True" "ws_lastConnection instant_ws = None"
    by code_simp+
  ultimately show ?thesis
    using instant_reconnect_never_backs_off [of ?r "[] @ [InResolve ''u'']" instant_ws _ "''v''" 7] by auto
qed
end
