(* ===== verification/LatestQueue.thy ===== *)
theory LatestQueue
  imports Prelude "HOL-Library.Multiset"
begin

text \<open>
  The single-flight queue of call requests (\<open>Call/latest-async-request-queue.ts\<close>): while the
  executor works on one request, only the latest of the requests received meanwhile is kept.

  \<^item> A caller is the number of the promise it was given. \<open>Execute\<close> is a call of the executor,
    \<open>Resolve\<close> and \<open>Reject\<close> settle a caller.
  \<^item> \<open>execute\<close> is asynchronous: its first part, up to the \<open>await\<close>, is the effect \<open>Execute\<close>; the
    rest runs when the executor's promise settles. The entry it holds is the active one, so
    callers that join later are in it.
\<close>

section \<open>Operations\<close>

record 'r request_entry =
  re_request :: 'r
  re_callers :: "nat list"

record 'r latest_queue =
  lq_active :: "'r request_entry option"
  lq_pending :: "'r request_entry option"

datatype 'r lq_effect = Execute 'r | Resolve nat | Reject nat

definition createLatestAsyncRequestQueue :: "'r latest_queue" where
  "createLatestAsyncRequestQueue = \<lparr>lq_active = None, lq_pending = None\<rparr>"

definition enqueue ::
    "('r \<Rightarrow> 'r \<Rightarrow> bool) \<Rightarrow> nat \<Rightarrow> 'r \<Rightarrow> 'r latest_queue \<Rightarrow> 'r latest_queue \<times> 'r lq_effect list" where
  "enqueue requestsAreEqual caller request q =
     (case lq_active q of
        None \<Rightarrow> (q\<lparr>lq_active := Some \<lparr>re_request = request, re_callers = [caller]\<rparr>\<rparr>, [Execute request])
      | Some active \<Rightarrow>
          (if requestsAreEqual (re_request active) request
           then let active1 = active\<lparr>re_callers := re_callers active @ [caller]\<rparr>
                in case lq_pending q of
                     None \<Rightarrow> (q\<lparr>lq_active := Some active1\<rparr>, [])
                   | Some pending \<Rightarrow>
                       (q\<lparr>lq_active := Some (active1\<lparr>re_callers := re_callers active1 @ re_callers pending\<rparr>),
                          lq_pending := None\<rparr>, [])
           else case lq_pending q of
                  Some pending \<Rightarrow>
                    (q\<lparr>lq_pending := Some (pending\<lparr>re_callers := re_callers pending @ [caller],
                                                    re_request := request\<rparr>)\<rparr>, [])
                | None \<Rightarrow> (q\<lparr>lq_pending := Some \<lparr>re_request = request, re_callers = [caller]\<rparr>\<rparr>, [])))"

text \<open>The executor's promise settles; without an active entry there is none.\<close>

definition execute_settled :: "bool \<Rightarrow> 'r latest_queue \<Rightarrow> 'r latest_queue \<times> 'r lq_effect list" where
  "execute_settled failed q =
     (case lq_active q of
        None \<Rightarrow> (q, [])
      | Some entry \<Rightarrow>
          let q1 = q\<lparr>lq_active := None\<rparr>;
              (q2, started) = (case lq_pending q1 of
                  None \<Rightarrow> (q1, [])
                | Some pending \<Rightarrow> (q1\<lparr>lq_active := Some pending, lq_pending := None\<rparr>, [Execute (re_request pending)]))
          in (q2, started @ map (if failed then Reject else Resolve) (re_callers entry)))"

section \<open>Runs\<close>

datatype 'r lq_input = LEnqueue nat 'r | LSettle bool

fun lq_step ::
    "('r \<Rightarrow> 'r \<Rightarrow> bool) \<Rightarrow> 'r lq_input \<Rightarrow> 'r latest_queue \<Rightarrow> 'r latest_queue \<times> 'r lq_effect list" where
  "lq_step eq (LEnqueue c r) q = enqueue eq c r q"
| "lq_step eq (LSettle failed) q = execute_settled failed q"

definition lq_run :: "('r \<Rightarrow> 'r \<Rightarrow> bool) \<Rightarrow> 'r lq_input list \<Rightarrow> 'r latest_queue \<times> 'r lq_effect list" where
  "lq_run eq ins = fold (\<lambda>i (q, es). case lq_step eq i q of (q', es') \<Rightarrow> (q', es @ es')) ins
     (createLatestAsyncRequestQueue, [])"

fun enqueued :: "'r lq_input list \<Rightarrow> (nat \<times> 'r) list" where
  "enqueued [] = []"
| "enqueued (LEnqueue c r # ins) = (c, r) # enqueued ins"
| "enqueued (LSettle _ # ins) = enqueued ins"

fun settles :: "'r lq_input list \<Rightarrow> nat" where
  "settles [] = 0"
| "settles (LEnqueue c r # ins) = settles ins"
| "settles (LSettle _ # ins) = Suc (settles ins)"

fun settled :: "'r lq_effect list \<Rightarrow> nat list" where
  "settled [] = []"
| "settled (Execute _ # es) = settled es"
| "settled (Resolve c # es) = c # settled es"
| "settled (Reject c # es) = c # settled es"

fun executed :: "'r lq_effect list \<Rightarrow> 'r list" where
  "executed [] = []"
| "executed (Execute r # es) = r # executed es"
| "executed (Resolve _ # es) = executed es"
| "executed (Reject _ # es) = executed es"

definition waiting :: "'r latest_queue \<Rightarrow> nat multiset" where
  "waiting q = (case lq_active q of None \<Rightarrow> {#} | Some e \<Rightarrow> mset (re_callers e)) +
     (case lq_pending q of None \<Rightarrow> {#} | Some e \<Rightarrow> mset (re_callers e))"

text \<open>An execution of \<open>x\<close> serves the caller \<open>c\<close>: \<open>c\<close>'s request or a later one is (equal to) \<open>x\<close>.\<close>

fun serves :: "('r \<Rightarrow> 'r \<Rightarrow> bool) \<Rightarrow> 'r \<Rightarrow> nat \<Rightarrow> (nat \<times> 'r) list \<Rightarrow> bool" where
  "serves eq x c [] = False"
| "serves eq x c ((c', r) # h) =
     (c' = c \<and> list_ex (\<lambda>p. x = snd p \<or> eq x (snd p)) ((c', r) # h) \<or> serves eq x c h)"

section \<open>Invariant\<close>

lemma enqueued_append [simp]: "enqueued (ins @ ins') = enqueued ins @ enqueued ins'"
  by (induction ins rule: enqueued.induct) auto

lemma settles_append [simp]: "settles (ins @ ins') = settles ins + settles ins'"
  by (induction ins rule: settles.induct) auto

lemma settled_append [simp]: "settled (es @ es') = settled es @ settled es'"
  by (induction es rule: settled.induct) auto

lemma executed_append [simp]: "executed (es @ es') = executed es @ executed es'"
  by (induction es rule: executed.induct) auto

lemma settled_map [simp]:
  "settled (map Resolve cs) = cs" "settled (map Reject cs) = cs"
  "executed (map Resolve cs) = []" "executed (map Reject cs) = []"
  by (induction cs) auto

lemma lq_run_snoc: "lq_run eq (ins @ [i]) = (case lq_run eq ins of (q, es) \<Rightarrow>
    case lq_step eq i q of (q', es') \<Rightarrow> (q', es @ es'))"
  by (simp add: lq_run_def)

lemma lq_run_induct:
  assumes "lq_run eq ins = (q, es)" and "P [] createLatestAsyncRequestQueue []"
    and "\<And>ins q es i q' es'. P ins q es \<Longrightarrow> lq_step eq i q = (q', es') \<Longrightarrow> P (ins @ [i]) q' (es @ es')"
  shows "P ins q es"
  using assms(1)
proof (induction ins arbitrary: q es rule: rev_induct)
  case Nil
  then show ?case using assms(2) by (simp add: lq_run_def)
next
  case (snoc i ins)
  obtain q0 es0 where r: "lq_run eq ins = (q0, es0)" by fastforce
  obtain q1 es1 where s: "lq_step eq i q0 = (q1, es1)" by fastforce
  show ?case using snoc.prems assms(3) [OF snoc.IH [OF r] s] r s by (simp add: lq_run_snoc)
qed

lemma serves_snoc [simp]:
  "serves eq x c (h @ [(d, r)]) \<longleftrightarrow> serves eq x c h \<or> (x = r \<or> eq x r) \<and> (c = d \<or> c \<in> fst ` set h)"
proof (induction h)
  case (Cons a h)
  then show ?case by (cases a) auto
qed auto

lemma serves_known: "serves eq x c h \<Longrightarrow> c \<in> fst ` set h"
proof (induction h)
  case (Cons a h)
  then show ?case by (cases a) auto
qed simp

definition lq_conserved :: "'r lq_input list \<Rightarrow> 'r latest_queue \<Rightarrow> 'r lq_effect list \<Rightarrow> bool" where
  "lq_conserved ins q es \<longleftrightarrow> (lq_active q = None \<longrightarrow> lq_pending q = None) \<and>
     waiting q + mset (settled es) = mset (map fst (enqueued ins)) \<and>
     length (executed es) \<le> settles ins + (if lq_active q = None then 0 else 1)"

lemma lq_step_conserved:
  assumes "lq_conserved ins q es" and "lq_step eq i q = (q', es')"
  shows "lq_conserved (ins @ [i]) q' (es @ es')"
proof (cases i)
  case (LEnqueue c r)
  then show ?thesis using assms
    by (auto simp: enqueue_def lq_conserved_def waiting_def Let_def split: option.splits if_splits)
next
  case (LSettle failed)
  then show ?thesis using assms
    by (auto simp: execute_settled_def lq_conserved_def waiting_def ac_simps split: option.splits)
qed

definition lq_latest ::
    "('r \<Rightarrow> 'r \<Rightarrow> bool) \<Rightarrow> (nat \<times> 'r) list \<Rightarrow> 'r latest_queue \<Rightarrow> 'r lq_effect list \<Rightarrow> bool" where
  "lq_latest eq h q es \<longleftrightarrow> (lq_active q = None \<longrightarrow> lq_pending q = None) \<and>
     (\<forall>a. lq_active q = Some a \<longrightarrow> executed es \<noteq> [] \<and> last (executed es) = re_request a \<and>
        (\<forall>c \<in> set (re_callers a). serves eq (re_request a) c h)) \<and>
     (\<forall>p. lq_pending q = Some p \<longrightarrow> (\<forall>c \<in> set (re_callers p). serves eq (re_request p) c h)) \<and>
     (h \<noteq> [] \<longrightarrow> (case lq_pending q of
        Some p \<Rightarrow> re_request p = snd (last h)
      | None \<Rightarrow> executed es \<noteq> [] \<and> (last (executed es) = snd (last h) \<or> eq (last (executed es)) (snd (last h)))))"

lemma enqueue_latest:
  assumes inv: "lq_latest eq h q es" and e: "enqueue eq c r q = (q', es')"
  shows "lq_latest eq (h @ [(c, r)]) q' (es @ es')"
proof (cases "lq_active q")
  case None
  then show ?thesis using assms by (auto simp: enqueue_def lq_latest_def)
next
  case (Some a)
  have known: "c \<in> fst ` set h" if "lq_pending q = Some p" "c \<in> set (re_callers p)" for c p
    using inv that serves_known [of eq "re_request p" c h] by (simp add: lq_latest_def)
  show ?thesis
  proof (cases "eq (re_request a) r")
    case True
    with known show ?thesis using assms Some
      by (auto simp: enqueue_def lq_latest_def Let_def split: option.splits)
  next
    case False
    with known show ?thesis using assms Some
      by (auto simp: enqueue_def lq_latest_def split: option.splits)
  qed
qed

lemma settled_latest:
  "lq_latest eq h q es \<Longrightarrow> execute_settled failed q = (q', es') \<Longrightarrow> lq_latest eq h q' (es @ es')"
  by (auto simp: execute_settled_def lq_latest_def split: option.splits)

lemma lq_step_latest:
  "lq_latest eq (enqueued ins) q es \<Longrightarrow> lq_step eq i q = (q', es') \<Longrightarrow>
   lq_latest eq (enqueued (ins @ [i])) q' (es @ es')"
  by (cases i) (auto dest: enqueue_latest settled_latest)

section \<open>Claims\<close>

text \<open>
  C26: single flight, and every caller settles once. In every run, at most one execution is in
  flight; the callers that still wait and those that were settled are together exactly the
  callers that enqueued, each as often as it did, and when nothing is active nobody waits.
\<close>

theorem callers_settle_exactly_once:
  assumes "lq_run eq ins = (q, es)"
  shows "length (executed es) \<le> settles ins + (if lq_active q = None then 0 else 1) \<and>
    waiting q + mset (settled es) = mset (map fst (enqueued ins)) \<and>
    (lq_active q = None \<longrightarrow> mset (settled es) = mset (map fst (enqueued ins)))"
proof -
  have "lq_conserved ins q es"
    by (rule lq_run_induct [OF assms, of lq_conserved])
      (auto simp: lq_conserved_def [of "[]"] createLatestAsyncRequestQueue_def waiting_def intro: lq_step_conserved)
  then show ?thesis by (auto simp: lq_conserved_def waiting_def)
qed

theorem callers_settle_exactly_once_witness:
  "waiting (fst (lq_run (=) [LEnqueue 0 (5 :: nat), LEnqueue 1 6, LEnqueue 2 7, LSettle True])) + mset [0] = mset [0, 1, 2]"
proof -
  let ?ins = "[LEnqueue 0 (5 :: nat), LEnqueue 1 6, LEnqueue 2 7, LSettle True]"
  have "snd (lq_run (=) ?ins) = [Execute 5, Execute 7, Reject 0]" by code_simp
  then show ?thesis
    using callers_settle_exactly_once [of "(=)" ?ins "fst (lq_run (=) ?ins)" "[Execute 5, Execute 7, Reject 0]"]
    by (simp add: prod_eq_iff)
qed

text \<open>
  The latest request wins, and nobody gets an older one. In every run, a caller of the
  execution in flight is served by it: the executed request is its own or a later one, or equal
  to one of these. The last request received is the pending one, or the last one executed is
  (equal to) it; so when the queue is idle, the last execution was of the latest request.
\<close>

theorem latest_request_wins:
  assumes "lq_run eq ins = (q, es)"
  shows "(\<forall>a. lq_active q = Some a \<longrightarrow> last (executed es) = re_request a \<and>
      (\<forall>c \<in> set (re_callers a). serves eq (re_request a) c (enqueued ins))) \<and>
    (\<forall>p. lq_pending q = Some p \<longrightarrow> enqueued ins \<noteq> [] \<longrightarrow> re_request p = snd (last (enqueued ins))) \<and>
    (lq_pending q = None \<longrightarrow> enqueued ins \<noteq> [] \<longrightarrow>
      last (executed es) = snd (last (enqueued ins)) \<or> eq (last (executed es)) (snd (last (enqueued ins))))"
proof -
  have "lq_latest eq (enqueued ins) q es"
    by (rule lq_run_induct [OF assms, of "\<lambda>ins. lq_latest eq (enqueued ins)"])
      (auto simp: lq_latest_def [of _ "[]"] createLatestAsyncRequestQueue_def simp del: enqueued_append intro: lq_step_latest)
  then show ?thesis by (auto simp: lq_latest_def)
qed

theorem latest_request_wins_witness:
  "serves (=) (5 :: nat) 1 [(0, 5), (1, 6), (2, 5)] \<and>
   lq_active (fst (lq_run (=) [LEnqueue 0 5, LEnqueue 1 6, LEnqueue 2 (5 :: nat)])) =
     Some \<lparr>re_request = 5, re_callers = [0, 2, 1]\<rparr>"
proof -
  let ?ins = "[LEnqueue 0 5, LEnqueue 1 6, LEnqueue 2 (5 :: nat)]"
  have a: "lq_active (fst (lq_run (=) ?ins)) = Some \<lparr>re_request = 5, re_callers = [0, 2, 1]\<rparr>" by code_simp
  then show ?thesis
    using latest_request_wins [of "(=)" ?ins "fst (lq_run (=) ?ins)" "snd (lq_run (=) ?ins)"] by simp
qed

end
