(* ===== verification/Simulation.thy ===== *)
theory Simulation
  imports Prelude
begin

text \<open>
  Functional refinement, as an interface: a component that answers calls, an abstract one that
  answers the same calls, an abstraction function and an invariant. Provided one step commutes,
  all sequences of calls get the same answers.
\<close>

fun replies :: "('c \<Rightarrow> 's \<Rightarrow> 'r \<times> 's) \<Rightarrow> 'c list \<Rightarrow> 's \<Rightarrow> 'r list" where
  "replies step [] s = []"
| "replies step (c # cs) s = (case step c s of (r, s') \<Rightarrow> r # replies step cs s')"

fun after :: "('c \<Rightarrow> 's \<Rightarrow> 'r \<times> 's) \<Rightarrow> 'c list \<Rightarrow> 's \<Rightarrow> 's" where
  "after step [] s = s"
| "after step (c # cs) s = after step cs (snd (step c s))"

locale simulation =
  fixes step :: "'c \<Rightarrow> 's \<Rightarrow> 'r \<times> 's"
    and spec :: "'c \<Rightarrow> 'a \<Rightarrow> 'r \<times> 'a"
    and abs :: "'s \<Rightarrow> 'a"
    and inv :: "'s \<Rightarrow> bool"
  assumes step_inv: "inv s \<Longrightarrow> inv (snd (step c s))"
    and step_abs: "inv s \<Longrightarrow> spec c (abs s) = apsnd abs (step c s)"
begin

lemma after_inv: "inv s \<Longrightarrow> inv (after step cs s)"
  by (induction cs arbitrary: s) (simp_all add: step_inv)

lemma after_abs: "inv s \<Longrightarrow> abs (after step cs s) = after spec cs (abs s)"
  by (induction cs arbitrary: s) (simp_all add: step_inv step_abs)

lemma same_replies: "inv s \<Longrightarrow> replies step cs s = replies spec cs (abs s)"
proof (induction cs arbitrary: s)
  case (Cons c cs)
  then show ?case using step_inv [OF Cons.prems, of c] step_abs [OF Cons.prems, of c]
    by (cases "step c s") simp
qed simp

end

end
