(* ===== verification/SplitHistory.thy ===== *)
theory SplitHistory
  imports Simulation
begin

text \<open>
  The navigation history of a split (\<open>split-layout/history.ts\<close>), and its refinement of a
  browser-style history: the entries behind, the current entry, the entries ahead.

  \<^item> The index is an integer, -1 for the empty history. Reading \<open>items()[i]\<close> out of range gives
    \<open>undefined\<close>, here \<open>None\<close>; a method that returns null gives \<open>None\<close> too.
  \<^item> The two signals are updated in a batch, so no reader sees one without the other.
\<close>

section \<open>Operations\<close>

record 'a history =
  h_items :: "'a list"
  h_index :: int

definition createHistory :: "'a history" where
  "createHistory = \<lparr>h_items = [], h_index = -1\<rparr>"

definition item_at :: "'a list \<Rightarrow> int \<Rightarrow> 'a option" where
  "item_at xs i = (if 0 \<le> i \<and> i < int (length xs) then Some (xs ! nat i) else None)"

definition canGoBack :: "'a history \<Rightarrow> bool" where
  "canGoBack h \<longleftrightarrow> h_index h > 0"

definition canGoForward :: "'a history \<Rightarrow> bool" where
  "canGoForward h \<longleftrightarrow> h_index h < int (length (h_items h)) - 1"

definition isAtEnd :: "'a history \<Rightarrow> bool" where
  "isAtEnd h \<longleftrightarrow> (if length (h_items h) = 0 then True else h_index h = int (length (h_items h)) - 1)"

definition fork :: "'a \<Rightarrow> 'a history \<Rightarrow> 'a history" where
  "fork next h = h\<lparr>h_items := take (nat (h_index h + 1)) (h_items h) @ [next], h_index := h_index h + 1\<rparr>"

definition push :: "'a \<Rightarrow> 'a history \<Rightarrow> 'a history" where
  "push next h =
     (if \<not> isAtEnd h then fork next h
      else h\<lparr>h_items := h_items h @ [next], h_index := h_index h + 1\<rparr>)"

definition merge :: "'a \<Rightarrow> 'a history \<Rightarrow> 'a history" where
  "merge next h =
     (let keep = max (h_index h) 0
      in h\<lparr>h_items := take (nat keep) (h_items h) @ [next], h_index := keep\<rparr>)"

definition replaceCurrent :: "'a \<Rightarrow> 'a history \<Rightarrow> 'a history" where
  "replaceCurrent next h =
     (if h_index h < 0 \<or> h_index h \<ge> int (length (h_items h)) then h
      else h\<lparr>h_items := (h_items h)[nat (h_index h) := next]\<rparr>)"

definition history_back :: "'a history \<Rightarrow> 'a option \<times> 'a history" where
  "history_back h =
     (if \<not> canGoBack h then (None, h)
      else let h1 = h\<lparr>h_index := h_index h - 1\<rparr> in (item_at (h_items h1) (h_index h1), h1))"

text \<open>The loop of \<open>backTo\<close>, over the indices below \<open>i\<close> downwards.\<close>

fun find_back :: "('a \<Rightarrow> bool) \<Rightarrow> 'a list \<Rightarrow> nat \<Rightarrow> nat option" where
  "find_back predicate xs 0 = None"
| "find_back predicate xs (Suc i) = (if predicate (xs ! i) then Some i else find_back predicate xs i)"

definition backTo :: "('a \<Rightarrow> bool) \<Rightarrow> 'a history \<Rightarrow> 'a option \<times> 'a history" where
  "backTo predicate h =
     (case find_back predicate (h_items h) (nat (h_index h)) of
        None \<Rightarrow> (None, h)
      | Some i \<Rightarrow> (Some (h_items h ! i), h\<lparr>h_index := int i\<rparr>))"

definition history_forward :: "'a history \<Rightarrow> 'a option \<times> 'a history" where
  "history_forward h =
     (if \<not> canGoForward h then (None, h)
      else let h1 = h\<lparr>h_index := h_index h + 1\<rparr> in (item_at (h_items h1) (h_index h1), h1))"

text \<open>The loop of \<open>remove\<close>: position, remaining items, new index and items kept so far.\<close>

fun remove_loop :: "('a \<Rightarrow> bool) \<Rightarrow> int \<Rightarrow> int \<Rightarrow> 'a list \<Rightarrow> int \<Rightarrow> 'a list \<Rightarrow> int \<times> 'a list" where
  "remove_loop predicate prevIndex i [] newIndex kept = (newIndex, kept)"
| "remove_loop predicate prevIndex i (item # rest) newIndex kept =
     (if predicate item
      then remove_loop predicate prevIndex (i + 1) rest (if i < prevIndex then newIndex - 1 else newIndex) kept
      else remove_loop predicate prevIndex (i + 1) rest newIndex (kept @ [item]))"

text \<open>\<open>canActivate\<close> is a function that answers true or false, or absent.\<close>

fun refuses :: "('a \<Rightarrow> bool) option \<Rightarrow> 'a option \<Rightarrow> bool" where
  "refuses (Some f) (Some item) = (\<not> f item)"
| "refuses _ _ = False"

definition remove ::
    "('a \<Rightarrow> bool) \<Rightarrow> ('a \<Rightarrow> bool) option \<Rightarrow> 'a history \<Rightarrow> 'a option \<times> 'a history" where
  "remove predicate canActivate h =
     (case remove_loop predicate (h_index h) 0 (h_items h) (h_index h) [] of (newIndex, nextItems) \<Rightarrow>
        if length nextItems = 0 then (None, h\<lparr>h_items := [], h_index := -1\<rparr>)
        else let newIndex1 = (if newIndex \<ge> int (length nextItems) then int (length nextItems) - 1 else newIndex);
                 next = item_at nextItems newIndex1
             in if refuses canActivate next then (None, h)
                else (item_at nextItems newIndex1, h\<lparr>h_items := nextItems, h_index := newIndex1\<rparr>))"

section \<open>The abstract history\<close>

datatype 'a trail = Nowhere | At "'a list" 'a "'a list"

fun t_push :: "'a \<Rightarrow> 'a trail \<Rightarrow> 'a trail" where
  "t_push x Nowhere = At [] x []"
| "t_push x (At b c a) = At (b @ [c]) x []"

fun t_merge :: "'a \<Rightarrow> 'a trail \<Rightarrow> 'a trail" where
  "t_merge x Nowhere = At [] x []"
| "t_merge x (At b c a) = At b x []"

fun t_replace :: "'a \<Rightarrow> 'a trail \<Rightarrow> 'a trail" where
  "t_replace x Nowhere = Nowhere"
| "t_replace x (At b c a) = At b x a"

fun t_back :: "'a trail \<Rightarrow> 'a option \<times> 'a trail" where
  "t_back Nowhere = (None, Nowhere)"
| "t_back (At b c a) = (if b = [] then (None, At b c a) else (Some (last b), At (butlast b) (last b) (c # a)))"

fun t_forward :: "'a trail \<Rightarrow> 'a option \<times> 'a trail" where
  "t_forward Nowhere = (None, Nowhere)"
| "t_forward (At b c a) = (case a of [] \<Rightarrow> (None, At b c a) | x # a' \<Rightarrow> (Some x, At (b @ [c]) x a'))"

text \<open>Going back until the entry fits, or not at all.\<close>

fun t_backTo :: "('a \<Rightarrow> bool) \<Rightarrow> 'a trail \<Rightarrow> 'a option \<times> 'a trail" where
  "t_backTo P Nowhere = (None, Nowhere)"
| "t_backTo P (At b c a) = (case dropWhile (\<lambda>x. \<not> P x) (rev b) of
     [] \<Rightarrow> (None, At b c a)
   | x # b' \<Rightarrow> (Some x, At (rev b') x (rev (takeWhile (\<lambda>x. \<not> P x) (rev b)) @ c # a)))"

text \<open>
  Without the current entry, the next one ahead becomes current, or else the nearest one
  behind.
\<close>

fun t_without :: "('a \<Rightarrow> bool) \<Rightarrow> 'a trail \<Rightarrow> 'a trail" where
  "t_without P Nowhere = Nowhere"
| "t_without P (At b c a) =
     (let b' = filter (\<lambda>x. \<not> P x) b; a' = filter (\<lambda>x. \<not> P x) a
      in if \<not> P c then At b' c a'
         else case a' of
                x # a'' \<Rightarrow> At b' x a''
              | [] \<Rightarrow> (if b' = [] then Nowhere else At (butlast b') (last b') []))"

fun t_current :: "'a trail \<Rightarrow> 'a option" where
  "t_current Nowhere = None"
| "t_current (At b c a) = Some c"

definition t_remove :: "('a \<Rightarrow> bool) \<Rightarrow> ('a \<Rightarrow> bool) option \<Rightarrow> 'a trail \<Rightarrow> 'a option \<times> 'a trail" where
  "t_remove P act t = (let t' = t_without P t
     in if refuses act (t_current t') then (None, t) else (t_current t', t'))"

section \<open>Calls\<close>

datatype 'a history_call =
  HPush 'a
| HMerge 'a
| HReplaceCurrent 'a
| HBack
| HBackTo "'a \<Rightarrow> bool"
| HForward
| HRemove "'a \<Rightarrow> bool" "('a \<Rightarrow> bool) option"
| HCanGoBack
| HCanGoForward
| HItems

datatype 'a history_reply = RItem "'a option" | RBool bool | RItems "'a list" int

fun history_step :: "'a history_call \<Rightarrow> 'a history \<Rightarrow> 'a history_reply \<times> 'a history" where
  "history_step (HPush x) h = (RItem None, push x h)"
| "history_step (HMerge x) h = (RItem None, merge x h)"
| "history_step (HReplaceCurrent x) h = (RItem None, replaceCurrent x h)"
| "history_step HBack h = apfst RItem (history_back h)"
| "history_step (HBackTo P) h = apfst RItem (backTo P h)"
| "history_step HForward h = apfst RItem (history_forward h)"
| "history_step (HRemove P act) h = apfst RItem (remove P act h)"
| "history_step HCanGoBack h = (RBool (canGoBack h), h)"
| "history_step HCanGoForward h = (RBool (canGoForward h), h)"
| "history_step HItems h = (RItems (h_items h) (h_index h), h)"

fun t_items :: "'a trail \<Rightarrow> 'a history_reply" where
  "t_items Nowhere = RItems [] (-1)"
| "t_items (At b c a) = RItems (b @ c # a) (int (length b))"

fun trail_step :: "'a history_call \<Rightarrow> 'a trail \<Rightarrow> 'a history_reply \<times> 'a trail" where
  "trail_step (HPush x) t = (RItem None, t_push x t)"
| "trail_step (HMerge x) t = (RItem None, t_merge x t)"
| "trail_step (HReplaceCurrent x) t = (RItem None, t_replace x t)"
| "trail_step HBack t = apfst RItem (t_back t)"
| "trail_step (HBackTo P) t = apfst RItem (t_backTo P t)"
| "trail_step HForward t = apfst RItem (t_forward t)"
| "trail_step (HRemove P act) t = apfst RItem (t_remove P act t)"
| "trail_step HCanGoBack t = (RBool (fst (t_back t) \<noteq> None), t)"
| "trail_step HCanGoForward t = (RBool (fst (t_forward t) \<noteq> None), t)"
| "trail_step HItems t = (t_items t, t)"

section \<open>Refinement\<close>

definition h_wf :: "'a history \<Rightarrow> bool" where
  "h_wf h \<longleftrightarrow> (if h_items h = [] then h_index h = -1 else 0 \<le> h_index h \<and> h_index h < int (length (h_items h)))"

definition h_trail :: "'a history \<Rightarrow> 'a trail" where
  "h_trail h = (if h_items h = [] then Nowhere
     else let i = nat (h_index h) in At (take i (h_items h)) (h_items h ! i) (drop (Suc i) (h_items h)))"

text \<open>A well-formed history is empty or splits at its current entry.\<close>

lemma h_wf_cases:
  assumes "h_wf h"
  obtains (empty) "h = \<lparr>h_items = [], h_index = -1\<rparr>" "h_trail h = Nowhere"
  | (split) b c a where "h = \<lparr>h_items = b @ c # a, h_index = int (length b)\<rparr>" "h_trail h = At b c a"
proof (cases "h_items h")
  case Nil
  with assms show ?thesis by (intro empty) (simp_all add: h_wf_def h_trail_def)
next
  case (Cons x xs)
  then have i: "0 \<le> h_index h" "nat (h_index h) < length (h_items h)" using assms by (auto simp: h_wf_def)
  from id_take_nth_drop [OF i(2)] i Cons show ?thesis
    by (intro split [of "take (nat (h_index h)) (h_items h)" "h_items h ! nat (h_index h)"
          "drop (Suc (nat (h_index h))) (h_items h)"]) (simp_all add: h_trail_def Let_def)
qed

lemma h_trail_split [simp]: "h_trail \<lparr>h_items = b @ c # a, h_index = int (length b)\<rparr> = At b c a"
  by (simp add: h_trail_def)

lemma h_trail_empty [simp]: "h_trail \<lparr>h_items = [], h_index = -1\<rparr> = Nowhere"
  by (simp add: h_trail_def)

lemma h_wf_split [simp]: "h_wf \<lparr>h_items = b @ c # a, h_index = int (length b)\<rparr>"
  by (simp add: h_wf_def)

lemma h_wf_empty [simp]: "h_wf \<lparr>h_items = [], h_index = -1\<rparr>"
  by (simp add: h_wf_def)
lemma h_trailI: "h_items h = b @ c # a \<Longrightarrow> h_index h = int (length b) \<Longrightarrow> h_wf h \<and> h_trail h = At b c a"
  by (simp add: h_wf_def h_trail_def)

lemma reply_trail:
  "f = (r, \<lparr>h_items = b @ c # a, h_index = int (length b)\<rparr>) \<Longrightarrow> h_wf (snd f) \<and> apsnd h_trail f = (r, At b c a)"
  by simp

text \<open>Each operation keeps the invariant and commutes with the abstraction.\<close>

lemma push_trail:
  assumes "h_wf h"
  shows "h_wf (push x h) \<and> h_trail (push x h) = t_push x (h_trail h)"
  using assms
proof (cases rule: h_wf_cases)
  case empty
  then show ?thesis by (simp add: push_def isAtEnd_def h_wf_def h_trail_def)
next
  case (split b c a)
  have "h_items (push x h) = (b @ [c]) @ x # []" "h_index (push x h) = int (length (b @ [c]))"
    using split(1) by (auto simp: push_def isAtEnd_def fork_def nat_add_distrib)
  from h_trailI [OF this] split(2) show ?thesis by simp
qed

lemma merge_trail:
  assumes "h_wf h"
  shows "h_wf (merge x h) \<and> h_trail (merge x h) = t_merge x (h_trail h)"
  using assms
  by (cases rule: h_wf_cases)
    (simp_all add: merge_def h_wf_def h_trail_def)

lemma replace_trail:
  assumes "h_wf h"
  shows "h_wf (replaceCurrent x h) \<and> h_trail (replaceCurrent x h) = t_replace x (h_trail h)"
  using assms
proof (cases rule: h_wf_cases)
  case empty
  then show ?thesis by (simp add: replaceCurrent_def)
next
  case (split b c a)
  then have "h_items (replaceCurrent x h) = b @ x # a" "h_index (replaceCurrent x h) = int (length b)"
    by (simp_all add: replaceCurrent_def)
  from h_trailI [OF this] split(2) show ?thesis by simp
qed

lemma back_trail:
  assumes "h_wf h"
  shows "h_wf (snd (history_back h)) \<and> apsnd h_trail (history_back h) = t_back (h_trail h)"
  using assms
proof (cases rule: h_wf_cases)
  case empty
  then show ?thesis by (simp add: history_back_def canGoBack_def)
next
  case (split b c a)
  show ?thesis
  proof (cases b rule: rev_cases)
    case Nil
    then have "history_back h = (None, \<lparr>h_items = [] @ c # a, h_index = int (length [])\<rparr>)"
      using split(1) by (simp add: history_back_def canGoBack_def)
    from reply_trail [OF this] split(2) Nil show ?thesis by simp
  next
    case (snoc b' x)
    then have h: "history_back h = (Some x, \<lparr>h_items = b' @ x # c # a, h_index = int (length b')\<rparr>)"
      using split by (simp add: history_back_def canGoBack_def item_at_def)
    from reply_trail [OF h] split(2) snoc show ?thesis by simp
  qed
qed

lemma forward_trail:
  assumes "h_wf h"
  shows "h_wf (snd (history_forward h)) \<and> apsnd h_trail (history_forward h) = t_forward (h_trail h)"
  using assms
proof (cases rule: h_wf_cases)
  case empty
  then show ?thesis by (simp add: history_forward_def canGoForward_def)
next
  case (split b c a)
  show ?thesis
  proof (cases a)
    case Nil
    then show ?thesis using split by (simp add: history_forward_def canGoForward_def)
  next
    case (Cons x a')
    then have h: "history_forward h = (Some x, \<lparr>h_items = (b @ [c]) @ x # a', h_index = int (length (b @ [c]))\<rparr>)"
      using split by (simp add: history_forward_def canGoForward_def item_at_def nat_add_distrib nth_append)
    from reply_trail [OF h] split(2) Cons show ?thesis by simp
  qed
qed

lemma find_back_split:
  "find_back P (b @ rest) (length b) = (case dropWhile (\<lambda>x. \<not> P x) (rev b) of [] \<Rightarrow> None | x # b' \<Rightarrow> Some (length b'))"
proof (induction b arbitrary: rest rule: rev_induct)
  case (snoc x b)
  then show ?case using snoc [of "x # rest"] by simp
qed simp

lemma backTo_trail:
  assumes "h_wf h"
  shows "h_wf (snd (backTo P h)) \<and> apsnd h_trail (backTo P h) = t_backTo P (h_trail h)"
  using assms
proof (cases rule: h_wf_cases)
  case empty
  then show ?thesis by (simp add: backTo_def)
next
  case (split b c a)
  show ?thesis
  proof (cases "dropWhile (\<lambda>x. \<not> P x) (rev b)")
    case Nil
    then have "backTo P h = (None, \<lparr>h_items = b @ c # a, h_index = int (length b)\<rparr>)"
      using split(1) find_back_split [of P b "c # a"] by (simp only: backTo_def) simp
    from reply_trail [OF this] show ?thesis unfolding split(2) t_backTo.simps Nil by simp
  next
    case (Cons x b')
    let ?skip = "rev (takeWhile (\<lambda>x. \<not> P x) (rev b))"
    have "rev (takeWhile (\<lambda>x. \<not> P x) (rev b) @ x # b') = b"
      using takeWhile_dropWhile_id [of "\<lambda>x. \<not> P x" "rev b"] by (simp add: Cons)
    then have b: "b = rev b' @ x # ?skip" by simp
    have h: "backTo P h = (Some x, \<lparr>h_items = rev b' @ x # ?skip @ c # a, h_index = int (length (rev b'))\<rparr>)"
    proof -
      have nth: "(b @ c # a) ! length b' = x" by (subst b) (simp add: nth_append)
      have eq: "b @ c # a = rev b' @ x # ?skip @ c # a" by (subst b) simp
      have "backTo P h = (Some ((b @ c # a) ! length b'), \<lparr>h_items = b @ c # a, h_index = int (length b')\<rparr>)"
        using split(1) find_back_split [of P b "c # a"] Cons by (simp add: backTo_def)
      then show ?thesis by (simp only: nth eq [symmetric] length_rev)
    qed
    from reply_trail [OF h] show ?thesis unfolding split(2) t_backTo.simps Cons by simp
  qed
qed
lemma remove_loop_result:
  "remove_loop P prev i xs new kept =
     (new - int (length (filter P (take (nat (prev - i)) xs))), kept @ filter (\<lambda>x. \<not> P x) xs)"
proof (induction xs arbitrary: i new kept)
  case (Cons x xs)
  show ?case
  proof (cases "i < prev")
    case True
    then have "nat (prev - i) = Suc (nat (prev - (i + 1)))" by simp
    with True Cons show ?thesis by simp
  next
    case False
    with Cons show ?thesis by simp
  qed
qed simp

lemma length_partition: "length xs - length (filter P xs) = length (filter (\<lambda>x. \<not> P x) xs)"
  using sum_length_filter_compl [of P xs] by linarith

lemma remove_loop_split:
  "remove_loop P (int (length b)) 0 (b @ c # a) (int (length b)) [] =
     (int (length (filter (\<lambda>x. \<not> P x) b)), filter (\<lambda>x. \<not> P x) (b @ c # a))"
  using length_partition [of b P] length_filter_le [of P b] by (simp add: remove_loop_result of_nat_diff flip: of_nat_diff)

text \<open>The candidate of \<open>remove\<close>, before the activation check.\<close>

lemma remove_candidate:
  fixes P :: "'a \<Rightarrow> bool"
  assumes "filter (\<lambda>x. \<not> P x) (b @ c # a) \<noteq> []"
  defines "n \<equiv> length (filter (\<lambda>x. \<not> P x) b)"
  defines "xs \<equiv> filter (\<lambda>x. \<not> P x) (b @ c # a)"
  defines "i \<equiv> (if int n \<ge> int (length xs) then int (length xs) - 1 else int n)"
  obtains b' c' a' where "t_without P (At b c a) = At b' c' a'" "xs = b' @ c' # a'" "i = int (length b')"
proof -
  let ?b = "filter (\<lambda>x. \<not> P x) b" and ?a = "filter (\<lambda>x. \<not> P x) a"
  consider (kept) "\<not> P c" | (ahead) x a'' where "P c" "?a = x # a''" | (behind) b'' x where "P c" "?a = []" "?b = b'' @ [x]"
    using assms(1) by (cases "?a"; cases "?b" rule: rev_cases) (auto split: if_splits)
  then show ?thesis
  proof cases
    case kept
    then show ?thesis by (intro that [of ?b c ?a]) (auto simp: xs_def i_def n_def)
  next
    case ahead
    then show ?thesis by (intro that [of ?b x a'']) (auto simp: xs_def i_def n_def)
  next
    case behind
    then show ?thesis by (intro that [of b'' x "[]"]) (auto simp: xs_def i_def n_def)
  qed
qed

lemma remove_trail:
  assumes "h_wf h"
  shows "h_wf (snd (remove P act h)) \<and> apsnd h_trail (remove P act h) = t_remove P act (h_trail h)"
  using assms
proof (cases rule: h_wf_cases)
  case empty
  then show ?thesis by (cases act) (simp_all add: remove_def t_remove_def)
next
  case (split b c a)
  let ?xs = "filter (\<lambda>x. \<not> P x) (b @ c # a)"
  show ?thesis
  proof (cases "?xs = []")
    case True
    then have "remove P act h = (None, \<lparr>h_items = [], h_index = -1\<rparr>)"
      using split(1) by (simp add: remove_def remove_loop_split)
    moreover have "t_without P (At b c a) = Nowhere" using True by (auto simp: Let_def split: if_splits)
    ultimately show ?thesis using split(2) by (cases act) (simp_all add: t_remove_def del: t_without.simps)
  next
    case False
    let ?n = "length (filter (\<lambda>x. \<not> P x) b)"
    let ?i = "if int ?n \<ge> int (length ?xs) then int (length ?xs) - 1 else int ?n"
    obtain b' c' a' where t: "t_without P (At b c a) = At b' c' a'" and xs: "?xs = b' @ c' # a'" and i: "?i = int (length b')"
      by (rule remove_candidate [OF False])
    have "remove P act h = (if refuses act (Some c') then (None, h)
        else (Some c', \<lparr>h_items = b' @ c' # a', h_index = int (length b')\<rparr>))"
    proof -
      have item: "item_at ?xs ?i = Some c'" by (subst i, subst xs) (simp add: item_at_def)
      have upd: "h\<lparr>h_items := ?xs, h_index := ?i\<rparr> = \<lparr>h_items = b' @ c' # a', h_index = int (length b')\<rparr>"
        by (subst i, subst xs) (simp add: split(1))
      have loop: "remove_loop P (h_index h) 0 (h_items h) (h_index h) [] = (int ?n, ?xs)"
        unfolding split(1) history.simps by (rule remove_loop_split)
      have "remove P act h = (if refuses act (item_at ?xs ?i) then (None, h)
          else (item_at ?xs ?i, h\<lparr>h_items := ?xs, h_index := ?i\<rparr>))"
        unfolding remove_def loop using False by (simp only: prod.case Let_def length_0_conv if_False)
      then show ?thesis by (simp only: item upd)
    qed
    then show ?thesis using split assms by (auto simp: t_remove_def t simp del: t_without.simps)
  qed
qed

interpretation split_history: simulation history_step trail_step h_trail h_wf
proof
  fix h :: "'a history" and c :: "'a history_call"
  assume wf: "h_wf h"
  note ops = push_trail [OF wf] merge_trail [OF wf] replace_trail [OF wf] back_trail [OF wf] forward_trail [OF wf]
    backTo_trail [OF wf] remove_trail [OF wf]
  show "h_wf (snd (history_step c h))" using wf ops by (cases c) simp_all
  have "canGoBack h = (fst (t_back (h_trail h)) \<noteq> None)" "canGoForward h = (fst (t_forward (h_trail h)) \<noteq> None)"
    "t_items (h_trail h) = RItems (h_items h) (h_index h)"
    using wf by (cases rule: h_wf_cases; auto simp: canGoBack_def canGoForward_def split: list.splits)+
  then show "trail_step c (h_trail h) = apsnd h_trail (history_step c h)"
    using ops [THEN conjunct2, symmetric] by (cases c) simp_all
qed
section \<open>Claims\<close>

text \<open>
  C28: a split's history behaves like a browser history. From \<open>createHistory\<close>, every sequence
  of calls gets the same replies as from the abstract history of entries behind, current and
  ahead: a push forgets what is ahead, \<open>backTo\<close> goes back to the nearest fitting entry or not at
  all, \<open>remove\<close> keeps the current entry, or moves to the next one ahead and else the nearest one
  behind, and changes nothing when that entry may not be activated.
\<close>

theorem history_refines_trail:
  "replies history_step calls createHistory = replies trail_step calls Nowhere \<and>
   h_wf (after history_step calls createHistory) \<and>
   h_trail (after history_step calls createHistory) = after trail_step calls Nowhere"
proof -
  have "h_wf (createHistory :: 'a history)" "h_trail (createHistory :: 'a history) = Nowhere"
    by (simp_all add: createHistory_def)
  then show ?thesis
    using split_history.same_replies [of createHistory calls] split_history.after_inv [of createHistory calls]
      split_history.after_abs [of createHistory calls] by simp
qed

end
