(* ===== verification/WalStore.thy ===== *)
theory WalStore
  imports Simulation "HOL-Library.Char_ord" "HOL-Library.List_Lexorder"
begin

text \<open>
  The two stores of the write-ahead log (\<open>collab/wal.ts\<close>): entries in memory, and rows of an
  IndexedDB object store that several documents (scopes) share. A locale states what the syncer
  relies on; both stores provide it.

  \<^item> The object store is the list of its rows in key order, with the key generator. A key
    generator never hands out a key twice, so a new row goes to the end.
  \<^item> A store method is one step. Reads and writes of the pruning methods happen in two
    transactions; the second part is its own definition, over the rows the first one read.
  \<^item> \<open>Date.now()\<close> is an argument.
\<close>

section \<open>Entries\<close>

record 't wal_entry =
  we_id :: nat
  we_update :: 't
  we_delivered :: bool
  we_createdAt :: int

definition hasExpired :: "'t wal_entry \<Rightarrow> int \<Rightarrow> bool" where
  "hasExpired entry cutoff \<longleftrightarrow> \<not> we_delivered entry \<and> we_createdAt entry < cutoff"

definition WAL_TTL_MS :: int where
  "WAL_TTL_MS = 7 * 24 * 60 * 60 * 1000"

definition deliver :: "nat list \<Rightarrow> 't wal_entry \<Rightarrow> 't wal_entry" where
  "deliver ids e = (if we_id e \<in> set ids then e\<lparr>we_delivered := True\<rparr> else e)"

definition undelivered :: "'t wal_entry list \<Rightarrow> 't wal_entry list" where
  "undelivered es = filter (\<lambda>e. \<not> we_delivered e) es"

section \<open>The store in memory\<close>

record 't memory_store =
  ms_entries :: "'t wal_entry list"
  ms_seq :: nat

definition ms_new :: "'t memory_store" where
  "ms_new = \<lparr>ms_entries = [], ms_seq = 0\<rparr>"

definition ms_append :: "int \<Rightarrow> 't \<Rightarrow> 't memory_store \<Rightarrow> 't memory_store" where
  "ms_append now update s =
     (let seq = ms_seq s + 1
      in s\<lparr>ms_seq := seq, ms_entries := ms_entries s @
            [\<lparr>we_id = seq, we_update = update, we_delivered = False, we_createdAt = now\<rparr>]\<rparr>)"

definition ms_getAll :: "'t memory_store \<Rightarrow> 't wal_entry list" where
  "ms_getAll s = ms_entries s"

definition ms_markDelivered :: "nat list \<Rightarrow> 't memory_store \<Rightarrow> 't memory_store" where
  "ms_markDelivered ids s = s\<lparr>ms_entries := map (\<lambda>e. if we_id e \<in> set ids then e\<lparr>we_delivered := True\<rparr> else e) (ms_entries s)\<rparr>"

definition ms_pruneDelivered :: "'t memory_store \<Rightarrow> 't memory_store" where
  "ms_pruneDelivered s = s\<lparr>ms_entries := filter (\<lambda>e. \<not> we_delivered e) (ms_entries s)\<rparr>"

definition ms_pruneExpired :: "int \<Rightarrow> int \<Rightarrow> 't memory_store \<Rightarrow> nat \<times> 't memory_store" where
  "ms_pruneExpired now ttlMs s =
     (let cutoff = now - ttlMs; before = length (ms_entries s);
          s1 = s\<lparr>ms_entries := filter (\<lambda>e. \<not> hasExpired e cutoff) (ms_entries s)\<rparr>
      in (before - length (ms_entries s1), s1))"

definition ms_count :: "'t memory_store \<Rightarrow> nat" where
  "ms_count s = length (ms_entries s)"

section \<open>The store in the browser's database\<close>

record 't wal_row =
  wr_id :: nat
  wr_scopeId :: string
  wr_update :: 't
  wr_delivered :: bool
  wr_createdAt :: int

record 't wal_db =
  db_updates :: "'t wal_row list"
  db_key :: nat

definition openDb :: "'t wal_db" where
  "openDb = \<lparr>db_updates = [], db_key = 0\<rparr>"

text \<open>The operations of the object store.\<close>

definition db_get :: "nat \<Rightarrow> 't wal_db \<Rightarrow> 't wal_row option" where
  "db_get key db = find (\<lambda>r. wr_id r = key) (db_updates db)"

definition db_put :: "'t wal_row \<Rightarrow> 't wal_db \<Rightarrow> 't wal_db" where
  "db_put row db = db\<lparr>db_updates := map (\<lambda>r. if wr_id r = wr_id row then row else r) (db_updates db)\<rparr>"

definition db_delete :: "nat \<Rightarrow> 't wal_db \<Rightarrow> 't wal_db" where
  "db_delete key db = db\<lparr>db_updates := filter (\<lambda>r. wr_id r \<noteq> key) (db_updates db)\<rparr>"

definition db_getAllFromIndex :: "string \<Rightarrow> 't wal_db \<Rightarrow> 't wal_row list" where
  "db_getAllFromIndex scopeId db = filter (\<lambda>r. wr_scopeId r = scopeId) (db_updates db)"

text \<open>A unique-key cursor visits the index keys in ascending order, each once.\<close>

definition listScopeIds :: "'t wal_db \<Rightarrow> string list" where
  "listScopeIds db = remdups (sort (map wr_scopeId (db_updates db)))"

definition bs_append :: "string \<Rightarrow> int \<Rightarrow> 't \<Rightarrow> 't wal_db \<Rightarrow> 't wal_db" where
  "bs_append scopeId now update db =
     (let key = db_key db + 1
      in \<lparr>db_updates = db_updates db @
            [\<lparr>wr_id = key, wr_scopeId = scopeId, wr_update = update, wr_delivered = False, wr_createdAt = now\<rparr>],
          db_key = key\<rparr>)"

definition row_entry :: "'t wal_row \<Rightarrow> 't wal_entry" where
  "row_entry r = \<lparr>we_id = wr_id r, we_update = wr_update r, we_delivered = wr_delivered r, we_createdAt = wr_createdAt r\<rparr>"

definition bs_getAll :: "string \<Rightarrow> 't wal_db \<Rightarrow> 't wal_entry list" where
  "bs_getAll scopeId db = map row_entry (db_getAllFromIndex scopeId db)"

definition bs_markDelivered :: "nat list \<Rightarrow> 't wal_db \<Rightarrow> 't wal_db" where
  "bs_markDelivered ids db =
     fold (\<lambda>id db. case db_get id db of None \<Rightarrow> db | Some row \<Rightarrow> db_put (row\<lparr>wr_delivered := True\<rparr>) db) ids db"

definition delete_delivered :: "'t wal_row list \<Rightarrow> 't wal_db \<Rightarrow> 't wal_db" where
  "delete_delivered entries db = fold (\<lambda>row db. if wr_delivered row then db_delete (wr_id row) db else db) entries db"

definition bs_pruneDelivered :: "string \<Rightarrow> 't wal_db \<Rightarrow> 't wal_db" where
  "bs_pruneDelivered scopeId db = delete_delivered (db_getAllFromIndex scopeId db) db"

definition delete_expired :: "int \<Rightarrow> 't wal_row list \<Rightarrow> 't wal_db \<Rightarrow> nat \<times> 't wal_db" where
  "delete_expired cutoff entries db =
     fold (\<lambda>row (deleted, db). if hasExpired (row_entry row) cutoff then (deleted + 1, db_delete (wr_id row) db)
                                else (deleted, db)) entries (0, db)"

definition bs_pruneExpired :: "string \<Rightarrow> int \<Rightarrow> int \<Rightarrow> 't wal_db \<Rightarrow> nat \<times> 't wal_db" where
  "bs_pruneExpired scopeId now ttlMs db =
     (let entries = db_getAllFromIndex scopeId db; cutoff = now - ttlMs in delete_expired cutoff entries db)"

definition bs_count :: "string \<Rightarrow> 't wal_db \<Rightarrow> nat" where
  "bs_count scopeId db = length (db_getAllFromIndex scopeId db)"

section \<open>The interface\<close>

locale wal_store =
  fixes append :: "int \<Rightarrow> 't \<Rightarrow> 's \<Rightarrow> 's"
    and getAll :: "'s \<Rightarrow> 't wal_entry list"
    and markDelivered :: "nat list \<Rightarrow> 's \<Rightarrow> 's"
    and pruneDelivered :: "'s \<Rightarrow> 's"
    and pruneExpired :: "int \<Rightarrow> int \<Rightarrow> 's \<Rightarrow> nat \<times> 's"
    and count :: "'s \<Rightarrow> nat"
    and inv :: "'s \<Rightarrow> bool"
  assumes append_inv: "inv s \<Longrightarrow> inv (append now u s)"
    and append_getAll: "inv s \<Longrightarrow> \<exists>i. (\<forall>e \<in> set (getAll s). we_id e < i) \<and>
      getAll (append now u s) = getAll s @ [\<lparr>we_id = i, we_update = u, we_delivered = False, we_createdAt = now\<rparr>]"
    and ids_sorted: "inv s \<Longrightarrow> sorted_wrt (<) (map we_id (getAll s))"
    and mark_inv: "inv s \<Longrightarrow> inv (markDelivered ids s)"
    and mark_getAll: "inv s \<Longrightarrow> getAll (markDelivered ids s) = map (deliver ids) (getAll s)"
    and prune_inv: "inv s \<Longrightarrow> inv (pruneDelivered s)"
    and prune_getAll: "inv s \<Longrightarrow> getAll (pruneDelivered s) = undelivered (getAll s)"
    and expire_inv: "inv s \<Longrightarrow> inv (snd (pruneExpired now ttl s))"
    and expire_getAll: "inv s \<Longrightarrow>
      getAll (snd (pruneExpired now ttl s)) = filter (\<lambda>e. \<not> hasExpired e (now - ttl)) (getAll s)"
    and expire_count: "inv s \<Longrightarrow>
      fst (pruneExpired now ttl s) = length (filter (\<lambda>e. hasExpired e (now - ttl)) (getAll s))"
    and count_getAll: "inv s \<Longrightarrow> count s = length (getAll s)"

section \<open>Both stores provide it\<close>

definition ms_inv :: "'t memory_store \<Rightarrow> bool" where
  "ms_inv s \<longleftrightarrow> sorted_wrt (<) (map we_id (ms_entries s)) \<and> (\<forall>e \<in> set (ms_entries s). we_id e \<le> ms_seq s)"

lemma length_expired: "length xs - length (filter (\<lambda>x. \<not> P x) xs) = length (filter P xs)"
  using sum_length_filter_compl [of P xs] by linarith

lemma deliver_frame [simp]:
  "we_id (deliver ids e) = we_id e" "we_update (deliver ids e) = we_update e" "we_createdAt (deliver ids e) = we_createdAt e"
  by (simp_all add: deliver_def)

lemma sorted_ids_filter: "sorted_wrt (<) (map f xs) \<Longrightarrow> sorted_wrt (<) (map f (filter P xs))"
  by (induction xs) auto

interpretation memory: wal_store ms_append ms_getAll ms_markDelivered ms_pruneDelivered ms_pruneExpired ms_count ms_inv
proof
  fix s :: "'a memory_store" and now ttl :: int and u :: 'a and ids :: "nat list"
  assume inv: "ms_inv s"
  show "ms_inv (ms_append now u s)"
    using inv by (fastforce simp: ms_inv_def ms_append_def sorted_wrt_append Let_def)
  show "\<exists>i. (\<forall>e \<in> set (ms_getAll s). we_id e < i) \<and>
      ms_getAll (ms_append now u s) = ms_getAll s @ [\<lparr>we_id = i, we_update = u, we_delivered = False, we_createdAt = now\<rparr>]"
    using inv by (intro exI [of _ "Suc (ms_seq s)"]) (auto simp: ms_inv_def ms_append_def ms_getAll_def less_Suc_eq_le)
  show "sorted_wrt (<) (map we_id (ms_getAll s))" using inv by (simp add: ms_inv_def ms_getAll_def)
  have m: "ms_entries (ms_markDelivered ids s) = map (deliver ids) (ms_entries s)"
    by (simp add: ms_markDelivered_def deliver_def)
  then show "ms_getAll (ms_markDelivered ids s) = map (deliver ids) (ms_getAll s)" by (simp add: ms_getAll_def)
  show "ms_inv (ms_markDelivered ids s)"
    using inv by (auto simp: ms_inv_def m o_def) (simp add: ms_markDelivered_def)
  show "ms_inv (ms_pruneDelivered s)"
    using inv by (simp add: ms_inv_def ms_pruneDelivered_def sorted_ids_filter)
  show "ms_getAll (ms_pruneDelivered s) = undelivered (ms_getAll s)"
    by (simp add: ms_getAll_def ms_pruneDelivered_def undelivered_def)
  show "ms_inv (snd (ms_pruneExpired now ttl s))"
    using inv by (simp add: ms_inv_def ms_pruneExpired_def Let_def sorted_ids_filter)
  show "ms_getAll (snd (ms_pruneExpired now ttl s)) = filter (\<lambda>e. \<not> hasExpired e (now - ttl)) (ms_getAll s)"
    by (simp add: ms_getAll_def ms_pruneExpired_def Let_def)
  show "fst (ms_pruneExpired now ttl s) = length (filter (\<lambda>e. hasExpired e (now - ttl)) (ms_getAll s))"
    using length_expired [of "ms_entries s" "\<lambda>e. hasExpired e (now - ttl)"]
    by (simp add: ms_getAll_def ms_pruneExpired_def Let_def)
  show "ms_count s = length (ms_getAll s)" by (simp add: ms_count_def ms_getAll_def)
qed
definition db_inv :: "'t wal_db \<Rightarrow> bool" where
  "db_inv db \<longleftrightarrow> sorted_wrt (<) (map wr_id (db_updates db)) \<and> (\<forall>r \<in> set (db_updates db). wr_id r \<le> db_key db)"

definition deliver_row :: "nat list \<Rightarrow> 't wal_row \<Rightarrow> 't wal_row" where
  "deliver_row ids r = (if wr_id r \<in> set ids then r\<lparr>wr_delivered := True\<rparr> else r)"

lemma deliver_row_frame [simp]: "wr_id (deliver_row ids r) = wr_id r" "wr_scopeId (deliver_row ids r) = wr_scopeId r"
  by (simp_all add: deliver_row_def)

lemma row_entry_deliver [simp]: "row_entry (deliver_row ids r) = deliver ids (row_entry r)"
  by (simp add: row_entry_def deliver_row_def deliver_def)

lemma row_entry_fields [simp]: "we_id (row_entry r) = wr_id r" "we_delivered (row_entry r) = wr_delivered r"
  by (simp_all add: row_entry_def)

lemma db_inv_unique: "db_inv db \<Longrightarrow> r \<in> set (db_updates db) \<Longrightarrow> r' \<in> set (db_updates db) \<Longrightarrow> wr_id r = wr_id r' \<Longrightarrow> r = r'"
  using strict_sorted_iff [of "map wr_id (db_updates db)"] by (auto simp: db_inv_def distinct_map dest: inj_onD)

lemma db_put_deliver:
  assumes "db_inv db" and "db_get i db = Some row"
  shows "db_put (row\<lparr>wr_delivered := True\<rparr>) db = db\<lparr>db_updates := map (deliver_row [i]) (db_updates db)\<rparr>"
proof -
  have row: "row \<in> set (db_updates db)" "wr_id row = i"
    using assms(2) by (auto simp: db_get_def dest: find_SomeD)
  have "(if wr_id r = i then row\<lparr>wr_delivered := True\<rparr> else r) = deliver_row [i] r" if "r \<in> set (db_updates db)" for r
    using db_inv_unique [OF assms(1) that row(1)] row(2) by (auto simp: deliver_row_def)
  then show ?thesis using row(2) by (simp add: db_put_def)
qed

lemma deliver_row_absent: "db_get i db = None \<Longrightarrow> map (deliver_row [i]) (db_updates db) = db_updates db"
  by (auto simp: db_get_def deliver_row_def find_None_iff intro: map_idI)

lemma db_inv_deliver: "db_inv db \<Longrightarrow> db_inv (db\<lparr>db_updates := map (deliver_row ids) (db_updates db)\<rparr>)"
  by (simp add: db_inv_def o_def)

lemma mark_rows:
  "db_inv db \<Longrightarrow> bs_markDelivered ids db = db\<lparr>db_updates := map (deliver_row ids) (db_updates db)\<rparr>"
proof (induction ids arbitrary: db)
  case Nil
  show ?case by (simp add: bs_markDelivered_def deliver_row_def)
next
  case (Cons i ids)
  let ?db = "db\<lparr>db_updates := map (deliver_row [i]) (db_updates db)\<rparr>"
  have "(case db_get i db of None \<Rightarrow> db | Some row \<Rightarrow> db_put (row\<lparr>wr_delivered := True\<rparr>) db) = ?db"
    using db_put_deliver [OF Cons.prems] by (cases "db_get i db") (simp_all add: deliver_row_absent)
  then have "bs_markDelivered (i # ids) db = bs_markDelivered ids ?db" by (simp add: bs_markDelivered_def)
  also have "\<dots> = ?db\<lparr>db_updates := map (deliver_row ids) (db_updates ?db)\<rparr>"
    by (rule Cons.IH [OF db_inv_deliver [OF Cons.prems]])
  also have "\<dots> = db\<lparr>db_updates := map (deliver_row (i # ids)) (db_updates db)\<rparr>"
    by (auto simp: deliver_row_def)
  finally show ?case .
qed

text \<open>Deleting the rows of a list that satisfy a predicate.\<close>

lemma delete_rows:
  "fold (\<lambda>row db. if P row then db_delete (wr_id row) db else db) rows db =
     db\<lparr>db_updates := filter (\<lambda>r. wr_id r \<notin> wr_id ` {row \<in> set rows. P row}) (db_updates db)\<rparr>"
proof (induction rows arbitrary: db)
  case (Cons row rows)
  then show ?case by (auto simp: db_delete_def intro!: arg_cong [of _ _ "\<lambda>x. db\<lparr>db_updates := x\<rparr>"] filter_cong)
qed simp

lemma delete_scope_rows:
  assumes "db_inv db"
  shows "filter (\<lambda>r. wr_id r \<notin> wr_id ` {row \<in> set (db_getAllFromIndex scope db). P row}) (db_updates db) =
    filter (\<lambda>r. \<not> (wr_scopeId r = scope \<and> P r)) (db_updates db)"
  using db_inv_unique [OF assms] by (intro filter_cong) (auto simp: db_getAllFromIndex_def)

lemma delete_expired_rows:
  "delete_expired cutoff rows db =
     (length (filter (\<lambda>r. hasExpired (row_entry r) cutoff) rows),
      fold (\<lambda>row db. if hasExpired (row_entry row) cutoff then db_delete (wr_id row) db else db) rows db)"
proof -
  have "fold (\<lambda>row (deleted, db). if hasExpired (row_entry row) cutoff then (deleted + 1, db_delete (wr_id row) db)
                                else (deleted, db)) rows (n, db) =
      (n + length (filter (\<lambda>r. hasExpired (row_entry r) cutoff) rows),
       fold (\<lambda>row db. if hasExpired (row_entry row) cutoff then db_delete (wr_id row) db else db) rows db)" for n
    by (induction rows arbitrary: n db) auto
  from this [of 0] show ?thesis by (simp add: delete_expired_def)
qed

lemma pruneDelivered_rows:
  "db_inv db \<Longrightarrow> bs_pruneDelivered scope db =
     db\<lparr>db_updates := filter (\<lambda>r. \<not> (wr_scopeId r = scope \<and> wr_delivered r)) (db_updates db)\<rparr>"
  using delete_scope_rows [of db scope wr_delivered] by (simp add: bs_pruneDelivered_def delete_delivered_def delete_rows)

lemma pruneExpired_rows:
  "db_inv db \<Longrightarrow> snd (bs_pruneExpired scope now ttl db) =
     db\<lparr>db_updates := filter (\<lambda>r. \<not> (wr_scopeId r = scope \<and> hasExpired (row_entry r) (now - ttl))) (db_updates db)\<rparr>"
  using delete_scope_rows [of db scope "\<lambda>r. hasExpired (row_entry r) (now - ttl)"]
  by (simp add: bs_pruneExpired_def Let_def delete_expired_rows delete_rows)

lemma db_inv_filter: "db_inv db \<Longrightarrow> db_inv (db\<lparr>db_updates := filter P (db_updates db)\<rparr>)"
  by (simp add: db_inv_def sorted_ids_filter)

interpretation browser: wal_store "bs_append scope" "bs_getAll scope" bs_markDelivered "bs_pruneDelivered scope"
  "bs_pruneExpired scope" "bs_count scope" db_inv for scope
proof
  fix db :: "'a wal_db" and now ttl :: int and u :: 'a and ids :: "nat list"
  assume inv: "db_inv db"
  show "db_inv (bs_append scope now u db)"
    using inv by (fastforce simp: db_inv_def bs_append_def sorted_wrt_append Let_def)
  show "\<exists>i. (\<forall>e \<in> set (bs_getAll scope db). we_id e < i) \<and>
      bs_getAll scope (bs_append scope now u db) =
        bs_getAll scope db @ [\<lparr>we_id = i, we_update = u, we_delivered = False, we_createdAt = now\<rparr>]"
    using inv by (intro exI [of _ "Suc (db_key db)"])
      (auto simp: db_inv_def bs_append_def bs_getAll_def db_getAllFromIndex_def row_entry_def less_Suc_eq_le)
  show "sorted_wrt (<) (map we_id (bs_getAll scope db))"
    using inv by (simp add: db_inv_def bs_getAll_def db_getAllFromIndex_def o_def sorted_ids_filter)
  show "bs_getAll scope (bs_markDelivered ids db) = map (deliver ids) (bs_getAll scope db)"
    using inv by (simp add: mark_rows bs_getAll_def db_getAllFromIndex_def filter_map o_def)
  show "db_inv (bs_markDelivered ids db)" using inv by (simp add: mark_rows db_inv_deliver)
  show "db_inv (bs_pruneDelivered scope db)" using inv by (simp add: pruneDelivered_rows db_inv_filter)
  show "bs_getAll scope (bs_pruneDelivered scope db) = undelivered (bs_getAll scope db)"
    using inv by (simp add: pruneDelivered_rows bs_getAll_def db_getAllFromIndex_def undelivered_def filter_map o_def)
      (metis (mono_tags, lifting))
  show "db_inv (snd (bs_pruneExpired scope now ttl db))" using inv by (simp add: pruneExpired_rows db_inv_filter)
  show "bs_getAll scope (snd (bs_pruneExpired scope now ttl db)) =
      filter (\<lambda>e. \<not> hasExpired e (now - ttl)) (bs_getAll scope db)"
    using inv by (simp add: pruneExpired_rows bs_getAll_def db_getAllFromIndex_def filter_map o_def)
      (metis (mono_tags, lifting))
  show "fst (bs_pruneExpired scope now ttl db) = length (filter (\<lambda>e. hasExpired e (now - ttl)) (bs_getAll scope db))"
    by (simp add: bs_pruneExpired_def Let_def delete_expired_rows bs_getAll_def filter_map o_def)
  show "bs_count scope db = length (bs_getAll scope db)" by (simp add: bs_count_def bs_getAll_def)
qed

section \<open>The log behind a store\<close>

text \<open>
  The ids of the two stores differ: one numbers its own entries, the other all rows of the database. So
  the calls and the replies name an entry by the number of entries that were appended to its document
  before it; the caller's side of the contract keeps the ids that the appends were given. \<open>CMark\<close>
  passes any ids of entries that were ever appended to the document, in any order and whether they
  are still there or not; every id that \<open>getAll\<close> has returned is one of them.
\<close>

datatype 't wal_call = CAppend int 't | CMark "nat list" | CPruneDelivered | CPruneExpired int int | CCount | CGetAll

type_synonym 't log_entry = "nat \<times> 't \<times> bool \<times> int"

datatype 't wal_reply = WDone | WNumber nat | WLog "'t log_entry list"

definition number_of :: "nat list \<Rightarrow> nat \<Rightarrow> nat" where
  "number_of born i = length (takeWhile (\<lambda>j. j \<noteq> i) born)"

definition ids_of :: "nat list \<Rightarrow> nat list \<Rightarrow> nat list" where
  "ids_of born ns = map ((!) born) (filter (\<lambda>n. n < length born) ns)"

definition entry_log :: "nat list \<Rightarrow> 't wal_entry \<Rightarrow> 't log_entry" where
  "entry_log born e = (number_of born (we_id e), we_update e, we_delivered e, we_createdAt e)"

text \<open>A call of a store, with the ids its appends were given\<close>

fun store_call :: "(int \<Rightarrow> 't \<Rightarrow> 's \<Rightarrow> 's) \<Rightarrow> ('s \<Rightarrow> 't wal_entry list) \<Rightarrow> (nat list \<Rightarrow> 's \<Rightarrow> 's) \<Rightarrow> ('s \<Rightarrow> 's) \<Rightarrow>
    (int \<Rightarrow> int \<Rightarrow> 's \<Rightarrow> nat \<times> 's) \<Rightarrow> ('s \<Rightarrow> nat) \<Rightarrow> 't wal_call \<Rightarrow> 's \<times> nat list \<Rightarrow> 't wal_reply \<times> 's \<times> nat list" where
  "store_call add getAll mark prune expire count (CAppend now u) (s, born) =
     (WDone, add now u s, born @ [we_id (last (getAll (add now u s)))])"
| "store_call add getAll mark prune expire count (CMark ns) (s, born) = (WDone, mark (ids_of born ns) s, born)"
| "store_call add getAll mark prune expire count CPruneDelivered (s, born) = (WDone, prune s, born)"
| "store_call add getAll mark prune expire count (CPruneExpired now ttl) (s, born) =
     (case expire now ttl s of (n, s') \<Rightarrow> (WNumber n, s', born))"
| "store_call add getAll mark prune expire count CCount (s, born) = (WNumber (count s), s, born)"
| "store_call add getAll mark prune expire count CGetAll (s, born) = (WLog (map (entry_log born) (getAll s)), s, born)"

text \<open>What the calls mean: a log of numbered entries, with the number of the next\<close>

definition expired_log :: "int \<Rightarrow> 't log_entry \<Rightarrow> bool" where
  "expired_log cutoff = (\<lambda>(n, u, delivered, createdAt). \<not> delivered \<and> createdAt < cutoff)"

fun log_call :: "'t wal_call \<Rightarrow> 't log_entry list \<times> nat \<Rightarrow> 't wal_reply \<times> 't log_entry list \<times> nat" where
  "log_call (CAppend now u) (l, k) = (WDone, l @ [(k, u, False, now)], Suc k)"
| "log_call (CMark ns) (l, k) = (WDone, map (\<lambda>(n, u, d, t). (n, u, d \<or> n \<in> set ns, t)) l, k)"
| "log_call CPruneDelivered (l, k) = (WDone, filter (\<lambda>(n, u, d, t). \<not> d) l, k)"
| "log_call (CPruneExpired now ttl) (l, k) =
     (WNumber (length (filter (expired_log (now - ttl)) l)), filter (\<lambda>x. \<not> expired_log (now - ttl) x) l, k)"
| "log_call CCount (l, k) = (WNumber (length l), l, k)"
| "log_call CGetAll (l, k) = (WLog l, l, k)"

lemma expired_log_entry [simp]: "expired_log cutoff (entry_log born e) = hasExpired e cutoff"
  by (simp add: expired_log_def entry_log_def hasExpired_def)

lemma undelivered_log: "filter (\<lambda>(n, u, d, t). \<not> d) (map (entry_log born) es) = map (entry_log born) (undelivered es)"
  by (induction es) (auto simp: undelivered_def entry_log_def)

lemma number_of_less: "i \<in> set born \<Longrightarrow> number_of born i < length born \<and> born ! number_of born i = i"
  by (induction born) (auto simp: number_of_def)

lemma number_of_append: "i \<in> set born \<Longrightarrow> number_of (born @ [j]) i = number_of born i"
  by (induction born) (auto simp: number_of_def)

lemma number_of_new: "i \<notin> set born \<Longrightarrow> number_of (born @ [i]) i = length born"
  by (induction born) (auto simp: number_of_def)

lemma marked_ids:
  assumes "distinct born" "i \<in> set born"
  shows "i \<in> set (ids_of born ns) \<longleftrightarrow> number_of born i \<in> set ns"
proof
  assume "i \<in> set (ids_of born ns)"
  then obtain n where n: "n \<in> set ns" "n < length born" "i = born ! n" by (auto simp: ids_of_def)
  then have "number_of born i = n" using number_of_less [OF assms(2)] assms(1) by (auto simp: nth_eq_iff_index_eq)
  then show "number_of born i \<in> set ns" using n(1) by simp
next
  assume "number_of born i \<in> set ns"
  then show "i \<in> set (ids_of born ns)" using number_of_less [OF assms(2)] by (force simp: ids_of_def)
qed

text \<open>A store that tells the highest id it has given out\<close>

locale numbered_store = wal_store append getAll markDelivered pruneDelivered pruneExpired count inv
  for append :: "int \<Rightarrow> 't \<Rightarrow> 's \<Rightarrow> 's" and getAll :: "'s \<Rightarrow> 't wal_entry list" and markDelivered :: "nat list \<Rightarrow> 's \<Rightarrow> 's"
    and pruneDelivered :: "'s \<Rightarrow> 's" and pruneExpired :: "int \<Rightarrow> int \<Rightarrow> 's \<Rightarrow> nat \<times> 's" and count :: "'s \<Rightarrow> nat" and inv :: "'s \<Rightarrow> bool" +
  fixes issued :: "'s \<Rightarrow> nat"
  assumes append_issues: "inv s \<Longrightarrow> issued s < issued (append now u s) \<and>
      getAll (append now u s) = getAll s @ [\<lparr>we_id = issued (append now u s), we_update = u, we_delivered = False, we_createdAt = now\<rparr>]"
    and mark_issued: "inv s \<Longrightarrow> issued (markDelivered ids s) = issued s"
    and prune_issued: "inv s \<Longrightarrow> issued (pruneDelivered s) = issued s"
    and expire_issued: "inv s \<Longrightarrow> issued (snd (pruneExpired now ttl s)) = issued s"
begin

abbreviation call where
  "call \<equiv> store_call append getAll markDelivered pruneDelivered pruneExpired count"

fun shown :: "'s \<times> nat list \<Rightarrow> 't log_entry list \<times> nat" where
  "shown (s, born) = (map (entry_log born) (getAll s), length born)"

fun tracked :: "'s \<times> nat list \<Rightarrow> bool" where
  "tracked (s, born) \<longleftrightarrow> inv s \<and> distinct born \<and> (\<forall>i \<in> set born. i \<le> issued s) \<and> we_id ` set (getAll s) \<subseteq> set born"

lemma call_log:
  assumes T: "tracked (s, born)"
  shows "log_call c (shown (s, born)) = apsnd shown (call c (s, born))"
proof (cases c)
  case (CAppend now u)
  let ?i = "issued (append now u s)"
  have new: "issued s < ?i" "getAll (append now u s) = getAll s @ [\<lparr>we_id = ?i, we_update = u, we_delivered = False, we_createdAt = now\<rparr>]"
    using append_issues [of s now u] T by auto
  then have "?i \<notin> set born" using T by auto
  moreover have "entry_log (born @ [?i]) e = entry_log born e" if "e \<in> set (getAll s)" for e
    using T that by (auto simp: entry_log_def intro!: number_of_append)
  ultimately show ?thesis using CAppend by (simp add: new(2) entry_log_def number_of_new)
next
  case (CMark ns)
  have "entry_log born (deliver (ids_of born ns) e) =
      (case entry_log born e of (n, u, d, t) \<Rightarrow> (n, u, d \<or> n \<in> set ns, t))" if "e \<in> set (getAll s)" for e
    using T that marked_ids [of born "we_id e" ns] by (auto simp: entry_log_def deliver_def)
  then show ?thesis using CMark T by (simp add: mark_getAll)
next
  case CPruneDelivered
  then show ?thesis using T by (simp add: prune_getAll undelivered_log)
next
  case (CPruneExpired now ttl)
  then show ?thesis using T expire_getAll [of s now ttl] expire_count [of s now ttl]
    by (cases "pruneExpired now ttl s") (simp add: filter_map o_def)
qed (use T in \<open>simp_all add: count_getAll\<close>)

lemma call_tracked:
  assumes T: "tracked (s, born)"
  shows "tracked (snd (call c (s, born)))"
proof (cases c)
  case (CAppend now u)
  let ?i = "issued (append now u s)"
  have new: "issued s < ?i" "getAll (append now u s) = getAll s @ [\<lparr>we_id = ?i, we_update = u, we_delivered = False, we_createdAt = now\<rparr>]"
    using append_issues [of s now u] T by auto
  then show ?thesis using CAppend T by (fastforce simp: append_inv)
next
  case (CMark ns)
  then show ?thesis using T by (auto simp: mark_inv mark_issued mark_getAll)
next
  case CPruneDelivered
  then show ?thesis using T by (auto simp: prune_inv prune_issued prune_getAll undelivered_def)
next
  case (CPruneExpired now ttl)
  then show ?thesis using T expire_inv [of s now ttl] expire_issued [of s now ttl] expire_getAll [of s now ttl]
    by (cases "pruneExpired now ttl s") auto
qed (use T in simp_all)

end

sublocale numbered_store \<subseteq> logged: simulation call log_call shown tracked
  by unfold_locales (metis call_tracked surj_pair, metis call_log surj_pair)

interpretation memory_ids: numbered_store ms_append ms_getAll ms_markDelivered ms_pruneDelivered ms_pruneExpired ms_count ms_inv ms_seq
  by unfold_locales
    (simp_all add: ms_append_def ms_getAll_def ms_markDelivered_def ms_pruneDelivered_def ms_pruneExpired_def Let_def)

interpretation browser_ids: numbered_store "bs_append scope" "bs_getAll scope" bs_markDelivered "bs_pruneDelivered scope"
  "bs_pruneExpired scope" "bs_count scope" db_inv db_key for scope
  by unfold_locales
    (simp_all add: bs_append_def bs_getAll_def db_getAllFromIndex_def row_entry_def mark_rows pruneDelivered_rows pruneExpired_rows Let_def)

text \<open>A database of many documents, against one store in memory per document.\<close>

definition memory_call :: "'t wal_call \<Rightarrow> 't memory_store \<times> nat list \<Rightarrow> 't wal_reply \<times> 't memory_store \<times> nat list" where
  "memory_call = store_call ms_append ms_getAll ms_markDelivered ms_pruneDelivered ms_pruneExpired ms_count"

definition scope_call :: "string \<Rightarrow> 't wal_call \<Rightarrow> 't wal_db \<times> nat list \<Rightarrow> 't wal_reply \<times> 't wal_db \<times> nat list" where
  "scope_call scope = store_call (bs_append scope) (bs_getAll scope) bs_markDelivered (bs_pruneDelivered scope)
     (bs_pruneExpired scope) (bs_count scope)"

definition at_scope :: "('c \<Rightarrow> 's \<Rightarrow> 'r \<times> 's) \<Rightarrow> 'k \<times> 'c \<Rightarrow> ('k \<Rightarrow> 's) \<Rightarrow> 'r \<times> ('k \<Rightarrow> 's)" where
  "at_scope step = (\<lambda>(k, c) f. apsnd (\<lambda>s. f(k := s)) (step c (f k)))"

fun db_call :: "string \<times> 't wal_call \<Rightarrow> 't wal_db \<times> (string \<Rightarrow> nat list) \<Rightarrow> 't wal_reply \<times> 't wal_db \<times> (string \<Rightarrow> nat list)" where
  "db_call (scope, c) (db, born) = (case scope_call scope c (db, born scope) of (r, db', ids) \<Rightarrow> (r, db', born(scope := ids)))"

fun db_shown :: "'t wal_db \<times> (string \<Rightarrow> nat list) \<Rightarrow> string \<Rightarrow> 't log_entry list \<times> nat" where
  "db_shown (db, born) scope = browser_ids.shown scope (db, born scope)"

text \<open>The ids of different documents are different.\<close>

fun db_tracked :: "'t wal_db \<times> (string \<Rightarrow> nat list) \<Rightarrow> bool" where
  "db_tracked (db, born) \<longleftrightarrow> (\<forall>scope. browser_ids.tracked scope (db, born scope)) \<and>
     (\<forall>scope scope'. scope \<noteq> scope' \<longrightarrow> set (born scope) \<inter> set (born scope') = {})"

lemma call_other_scope:
  assumes T: "db_tracked (db, born)" and other: "scope' \<noteq> scope" and s: "scope_call scope c (db, born scope) = (r, db', ids)"
  shows "bs_getAll scope' db' = bs_getAll scope' db" "db_key db \<le> db_key db'" "set ids \<subseteq> set (born scope) \<union> {db_key db <..}"
proof -
  have inv: "db_inv db" using T by simp
  have "bs_getAll scope' db' = bs_getAll scope' db \<and> db_key db \<le> db_key db' \<and> set ids \<subseteq> set (born scope) \<union> {db_key db <..}"
  proof (cases c)
    case (CAppend now u)
    then have "db' = bs_append scope now u db" "ids = born scope @ [db_key db + 1]"
      using s by (auto simp: scope_call_def bs_append_def bs_getAll_def db_getAllFromIndex_def row_entry_def Let_def)
    then show ?thesis using other by (auto simp: bs_append_def bs_getAll_def db_getAllFromIndex_def Let_def)
  next
    case (CMark ns)
    have "deliver (ids_of (born scope) ns) e = e" if "e \<in> set (bs_getAll scope' db)" for e
    proof -
      have "we_id e \<in> set (born scope')" using T that by auto
      moreover have "set (born scope') \<inter> set (born scope) = {}" using T other by simp
      ultimately have "we_id e \<notin> set (born scope)" by blast
      then show ?thesis by (auto simp: deliver_def ids_of_def)
    qed
    then have "bs_getAll scope' (bs_markDelivered (ids_of (born scope) ns) db) = bs_getAll scope' db"
      by (simp add: browser.mark_getAll [OF inv] map_idI)
    then show ?thesis using s CMark browser_ids.mark_issued [OF inv] by (auto simp: scope_call_def)
  next
    case CPruneDelivered
    then have "db' = bs_pruneDelivered scope db" "ids = born scope" using s by (auto simp: scope_call_def)
    then show ?thesis using other
      by (auto simp: pruneDelivered_rows [OF inv] bs_getAll_def db_getAllFromIndex_def intro!: arg_cong [of _ _ "map row_entry"] filter_cong)
  next
    case (CPruneExpired now ttl)
    then have "db' = snd (bs_pruneExpired scope now ttl db)" "ids = born scope"
      using s by (auto simp: scope_call_def split: prod.splits)
    then show ?thesis using other
      by (auto simp: pruneExpired_rows [OF inv] bs_getAll_def db_getAllFromIndex_def intro!: arg_cong [of _ _ "map row_entry"] filter_cong)
  qed (use s in \<open>auto simp: scope_call_def\<close>)
  then show "bs_getAll scope' db' = bs_getAll scope' db" "db_key db \<le> db_key db'" "set ids \<subseteq> set (born scope) \<union> {db_key db <..}"
    by blast+
qed

interpretation shared_db: simulation db_call "at_scope log_call" db_shown db_tracked
proof
  fix s :: "'a wal_db \<times> (string \<Rightarrow> nat list)" and c :: "string \<times> 'a wal_call"
  assume T': "db_tracked s"
  obtain db born scope call where s: "s = (db, born)" "c = (scope, call)" by (metis surj_pair)
  have T: "db_tracked (db, born)" using T' s by simp
  obtain r db' ids where st: "scope_call scope call (db, born scope) = (r, db', ids)" by (metis prod_cases3)
  have own: "browser_ids.tracked scope (db', ids)"
    "log_call call (browser_ids.shown scope (db, born scope)) = (r, browser_ids.shown scope (db', ids))"
    using browser_ids.call_tracked [where s = db and born = "born scope" and scope = scope and c = call]
      browser_ids.call_log [where s = db and born = "born scope" and scope = scope and c = call] T st
    by (simp_all add: scope_call_def)
  note other = call_other_scope [OF T _ st]
  have "browser_ids.tracked scope' (db', born scope')" if "scope' \<noteq> scope" for scope'
    using T other [OF that] own(1) by fastforce
  moreover have "set ids \<inter> set (born scope') = {}" if "scope' \<noteq> scope" for scope'
    using T other(3) [OF that] that by fastforce
  ultimately show "db_tracked (snd (db_call c s))" using T own(1) s st
    by (auto simp del: browser_ids.tracked.simps)
  show "at_scope log_call c (db_shown s) = apsnd db_shown (db_call c s)"
    using own(2) other(1) s st by (auto simp: at_scope_def fun_eq_iff)
qed

interpretation many_stores: simulation "at_scope memory_call" "at_scope log_call"
  "\<lambda>f scope. memory_ids.shown (f scope)" "\<lambda>f. \<forall>scope. memory_ids.tracked (f scope)"
proof
  fix f :: "'k \<Rightarrow> 'a memory_store \<times> nat list" and c :: "'k \<times> 'a wal_call"
  assume inv: "\<forall>scope. memory_ids.tracked (f scope)"
  obtain scope call where c: "c = (scope, call)" by fastforce
  obtain s born where fs: "f scope = (s, born)" by fastforce
  have T: "memory_ids.tracked (s, born)" using inv fs by metis
  show "\<forall>scope. memory_ids.tracked (snd (at_scope memory_call c f) scope)"
    using inv memory_ids.call_tracked [OF T, of call] c fs
    by (simp add: at_scope_def memory_call_def del: memory_ids.tracked.simps)
  show "at_scope log_call c (\<lambda>scope. memory_ids.shown (f scope)) =
      apsnd (\<lambda>f scope. memory_ids.shown (f scope)) (at_scope memory_call c f)"
    using memory_ids.call_log [OF T, of call] c fs
    by (cases "memory_call call (f scope)") (auto simp: at_scope_def memory_call_def fun_eq_iff)
qed

section \<open>Claims\<close>

text \<open>
  C29: the database serves every document like a store of its own. Any sequence of calls of any documents,
  in which the ids passed to \<open>markDelivered\<close> are any ids that appends to the same document were
  given (so any that its \<open>getAll\<close> returned, now or before, in any selection), gets from the shared
  database the replies that one in-memory store per document gives. The replies hold the whole entries,
  with their ids up to the numbering of the store: an entry is named by how many were appended
  to its document before it. So documents do not see or mark each other's entries, and the two
  implementations of \<open>WALStore\<close> agree. Ids of other documents are outside the property: the
  database would mark those.
\<close>

theorem database_equals_memory_stores:
  fixes calls :: "(string \<times> 't wal_call) list"
  shows "replies db_call calls (openDb, \<lambda>_. []) = replies (at_scope memory_call) calls (\<lambda>_. (ms_new, []))"
proof -
  have "db_shown (openDb :: 't wal_db, \<lambda>_. []) = (\<lambda>_. ([], 0))"
    by (rule ext) (simp add: openDb_def bs_getAll_def db_getAllFromIndex_def)
  moreover have "db_tracked (openDb :: 't wal_db, \<lambda>_. [])" by (simp add: db_inv_def openDb_def bs_getAll_def db_getAllFromIndex_def)
  ultimately have "replies db_call calls (openDb, \<lambda>_. []) = replies (at_scope log_call) calls (\<lambda>_. ([], 0))"
    using shared_db.same_replies [of "(openDb, \<lambda>_. [])" calls] by (simp del: db_shown.simps)
  moreover have "replies (at_scope memory_call) calls (\<lambda>_. (ms_new, [])) = replies (at_scope log_call) calls (\<lambda>_. ([], 0))"
    using many_stores.same_replies [of "\<lambda>_. (ms_new, [])" calls] by (simp add: ms_inv_def ms_new_def ms_getAll_def)
  ultimately show ?thesis by simp
qed

end
