(* ===== verification/WalSyncer.thy ===== *)
theory WalSyncer
  imports WalStore
begin

text \<open>
  The syncer of the write-ahead log (\<open>WALSyncer\<close> in \<open>collab/wal.ts\<close>): it appends updates to
  its store and pushes the undelivered ones.

  \<^item> \<open>append\<close> and \<open>doFlush\<close> are asynchronous. Every call that has not returned is a task of the
    state with the point it waits at, and an input resumes one task; so any interleaving of
    calls is a list of inputs. The promises of a store method are resumed in the order of the
    store's steps: reading the store and resuming with what was read is one step.
  \<^item> The transport \<open>push\<close> is the effect \<open>EPush\<close> with the entries whose updates it gets; an input
    says how it answers. \<open>EStored\<close> and \<open>EAcked\<close> record the write of an entry and an
    acknowledged push. Log output is not modelled; telemetry spans are, as effects.
  \<^item> With a label, the code also awaits its own \<open>summary()\<close> for the log, between reading the store and
    pushing, and between marking entries as delivered and the end of the flush. Those waits are part
    of the step they follow: they change nothing, and the entries pushed are those read.
\<close>

section \<open>The store a syncer has\<close>

datatype 't wal_store_state = MemoryStore "'t memory_store" | BrowserStore string "'t wal_db"

fun st_append :: "int \<Rightarrow> 't \<Rightarrow> 't wal_store_state \<Rightarrow> 't wal_store_state" where
  "st_append now u (MemoryStore s) = MemoryStore (ms_append now u s)"
| "st_append now u (BrowserStore scope db) = BrowserStore scope (bs_append scope now u db)"

fun st_getAll :: "'t wal_store_state \<Rightarrow> 't wal_entry list" where
  "st_getAll (MemoryStore s) = ms_getAll s"
| "st_getAll (BrowserStore scope db) = bs_getAll scope db"

fun st_markDelivered :: "nat list \<Rightarrow> 't wal_store_state \<Rightarrow> 't wal_store_state" where
  "st_markDelivered ids (MemoryStore s) = MemoryStore (ms_markDelivered ids s)"
| "st_markDelivered ids (BrowserStore scope db) = BrowserStore scope (bs_markDelivered ids db)"

fun st_pruneDelivered :: "'t wal_store_state \<Rightarrow> 't wal_store_state" where
  "st_pruneDelivered (MemoryStore s) = MemoryStore (ms_pruneDelivered s)"
| "st_pruneDelivered (BrowserStore scope db) = BrowserStore scope (bs_pruneDelivered scope db)"

fun st_pruneExpired :: "int \<Rightarrow> int \<Rightarrow> 't wal_store_state \<Rightarrow> nat \<times> 't wal_store_state" where
  "st_pruneExpired now ttl (MemoryStore s) = apsnd MemoryStore (ms_pruneExpired now ttl s)"
| "st_pruneExpired now ttl (BrowserStore scope db) = apsnd (BrowserStore scope) (bs_pruneExpired scope now ttl db)"

fun st_count :: "'t wal_store_state \<Rightarrow> nat" where
  "st_count (MemoryStore s) = ms_count s"
| "st_count (BrowserStore scope db) = bs_count scope db"

fun st_inv :: "'t wal_store_state \<Rightarrow> bool" where
  "st_inv (MemoryStore s) = ms_inv s"
| "st_inv (BrowserStore scope db) = db_inv db"

interpretation store: wal_store st_append st_getAll st_markDelivered st_pruneDelivered st_pruneExpired st_count st_inv
proof
  fix s :: "'a wal_store_state" and now ttl :: int and u :: 'a and ids :: "nat list"
  assume inv: "st_inv s"
  show "st_inv (st_append now u s)" "st_inv (st_markDelivered ids s)" "st_inv (st_pruneDelivered s)"
    "st_inv (snd (st_pruneExpired now ttl s))"
    using inv by (cases s; simp add: memory.append_inv memory.mark_inv memory.prune_inv memory.expire_inv
        browser.append_inv browser.mark_inv browser.prune_inv browser.expire_inv)+
  show "\<exists>i. (\<forall>e \<in> set (st_getAll s). we_id e < i) \<and>
      st_getAll (st_append now u s) = st_getAll s @ [\<lparr>we_id = i, we_update = u, we_delivered = False, we_createdAt = now\<rparr>]"
    using inv memory.append_getAll browser.append_getAll by (cases s) simp_all
  show "sorted_wrt (<) (map we_id (st_getAll s))" "st_count s = length (st_getAll s)"
    "st_getAll (st_markDelivered ids s) = map (deliver ids) (st_getAll s)"
    "st_getAll (st_pruneDelivered s) = undelivered (st_getAll s)"
    "st_getAll (snd (st_pruneExpired now ttl s)) = filter (\<lambda>e. \<not> hasExpired e (now - ttl)) (st_getAll s)"
    "fst (st_pruneExpired now ttl s) = length (filter (\<lambda>e. hasExpired e (now - ttl)) (st_getAll s))"
    using inv by (cases s; simp add: memory.ids_sorted memory.mark_getAll memory.prune_getAll memory.expire_getAll
        memory.expire_count memory.count_getAll browser.ids_sorted browser.mark_getAll browser.prune_getAll
        browser.expire_getAll browser.expire_count browser.count_getAll)+
qed

section \<open>The syncer\<close>

datatype failure_kind = NotAcked | PushError

record delivery_outage =
  out_startedAt :: int
  out_failedAttempts :: nat
  out_maxUndelivered :: nat

datatype 't append_phase = AppendReady 't | AppendStored

datatype 't flush_phase = FlushReady | FlushRead | FlushPush "'t wal_entry list" | FlushMark "'t wal_entry list"

record 't wal_syncer =
  wy_store :: "'t wal_store_state"
  wy_label :: "string option"
  wy_ready :: bool
  wy_isFlushing :: bool
  wy_hasNewPending :: bool
  wy_cleanupFns :: "nat list"
  wy_deliveryOutage :: "delivery_outage option"
  wy_appends :: "(nat, 't append_phase) jsmap"
  wy_flushes :: "(nat, 't flush_phase) jsmap"
  wy_nextTask :: nat

datatype 't wal_effect =
  EStored "'t wal_entry"
| EPush nat "'t wal_entry list"
| EAcked nat "'t wal_entry list"
| EOutageStarted failure_kind nat
| EOutageRecovered nat nat nat
| EOutageAbandoned nat nat
| ECleanup nat

definition wal_new :: "'t wal_store_state \<Rightarrow> string option \<Rightarrow> 't wal_syncer" where
  "wal_new s label = \<lparr>wy_store = s, wy_label = label, wy_ready = False, wy_isFlushing = False,
     wy_hasNewPending = False, wy_cleanupFns = [], wy_deliveryOutage = None, wy_appends = [], wy_flushes = [],
     wy_nextTask = 0\<rparr>"

text \<open>\<open>setup\<close>, run by the constructor: it resolves \<open>ready()\<close>.\<close>

definition wal_setup :: "int \<Rightarrow> 't wal_syncer \<Rightarrow> 't wal_syncer" where
  "wal_setup now y =
     (if wy_ready y then y
      else y\<lparr>wy_store := snd (st_pruneExpired now WAL_TTL_MS (wy_store y)), wy_ready := True\<rparr>)"

definition set_flush :: "nat \<Rightarrow> 't flush_phase \<Rightarrow> 't wal_syncer \<Rightarrow> 't wal_syncer" where
  "set_flush k p y = y\<lparr>wy_flushes := AList.update k p (wy_flushes y)\<rparr>"

definition end_flush :: "nat \<Rightarrow> 't wal_syncer \<Rightarrow> 't wal_syncer" where
  "end_flush k y = y\<lparr>wy_flushes := AList.delete k (wy_flushes y)\<rparr>"

definition wal_append :: "'t \<Rightarrow> 't wal_syncer \<Rightarrow> 't wal_syncer" where
  "wal_append item y = y\<lparr>wy_appends := AList.update (wy_nextTask y) (AppendReady item) (wy_appends y),
     wy_nextTask := wy_nextTask y + 1\<rparr>"

definition wal_flush :: "'t wal_syncer \<Rightarrow> 't wal_syncer" where
  "wal_flush y =
     (if wy_isFlushing y then y
      else (set_flush (wy_nextTask y) FlushReady y)\<lparr>wy_nextTask := wy_nextTask y + 1\<rparr>)"

definition append_resume :: "int \<Rightarrow> nat \<Rightarrow> 't wal_syncer \<Rightarrow> 't wal_syncer \<times> 't wal_effect list" where
  "append_resume now k y =
     (case map_of (wy_appends y) k of
        None \<Rightarrow> (y, [])
      | Some (AppendReady item) \<Rightarrow>
          (if \<not> wy_ready y then (y, [])
           else let y1 = y\<lparr>wy_store := st_append now item (wy_store y),
                           wy_appends := AList.update k AppendStored (wy_appends y)\<rparr>
                in (y1, [EStored (last (st_getAll (wy_store y1)))]))
      | Some AppendStored \<Rightarrow>
          (wal_flush (y\<lparr>wy_appends := AList.delete k (wy_appends y), wy_hasNewPending := True\<rparr>), []))"

definition recordDeliveryFailure ::
    "failure_kind \<Rightarrow> nat \<Rightarrow> int \<Rightarrow> 't wal_syncer \<Rightarrow> 't wal_syncer \<times> 't wal_effect list" where
  "recordDeliveryFailure kind n now y =
     (if \<not> truthy_string (wy_label y) then (y, [])
      else case wy_deliveryOutage y of
        Some out \<Rightarrow>
          (y\<lparr>wy_deliveryOutage := Some (out\<lparr>out_failedAttempts := out_failedAttempts out + 1,
              out_maxUndelivered := max (out_maxUndelivered out) n\<rparr>)\<rparr>, [])
      | None \<Rightarrow>
          (y\<lparr>wy_deliveryOutage := Some \<lparr>out_startedAt = now, out_failedAttempts = 1, out_maxUndelivered = n\<rparr>\<rparr>,
           [EOutageStarted kind n]))"

definition recordDeliveryRecovery :: "nat \<Rightarrow> 't wal_syncer \<Rightarrow> 't wal_syncer \<times> 't wal_effect list" where
  "recordDeliveryRecovery delivered y =
     (case wy_deliveryOutage y of
        None \<Rightarrow> (y, [])
      | Some out \<Rightarrow>
          (if \<not> truthy_string (wy_label y) then (y, [])
           else (y\<lparr>wy_deliveryOutage := None\<rparr>,
                 [EOutageRecovered (out_failedAttempts out) (out_maxUndelivered out) delivered])))"

text \<open>The steps of \<open>doFlush\<close>; the push itself is answered by the next definition.\<close>

definition flush_resume :: "nat \<Rightarrow> 't wal_syncer \<Rightarrow> 't wal_syncer \<times> 't wal_effect list" where
  "flush_resume k y =
     (case map_of (wy_flushes y) k of
        Some FlushReady \<Rightarrow>
          (if \<not> wy_ready y then (y, [])
           else (set_flush k FlushRead (y\<lparr>wy_isFlushing := True, wy_hasNewPending := False\<rparr>), []))
      | Some FlushRead \<Rightarrow>
          let entries = undelivered (st_getAll (wy_store y))
          in if entries = [] then (end_flush k (y\<lparr>wy_isFlushing := False\<rparr>), [])
             else (set_flush k (FlushPush entries) y, [EPush k entries])
      | Some (FlushMark entries) \<Rightarrow>
          (case recordDeliveryRecovery (length entries)
                  (y\<lparr>wy_store := st_markDelivered (map we_id entries) (wy_store y)\<rparr>) of
             (y1, es) \<Rightarrow>
               let y2 = y1\<lparr>wy_isFlushing := False\<rparr>
               in (if wy_hasNewPending y2 then set_flush k FlushReady y2 else end_flush k y2, es))
      | _ \<Rightarrow> (y, []))"

datatype push_outcome = Delivered | Refused | Thrown

definition push_answer :: "push_outcome \<Rightarrow> int \<Rightarrow> nat \<Rightarrow> 't wal_syncer \<Rightarrow> 't wal_syncer \<times> 't wal_effect list" where
  "push_answer outcome now k y =
     (case map_of (wy_flushes y) k of
        Some (FlushPush entries) \<Rightarrow>
          (case outcome of
             Delivered \<Rightarrow> (set_flush k (FlushMark entries) y, [EAcked k entries])
           | Refused \<Rightarrow> apfst (\<lambda>y. end_flush k (y\<lparr>wy_isFlushing := False\<rparr>))
               (recordDeliveryFailure NotAcked (length entries) now y)
           | Thrown \<Rightarrow> apfst (\<lambda>y. end_flush k (y\<lparr>wy_isFlushing := False\<rparr>))
               (recordDeliveryFailure PushError (length entries) now y))
      | _ \<Rightarrow> (y, []))"

definition wal_pruneDelivered :: "'t wal_syncer \<Rightarrow> 't wal_syncer" where
  "wal_pruneDelivered y = y\<lparr>wy_store := st_pruneDelivered (wy_store y)\<rparr>"

record wal_context =
  wc_count :: nat
  wc_dirty :: nat
  wc_mostRecentEdit :: "int option"

definition wal_summary :: "'t wal_syncer \<Rightarrow> wal_context" where
  "wal_summary y =
     (let entries = st_getAll (wy_store y); dirty = undelivered entries
      in \<lparr>wc_count = length entries, wc_dirty = length dirty,
          wc_mostRecentEdit = (if dirty = [] then None else Some (we_createdAt (last dirty)))\<rparr>)"

definition finishDeliveryOutage :: "'t wal_syncer \<Rightarrow> 't wal_syncer \<times> 't wal_effect list" where
  "finishDeliveryOutage y =
     (case wy_deliveryOutage y of
        None \<Rightarrow> (y, [])
      | Some out \<Rightarrow> (y\<lparr>wy_deliveryOutage := None\<rparr>, [EOutageAbandoned (out_failedAttempts out) (out_maxUndelivered out)]))"

definition wal_destroy :: "'t wal_syncer \<Rightarrow> 't wal_syncer \<times> 't wal_effect list" where
  "wal_destroy y =
     (case finishDeliveryOutage y of (y1, es) \<Rightarrow>
        (y1\<lparr>wy_cleanupFns := []\<rparr>, es @ map ECleanup (wy_cleanupFns y1)))"

definition addCleanup :: "nat \<Rightarrow> 't wal_syncer \<Rightarrow> 't wal_syncer" where
  "addCleanup fn y = y\<lparr>wy_cleanupFns := wy_cleanupFns y @ [fn]\<rparr>"

section \<open>Runs\<close>

datatype 't wal_input =
  WSetup int
| WAppend 't
| WFlush
| WAppendResume int nat
| WFlushResume nat
| WPushAnswer push_outcome int nat
| WPruneDelivered
| WAddCleanup nat
| WDestroy

fun wal_step :: "'t wal_input \<Rightarrow> 't wal_syncer \<Rightarrow> 't wal_syncer \<times> 't wal_effect list" where
  "wal_step (WSetup now) y = (wal_setup now y, [])"
| "wal_step (WAppend item) y = (wal_append item y, [])"
| "wal_step WFlush y = (wal_flush y, [])"
| "wal_step (WAppendResume now k) y = append_resume now k y"
| "wal_step (WFlushResume k) y = flush_resume k y"
| "wal_step (WPushAnswer outcome now k) y = push_answer outcome now k y"
| "wal_step WPruneDelivered y = (wal_pruneDelivered y, [])"
| "wal_step (WAddCleanup fn) y = (addCleanup fn y, [])"
| "wal_step WDestroy y = wal_destroy y"

text \<open>Runs of a new syncer over a store with the entries \<open>es0\<close>.\<close>

inductive wal_run ::
    "'t wal_store_state \<Rightarrow> 't wal_input list \<Rightarrow> 't wal_effect list \<Rightarrow> 't wal_syncer \<Rightarrow> bool" for s0 where
  start: "st_inv s0 \<Longrightarrow> wal_run s0 [] [] (wal_new s0 label)"
| step: "wal_run s0 ins log y \<Longrightarrow> wal_step i y = (y', es) \<Longrightarrow> wal_run s0 (ins @ [i]) (log @ es) y'"

fun wal_exec :: "'t wal_input list \<Rightarrow> 't wal_syncer \<Rightarrow> 't wal_syncer \<times> 't wal_effect list" where
  "wal_exec [] y = (y, [])"
| "wal_exec (i # ins) y = (case wal_step i y of (y1, es) \<Rightarrow> apsnd (\<lambda>es'. es @ es') (wal_exec ins y1))"
section \<open>Nothing is lost\<close>

definition acked :: "'t wal_effect list \<Rightarrow> nat \<Rightarrow> bool" where
  "acked log i \<longleftrightarrow> (\<exists>k es. EAcked k es \<in> set log \<and> i \<in> we_id ` set es)"

definition kept :: "'t wal_entry \<Rightarrow> 't wal_syncer \<Rightarrow> bool" where
  "kept e y \<longleftrightarrow> (\<exists>e' \<in> set (st_getAll (wy_store y)).
     we_id e' = we_id e \<and> we_update e' = we_update e \<and> \<not> we_delivered e')"

definition ledger :: "'t wal_store_state \<Rightarrow> 't wal_effect list \<Rightarrow> 't wal_syncer \<Rightarrow> bool" where
  "ledger s0 log y \<longleftrightarrow> st_inv (wy_store y) \<and>
     (\<not> wy_ready y \<longrightarrow> (\<forall>e. EStored e \<notin> set log)) \<and>
     (\<forall>k es. (k, FlushMark es) \<in> set (wy_flushes y) \<longrightarrow> (\<forall>e \<in> set es. acked log (we_id e))) \<and>
     (\<forall>e. EStored e \<in> set log \<longrightarrow> kept e y \<or> acked log (we_id e)) \<and>
     (\<forall>e \<in> set (st_getAll (wy_store y)). we_delivered e \<longrightarrow>
        acked log (we_id e) \<or> (\<exists>e0 \<in> set (st_getAll s0). we_id e0 = we_id e \<and> we_delivered e0)) \<and>
     (\<forall>k es. EPush k es \<in> set log \<longrightarrow> es \<noteq> [] \<and> sorted_wrt (<) (map we_id es) \<and> (\<forall>e \<in> set es. \<not> we_delivered e))"

text \<open>What a step that leaves the store alone has to show.\<close>

lemma acked_append: "acked (log @ log') i \<longleftrightarrow> acked log i \<or> acked log' i"
  by (simp add: acked_def) blast

lemma ledger_quiet:
  assumes "ledger s0 log y" and "wy_store y' = wy_store y" and "wy_ready y' = wy_ready y"
    and "\<And>k es. (k, FlushMark es) \<in> set (wy_flushes y') \<Longrightarrow>
      (k, FlushMark es) \<in> set (wy_flushes y) \<or> (\<forall>e \<in> set es. acked log' (we_id e))"
    and "\<And>e. EStored e \<notin> set log'"
    and "\<And>k es. EPush k es \<in> set log' \<Longrightarrow> es \<noteq> [] \<and> sorted_wrt (<) (map we_id es) \<and> (\<forall>e \<in> set es. \<not> we_delivered e)"
  shows "ledger s0 (log @ log') y'"
proof -
  have "\<forall>k es. (k, FlushMark es) \<in> set (wy_flushes y') \<longrightarrow> (\<forall>e \<in> set es. acked log (we_id e) \<or> acked log' (we_id e))"
    using assms(1,4) unfolding ledger_def by blast
  then show ?thesis using assms(1-3,5,6) unfolding ledger_def kept_def acked_append by auto
qed

lemma set_update_entry: "x \<in> set (AList.update k v m) \<Longrightarrow> x = (k, v) \<or> x \<in> set m"
  using set_update_subset [of k v m] by auto

lemma flush_frame [simp]:
  "wy_store (wal_flush y) = wy_store y" "wy_ready (wal_flush y) = wy_ready y"
  "wy_store (set_flush k p y) = wy_store y" "wy_ready (set_flush k p y) = wy_ready y"
  "wy_store (end_flush k y) = wy_store y" "wy_ready (end_flush k y) = wy_ready y"
  by (simp_all add: wal_flush_def set_flush_def end_flush_def)

lemma mark_phases:
  "(j, FlushMark es) \<in> set (wy_flushes (wal_flush y)) \<Longrightarrow> (j, FlushMark es) \<in> set (wy_flushes y)"
  "(j, FlushMark es) \<in> set (wy_flushes (set_flush k p y)) \<Longrightarrow> (j, FlushMark es) \<in> set (wy_flushes y) \<or> p = FlushMark es"
  "(j, FlushMark es) \<in> set (wy_flushes (end_flush k y)) \<Longrightarrow> (j, FlushMark es) \<in> set (wy_flushes y)"
  by (auto simp: wal_flush_def set_flush_def end_flush_def set_delete split: if_splits dest: set_update_entry)

lemma failure_frame:
  "recordDeliveryFailure kind n now y = (y', es) \<Longrightarrow> wy_store y' = wy_store y \<and> wy_ready y' = wy_ready y \<and>
   wy_flushes y' = wy_flushes y \<and> wy_appends y' = wy_appends y \<and> wy_hasNewPending y' = wy_hasNewPending y \<and>
   wy_nextTask y' = wy_nextTask y \<and> (\<forall>e k l. EStored e \<notin> set es \<and> EPush k l \<notin> set es \<and> EAcked k l \<notin> set es)"
  by (auto simp: recordDeliveryFailure_def split: option.splits if_splits)

lemma recovery_frame:
  "recordDeliveryRecovery n y = (y', es) \<Longrightarrow> wy_store y' = wy_store y \<and> wy_ready y' = wy_ready y \<and>
   wy_flushes y' = wy_flushes y \<and> wy_appends y' = wy_appends y \<and> wy_hasNewPending y' = wy_hasNewPending y \<and>
   wy_nextTask y' = wy_nextTask y \<and> (\<forall>e k l. EStored e \<notin> set es \<and> EPush k l \<notin> set es \<and> EAcked k l \<notin> set es)"
  by (auto simp: recordDeliveryRecovery_def split: option.splits if_splits)

lemma ledger_setup:
  assumes l: "ledger s0 log y"
  shows "ledger s0 log (wal_setup now y)"
proof (cases "wy_ready y")
  case False
  have inv: "st_inv (wy_store y)" using l by (simp add: ledger_def)
  then show ?thesis using l False store.expire_inv [OF inv, of now WAL_TTL_MS] store.expire_getAll [OF inv, of now WAL_TTL_MS]
    by (simp add: ledger_def wal_setup_def)
qed (use l in \<open>simp add: wal_setup_def\<close>)

lemma ledger_stored:
  assumes l: "ledger s0 log y" and r: "wy_ready y"
    and y': "wy_store y' = st_append now item (wy_store y)" "wy_ready y' = wy_ready y" "wy_flushes y' = wy_flushes y"
  shows "ledger s0 (log @ [EStored (last (st_getAll (wy_store y')))]) y'"
proof -
  have inv: "st_inv (wy_store y)" using l by (simp add: ledger_def)
  obtain i where i: "st_getAll (st_append now item (wy_store y)) = st_getAll (wy_store y) @
      [\<lparr>we_id = i, we_update = item, we_delivered = False, we_createdAt = now\<rparr>]"
    using store.append_getAll [OF inv] by metis
  show ?thesis using l r y' store.append_inv [OF inv] unfolding ledger_def kept_def acked_append
    by (auto simp: i acked_def [of "[EStored x]" for x])
qed

lemma ledger_marked:
  assumes l: "ledger s0 log y" and k: "map_of (wy_flushes y) k = Some (FlushMark es)"
  shows "ledger s0 log (y\<lparr>wy_store := st_markDelivered (map we_id es) (wy_store y)\<rparr>)"
proof -
  have inv: "st_inv (wy_store y)" using l by (simp add: ledger_def)
  have ack: "\<forall>e \<in> set es. acked log (we_id e)" using l map_of_SomeD [OF k] by (auto simp: ledger_def)
  note g = store.mark_getAll [OF inv, of "map we_id es"]
  have "kept e (y\<lparr>wy_store := st_markDelivered (map we_id es) (wy_store y)\<rparr>) \<or> acked log (we_id e)" if kept: "kept e y" for e
  proof (cases "we_id e \<in> we_id ` set es")
    case True
    then show ?thesis using ack by auto
  next
    case False
    obtain e' where "e' \<in> set (st_getAll (wy_store y))" "we_id e' = we_id e" "we_update e' = we_update e" "\<not> we_delivered e'"
      using kept by (auto simp: kept_def)
    moreover then have "deliver (map we_id es) e' = e'" using False by (simp add: deliver_def)
    ultimately show ?thesis by (auto simp: kept_def g intro!: bexI [of _ e'] image_eqI [of _ _ e'])
  qed
  moreover have "acked log (we_id e) \<or> (\<exists>e0 \<in> set (st_getAll s0). we_id e0 = we_id e \<and> we_delivered e0)"
    if "e \<in> set (map (deliver (map we_id es)) (st_getAll (wy_store y)))" "we_delivered e" for e
    using that l ack by (auto simp: deliver_def ledger_def split: if_splits)
  ultimately show ?thesis using l store.mark_inv [OF inv] by (simp add: ledger_def g) blast
qed

lemma ledger_pruned: "ledger s0 log y \<Longrightarrow> ledger s0 log (wal_pruneDelivered y)"
proof -
  assume l: "ledger s0 log y"
  then have inv: "st_inv (wy_store y)" by (simp add: ledger_def)
  show ?thesis using l store.prune_inv [OF inv] store.prune_getAll [OF inv]
    unfolding ledger_def kept_def by (auto simp: wal_pruneDelivered_def undelivered_def)
qed
lemma ledger_append_resume:
  assumes l: "ledger s0 log y" and r: "append_resume now k y = (y', es)"
  shows "ledger s0 (log @ es) y'"
proof (cases "map_of (wy_appends y) k")
  case None
  then show ?thesis using l r by (simp add: append_resume_def)
next
  case (Some p)
  show ?thesis
  proof (cases p)
    case (AppendReady item)
    show ?thesis
    proof (cases "wy_ready y")
      case True
      then have "es = [EStored (last (st_getAll (wy_store y')))]" "wy_store y' = st_append now item (wy_store y)"
        "wy_ready y' = wy_ready y" "wy_flushes y' = wy_flushes y"
        using r Some AppendReady by (auto simp: append_resume_def Let_def)
      then show ?thesis using ledger_stored [OF l True] by simp
    next
      case False
      then show ?thesis using l r Some AppendReady by (simp add: append_resume_def)
    qed
  next
    case AppendStored
    then show ?thesis using r Some
      by (intro ledger_quiet [OF l]) (auto simp: append_resume_def dest!: mark_phases)
  qed
qed

text \<open>The outcomes of resuming a flush and of answering a push.\<close>

lemma flush_resume_cases:
  assumes "flush_resume k y = (y', es)"
  obtains (idle) "y' = y" "es = []"
  | (ready) "map_of (wy_flushes y) k = Some FlushReady" "wy_ready y"
      "y' = set_flush k FlushRead (y\<lparr>wy_isFlushing := True, wy_hasNewPending := False\<rparr>)" "es = []"
  | (none) "map_of (wy_flushes y) k = Some FlushRead" "undelivered (st_getAll (wy_store y)) = []"
      "y' = end_flush k (y\<lparr>wy_isFlushing := False\<rparr>)" "es = []"
  | (push) us where "map_of (wy_flushes y) k = Some FlushRead" "us = undelivered (st_getAll (wy_store y))" "us \<noteq> []"
      "y' = set_flush k (FlushPush us) y" "es = [EPush k us]"
  | (mark) us y1 where "map_of (wy_flushes y) k = Some (FlushMark us)"
      "recordDeliveryRecovery (length us) (y\<lparr>wy_store := st_markDelivered (map we_id us) (wy_store y)\<rparr>) = (y1, es)"
      "y' = (if wy_hasNewPending y1 then set_flush k FlushReady (y1\<lparr>wy_isFlushing := False\<rparr>)
             else end_flush k (y1\<lparr>wy_isFlushing := False\<rparr>))"
proof (cases "map_of (wy_flushes y) k")
  case None
  then show ?thesis using assms by (intro idle) (simp_all add: flush_resume_def)
next
  case (Some p)
  note r = assms [unfolded flush_resume_def Some]
  show ?thesis
  proof (cases p)
    case FlushReady
    show ?thesis
    proof (cases "wy_ready y")
      case True
      with r Some FlushReady show ?thesis by (intro ready) auto
    next
      case False
      with r FlushReady show ?thesis by (intro idle) auto
    qed
  next
    case FlushRead
    show ?thesis
    proof (cases "undelivered (st_getAll (wy_store y)) = []")
      case True
      with r Some FlushRead show ?thesis by (intro none) auto
    next
      case False
      with r Some FlushRead show ?thesis by (intro push [OF _ refl]) (auto simp: Let_def)
    qed
  next
    case (FlushPush us)
    then show ?thesis using r by (intro idle) auto
  next
    case (FlushMark us)
    obtain y1 es1 where "recordDeliveryRecovery (length us)
        (y\<lparr>wy_store := st_markDelivered (map we_id us) (wy_store y)\<rparr>) = (y1, es1)" by fastforce
    then show ?thesis using r Some FlushMark by (intro mark [of us y1]) (auto simp: Let_def)
  qed
qed

lemma push_answer_cases:
  assumes "push_answer outcome now k y = (y', es)"
  obtains (idle) "y' = y" "es = []"
  | (acked) us where "outcome = Delivered" "map_of (wy_flushes y) k = Some (FlushPush us)"
      "y' = set_flush k (FlushMark us) y" "es = [EAcked k us]"
  | (failed) us kind y1 where "outcome \<noteq> Delivered" "map_of (wy_flushes y) k = Some (FlushPush us)"
      "recordDeliveryFailure kind (length us) now y = (y1, es)" "y' = end_flush k (y1\<lparr>wy_isFlushing := False\<rparr>)"
proof (cases "\<exists>us. map_of (wy_flushes y) k = Some (FlushPush us)")
  case False
  then show ?thesis using assms
    by (intro idle) (auto simp: push_answer_def split: option.splits flush_phase.splits)
next
  case True
  then obtain us where us: "map_of (wy_flushes y) k = Some (FlushPush us)" ..
  note r = assms [unfolded push_answer_def us]
  show ?thesis
  proof (cases outcome)
    case Delivered
    then show ?thesis using r us by (intro acked) auto
  next
    case Refused
    obtain y1 es1 where "recordDeliveryFailure NotAcked (length us) now y = (y1, es1)" by fastforce
    then show ?thesis using r us Refused by (intro failed [of us NotAcked y1]) auto
  next
    case Thrown
    obtain y1 es1 where "recordDeliveryFailure PushError (length us) now y = (y1, es1)" by fastforce
    then show ?thesis using r us Thrown by (intro failed [of us PushError y1]) auto
  qed
qed

lemma ledger_flush_resume:
  assumes l: "ledger s0 log y" and r: "flush_resume k y = (y', es)"
  shows "ledger s0 (log @ es) y'"
  using r
proof (cases rule: flush_resume_cases)
  case (push us)
  have inv: "st_inv (wy_store y)" using l by (simp add: ledger_def)
  have "sorted_wrt (<) (map we_id us)" unfolding push(2) undelivered_def
    by (rule sorted_ids_filter) (rule store.ids_sorted [OF inv])
  then show ?thesis using push(2-) by (intro ledger_quiet [OF l]) (auto simp: undelivered_def dest!: mark_phases)
next
  case (mark us y1)
  note f = recovery_frame [OF mark(2)]
  show ?thesis using f mark(3)
    by (intro ledger_quiet [OF ledger_marked [OF l mark(1)]]) (auto split: if_splits dest!: mark_phases)
qed (intro ledger_quiet [OF l]; auto dest!: mark_phases)+

lemma ledger_push_answer:
  assumes l: "ledger s0 log y" and r: "push_answer outcome now k y = (y', es)"
  shows "ledger s0 (log @ es) y'"
  using r
proof (cases rule: push_answer_cases)
  case (acked us)
  then show ?thesis by (intro ledger_quiet [OF l]) (auto simp: acked_def dest!: mark_phases)
next
  case (failed us kind y1)
  note f = failure_frame [OF failed(3)]
  show ?thesis using f failed(4) by (intro ledger_quiet [OF l]) (auto dest!: mark_phases)
qed (intro ledger_quiet [OF l]; auto)

lemma ledger_step:
  assumes l: "ledger s0 log y" and st: "wal_step i y = (y', es)"
  shows "ledger s0 (log @ es) y'"
proof (cases i)
  case WFlush
  then show ?thesis using st by (intro ledger_quiet [OF l]) (auto dest!: mark_phases)
next
  case (WAppend item)
  then show ?thesis using st by (intro ledger_quiet [OF l]) (auto simp: wal_append_def)
next
  case (WAddCleanup fn)
  then show ?thesis using st by (intro ledger_quiet [OF l]) (auto simp: addCleanup_def)
next
  case WDestroy
  then show ?thesis using st
    by (intro ledger_quiet [OF l]) (auto simp: wal_destroy_def finishDeliveryOutage_def split: option.splits)
qed (use l st ledger_setup ledger_pruned ledger_append_resume ledger_flush_resume ledger_push_answer in auto)

lemma ledger_run: "wal_run s0 ins log y \<Longrightarrow> ledger s0 log y"
proof (induction rule: wal_run.induct)
  case (start label)
  then show ?case by (auto simp: ledger_def wal_new_def)
next
  case step
  then show ?case using ledger_step by blast
qed
section \<open>Nothing is stranded\<close>

text \<open>
  An undelivered entry is covered: a flush holds it, or some flush has yet to read the store, or
  a flush in flight will run again, or an append is about to ask for a flush; or nobody has asked
  for a flush so far.
\<close>

definition holds :: "'t flush_phase \<Rightarrow> nat \<Rightarrow> bool" where
  "holds p i \<longleftrightarrow> (\<exists>es. (p = FlushPush es \<or> p = FlushMark es) \<and> i \<in> we_id ` set es)"

fun in_flight :: "'t flush_phase \<Rightarrow> bool" where
  "in_flight (FlushPush _) = True"
| "in_flight (FlushMark _) = True"
| "in_flight _ = False"

definition covered :: "bool \<Rightarrow> 't wal_syncer \<Rightarrow> nat \<Rightarrow> bool" where
  "covered asked y i \<longleftrightarrow> \<not> asked \<or> (\<exists>p \<in> ran (map_of (wy_flushes y)). holds p i \<or> \<not> in_flight p) \<or>
     (wy_hasNewPending y \<and> (\<exists>p \<in> ran (map_of (wy_flushes y)). in_flight p)) \<or>
     AppendStored \<in> ran (map_of (wy_appends y))"

definition unstranded :: "bool \<Rightarrow> 't wal_syncer \<Rightarrow> bool" where
  "unstranded asked y \<longleftrightarrow> st_inv (wy_store y) \<and> (wy_isFlushing y \<longrightarrow> map_of (wy_flushes y) \<noteq> Map.empty) \<and>
     (\<not> asked \<longrightarrow> map_of (wy_flushes y) = Map.empty \<and> AppendStored \<notin> ran (map_of (wy_appends y))) \<and>
     (\<forall>k \<in> dom (map_of (wy_appends y)). k < wy_nextTask y) \<and>
     (\<forall>e \<in> set (undelivered (st_getAll (wy_store y))). covered asked y (we_id e))"

lemma flushes_simps [simp]:
  "map_of (wy_flushes (set_flush k p y)) = (map_of (wy_flushes y))(k \<mapsto> p)"
  "map_of (wy_flushes (end_flush k y)) = (map_of (wy_flushes y))(k := None)"
  "wy_hasNewPending (set_flush k p y) = wy_hasNewPending y" "wy_hasNewPending (end_flush k y) = wy_hasNewPending y"
  "wy_isFlushing (set_flush k p y) = wy_isFlushing y" "wy_isFlushing (end_flush k y) = wy_isFlushing y"
  "wy_appends (set_flush k p y) = wy_appends y" "wy_appends (end_flush k y) = wy_appends y"
  by (simp_all add: set_flush_def end_flush_def)

lemma covered_ready: "m k = Some p \<Longrightarrow> \<not> in_flight p \<Longrightarrow> m = map_of (wy_flushes y) \<Longrightarrow> covered asked y i"
  by (auto simp: covered_def ran_def)

text \<open>A request for a flush covers everything, if it starts one or one is in flight.\<close>

lemma flush_covers:
  assumes "wy_isFlushing y \<longrightarrow> map_of (wy_flushes y) \<noteq> Map.empty" and "\<not> wy_isFlushing y \<or> wy_hasNewPending y"
  shows "covered asked (wal_flush y) i"
proof (cases "wy_isFlushing y")
  case True
  then obtain k p where "map_of (wy_flushes y) k = Some p" using assms(1) by (metis not_Some_eq ext)
  then show ?thesis using True assms(2) by (cases "in_flight p") (auto simp: covered_def wal_flush_def intro: ranI)
next
  case False
  then show ?thesis
    by (intro covered_ready [of "map_of (wy_flushes (wal_flush y))" "wy_nextTask y" FlushReady])
      (simp_all add: wal_flush_def set_flush_def)
qed

lemma flush_frame2 [simp]:
  "wy_appends (wal_flush y) = wy_appends y" "wy_hasNewPending (wal_flush y) = wy_hasNewPending y"
  "wy_isFlushing (wal_flush y) = wy_isFlushing y" "wy_nextTask y \<le> wy_nextTask (wal_flush y)"
  "wy_nextTask (set_flush k p y) = wy_nextTask y" "wy_nextTask (end_flush k y) = wy_nextTask y"
  by (simp_all add: wal_flush_def set_flush_def end_flush_def)

lemma ran_upd: "ran (m(k \<mapsto> p)) = insert p (ran (m(k := None)))"
  by (auto simp: ran_def)

lemma ran_split: "m k = Some p \<Longrightarrow> ran m = insert p (ran (m(k := None)))"
  by (metis ran_upd fun_upd_triv)

lemma flush_tasks: "\<forall>k \<in> D. k < wy_nextTask y \<Longrightarrow> k \<in> D \<Longrightarrow> k < wy_nextTask (wal_flush y)"
  using flush_frame2(4) [of y] less_le_trans by blast

lemma unstranded_shrink:
  assumes "unstranded asked y" and "st_inv (wy_store y')"
    and "set (undelivered (st_getAll (wy_store y'))) \<subseteq> set (undelivered (st_getAll (wy_store y)))"
    and "wy_flushes y' = wy_flushes y" "wy_appends y' = wy_appends y" "wy_isFlushing y' = wy_isFlushing y"
      "wy_hasNewPending y' = wy_hasNewPending y" "wy_nextTask y' = wy_nextTask y"
  shows "unstranded asked y'"
  using assms unfolding unstranded_def covered_def by auto

lemma flush_nonempty: "wy_isFlushing y \<longrightarrow> map_of (wy_flushes y) \<noteq> Map.empty \<Longrightarrow> map_of (wy_flushes (wal_flush y)) \<noteq> Map.empty"
  by (auto simp: wal_flush_def set_flush_def)

lemma unstranded_flush:
  assumes u: "unstranded asked y"
  shows "unstranded True (wal_flush y)"
proof -
  have "covered True (wal_flush y) (we_id e)" if "e \<in> set (undelivered (st_getAll (wy_store y)))" for e
  proof (cases "wy_isFlushing y")
    case True
    then have "asked" using u by (auto simp: unstranded_def)
    then show ?thesis using u that True by (simp add: unstranded_def wal_flush_def)
  next
    case False
    then show ?thesis using u by (intro flush_covers) (auto simp: unstranded_def)
  qed
  then show ?thesis using u flush_nonempty [of y] flush_tasks [of _ y] by (auto simp: unstranded_def)
qed

lemma unstranded_append_resume:
  assumes u: "unstranded asked y" and r: "append_resume now k y = (y', es)"
  shows "unstranded (asked \<or> (\<exists>e. EStored e \<in> set es)) y'"
proof (cases "map_of (wy_appends y) k")
  case None
  then show ?thesis using u r by (simp add: append_resume_def)
next
  case (Some p)
  then have k: "k < wy_nextTask y" using u by (auto simp: unstranded_def)
  show ?thesis
  proof (cases p)
    case (AppendReady item)
    show ?thesis
    proof (cases "wy_ready y")
      case True
      have "covered True y' i" for i
        using r Some AppendReady True by (auto simp: append_resume_def covered_def Let_def ran_upd)
      moreover have "st_inv (wy_store y')" using u r Some AppendReady True
        by (auto simp: append_resume_def Let_def unstranded_def store.append_inv)
      moreover have "wy_isFlushing y' = wy_isFlushing y" "wy_flushes y' = wy_flushes y" "wy_nextTask y' = wy_nextTask y"
        "map_of (wy_appends y') = (map_of (wy_appends y))(k \<mapsto> AppendStored)" "\<exists>e. EStored e \<in> set es"
        using r Some AppendReady True by (auto simp: append_resume_def Let_def)
      ultimately show ?thesis using u k by (simp add: unstranded_def)
    next
      case False
      then show ?thesis using u r Some AppendReady by (simp add: append_resume_def)
    qed
  next
    case AppendStored
    then have asked using u Some by (auto simp: unstranded_def ran_def)
    let ?y = "y\<lparr>wy_appends := AList.delete k (wy_appends y), wy_hasNewPending := True\<rparr>"
    have y': "y' = wal_flush ?y" "es = []" using r Some AppendStored by (simp_all add: append_resume_def)
    have "covered True (wal_flush ?y) i" for i
      using u by (intro flush_covers) (auto simp: unstranded_def)
    moreover have "\<forall>j \<in> dom (map_of (wy_appends y')). j < wy_nextTask y'"
      using u flush_tasks [of "dom (map_of (wy_appends y))" ?y] by (auto simp: y' unstranded_def split: if_splits)
    ultimately show ?thesis using u flush_nonempty [of ?y] \<open>asked\<close> by (simp add: y' unstranded_def)
  qed
qed

lemma unstranded_flush_resume:
  assumes u: "unstranded asked y" and r: "flush_resume k y = (y', es)"
  shows "unstranded asked y'"
  using r
proof (cases rule: flush_resume_cases)
  case idle
  then show ?thesis using u by simp
next
  case ready
  then have "covered asked y' i" for i
    by (intro covered_ready [of "map_of (wy_flushes y')" k FlushRead]) simp_all
  then show ?thesis using u ready by (auto simp: unstranded_def)
next
  case none
  then show ?thesis using u by (auto simp: unstranded_def)
next
  case (push us)
  have "covered asked y' (we_id e)" if "e \<in> set us" for e
    using that push(4) by (auto simp: covered_def holds_def ran_upd)
  then show ?thesis using u push by (auto simp: unstranded_def)
next
  case (mark us y1)
  note f = recovery_frame [OF mark(2)]
  have inv: "st_inv (wy_store y)" using u by (simp add: unstranded_def)
  note g = store.mark_getAll [OF inv, of "map we_id us"]
  have asked using u mark(1) by (auto simp: unstranded_def)
  have ran: "ran (map_of (wy_flushes y)) = insert (FlushMark us) (ran ((map_of (wy_flushes y))(k := None)))"
    by (rule ran_split [of "map_of (wy_flushes y)", OF mark(1)])
  have "covered asked y' (we_id e)" if e: "e \<in> set (st_getAll (wy_store y))" "\<not> we_delivered e" "we_id e \<notin> we_id ` set us" for e
  proof -
    have "covered asked y (we_id e)" using u e by (simp add: unstranded_def undelivered_def)
    then show ?thesis using f mark(3) e(3) \<open>asked\<close> unfolding covered_def ran
      by (auto simp: holds_def ran_upd split: if_splits)
  qed
  then have "\<forall>e \<in> set (undelivered (st_getAll (wy_store y'))). covered asked y' (we_id e)"
    using f mark(3) by (auto simp: g undelivered_def deliver_def split: if_splits)
  then show ?thesis using u f mark(3) store.mark_inv [OF inv] \<open>asked\<close>
    by (auto simp: unstranded_def split: if_splits)
qed

lemma unstranded_delivered:
  assumes u: "unstranded asked y" and r: "push_answer Delivered now k y = (y', es)"
  shows "unstranded asked y'"
  using r
proof (cases rule: push_answer_cases)
  case idle
  then show ?thesis using u by simp
next
  case (acked us)
  have asked using u acked(2) by (auto simp: unstranded_def)
  have ran: "ran (map_of (wy_flushes y)) = insert (FlushPush us) (ran ((map_of (wy_flushes y))(k := None)))"
    by (rule ran_split [of "map_of (wy_flushes y)", OF acked(2)])
  have "covered asked y i \<Longrightarrow> covered asked y' i" for i
    unfolding covered_def acked(3) flushes_simps ran_upd ran by (auto simp: holds_def)
  then show ?thesis using u \<open>asked\<close> by (auto simp: unstranded_def acked(3))
qed simp

fun acking :: "'t wal_input \<Rightarrow> bool" where
  "acking (WPushAnswer outcome now k) = (outcome = Delivered)"
| "acking _ = True"

lemma unstranded_step:
  assumes u: "unstranded asked y" and i: "acking i" and st: "wal_step i y = (y', es)"
  shows "unstranded (asked \<or> i = WFlush \<or> (\<exists>e. EStored e \<in> set es)) y'"
proof (cases i)
  case (WSetup now)
  have inv: "st_inv (wy_store y)" using u by (simp add: unstranded_def)
  have "unstranded asked y'" using st WSetup inv store.expire_inv [OF inv] store.expire_getAll [OF inv]
    by (intro unstranded_shrink [OF u]) (auto simp: wal_setup_def undelivered_def split: if_splits)
  then show ?thesis using st WSetup by auto
next
  case (WAppend item)
  have "wy_nextTask y \<notin> dom (map_of (wy_appends y))" using u by (auto simp: unstranded_def)
  then have "ran ((map_of (wy_appends y))(wy_nextTask y \<mapsto> AppendReady item)) = insert (AppendReady item) (ran (map_of (wy_appends y)))"
    by (intro ran_map_upd) auto
  then show ?thesis using u st WAppend
    by (auto simp: unstranded_def wal_append_def covered_def less_Suc_eq)
next
  case WFlush
  then show ?thesis using unstranded_flush [OF u] st by simp
next
  case (WAppendResume now k)
  then show ?thesis using unstranded_append_resume [OF u] st by simp
next
  case (WFlushResume k)
  then have "unstranded asked y'" using unstranded_flush_resume [OF u] st by simp
  moreover have "EStored e \<notin> set es" for e
    using WFlushResume st by (auto elim!: flush_resume_cases dest: recovery_frame)
  ultimately show ?thesis using WFlushResume by simp
next
  case (WPushAnswer outcome now k)
  then have "unstranded asked y'" using unstranded_delivered [OF u] st i by simp
  moreover have "EStored e \<notin> set es" for e
    using WPushAnswer st by (auto elim!: push_answer_cases dest: failure_frame)
  ultimately show ?thesis using WPushAnswer by simp
next
  case WPruneDelivered
  have inv: "st_inv (wy_store y)" using u by (simp add: unstranded_def)
  have "unstranded asked y'" using st WPruneDelivered store.prune_inv [OF inv] store.prune_getAll [OF inv]
    by (intro unstranded_shrink [OF u]) (auto simp: wal_pruneDelivered_def undelivered_def)
  then show ?thesis using st WPruneDelivered by auto
next
  case (WAddCleanup fn)
  have "unstranded asked y'" using st WAddCleanup u
    by (intro unstranded_shrink [OF u]) (auto simp: addCleanup_def unstranded_def)
  then show ?thesis using st WAddCleanup by auto
next
  case WDestroy
  then have "unstranded asked y'" "\<forall>e. EStored e \<notin> set es" using st u
    by (intro unstranded_shrink [OF u]; auto simp: wal_destroy_def finishDeliveryOutage_def unstranded_def split: option.splits)
      (use st WDestroy in \<open>auto simp: wal_destroy_def finishDeliveryOutage_def split: option.splits\<close>)
  then show ?thesis using WDestroy by auto
qed

lemma unstranded_run:
  "wal_run s0 ins log y \<Longrightarrow> list_all acking ins \<Longrightarrow> unstranded (WFlush \<in> set ins \<or> (\<exists>e. EStored e \<in> set log)) y"
proof (induction rule: wal_run.induct)
  case (start label)
  then show ?case by (simp add: unstranded_def wal_new_def covered_def)
next
  case (step ins log y i y' es)
  have "unstranded ((WFlush \<in> set ins \<or> (\<exists>e. EStored e \<in> set log)) \<or> i = WFlush \<or> (\<exists>e. EStored e \<in> set es)) y'"
    by (rule unstranded_step [OF step.IH _ step.hyps(2)]) (use step.prems in simp_all)
  moreover have "((WFlush \<in> set ins \<or> (\<exists>e. EStored e \<in> set log)) \<or> i = WFlush \<or> (\<exists>e. EStored e \<in> set es)) =
      (WFlush \<in> set (ins @ [i]) \<or> (\<exists>e. EStored e \<in> set (log @ es)))" by auto
  ultimately show ?case by simp
qed

lemma wal_exec_run:
  "wal_run s0 ins0 log0 y0 \<Longrightarrow> wal_exec ins y0 = (y, log) \<Longrightarrow> wal_run s0 (ins0 @ ins) (log0 @ log) y"
proof (induction ins arbitrary: ins0 log0 y0 log)
  case (Cons i ins)
  obtain y1 es where st: "wal_step i y0 = (y1, es)" by fastforce
  obtain es' where es': "wal_exec ins y1 = (y, es')" "log = es @ es'"
    using Cons.prems(2) st by (cases "wal_exec ins y1") auto
  from Cons.IH [OF wal_run.step [OF Cons.prems(1) st] es'(1)] es'(2) show ?case by simp
qed simp

section \<open>Claims\<close>

text \<open>
  C30: no update is lost and none is written off without an acknowledgement. In every run, with
  any interleaving of appends, flushes, prunes and failing pushes, an entry that was written is
  still undelivered in the store unless a push with it was acknowledged; an entry that is marked
  delivered was so from the start or was acknowledged; and every push carries undelivered entries
  in the order they were appended.
\<close>

theorem wal_loses_nothing:
  assumes "wal_run s0 ins log y"
  shows "(\<forall>e. EStored e \<in> set log \<longrightarrow> kept e y \<or> acked log (we_id e)) \<and>
    (\<forall>e \<in> set (st_getAll (wy_store y)). we_delivered e \<longrightarrow>
       acked log (we_id e) \<or> (\<exists>e0 \<in> set (st_getAll s0). we_id e0 = we_id e \<and> we_delivered e0)) \<and>
    (\<forall>k es. EPush k es \<in> set log \<longrightarrow> es \<noteq> [] \<and> sorted_wrt (<) (map we_id es) \<and> (\<forall>e \<in> set es. \<not> we_delivered e))"
  using ledger_run [OF assms] unfolding ledger_def by blast

text \<open>A run for the examples: an update is appended, pushed and refused.\<close>

definition refused_run :: "nat wal_input list" where
  "refused_run = [WSetup 0, WAppend 7, WAppendResume 5 0, WAppendResume 5 0, WFlushResume 1, WFlushResume 1,
     WPushAnswer Refused 9 1]"

definition acked_run :: "nat wal_input list" where
  "acked_run = [WSetup 0, WAppend 7, WAppendResume 5 0, WAppendResume 5 0, WFlushResume 1, WFlushResume 1,
     WAppend 8, WAppendResume 6 2, WAppendResume 6 2, WPushAnswer Delivered 9 1, WFlushResume 1, WFlushResume 1,
     WFlushResume 1, WPushAnswer Delivered 9 1, WFlushResume 1]"

theorem wal_loses_nothing_witness:
  "kept \<lparr>we_id = 1, we_update = 7, we_delivered = False, we_createdAt = 5\<rparr>
     (fst (wal_exec refused_run (wal_new (MemoryStore ms_new) None)))"
proof -
  let ?y = "wal_new (MemoryStore ms_new) None"
  let ?e = "\<lparr>we_id = 1, we_update = 7, we_delivered = False, we_createdAt = 5\<rparr> :: nat wal_entry"
  have "wal_run (MemoryStore ms_new) [] [] ?y" by (rule wal_run.start) (simp add: ms_inv_def ms_new_def)
  from wal_exec_run [OF this, of refused_run]
  have run: "wal_run (MemoryStore ms_new) refused_run (snd (wal_exec refused_run ?y)) (fst (wal_exec refused_run ?y))"
    by simp
  have "snd (wal_exec refused_run ?y) = [EStored ?e, EPush 1 [?e]]" by code_simp
  then show ?thesis using wal_loses_nothing [OF run] by (simp add: acked_def)
qed

text \<open>
  C31: nothing is stranded. When every push is acknowledged, then in every run in which a flush
  was requested or an update written, once no append and no flush is in progress every entry of
  the store is delivered: updates appended during a flush are picked up by it or by its rerun.
\<close>

theorem wal_strands_nothing:
  assumes "wal_run s0 ins log y" and "list_all acking ins" and "WFlush \<in> set ins \<or> (\<exists>e. EStored e \<in> set log)"
    and "wy_appends y = []" and "wy_flushes y = []"
  shows "\<forall>e \<in> set (st_getAll (wy_store y)). we_delivered e"
  using unstranded_run [OF assms(1,2)] assms(3-5) by (auto simp: unstranded_def covered_def undelivered_def)

theorem wal_strands_nothing_witness:
  "list_all we_delivered (st_getAll (wy_store (fst (wal_exec acked_run (wal_new (MemoryStore ms_new) None)))))"
proof -
  let ?y = "wal_new (MemoryStore ms_new) None"
  let ?e = "\<lparr>we_id = 1, we_update = 7, we_delivered = False, we_createdAt = 5\<rparr> :: nat wal_entry"
  have "wal_run (MemoryStore ms_new) [] [] ?y" by (rule wal_run.start) (simp add: ms_inv_def ms_new_def)
  from wal_exec_run [OF this, of acked_run]
  have run: "wal_run (MemoryStore ms_new) acked_run (snd (wal_exec acked_run ?y)) (fst (wal_exec acked_run ?y))"
    by simp
  have c: "list_all acking acked_run" "hd (snd (wal_exec acked_run ?y)) = EStored ?e" "snd (wal_exec acked_run ?y) \<noteq> []"
    "wy_appends (fst (wal_exec acked_run ?y)) = []" "wy_flushes (fst (wal_exec acked_run ?y)) = []"
    by code_simp+
  then have "\<exists>e. EStored e \<in> set (snd (wal_exec acked_run ?y))" by (metis list.set_sel(1))
  then show ?thesis unfolding list_all_iff by (intro wal_strands_nothing [OF run c(1)] disjI2 c(4,5))
qed

text \<open>
  C32: the guard against concurrent flushes does not hold. \<open>isFlushing\<close> is only set after the
  \<open>await\<close> of \<open>ready()\<close>, so two calls of \<open>flush\<close> in a row start two flushes, and whenever the
  store has undelivered entries both push all of them.
\<close>

theorem two_flushes_push_twice:
  assumes "\<not> wy_isFlushing y" and "wy_ready y" and "wy_flushes y = []"
    and "undelivered (st_getAll (wy_store y)) = es" and "es \<noteq> []"
  defines "n \<equiv> wy_nextTask y"
  shows "snd (wal_exec [WFlush, WFlush, WFlushResume n, WFlushResume (n + 1), WFlushResume n, WFlushResume (n + 1)] y) =
    [EPush n es, EPush (n + 1) es]"
  using assms by (simp add: wal_flush_def set_flush_def flush_resume_def)

theorem two_flushes_push_twice_witness:
  "snd (wal_exec [WFlush, WFlush, WFlushResume 2, WFlushResume 3, WFlushResume 2, WFlushResume 3]
     (fst (wal_exec refused_run (wal_new (MemoryStore ms_new) None)))) =
   [EPush 2 [\<lparr>we_id = 1, we_update = 7, we_delivered = False, we_createdAt = 5\<rparr>],
    EPush 3 [\<lparr>we_id = 1, we_update = 7, we_delivered = False, we_createdAt = 5\<rparr>]]"
proof -
  let ?y = "fst (wal_exec refused_run (wal_new (MemoryStore ms_new) None))"
  have "\<not> wy_isFlushing ?y" "wy_ready ?y" "wy_flushes ?y = []" "wy_nextTask ?y = 2"
    "undelivered (st_getAll (wy_store ?y)) = [\<lparr>we_id = 1, we_update = 7, we_delivered = False, we_createdAt = 5\<rparr>]"
    by code_simp+
  then show ?thesis using two_flushes_push_twice [of ?y] by simp
qed

end
