(* ===== verification/JsSet.thy ===== *)
theory JsSet
  imports Prelude
begin

text \<open>
  The JavaScript \<open>Set\<close>, which iterates in insertion order, as a list without duplicates:
  \<open>add\<close> appends a new element at the end and ignores one that is present, \<open>delete\<close> drops the
  element, \<open>new Set(iterable)\<close> adds the elements in turn.
\<close>

type_synonym 'a jsset = "'a list"

definition set_add :: "'a \<Rightarrow> 'a jsset \<Rightarrow> 'a jsset" where
  "set_add x s = (if x \<in> set s then s else s @ [x])"

definition set_delete :: "'a \<Rightarrow> 'a jsset \<Rightarrow> 'a jsset" where
  "set_delete x s = filter (\<lambda>y. y \<noteq> x) s"

definition set_of :: "'a list \<Rightarrow> 'a jsset" where
  "set_of xs = foldl (\<lambda>s x. set_add x s) [] xs"

lemma set_set_add [simp]: "set (set_add x s) = insert x (set s)"
  by (auto simp: set_add_def)

lemma distinct_set_add [simp]: "distinct s \<Longrightarrow> distinct (set_add x s)"
  by (simp add: set_add_def)

lemma set_set_delete [simp]: "set (set_delete x s) = set s - {x}"
  by (auto simp: set_delete_def)

lemma distinct_set_delete [simp]: "distinct s \<Longrightarrow> distinct (set_delete x s)"
  by (simp add: set_delete_def)

lemma set_delete_absent [simp]: "x \<notin> set s \<Longrightarrow> set_delete x s = s"
  by (induction s) (auto simp: set_delete_def)

lemma set_add_present [simp]: "x \<in> set s \<Longrightarrow> set_add x s = s"
  by (simp add: set_add_def)

lemma set_foldl_add [simp]: "set (foldl (\<lambda>s x. set_add x s) s xs) = set s \<union> set xs"
  by (induction xs arbitrary: s) auto

lemma distinct_foldl_add [simp]: "distinct s \<Longrightarrow> distinct (foldl (\<lambda>s x. set_add x s) s xs)"
  by (induction xs arbitrary: s) auto

lemma set_set_of [simp]: "set (set_of xs) = set xs"
  by (simp add: set_of_def)

lemma distinct_set_of [simp]: "distinct (set_of xs)"
  by (simp add: set_of_def)

lemma foldl_add_distinct: "distinct xs \<Longrightarrow> set s \<inter> set xs = {} \<Longrightarrow> foldl (\<lambda>s x. set_add x s) s xs = s @ xs"
  by (induction xs arbitrary: s) (auto simp: set_add_def)

lemma set_of_distinct [simp]: "distinct xs \<Longrightarrow> set_of xs = xs"
  by (simp add: set_of_def foldl_add_distinct)

text \<open>Two sets are equal as sets when they have the same size and one includes the other.\<close>

lemma jsset_eqI:
  assumes "distinct s" "distinct t" "length t = length s" "list_all (\<lambda>x. x \<in> set s) t"
  shows "set t = set s"
  using assms by (simp add: list_all_iff card_subset_eq distinct_card subset_iff flip: distinct_card)

lemma jsset_eqD:
  assumes "distinct s" "distinct t" "set t = set s"
  shows "length t = length s \<and> list_all (\<lambda>x. x \<in> set s) t"
  using assms by (metis distinct_card list_all_iff)

text \<open>\<open>evictOldest\<close> (\<open>lib/core/util/evictOldest.ts\<close>) of a \<open>Set\<close> or \<open>Map\<close> drops its oldest entries.\<close>

function evictOldest :: "nat \<Rightarrow> 'a list \<Rightarrow> 'a list" where
  "evictOldest maxSize xs = (if length xs > maxSize then evictOldest maxSize (tl xs) else xs)"
  by pat_completeness auto
termination
  by (relation "measure (\<lambda>(_, xs). length xs)") auto

declare evictOldest.simps [simp del]

lemma evictOldest_drop: "evictOldest n xs = drop (length xs - n) xs"
proof (induction n xs rule: evictOldest.induct)
  case (1 n xs)
  show ?case
  proof (cases "length xs > n")
    case True
    then have "length xs - n = Suc (length (tl xs) - n)" by simp
    with 1 True show ?thesis by (subst evictOldest.simps) (simp add: drop_Suc)
  qed (simp add: evictOldest.simps)
qed

lemma length_evictOldest: "length (evictOldest n xs) \<le> n"
  by (simp add: evictOldest_drop)

lemma set_evictOldest: "set (evictOldest n xs) \<subseteq> set xs"
  by (simp add: evictOldest_drop set_drop_subset)

end
