(* ===== verification/Selection.thy ===== *)
theory Selection
  imports JsSet Simulation
begin

text \<open>
  The selection state of a list (\<open>components/list/create-selection-state.ts\<close>): a set of keys,
  kept apart from the items it refers to, and the calls of \<open>onChange\<close>.

  \<^item> The memos \<open>keys\<close>, \<open>items\<close> and \<open>missingKeys\<close> are functions of the state and the current items.
  \<^item> \<open>sl_changes\<close> records the sets passed to \<open>onChange\<close>, oldest first; the callback is taken not
    to call the selection again.
  \<^item> The accessor \<open>items\<close> and the function \<open>getKey\<close> are arguments of the operations that read them.
\<close>

section \<open>Operations\<close>

type_synonym list_key = string

record selection_state =
  sl_selected :: "list_key jsset"
  sl_changes :: "list_key jsset list"

definition createSelectionState :: "list_key list \<Rightarrow> selection_state" where
  "createSelectionState initialKeys = \<lparr>sl_selected = set_of initialKeys, sl_changes = []\<rparr>"

definition sel_currentItems :: "('a \<Rightarrow> list_key) \<Rightarrow> 'a list \<Rightarrow> selection_state \<Rightarrow> 'a list" where
  "sel_currentItems getKey items s = filter (\<lambda>item. getKey item \<in> set (sl_selected s)) items"

definition sel_missingKeys :: "('a \<Rightarrow> list_key) \<Rightarrow> 'a list \<Rightarrow> selection_state \<Rightarrow> list_key jsset" where
  "sel_missingKeys getKey items s =
     (let available = set_of (map getKey items)
      in set_of (filter (\<lambda>key. key \<notin> set available) (sl_selected s)))"

definition sel_notify :: "selection_state \<Rightarrow> selection_state" where
  "sel_notify s = s\<lparr>sl_changes := sl_changes s @ [set_of (sl_selected s)]\<rparr>"

definition sel_select :: "list_key \<Rightarrow> selection_state \<Rightarrow> selection_state" where
  "sel_select key s =
     (if key \<in> set (sl_selected s) then s
      else sel_notify (s\<lparr>sl_selected := set_add key (sl_selected s)\<rparr>))"

definition sel_deselect :: "list_key \<Rightarrow> selection_state \<Rightarrow> selection_state" where
  "sel_deselect key s =
     (if key \<notin> set (sl_selected s) then s
      else sel_notify (s\<lparr>sl_selected := set_delete key (sl_selected s)\<rparr>))"

text \<open>The loops of \<open>add\<close> and \<open>prune\<close>, with the flag \<open>changed\<close>.\<close>

fun add_loop :: "list_key list \<Rightarrow> list_key jsset \<Rightarrow> bool \<Rightarrow> list_key jsset \<times> bool" where
  "add_loop [] selected changed = (selected, changed)"
| "add_loop (key # nextKeys) selected changed =
     (if key \<in> set selected then add_loop nextKeys selected changed
      else add_loop nextKeys (set_add key selected) True)"

definition sel_add :: "list_key list \<Rightarrow> selection_state \<Rightarrow> selection_state" where
  "sel_add nextKeys s =
     (case add_loop nextKeys (sl_selected s) False of (selected, changed) \<Rightarrow>
        let s1 = s\<lparr>sl_selected := selected\<rparr> in if changed then sel_notify s1 else s1)"

definition sel_replace :: "list_key list \<Rightarrow> selection_state \<Rightarrow> selection_state" where
  "sel_replace nextKeys s =
     (let next = set_of nextKeys
      in if length next = length (sl_selected s) \<and> list_all (\<lambda>key. key \<in> set (sl_selected s)) next then s
         else sel_notify (s\<lparr>sl_selected := foldl (\<lambda>sel key. set_add key sel) [] next\<rparr>))"

definition sel_clear :: "selection_state \<Rightarrow> selection_state" where
  "sel_clear s = (if length (sl_selected s) = 0 then s else sel_notify (s\<lparr>sl_selected := []\<rparr>))"

fun prune_loop :: "list_key jsset \<Rightarrow> list_key list \<Rightarrow> list_key jsset \<Rightarrow> bool \<Rightarrow> list_key jsset \<times> bool" where
  "prune_loop available [] selected changed = (selected, changed)"
| "prune_loop available (key # rest) selected changed =
     (if key \<in> set available then prune_loop available rest selected changed
      else prune_loop available rest (set_delete key selected) True)"

definition sel_prune :: "('a \<Rightarrow> list_key) \<Rightarrow> 'a list \<Rightarrow> selection_state \<Rightarrow> selection_state" where
  "sel_prune getKey items s =
     (case prune_loop (set_of (map getKey items)) (sl_selected s) (sl_selected s) False of (selected, changed) \<Rightarrow>
        let s1 = s\<lparr>sl_selected := selected\<rparr> in if changed then sel_notify s1 else s1)"

definition sel_count :: "selection_state \<Rightarrow> nat" where
  "sel_count s = length (sl_selected s)"

definition sel_isSelected :: "list_key \<Rightarrow> selection_state \<Rightarrow> bool" where
  "sel_isSelected key s \<longleftrightarrow> key \<in> set (sl_selected s)"

definition sel_toggle :: "list_key \<Rightarrow> selection_state \<Rightarrow> selection_state" where
  "sel_toggle key s = (if key \<in> set (sl_selected s) then sel_deselect key s else sel_select key s)"

section \<open>What each operation does to the set of keys, and when it notifies\<close>

text \<open>
  The contract of every operation: the selection becomes \<open>K\<close>, and \<open>onChange\<close> is called with the
  new set exactly when it differs from the old one.
\<close>

definition becomes :: "list_key set \<Rightarrow> selection_state \<Rightarrow> selection_state \<Rightarrow> bool" where
  "becomes K s s' \<longleftrightarrow> set (sl_selected s') = K \<and> distinct (sl_selected s') \<and>
     (if set (sl_selected s) = K then s' = s else sl_changes s' = sl_changes s @ [sl_selected s'])"

lemma becomes_same: "distinct (sl_selected s) \<Longrightarrow> set (sl_selected s) = K \<Longrightarrow> becomes K s s"
  by (simp add: becomes_def)

lemma becomes_notify:
  "distinct sel \<Longrightarrow> set sel = K \<Longrightarrow> set (sl_selected s) \<noteq> K \<Longrightarrow> becomes K s (sel_notify (s\<lparr>sl_selected := sel\<rparr>))"
  by (simp add: becomes_def sel_notify_def)

lemma select_becomes: "distinct (sl_selected s) \<Longrightarrow> becomes (insert key (set (sl_selected s))) s (sel_select key s)"
  by (auto simp: sel_select_def intro!: becomes_notify becomes_same)

lemma deselect_becomes: "distinct (sl_selected s) \<Longrightarrow> becomes (set (sl_selected s) - {key}) s (sel_deselect key s)"
  by (auto simp: sel_deselect_def intro!: becomes_notify becomes_same)

lemma add_loop_result:
  "add_loop xs sel ch = (foldl (\<lambda>s x. set_add x s) sel xs, ch \<or> \<not> set xs \<subseteq> set sel)"
  by (induction xs arbitrary: sel ch) auto

lemma foldl_add_subset: "set xs \<subseteq> set sel \<Longrightarrow> foldl (\<lambda>s x. set_add x s) sel xs = sel"
  by (induction xs) auto

lemma add_becomes: "distinct (sl_selected s) \<Longrightarrow> becomes (set (sl_selected s) \<union> set xs) s (sel_add xs s)"
  by (auto simp: sel_add_def add_loop_result foldl_add_subset Let_def intro!: becomes_notify becomes_same)

lemma replace_becomes:
  assumes "distinct (sl_selected s)"
  shows "becomes (set xs) s (sel_replace xs s)"
proof (cases "length (set_of xs) = length (sl_selected s) \<and> list_all (\<lambda>key. key \<in> set (sl_selected s)) (set_of xs)")
  case True
  then show ?thesis using assms jsset_eqI [of "sl_selected s" "set_of xs"]
    by (auto simp: sel_replace_def intro!: becomes_same)
next
  case False
  then have "set (sl_selected s) \<noteq> set xs" using assms jsset_eqD [of "sl_selected s" "set_of xs"] by auto
  with False show ?thesis by (auto simp: sel_replace_def Let_def intro!: becomes_notify)
qed

lemma clear_becomes: "distinct (sl_selected s) \<Longrightarrow> becomes {} s (sel_clear s)"
  by (auto simp: sel_clear_def intro!: becomes_notify becomes_same)

lemma prune_loop_result:
  "prune_loop av xs sel ch = (filter (\<lambda>k. k \<in> set av \<or> k \<notin> set xs) sel, ch \<or> \<not> set xs \<subseteq> set av)"
proof (induction xs arbitrary: sel ch)
  case (Cons x xs)
  then show ?case by (auto simp: set_delete_def intro: filter_cong)
qed simp

lemma prune_becomes:
  assumes "distinct (sl_selected s)"
  shows "becomes (set (sl_selected s) \<inter> getKey ` set items) s (sel_prune getKey items s)"
proof (cases "set (sl_selected s) \<subseteq> getKey ` set items")
  case True
  then have "filter (\<lambda>k. k \<in> getKey ` set items \<or> k \<notin> set (sl_selected s)) (sl_selected s) = sl_selected s"
    by (auto intro: filter_True)
  with True assms show ?thesis by (auto simp: sel_prune_def prune_loop_result intro!: becomes_same)
next
  case False
  with assms show ?thesis by (auto simp: sel_prune_def prune_loop_result Let_def intro!: becomes_notify)
qed

lemma toggle_becomes:
  "distinct (sl_selected s) \<Longrightarrow>
   becomes (if key \<in> set (sl_selected s) then set (sl_selected s) - {key} else insert key (set (sl_selected s)))
     s (sel_toggle key s)"
  using select_becomes deselect_becomes by (simp add: sel_toggle_def)

lemmas sel_becomes = select_becomes deselect_becomes add_becomes replace_becomes clear_becomes prune_becomes toggle_becomes

section \<open>Refinement of a set\<close>

text \<open>The calls of a selection, for given items and keys of items; each replies with the set reported, if any.\<close>

datatype 'a selection_call =
  CSelect list_key
| CDeselect list_key
| CToggle list_key
| CAdd "list_key list"
| CReplace "list_key list"
| CClear
| CPrune "'a \<Rightarrow> list_key" "'a list"

fun call_selection :: "'a selection_call \<Rightarrow> selection_state \<Rightarrow> selection_state" where
  "call_selection (CSelect key) s = sel_select key s"
| "call_selection (CDeselect key) s = sel_deselect key s"
| "call_selection (CToggle key) s = sel_toggle key s"
| "call_selection (CAdd keys) s = sel_add keys s"
| "call_selection (CReplace keys) s = sel_replace keys s"
| "call_selection CClear s = sel_clear s"
| "call_selection (CPrune getKey items) s = sel_prune getKey items s"

definition selection_step :: "'a selection_call \<Rightarrow> selection_state \<Rightarrow> list_key set option \<times> selection_state" where
  "selection_step c s =
     (let s' = call_selection c s
      in (if length (sl_changes s') = length (sl_changes s) then None else Some (set (last (sl_changes s'))), s'))"

fun set_call :: "'a selection_call \<Rightarrow> list_key set \<Rightarrow> list_key set" where
  "set_call (CSelect key) K = insert key K"
| "set_call (CDeselect key) K = K - {key}"
| "set_call (CToggle key) K = (if key \<in> K then K - {key} else insert key K)"
| "set_call (CAdd keys) K = K \<union> set keys"
| "set_call (CReplace keys) K = set keys"
| "set_call CClear K = {}"
| "set_call (CPrune getKey items) K = K \<inter> getKey ` set items"

definition set_step :: "'a selection_call \<Rightarrow> list_key set \<Rightarrow> list_key set option \<times> list_key set" where
  "set_step c K = (let K' = set_call c K in (if K' = K then None else Some K', K'))"

lemma selection_becomes:
  "distinct (sl_selected s) \<Longrightarrow> becomes (set_call c (set (sl_selected s))) s (call_selection c s)"
  by (cases c) (simp_all add: sel_becomes toggle_becomes [simplified])

interpretation key_set: simulation selection_step set_step "\<lambda>s. set (sl_selected s)" "\<lambda>s. distinct (sl_selected s)"
proof
  fix s :: selection_state and c :: "'a selection_call"
  assume "distinct (sl_selected s)"
  from selection_becomes [OF this, of c]
  show "distinct (sl_selected (snd (selection_step c s)))"
    "set_step c (set (sl_selected s)) = apsnd (\<lambda>s. set (sl_selected s)) (selection_step c s)"
    by (auto simp: becomes_def selection_step_def set_step_def Let_def split: if_splits)
qed

text \<open>From any initial keys, a selection answers and reports like a mathematical set.\<close>

lemma selection_refines_set:
  "replies selection_step calls (createSelectionState keys) = replies set_step calls (set keys)"
  using key_set.same_replies [of "createSelectionState keys" calls] by (simp add: createSelectionState_def)

end
