(* ===== verification/ListController.thy ===== *)
theory ListController
  imports Selection
begin

text \<open>
  The headless list controller (\<open>components/list/create-list-controller.ts\<close>): the items with their
  unique keys, the focus, keyboard navigation, selection of logical keys with ranges, activation.

  \<^item> The memo \<open>snapshot\<close> is part of the state: it is computed when the controller is created and
    again when the items change. Both throw on duplicate keys; a controller whose snapshot has
    thrown is not followed further. The other memos are functions of the state.
  \<^item> Option objects are records; a member that may be left out has an option type, except for
    \<open>force\<close>, which every reader treats as false when it is left out.
  \<^item> The calls of \<open>onFocusChange\<close> and \<open>onActivate\<close> are recorded, oldest first; the callbacks are
    taken not to call the controller again.
  \<^item> Indices are integers. An offset is an integer or some other number (fractional, infinite or
    NaN). The product \<open>visitLimit\<close> is exact here, and a double in the code: beyond \<open>2 ^ 53\<close>, which
    no run gets to, the double rounds.
\<close>

section \<open>Data\<close>

record 'a item_result =
  ir_item :: 'a
  ir_index :: int
  ir_key :: list_key

datatype focus_reason = Keyboard | Hover | Pointer | Restore | Programmatic

record focus_options =
  fo_reason :: "focus_reason option"
  fo_force :: bool

record 'a navigation_options = focus_options +
  no_isNavigable :: "('a \<Rightarrow> int \<Rightarrow> bool) option"
  no_wrap :: "bool option"

datatype focus_fallback = FallNone | FallFirst | FallLast | FallNearest

record restore_options = focus_options +
  ro_fallback :: "focus_fallback option"
  ro_nearestIndex :: "int option"
  ro_retainUnavailable :: "bool option"

record 'a focus_change =
  fc_current :: "'a item_result option"
  fc_previous :: "'a item_result option"
  fc_requestedKey :: "list_key option"
  fc_reason :: focus_reason

datatype activation_reason = ByKeyboard | ByPointer | ByProgram

record ('a, 'm) list_activation = "'a item_result" +
  la_reason :: activation_reason
  la_metadata :: "'m option"

text \<open>The member \<open>focus\<close> of the activation options: a boolean or focus options.\<close>

datatype focus_choice = FocusBool bool | FocusWith focus_options

record 'm activate_options =
  ao_reason :: "activation_reason option"
  ao_focus :: "focus_choice option"
  ao_metadata :: "'m option"

record 'a list_options =
  lo_getKey :: "'a \<Rightarrow> list_key"
  lo_selectionKey :: "('a \<Rightarrow> int \<Rightarrow> list_key) option"
  lo_isNavigable :: "('a \<Rightarrow> int \<Rightarrow> bool) option"
  lo_isSelectable :: "('a \<Rightarrow> int \<Rightarrow> bool) option"
  lo_wrapNavigation :: "bool option"
  lo_initialFocusKey :: "list_key option"
  lo_initialSelectedKeys :: "list_key list option"

record 'a snapshot_data =
  sn_all :: "'a list"
  sn_byKey :: "(list_key, 'a) jsmap"
  sn_indexByKey :: "(list_key, int) jsmap"

record range_session =
  rs_baseline :: "list_key jsset"
  rs_selected :: bool

record ('a, 'm) list_controller =
  lc_snapshot :: "'a snapshot_data"
  lc_requestedFocusKey :: "list_key option"
  lc_forcedFocus :: bool
  lc_selection :: selection_state
  lc_selectionAnchor :: "list_key option"
  lc_rangeSession :: "range_session option"
  lc_focusChanges :: "'a focus_change list"
  lc_activations :: "('a, 'm) list_activation list"

text \<open>\<open>x ?? d\<close>\<close>

definition or_else :: "'a option \<Rightarrow> 'a \<Rightarrow> 'a" where
  "or_else x d = (case x of Some v \<Rightarrow> v | None \<Rightarrow> d)"

lemma or_else_simps [simp]: "or_else (Some v) d = v" "or_else None d = d"
  by (simp_all add: or_else_def)

section \<open>Items\<close>

definition duplicate_key :: "list_key \<Rightarrow> string" where
  "duplicate_key key = ''List items must have unique keys; received: '' @ key"

fun snapshot_loop ::
    "('a \<Rightarrow> list_key) \<Rightarrow> 'a list \<Rightarrow> int \<Rightarrow> (list_key, 'a) jsmap \<Rightarrow> (list_key, int) jsmap \<Rightarrow>
     ((list_key, 'a) jsmap \<times> (list_key, int) jsmap) js" where
  "snapshot_loop getKey [] index byKey indexByKey = Ret (byKey, indexByKey)"
| "snapshot_loop getKey (item # rest) index byKey indexByKey =
     (let key = getKey item
      in if map_has byKey key then Throw (duplicate_key key)
         else snapshot_loop getKey rest (index + 1) (AList.update key item byKey) (AList.update key index indexByKey))"

definition items_snapshot :: "'a list_options \<Rightarrow> 'a list \<Rightarrow> 'a snapshot_data js" where
  "items_snapshot opts all =
     map_js (\<lambda>(byKey, indexByKey). \<lparr>sn_all = all, sn_byKey = byKey, sn_indexByKey = indexByKey\<rparr>)
       (snapshot_loop (lo_getKey opts) all 0 [] [])"

definition createListController :: "'a list_options \<Rightarrow> 'a list \<Rightarrow> ('a, 'm) list_controller js" where
  "createListController opts items =
     map_js (\<lambda>sn. \<lparr>lc_snapshot = sn, lc_requestedFocusKey = lo_initialFocusKey opts, lc_forcedFocus = False,
         lc_selection = createSelectionState (or_else (lo_initialSelectedKeys opts) []),
         lc_selectionAnchor = None, lc_rangeSession = None, lc_focusChanges = [], lc_activations = []\<rparr>)
       (items_snapshot opts items)"

text \<open>The items change, and the memo is computed again.\<close>

definition set_items :: "'a list_options \<Rightarrow> 'a list \<Rightarrow> ('a, 'm) list_controller \<Rightarrow> ('a, 'm) list_controller js" where
  "set_items opts items c = map_js (\<lambda>sn. c\<lparr>lc_snapshot := sn\<rparr>) (items_snapshot opts items)"

definition lc_all :: "('a, 'm) list_controller \<Rightarrow> 'a list" where
  "lc_all c = sn_all (lc_snapshot c)"

definition lc_count :: "('a, 'm) list_controller \<Rightarrow> int" where
  "lc_count c = int (length (lc_all c))"

definition itemResultAt :: "'a list_options \<Rightarrow> int \<Rightarrow> ('a, 'm) list_controller \<Rightarrow> 'a item_result option" where
  "itemResultAt opts index c =
     (if index < 0 \<or> index \<ge> lc_count c then None
      else let item = lc_all c ! nat index
           in Some \<lparr>ir_item = item, ir_index = index, ir_key = lo_getKey opts item\<rparr>)"

definition itemResultFor :: "'a list_options \<Rightarrow> list_key \<Rightarrow> ('a, 'm) list_controller \<Rightarrow> 'a item_result option" where
  "itemResultFor opts key c =
     (case map_of (sn_indexByKey (lc_snapshot c)) key of
        None \<Rightarrow> None
      | Some index \<Rightarrow> itemResultAt opts index c)"

definition items_get :: "list_key \<Rightarrow> ('a, 'm) list_controller \<Rightarrow> 'a option" where
  "items_get key c = map_of (sn_byKey (lc_snapshot c)) key"

definition items_indexOf :: "list_key \<Rightarrow> ('a, 'm) list_controller \<Rightarrow> int" where
  "items_indexOf key c = or_else (map_of (sn_indexByKey (lc_snapshot c)) key) (-1)"

section \<open>Focus\<close>

definition canNavigateTo :: "'a list_options \<Rightarrow> 'a item_result \<Rightarrow> bool \<Rightarrow> bool" where
  "canNavigateTo opts result force \<longleftrightarrow>
     force \<or> or_else (lo_isNavigable opts) (\<lambda>_ _. True) (ir_item result) (ir_index result)"

definition matchesNavigation :: "'a list_options \<Rightarrow> 'a item_result \<Rightarrow> 'a navigation_options \<Rightarrow> bool" where
  "matchesNavigation opts result nav \<longleftrightarrow>
     canNavigateTo opts result (fo_force nav) \<and>
     (case no_isNavigable nav of None \<Rightarrow> True | Some p \<Rightarrow> p (ir_item result) (ir_index result))"

definition focusedResult :: "'a list_options \<Rightarrow> ('a, 'm) list_controller \<Rightarrow> 'a item_result option" where
  "focusedResult opts c =
     (case lc_requestedFocusKey c of
        None \<Rightarrow> None
      | Some key \<Rightarrow>
          (case itemResultFor opts key c of
             None \<Rightarrow> None
           | Some result \<Rightarrow> if canNavigateTo opts result (lc_forcedFocus c) then Some result else None))"

definition commitFocus ::
    "'a list_options \<Rightarrow> list_key option \<Rightarrow> focus_reason \<Rightarrow> bool \<Rightarrow> ('a, 'm) list_controller \<Rightarrow>
     'a item_result option \<times> ('a, 'm) list_controller" where
  "commitFocus opts nextKey reason force c =
     (let previousKey = lc_requestedFocusKey c; previousForced = lc_forcedFocus c; previous = focusedResult opts c
      in if previousKey = nextKey \<and> previousForced = force then (previous, c)
         else let c1 = c\<lparr>lc_forcedFocus := force, lc_requestedFocusKey := nextKey\<rparr>;
                  current = focusedResult opts c1;
                  change = \<lparr>fc_current = current, fc_previous = previous, fc_requestedKey = nextKey, fc_reason = reason\<rparr>
              in (current, c1\<lparr>lc_focusChanges := lc_focusChanges c1 @ [change]\<rparr>))"

definition focusResult ::
    "'a list_options \<Rightarrow> 'a item_result option \<Rightarrow> 'z focus_options_scheme \<Rightarrow> ('a, 'm) list_controller \<Rightarrow>
     'a item_result option \<times> ('a, 'm) list_controller" where
  "focusResult opts r fo c =
     (case r of
        None \<Rightarrow> (None, c)
      | Some result \<Rightarrow>
          if \<not> canNavigateTo opts result (fo_force fo) then (None, c)
          else (Some result,
                snd (commitFocus opts (Some (ir_key result)) (or_else (fo_reason fo) Programmatic) (fo_force fo) c)))"

datatype direction = Forward | Backward

fun delta :: "direction \<Rightarrow> int" where
  "delta Forward = 1"
| "delta Backward = -1"

text \<open>The loop of \<open>findNavigable\<close>; \<open>eligible\<close> is its body.\<close>

definition eligible ::
    "'a list_options \<Rightarrow> 'a navigation_options \<Rightarrow> ('a, 'm) list_controller \<Rightarrow> int \<Rightarrow> 'a item_result option" where
  "eligible opts nav c index =
     (case itemResultAt opts index c of
        Some result \<Rightarrow> if matchesNavigation opts result nav then Some result else None
      | None \<Rightarrow> None)"

function find_loop :: "(int \<Rightarrow> 'r option) \<Rightarrow> int \<Rightarrow> direction \<Rightarrow> int \<Rightarrow> 'r option" where
  "find_loop body n dir index =
     (if \<not> (0 \<le> index \<and> index < n) then None
      else case body index of Some result \<Rightarrow> Some result | None \<Rightarrow> find_loop body n dir (index + delta dir))"
  by pat_completeness auto
termination
  by (relation "measure (\<lambda>(_, n, dir, index). nat (case dir of Forward \<Rightarrow> n - index | Backward \<Rightarrow> index + 1))")
    (auto split: direction.splits)

declare find_loop.simps [simp del]

definition findNavigable ::
    "'a list_options \<Rightarrow> int \<Rightarrow> direction \<Rightarrow> 'a navigation_options \<Rightarrow> ('a, 'm) list_controller \<Rightarrow> 'a item_result option" where
  "findNavigable opts start dir nav c = find_loop (eligible opts nav c) (lc_count c) dir start"

definition focusFirst ::
    "'a list_options \<Rightarrow> 'a navigation_options \<Rightarrow> ('a, 'm) list_controller \<Rightarrow> 'a item_result option \<times> ('a, 'm) list_controller" where
  "focusFirst opts nav c = focusResult opts (findNavigable opts 0 Forward nav c) nav c"

definition focusLast ::
    "'a list_options \<Rightarrow> 'a navigation_options \<Rightarrow> ('a, 'm) list_controller \<Rightarrow> 'a item_result option \<times> ('a, 'm) list_controller" where
  "focusLast opts nav c = focusResult opts (findNavigable opts (lc_count c - 1) Backward nav c) nav c"

text \<open>The loop of \<open>findNearest\<close> over the distances from the centre.\<close>

function nearest_loop :: "(int \<Rightarrow> 'r option) \<Rightarrow> int \<Rightarrow> int \<Rightarrow> int \<Rightarrow> 'r option" where
  "nearest_loop body n center distance =
     (if \<not> distance < n then None
      else case body (center + distance) of
             Some result \<Rightarrow> Some result
           | None \<Rightarrow>
               (case body (center - distance) of
                  Some result \<Rightarrow> Some result
                | None \<Rightarrow> nearest_loop body n center (distance + 1)))"
  by pat_completeness auto
termination
  by (relation "measure (\<lambda>(_, n, _, distance). nat (n - distance))") auto

declare nearest_loop.simps [simp del]

definition findNearest ::
    "'a list_options \<Rightarrow> int \<Rightarrow> 'a navigation_options \<Rightarrow> ('a, 'm) list_controller \<Rightarrow> 'a item_result option" where
  "findNearest opts targetIndex nav c =
     (if lc_count c = 0 then None
      else let center = min (max targetIndex 0) (lc_count c - 1)
           in case eligible opts nav c center of
                Some centered \<Rightarrow> Some centered
              | None \<Rightarrow> nearest_loop (eligible opts nav c) (lc_count c) center 1)"

definition focusNearest ::
    "'a list_options \<Rightarrow> int \<Rightarrow> 'a navigation_options \<Rightarrow> ('a, 'm) list_controller \<Rightarrow>
     'a item_result option \<times> ('a, 'm) list_controller" where
  "focusNearest opts index nav c = focusResult opts (findNearest opts index nav c) nav c"

section \<open>Navigation\<close>

datatype offset = Whole int | NotWhole

fun isSafeOffset :: "offset \<Rightarrow> bool" where
  "isSafeOffset (Whole i) = (\<bar>i\<bar> \<le> 2 ^ 53 - 1)"
| "isSafeOffset NotWhole = False"

text \<open>The loop of \<open>peekBy\<close>: how many matches remain, the cursor, the candidate, the items visited.\<close>

function peek_loop ::
    "(int \<Rightarrow> 'r option) \<Rightarrow> int \<Rightarrow> direction \<Rightarrow> bool \<Rightarrow> int \<Rightarrow> int \<Rightarrow> int \<Rightarrow> 'r option \<Rightarrow> int \<Rightarrow> 'r option" where
  "peek_loop body n dir wrap visitLimit remaining cursor candidate visited =
     (if \<not> (remaining > 0 \<and> visited < visitLimit) then candidate
      else let next = cursor + delta dir
           in if (next < 0 \<or> next \<ge> n) \<and> \<not> wrap then candidate
              else let cursor1 = (if next < 0 \<or> next \<ge> n then (next + n) mod n else next)
                   in case body cursor1 of
                        None \<Rightarrow> peek_loop body n dir wrap visitLimit remaining cursor1 candidate (visited + 1)
                      | Some result \<Rightarrow>
                          peek_loop body n dir wrap visitLimit (remaining - 1) cursor1 (Some result) (visited + 1))"
  by pat_completeness auto
termination
  by (relation "measure (\<lambda>(_, _, _, _, visitLimit, _, _, _, visited). nat (visitLimit - visited))") auto

declare peek_loop.simps [simp del]

definition peekBy ::
    "'a list_options \<Rightarrow> offset \<Rightarrow> 'a navigation_options \<Rightarrow> ('a, 'm) list_controller \<Rightarrow> 'a item_result option js" where
  "peekBy opts offs nav c =
     (if offs = Whole 0 then
        Ret (case focusedResult opts c of
               Some current \<Rightarrow> if matchesNavigation opts current nav then Some current else None
             | None \<Rightarrow> None)
      else if lc_count c = 0 then Ret None
      else if \<not> isSafeOffset offs then Throw ''List navigation offset must be a finite integer''
      else case offs of
             Whole i \<Rightarrow>
               (let dir = (if i > 0 then Forward else Backward);
                    remaining = \<bar>i\<bar>;
                    cursor = (case focusedResult opts c of
                                Some r \<Rightarrow> ir_index r
                              | None \<Rightarrow> if dir = Forward then -1 else lc_count c);
                    wrap = or_else (no_wrap nav) (or_else (lo_wrapNavigation opts) False)
                in Ret (peek_loop (eligible opts nav c) (lc_count c) dir wrap (lc_count c * remaining) remaining cursor None 0))
           | NotWhole \<Rightarrow> Ret None)"

definition navigateBy ::
    "'a list_options \<Rightarrow> offset \<Rightarrow> 'a navigation_options \<Rightarrow> ('a, 'm) list_controller \<Rightarrow>
     'a item_result option js \<times> ('a, 'm) list_controller" where
  "navigateBy opts offs nav c =
     (case peekBy opts offs nav c of
        Throw e \<Rightarrow> (Throw e, c)
      | Ret target \<Rightarrow>
          apfst Ret (focusResult opts target (nav\<lparr>fo_reason := Some (or_else (fo_reason nav) Keyboard)\<rparr>) c))"

text \<open>\<open>{ ...restoreOptions, reason }\<close> as navigation options.\<close>

definition restore_nav :: "restore_options \<Rightarrow> focus_reason \<Rightarrow> 'a navigation_options" where
  "restore_nav ro reason =
     \<lparr>fo_reason = Some reason, fo_force = fo_force ro, no_isNavigable = None, no_wrap = None\<rparr>"

definition restore_fallback ::
    "'a list_options \<Rightarrow> list_key option \<Rightarrow> restore_options \<Rightarrow> focus_reason \<Rightarrow> ('a, 'm) list_controller \<Rightarrow>
     'a item_result option \<times> ('a, 'm) list_controller" where
  "restore_fallback opts key ro reason c =
     (case or_else (ro_fallback ro) FallNone of
        FallFirst \<Rightarrow> focusFirst opts (restore_nav ro reason) c
      | FallLast \<Rightarrow> focusLast opts (restore_nav ro reason) c
      | FallNearest \<Rightarrow>
          focusNearest opts
            (or_else (ro_nearestIndex ro) (or_else (map_option ir_index (focusedResult opts c)) 0))
            (restore_nav ro reason) c
      | FallNone \<Rightarrow>
          (None, snd (commitFocus opts
             (if ro_retainUnavailable ro \<noteq> Some False \<and> key \<noteq> None \<and> itemResultFor opts (the key) c = None
              then key else None) reason False c)))"

definition restoreFocus ::
    "'a list_options \<Rightarrow> list_key option \<Rightarrow> restore_options \<Rightarrow> ('a, 'm) list_controller \<Rightarrow>
     'a item_result option \<times> ('a, 'm) list_controller" where
  "restoreFocus opts key ro c =
     (let reason = or_else (fo_reason ro) Restore
      in case key of
           Some k \<Rightarrow>
             (case focusResult opts (itemResultFor opts k c) (ro\<lparr>fo_reason := Some reason\<rparr>) c of
                (Some restored, c1) \<Rightarrow> (Some restored, c1)
              | (None, c1) \<Rightarrow> restore_fallback opts key ro reason c1)
         | None \<Rightarrow> restore_fallback opts key ro reason c)"

definition focus_request ::
    "'a list_options \<Rightarrow> list_key option \<Rightarrow> focus_options \<Rightarrow> ('a, 'm) list_controller \<Rightarrow>
     'a item_result option \<times> ('a, 'm) list_controller" where
  "focus_request opts key fo c = commitFocus opts key (or_else (fo_reason fo) Programmatic) (fo_force fo) c"

definition focus_clear ::
    "'a list_options \<Rightarrow> focus_options \<Rightarrow> ('a, 'm) list_controller \<Rightarrow> 'a item_result option \<times> ('a, 'm) list_controller" where
  "focus_clear opts fo c = commitFocus opts None (or_else (fo_reason fo) Programmatic) False c"

definition focus_prune :: "'a list_options \<Rightarrow> focus_options \<Rightarrow> ('a, 'm) list_controller \<Rightarrow> ('a, 'm) list_controller" where
  "focus_prune opts fo c =
     (if lc_requestedFocusKey c = None \<or> focusedResult opts c \<noteq> None then c
      else snd (commitFocus opts None (or_else (fo_reason fo) Programmatic) False c))"

text \<open>\<open>navigate.toKey\<close>, \<open>toIndex\<close>, \<open>toFirst\<close> and \<open>toLast\<close> are the focus commands with this reason.\<close>

definition by_keyboard :: "'z focus_options_scheme \<Rightarrow> 'z focus_options_scheme" where
  "by_keyboard fo = fo\<lparr>fo_reason := Some (or_else (fo_reason fo) Keyboard)\<rparr>"


section \<open>Selection\<close>

definition is_selectable :: "'a list_options \<Rightarrow> 'a item_result \<Rightarrow> bool" where
  "is_selectable opts result \<longleftrightarrow> or_else (lo_isSelectable opts) (\<lambda>_ _. True) (ir_item result) (ir_index result)"

definition selectableResult :: "'a list_options \<Rightarrow> list_key \<Rightarrow> ('a, 'm) list_controller \<Rightarrow> 'a item_result option" where
  "selectableResult opts rowKey c =
     (case itemResultFor opts rowKey c of
        Some result \<Rightarrow> if is_selectable opts result then Some result else None
      | None \<Rightarrow> None)"

definition selectionKeyForResult :: "'a list_options \<Rightarrow> 'a item_result \<Rightarrow> list_key" where
  "selectionKeyForResult opts result =
     (case lo_selectionKey opts of
        Some f \<Rightarrow> f (ir_item result) (ir_index result)
      | None \<Rightarrow> ir_key result)"

fun selectable_loop ::
    "'a list_options \<Rightarrow> ('a, 'm) list_controller \<Rightarrow> 'a list \<Rightarrow> int \<Rightarrow> (list_key, 'a item_result) jsmap \<Rightarrow>
     (list_key, 'a item_result) jsmap" where
  "selectable_loop opts c [] index results = results"
| "selectable_loop opts c (item # rest) index results =
     selectable_loop opts c rest (index + 1)
       (case itemResultAt opts index c of
          None \<Rightarrow> results
        | Some result \<Rightarrow>
            if \<not> is_selectable opts result then results
            else let selectionKey = selectionKeyForResult opts result
                 in if map_has results selectionKey then results else AList.update selectionKey result results)"

definition selectableBySelectionKey ::
    "'a list_options \<Rightarrow> ('a, 'm) list_controller \<Rightarrow> (list_key, 'a item_result) jsmap" where
  "selectableBySelectionKey opts c = selectable_loop opts c (lc_all c) 0 []"

text \<open>The calls of \<open>keySelection\<close>, the selection state over the selectable results.\<close>

definition on_selection ::
    "(selection_state \<Rightarrow> selection_state) \<Rightarrow> ('a, 'm) list_controller \<Rightarrow> ('a, 'm) list_controller" where
  "on_selection f c = c\<lparr>lc_selection := f (lc_selection c)\<rparr>"

definition requestedKeys :: "('a, 'm) list_controller \<Rightarrow> list_key jsset" where
  "requestedKeys c = sl_selected (lc_selection c)"

definition effectiveSelectionKeys :: "'a list_options \<Rightarrow> ('a, 'm) list_controller \<Rightarrow> list_key jsset" where
  "effectiveSelectionKeys opts c =
     set_of (filter (\<lambda>key. map_has (selectableBySelectionKey opts c) key) (requestedKeys c))"

definition effectiveSelectionItems :: "'a list_options \<Rightarrow> ('a, 'm) list_controller \<Rightarrow> 'a list" where
  "effectiveSelectionItems opts c =
     concat (map (\<lambda>key. case map_of (selectableBySelectionKey opts c) key of
                    Some result \<Rightarrow> [ir_item result]
                  | None \<Rightarrow> []) (effectiveSelectionKeys opts c))"

definition selectionKeyForRow :: "'a list_options \<Rightarrow> list_key \<Rightarrow> ('a, 'm) list_controller \<Rightarrow> list_key option" where
  "selectionKeyForRow opts rowKey c = map_option (selectionKeyForResult opts) (selectableResult opts rowKey c)"

definition isSelectionKeySelected :: "'a list_options \<Rightarrow> list_key \<Rightarrow> ('a, 'm) list_controller \<Rightarrow> bool" where
  "isSelectionKeySelected opts selectionKey c \<longleftrightarrow> selectionKey \<in> set (effectiveSelectionKeys opts c)"

definition isRowSelected :: "'a list_options \<Rightarrow> list_key \<Rightarrow> ('a, 'm) list_controller \<Rightarrow> bool" where
  "isRowSelected opts rowKey c \<longleftrightarrow>
     (case selectionKeyForRow opts rowKey c of
        Some selectionKey \<Rightarrow> isSelectionKeySelected opts selectionKey c
      | None \<Rightarrow> False)"

definition replaceSelected :: "'a list_options \<Rightarrow> list_key list \<Rightarrow> ('a, 'm) list_controller \<Rightarrow> ('a, 'm) list_controller" where
  "replaceSelected opts keys c =
     on_selection (sel_replace (filter (map_has (selectableBySelectionKey opts c)) keys)) c"

text \<open>One turn of the loop of \<open>selectRange\<close>.\<close>

definition range_turn ::
    "'a list_options \<Rightarrow> bool \<Rightarrow> ('a, 'm) list_controller \<Rightarrow> list_key jsset \<Rightarrow> int \<Rightarrow> list_key jsset" where
  "range_turn opts selected c next index =
     (case itemResultAt opts index c of
        None \<Rightarrow> next
      | Some result \<Rightarrow>
          if \<not> is_selectable opts result then next
          else let selectionKey = selectionKeyForResult opts result
               in if selected then set_add selectionKey next else set_delete selectionKey next)"

definition selectRange ::
    "'a list_options \<Rightarrow> list_key \<Rightarrow> list_key \<Rightarrow> bool \<Rightarrow> list_key list \<Rightarrow> ('a, 'm) list_controller \<Rightarrow>
     ('a, 'm) list_controller" where
  "selectRange opts fromKey toKey selected baseline c =
     (let from = items_indexOf fromKey c; to = items_indexOf toKey c
      in if from < 0 \<or> to < 0 then c
         else on_selection
                (sel_replace (foldl (range_turn opts selected c) (set_of baseline) [min from to..max from to])) c)"

definition setSelectionRangeAnchor :: "list_key option \<Rightarrow> ('a, 'm) list_controller \<Rightarrow> ('a, 'm) list_controller" where
  "setSelectionRangeAnchor key c = c\<lparr>lc_selectionAnchor := key, lc_rangeSession := None\<rparr>"

definition extendSelectionRange ::
    "'a list_options \<Rightarrow> list_key \<Rightarrow> bool \<Rightarrow> ('a, 'm) list_controller \<Rightarrow> bool \<times> ('a, 'm) list_controller" where
  "extendSelectionRange opts targetKey selected c =
     (case lc_selectionAnchor c of
        None \<Rightarrow> (False, c)
      | Some anchorKey \<Rightarrow>
          if selectableResult opts anchorKey c = None \<or> selectableResult opts targetKey c = None then (False, c)
          else let session = or_else (lc_rangeSession c)
                               \<lparr>rs_baseline = set_of (requestedKeys c), rs_selected = selected\<rparr>;
                   c1 = c\<lparr>lc_rangeSession := Some session\<rparr>
               in (True, selectRange opts anchorKey targetKey (rs_selected session) (rs_baseline session) c1))"

definition setSelected ::
    "'a list_options \<Rightarrow> list_key \<Rightarrow> bool \<Rightarrow> bool \<Rightarrow> ('a, 'm) list_controller \<Rightarrow> bool \<times> ('a, 'm) list_controller" where
  "setSelected opts rowKey selected ranged c =
     (case selectionKeyForRow opts rowKey c of
        None \<Rightarrow> (False, c)
      | Some selectionKey \<Rightarrow>
          if ranged \<and> lc_selectionAnchor c \<noteq> None then extendSelectionRange opts rowKey selected c
          else (True, setSelectionRangeAnchor (Some rowKey)
                        (on_selection (if selected then sel_select selectionKey else sel_deselect selectionKey) c)))"

definition toggleSelected ::
    "'a list_options \<Rightarrow> list_key \<Rightarrow> bool \<Rightarrow> ('a, 'm) list_controller \<Rightarrow> bool \<times> ('a, 'm) list_controller" where
  "toggleSelected opts rowKey ranged c = setSelected opts rowKey (\<not> isRowSelected opts rowKey c) ranged c"

definition clearSelection :: "('a, 'm) list_controller \<Rightarrow> ('a, 'm) list_controller" where
  "clearSelection c = setSelectionRangeAnchor None (on_selection sel_clear c)"

definition visibleSelectionKeys :: "'a list_options \<Rightarrow> ('a, 'm) list_controller \<Rightarrow> list_key jsset" where
  "visibleSelectionKeys opts c = set_of (map_keys (selectableBySelectionKey opts c))"

definition allVisibleSelected :: "'a list_options \<Rightarrow> ('a, 'm) list_controller \<Rightarrow> bool" where
  "allVisibleSelected opts c \<longleftrightarrow>
     (let visible = visibleSelectionKeys opts c
      in length visible > 0 \<and> list_all (\<lambda>key. key \<in> set (effectiveSelectionKeys opts c)) visible)"

definition selectAllVisible :: "'a list_options \<Rightarrow> ('a, 'm) list_controller \<Rightarrow> ('a, 'm) list_controller" where
  "selectAllVisible opts c = on_selection (sel_add (visibleSelectionKeys opts c)) c"

definition toggleAllVisible :: "'a list_options \<Rightarrow> ('a, 'm) list_controller \<Rightarrow> ('a, 'm) list_controller" where
  "toggleAllVisible opts c =
     setSelectionRangeAnchor None
       (if allVisibleSelected opts c
        then let visible = visibleSelectionKeys opts c
             in on_selection (sel_replace (filter (\<lambda>key. key \<notin> set visible) (requestedKeys c))) c
        else selectAllVisible opts c)"

text \<open>The members of \<open>selection\<close> that are written inline.\<close>

definition selection_select :: "'a list_options \<Rightarrow> list_key \<Rightarrow> ('a, 'm) list_controller \<Rightarrow> ('a, 'm) list_controller" where
  "selection_select opts rowKey c =
     (case selectionKeyForRow opts rowKey c of
        Some selectionKey \<Rightarrow> on_selection (sel_select selectionKey) c
      | None \<Rightarrow> c)"

definition selection_deselect :: "'a list_options \<Rightarrow> list_key \<Rightarrow> ('a, 'm) list_controller \<Rightarrow> ('a, 'm) list_controller" where
  "selection_deselect opts rowKey c =
     (case selectionKeyForRow opts rowKey c of
        Some selectionKey \<Rightarrow> on_selection (sel_deselect selectionKey) c
      | None \<Rightarrow> c)"

definition selection_selectKey :: "'a list_options \<Rightarrow> list_key \<Rightarrow> ('a, 'm) list_controller \<Rightarrow> ('a, 'm) list_controller" where
  "selection_selectKey opts selectionKey c =
     (if map_has (selectableBySelectionKey opts c) selectionKey then on_selection (sel_select selectionKey) c else c)"

definition selection_toggleKey :: "'a list_options \<Rightarrow> list_key \<Rightarrow> ('a, 'm) list_controller \<Rightarrow> ('a, 'm) list_controller" where
  "selection_toggleKey opts selectionKey c =
     (if map_has (selectableBySelectionKey opts c) selectionKey then on_selection (sel_toggle selectionKey) c else c)"

definition selection_add :: "'a list_options \<Rightarrow> list_key list \<Rightarrow> ('a, 'm) list_controller \<Rightarrow> ('a, 'm) list_controller" where
  "selection_add opts keys c =
     on_selection (sel_add (filter (map_has (selectableBySelectionKey opts c)) keys)) c"

definition selection_prune :: "'a list_options \<Rightarrow> ('a, 'm) list_controller \<Rightarrow> ('a, 'm) list_controller" where
  "selection_prune opts c =
     on_selection (sel_prune (selectionKeyForResult opts) (map_values (selectableBySelectionKey opts c))) c"

section \<open>Activation\<close>

fun activationFocusReason :: "activation_reason \<Rightarrow> focus_reason" where
  "activationFocusReason ByKeyboard = Keyboard"
| "activationFocusReason ByPointer = Pointer"
| "activationFocusReason ByProgram = Programmatic"

definition focusOptionsForActivation :: "'m activate_options \<Rightarrow> bool \<Rightarrow> focus_options option" where
  "focusOptionsForActivation ao defaultFocus =
     (let reason = activationFocusReason (or_else (ao_reason ao) ByProgram)
      in case ao_focus ao of
           Some (FocusBool False) \<Rightarrow> None
         | None \<Rightarrow> if \<not> defaultFocus then None else Some \<lparr>fo_reason = Some reason, fo_force = False\<rparr>
         | Some (FocusBool True) \<Rightarrow> Some \<lparr>fo_reason = Some reason, fo_force = False\<rparr>
         | Some (FocusWith fo) \<Rightarrow> Some (fo\<lparr>fo_reason := Some (or_else (fo_reason fo) reason)\<rparr>))"

definition activateResult ::
    "'a list_options \<Rightarrow> 'a item_result option \<Rightarrow> 'm activate_options \<Rightarrow> bool \<Rightarrow> ('a, 'm) list_controller \<Rightarrow>
     ('a, 'm) list_activation option \<times> ('a, 'm) list_controller" where
  "activateResult opts r ao defaultFocus c =
     (case r of
        None \<Rightarrow> (None, c)
      | Some result \<Rightarrow>
          let c1 = (case focusOptionsForActivation ao defaultFocus of
                      Some fo \<Rightarrow> snd (focusResult opts (Some result) fo c)
                    | None \<Rightarrow> c);
              activation = \<lparr>ir_item = ir_item result, ir_index = ir_index result, ir_key = ir_key result,
                la_reason = or_else (ao_reason ao) ByProgram, la_metadata = ao_metadata ao\<rparr>
          in (Some activation, c1\<lparr>lc_activations := lc_activations c1 @ [activation]\<rparr>))"

end
