(* ===== verification/ListNavigation.thy ===== *)
theory ListNavigation
  imports ListController
begin

text \<open>
  Keyboard navigation in a list: the loops of \<open>findNavigable\<close>, \<open>findNearest\<close> and \<open>peekBy\<close> against
  reference definitions, and the invariant of the controller's snapshot.
\<close>

section \<open>The walk of peekBy\<close>

text \<open>The positions the loop visits, at most \<open>m\<close> of them.\<close>

fun visits :: "int \<Rightarrow> direction \<Rightarrow> bool \<Rightarrow> nat \<Rightarrow> int \<Rightarrow> int list" where
  "visits n dir wrap 0 cursor = []"
| "visits n dir wrap (Suc m) cursor =
     (let next = cursor + delta dir
      in if 0 \<le> next \<and> next < n then next # visits n dir wrap m next
         else if wrap then ((next + n) mod n) # visits n dir wrap m ((next + n) mod n)
         else [])"

fun walk :: "(int \<Rightarrow> 'r option) \<Rightarrow> int list \<Rightarrow> nat \<Rightarrow> 'r option \<Rightarrow> 'r option" where
  "walk body [] k candidate = candidate"
| "walk body (x # xs) k candidate =
     (if k = 0 then candidate
      else case body x of
             None \<Rightarrow> walk body xs k candidate
           | Some r \<Rightarrow> walk body xs (k - 1) (Some r))"

lemma walk_zero [simp]: "walk body xs 0 candidate = candidate"
  by (cases xs) auto

lemma nat_pred: "0 < r \<Longrightarrow> nat (r - 1) = nat r - 1"
  by simp

lemma peek_loop_walk:
  "peek_loop body n dir wrap limit rem cursor candidate visited =
   walk body (visits n dir wrap (nat (limit - visited)) cursor) (nat rem) candidate"
proof (induction "nat (limit - visited)" arbitrary: rem cursor candidate visited)
  case 0
  then show ?case by (simp add: peek_loop.simps)
next
  case (Suc m)
  then have more: "nat (limit - visited) = Suc m" "visited < limit" and m: "m = nat (limit - (visited + 1))" by simp_all
  note IH = Suc.hyps(1) [OF m]
  show ?case
  proof (cases "0 < rem")
    case False
    then show ?thesis by (simp add: peek_loop.simps)
  next
    case True
    then show ?thesis using more IH [folded m]
      by (subst peek_loop.simps) (auto simp: Let_def nat_pred split: option.split)
  qed
qed

definition last_of :: "'a option \<Rightarrow> 'a list \<Rightarrow> 'a option" where
  "last_of d xs = (if xs = [] then d else Some (last xs))"

lemma last_of_Cons: "last_of d (x # xs) = last_of (Some x) xs"
  by (simp add: last_of_def)

lemma walk_matches: "walk body xs k candidate = last_of candidate (take k (List.map_filter body xs))"
proof (induction xs arbitrary: k candidate)
  case Nil
  then show ?case by (simp add: last_of_def map_filter_simps)
next
  case (Cons x xs)
  then show ?case by (cases k) (auto simp: map_filter_simps last_of_Cons last_of_def [of _ "[]"] split: option.split)
qed

section \<open>Positions\<close>

text \<open>The positions after the cursor in one lap: taken modulo the length, or only those in range.\<close>

definition lap_steps :: "direction \<Rightarrow> int \<Rightarrow> nat \<Rightarrow> int list" where
  "lap_steps dir cursor m = map (\<lambda>j. cursor + delta dir * (int j + 1)) [0..<m]"

definition lap :: "int \<Rightarrow> direction \<Rightarrow> bool \<Rightarrow> int \<Rightarrow> int list" where
  "lap n dir wrap cursor =
     (if wrap then map (\<lambda>p. p mod n) (lap_steps dir cursor (nat n))
      else filter (\<lambda>p. 0 \<le> p \<and> p < n) (lap_steps dir cursor (nat n)))"

lemma lap_steps_0 [simp]: "lap_steps dir cursor 0 = []"
  by (simp add: lap_steps_def)

lemma lap_steps_Suc: "lap_steps dir cursor (Suc m) = (cursor + delta dir) # lap_steps dir (cursor + delta dir) m"
  by (simp add: lap_steps_def upt_conv_Cons map_Suc_upt [symmetric] algebra_simps del: upt_Suc)

lemma lap_steps_mod:
  "map (\<lambda>p. p mod n) (lap_steps dir (cursor mod n) m) = map (\<lambda>p. p mod n) (lap_steps dir cursor m)"
  by (simp add: lap_steps_def mod_simps)

lemma mod_in_range: "0 < n \<Longrightarrow> (if 0 \<le> p \<and> p < n then p else (p + n) mod n) = p mod (n :: int)"
  by simp

lemma visits_wrap:
  assumes "0 < n"
  shows "visits n dir True m cursor = map (\<lambda>p. p mod n) (lap_steps dir cursor m)"
proof (induction m arbitrary: cursor)
  case (Suc m)
  let ?p = "cursor + delta dir"
  have "visits n dir True (Suc m) cursor = (?p mod n) # visits n dir True m (?p mod n)" by (simp add: Let_def)
  also have "\<dots> = map (\<lambda>p. p mod n) (lap_steps dir cursor (Suc m))"
    unfolding Suc lap_steps_mod lap_steps_Suc by simp
  finally show ?case .
qed simp

lemma visits_stop:
  assumes "-1 \<le> cursor" "cursor \<le> n"
  shows "visits n dir False m cursor = filter (\<lambda>p. 0 \<le> p \<and> p < n) (lap_steps dir cursor m)"
  using assms
proof (induction m arbitrary: cursor)
  case (Suc m)
  let ?p = "cursor + delta dir"
  show ?case
  proof (cases "0 \<le> ?p \<and> ?p < n")
    case True
    with Suc.IH [of ?p] show ?thesis by (simp add: lap_steps_Suc Let_def)
  next
    case False
    with Suc.prems have "filter (\<lambda>p. 0 \<le> p \<and> p < n) (lap_steps dir ?p m) = []"
      by (cases dir) (auto simp: lap_steps_def filter_empty_conv)
    with False show ?thesis by (auto simp: lap_steps_Suc Let_def)
  qed
qed simp

lemma lap_steps_append: "lap_steps dir cursor (m + k) = lap_steps dir cursor m @ lap_steps dir (cursor + delta dir * int m) k"
  by (induction m arbitrary: cursor) (simp_all add: lap_steps_Suc algebra_simps)

lemma visits_stop_lap:
  assumes "-1 \<le> cursor" "cursor \<le> n" "nat n \<le> m"
  shows "visits n dir False m cursor = lap n dir False cursor"
proof -
  obtain k where m: "m = nat n + k" using assms(3) by (auto simp: le_iff_add)
  have "filter (\<lambda>p. 0 \<le> p \<and> p < n) (lap_steps dir (cursor + delta dir * int (nat n)) k) = []"
    using assms(1,2) by (cases dir) (auto simp: lap_steps_def filter_empty_conv)
  then show ?thesis unfolding m visits_stop [OF assms(1,2)] lap_steps_append filter_append lap_def by simp
qed

lemma visits_wrap_laps:
  assumes "0 < n"
  shows "visits n dir True (k * nat n) cursor = concat (replicate k (lap n dir True cursor))"
proof (induction k)
  case (Suc k)
  have "map (\<lambda>p. p mod n) (lap_steps dir (cursor + delta dir * n) (k * nat n)) = map (\<lambda>p. p mod n) (lap_steps dir cursor (k * nat n))"
    using lap_steps_mod [of n dir cursor] lap_steps_mod [of n dir "cursor + delta dir * n"] by simp
  with Suc show ?case using assms lap_steps_append [of dir cursor "nat n" "k * nat n"]
    by (simp add: visits_wrap lap_def)
qed simp

section \<open>The reference\<close>

lemma map_filter_concat_replicate:
  "List.map_filter f (concat (replicate k xs)) = concat (replicate k (List.map_filter f xs))"
  by (induction k) (simp_all add: map_filter_def)

lemma length_concat_replicate: "length (concat (replicate k xs)) = k * length xs"
  by (induction k) simp_all

lemma nth_concat_replicate: "i < k * length xs \<Longrightarrow> concat (replicate k xs) ! i = xs ! (i mod length xs)"
proof (induction k arbitrary: i)
  case (Suc k)
  then show ?case using Suc.IH [of "i - length xs"] by (auto simp: nth_append le_mod_geq)
qed simp

text \<open>
  The \<open>k\<close>-th entry of a list of matches, counting from one: around and around the list, or
  stopping at its end.
\<close>

definition kth_match :: "bool \<Rightarrow> nat \<Rightarrow> 'r list \<Rightarrow> 'r option" where
  "kth_match wrap k rs =
     (if rs = [] then None else Some (rs ! (if wrap then (k - 1) mod length rs else min k (length rs) - 1)))"

lemma last_take: "xs \<noteq> [] \<Longrightarrow> 0 < k \<Longrightarrow> last_of d (take k xs) = Some (xs ! (min k (length xs) - 1))"
  by (auto simp: last_of_def last_conv_nth min_def)

lemma take_laps:
  assumes "0 < k"
  shows "last_of None (take k (concat (replicate k rs))) = kth_match True k rs"
proof (cases "rs = []")
  case False
  then have "0 < length rs" by simp
  then have le: "k \<le> k * length rs" by (cases "length rs") simp_all
  with assms have "concat (replicate k rs) \<noteq> []" using False by auto
  from last_take [OF this assms] le assms False show ?thesis
    by (simp add: length_concat_replicate nth_concat_replicate kth_match_def)
qed (simp add: kth_match_def last_of_def)

lemma peek_loop_reference:
  assumes "0 < n" "0 < i" "-1 \<le> cursor" "cursor \<le> n"
  shows "peek_loop body n dir wrap (n * i) i cursor None 0 =
         kth_match wrap (nat i) (List.map_filter body (lap n dir wrap cursor))"
proof -
  have k: "0 < nat i" using assms(2) by simp
  have lim: "nat (n * i - 0) = nat i * nat n" using assms by (simp add: nat_mult_distrib)
  show ?thesis
  proof (cases wrap)
    case True
    then show ?thesis using take_laps [OF k]
      unfolding peek_loop_walk lim by (simp add: walk_matches visits_wrap_laps [OF assms(1)] map_filter_concat_replicate)
  next
    case False
    have "nat n \<le> nat i * nat n" using k by (cases "nat i") simp_all
    note stop = visits_stop_lap [OF assms(3,4) this, of dir]
    show ?thesis
    proof (cases "List.map_filter body (lap n dir False cursor) = []")
      case True
      then show ?thesis using False unfolding peek_loop_walk lim
        by (simp add: walk_matches stop kth_match_def last_of_def)
    next
      case some: False
      show ?thesis using False some unfolding peek_loop_walk lim
        by (simp add: walk_matches stop kth_match_def last_take [OF some k])
    qed
  qed
qed

section \<open>The snapshot\<close>

text \<open>What a snapshot of items with unique keys holds.\<close>

definition snapshot_wf :: "('a \<Rightarrow> list_key) \<Rightarrow> 'a snapshot_data \<Rightarrow> bool" where
  "snapshot_wf k sn \<longleftrightarrow>
     distinct (map k (sn_all sn)) \<and>
     sn_byKey sn = zip (map k (sn_all sn)) (sn_all sn) \<and>
     sn_indexByKey sn = zip (map k (sn_all sn)) (map int [0..<length (sn_all sn)])"

text \<open>The first item whose key an earlier item has.\<close>

definition first_duplicate :: "('a \<Rightarrow> list_key) \<Rightarrow> 'a list \<Rightarrow> list_key \<Rightarrow> bool" where
  "first_duplicate k xs key \<longleftrightarrow>
     (\<exists>pre x post. xs = pre @ x # post \<and> distinct (map k pre) \<and> key = k x \<and> key \<in> k ` set pre)"

lemma update_zip_fresh:
  "key \<notin> set ks \<Longrightarrow> length vs = length ks \<Longrightarrow> AList.update key v (zip ks vs) = zip (ks @ [key]) (vs @ [v])"
  by (subst update_fresh) (auto dest: set_zip_leftD)

lemma snapshot_loop_result:
  assumes "distinct (map k done)"
  shows "case snapshot_loop k xs (int (length done)) (zip (map k done) done) (zip (map k done) (map int [0..<length done])) of
      Throw e \<Rightarrow> (\<exists>key. first_duplicate k (done @ xs) key \<and> e = duplicate_key key)
    | Ret (byKey, indexByKey) \<Rightarrow> snapshot_wf k \<lparr>sn_all = done @ xs, sn_byKey = byKey, sn_indexByKey = indexByKey\<rparr>"
  using assms
proof (induction xs arbitrary: "done")
  case Nil
  then show ?case by (simp add: snapshot_wf_def)
next
  case (Cons x xs)
  have has: "map_has (zip (map k done) done) (k x) \<longleftrightarrow> k x \<in> k ` set done" by (simp add: map_has_def map_keys_def)
  show ?case
  proof (cases "k x \<in> k ` set done")
    case True
    then have "first_duplicate k (done @ x # xs) (k x)" using Cons.prems unfolding first_duplicate_def by blast
    with True has show ?thesis by auto
  next
    case False
    have "AList.update (k x) x (zip (map k done) done) = zip (map k (done @ [x])) (done @ [x])"
      "AList.update (k x) (int (length done)) (zip (map k done) (map int [0..<length done])) =
         zip (map k (done @ [x])) (map int [0..<length (done @ [x])])"
      using False by (simp_all add: update_zip_fresh)
    moreover have "distinct (map k (done @ [x]))" using Cons.prems False by simp
    ultimately show ?thesis using Cons.IH [of "done @ [x]", unfolded append_assoc append.simps] False has by (simp add: add.commute Let_def)
  qed
qed

lemma snapshot_result:
  "case items_snapshot opts xs of
      Throw e \<Rightarrow> (\<exists>key. first_duplicate (lo_getKey opts) xs key \<and> e = duplicate_key key)
    | Ret sn \<Rightarrow> snapshot_wf (lo_getKey opts) sn \<and> sn_all sn = xs"
  using snapshot_loop_result [of "lo_getKey opts" "[]" xs]
  by (auto simp: items_snapshot_def split: js.splits)

lemma not_first_duplicate: "distinct (map k xs) \<Longrightarrow> \<not> first_duplicate k xs key"
  by (auto simp: first_duplicate_def)

lemma map_of_zip_keys:
  assumes "distinct ks" "length vs = length ks"
  shows "map_of (zip ks vs) key = Some v \<longleftrightarrow> (\<exists>i < length ks. ks ! i = key \<and> vs ! i = v)"
  using assms by (auto simp: map_of_eq_Some_iff set_zip)

lemma itemResultFor_iff:
  assumes "snapshot_wf (lo_getKey opts) (lc_snapshot c)"
  shows "itemResultFor opts key c = Some r \<longleftrightarrow> itemResultAt opts (ir_index r) c = Some r \<and> ir_key r = key"
proof -
  let ?k = "lo_getKey opts"
  have wf: "distinct (map ?k (lc_all c))"
    "sn_indexByKey (lc_snapshot c) = zip (map ?k (lc_all c)) (map int [0..<length (lc_all c)])"
    using assms by (simp_all add: snapshot_wf_def lc_all_def)
  have idx: "map_of (sn_indexByKey (lc_snapshot c)) key = Some j \<longleftrightarrow>
      (\<exists>i < length (lc_all c). ?k (lc_all c ! i) = key \<and> int i = j)" for j
    unfolding wf(2) using map_of_zip_keys [OF wf(1), of "map int [0..<length (lc_all c)]" key j] by auto
  show ?thesis
  proof
    assume "itemResultFor opts key c = Some r"
    then obtain j where j: "map_of (sn_indexByKey (lc_snapshot c)) key = Some j" "itemResultAt opts j c = Some r"
      by (auto simp: itemResultFor_def split: option.splits)
    then obtain i where "i < length (lc_all c)" "?k (lc_all c ! i) = key" "int i = j" using idx by blast
    with j(2) show "itemResultAt opts (ir_index r) c = Some r \<and> ir_key r = key"
      by (auto simp: itemResultAt_def Let_def split: if_splits)
  next
    assume r: "itemResultAt opts (ir_index r) c = Some r \<and> ir_key r = key"
    then have "0 \<le> ir_index r" "ir_index r < lc_count c" "ir_key r = ?k (lc_all c ! nat (ir_index r))"
      by (auto simp: itemResultAt_def Let_def split: if_splits dest: arg_cong [where f = ir_key])
    then have "map_of (sn_indexByKey (lc_snapshot c)) key = Some (ir_index r)" unfolding idx
      using r by (auto simp: lc_count_def intro!: exI [of _ "nat (ir_index r)"])
    with r show "itemResultFor opts key c = Some r" by (simp add: itemResultFor_def)
  qed
qed

lemma itemResultAt_SomeD:
  "itemResultAt opts i c = Some r \<Longrightarrow>
   0 \<le> i \<and> i < lc_count c \<and> r = \<lparr>ir_item = lc_all c ! nat i, ir_index = i, ir_key = lo_getKey opts (lc_all c ! nat i)\<rparr>"
  by (auto simp: itemResultAt_def Let_def split: if_splits)

lemma itemResultAt_fields:
  "itemResultAt opts i c = Some r \<Longrightarrow> 0 \<le> i \<and> i < lc_count c \<and> ir_item r = lc_all c ! nat i \<and>
     ir_index r = i \<and> ir_key r = lo_getKey opts (ir_item r)"
  by (frule itemResultAt_SomeD) simp

lemma focusedResult_SomeD:
  assumes "snapshot_wf (lo_getKey opts) (lc_snapshot c)" "focusedResult opts c = Some r"
  shows "itemResultAt opts (ir_index r) c = Some r \<and> lc_requestedFocusKey c = Some (ir_key r) \<and>
     canNavigateTo opts r (lc_forcedFocus c)"
  using assms(2) itemResultFor_iff [OF assms(1)]
  by (auto simp: focusedResult_def split: option.splits if_splits)

section \<open>The nearest match\<close>

text \<open>\<open>p\<close> is at least as near to the centre as \<open>q\<close>, and after it when they are equally far.\<close>

definition nearer :: "int \<Rightarrow> int \<Rightarrow> int \<Rightarrow> bool" where
  "nearer center p q \<longleftrightarrow> \<bar>p - center\<bar> < \<bar>q - center\<bar> \<or> \<bar>p - center\<bar> = \<bar>q - center\<bar> \<and> q \<le> p"

lemma nearest_loop_finds:
  assumes "body i \<noteq> None" "0 \<le> d" "d \<le> \<bar>i - center\<bar>" "\<bar>i - center\<bar> < n"
  shows "\<exists>r p. nearest_loop body n center d = Some r \<and> body p = Some r \<and> nearer center p i"
  using assms(2-)
proof (induction "nat (\<bar>i - center\<bar> - d)" arbitrary: d rule: less_induct)
  case less
  then have d: "d < n" by simp
  note unfold = nearest_loop.simps [of body n center d]
  consider (plus) r where "body (center + d) = Some r" | (minus) r where "body (center + d) = None" "body (center - d) = Some r"
    | (none) "body (center + d) = None" "body (center - d) = None" by fastforce
  then show ?case
  proof cases
    case plus
    with less.prems d show ?thesis
      by (intro exI [of _ r] exI [of _ "center + d"]) (auto simp: unfold nearer_def)
  next
    case minus
    then have "i \<noteq> center + d" using assms(1) by auto
    with minus less.prems d show ?thesis
      by (intro exI [of _ r] exI [of _ "center - d"]) (auto simp: unfold nearer_def)
  next
    case none
    then have "i \<noteq> center + d" "i \<noteq> center - d" using assms(1) by auto
    then have "d + 1 \<le> \<bar>i - center\<bar>" using less.prems by linarith
    with none less.hyps [of "d + 1"] less.prems d show ?thesis by (simp add: unfold)
  qed
qed

lemma eligible_SomeD:
  "eligible opts nav c i = Some r \<Longrightarrow> itemResultAt opts i c = Some r \<and> matchesNavigation opts r nav"
  by (auto simp: eligible_def split: option.splits if_splits)

lemma eligible_index: "eligible opts nav c i = Some r \<Longrightarrow> ir_index r = i \<and> 0 \<le> i \<and> i < lc_count c"
  by (auto dest!: eligible_SomeD itemResultAt_SomeD)

text \<open>Clamping the target to the list does not change which positions of the list are nearer.\<close>

lemma nearer_clamp:
  assumes "0 \<le> p" "p < n" "0 \<le> q" "q < n" "nearer (min (max t 0) (n - 1)) p q"
  shows "nearer t p q"
  using assms unfolding nearer_def by linarith

lemma findNearest_finds:
  assumes "eligible opts nav c i = Some r'"
  shows "\<exists>r. findNearest opts t nav c = Some r \<and> eligible opts nav c (ir_index r) = Some r \<and> nearer t (ir_index r) i"
proof -
  let ?n = "lc_count c" and ?body = "eligible opts nav c"
  let ?center = "min (max t 0) (?n - 1)"
  have i: "0 \<le> i" "i < ?n" using eligible_index [OF assms] by simp_all
  then have center: "0 \<le> ?center" "?center < ?n" and n: "?n \<noteq> 0" by auto
  have "\<exists>r p. findNearest opts t nav c = Some r \<and> ?body p = Some r \<and> nearer ?center p i"
  proof (cases "?body ?center")
    case (Some r)
    then show ?thesis using n by (auto simp: findNearest_def nearer_def)
  next
    case None
    have "i \<noteq> ?center"
    proof
      assume "i = ?center"
      from None [folded this] assms show False by simp
    qed
    then have "1 \<le> \<bar>i - ?center\<bar>" by linarith
    then show ?thesis using None n i center nearest_loop_finds [of ?body i 1 ?center ?n] assms
      by (auto simp: findNearest_def)
  qed
  then obtain r p where r: "findNearest opts t nav c = Some r" "?body p = Some r" "nearer ?center p i" by blast
  then have "ir_index r = p" "0 \<le> p" "p < ?n" using eligible_index by blast+
  with r i show ?thesis using nearer_clamp [of p ?n i t] by auto
qed

end
