(* ===== verification/ListClaims.thy ===== *)
theory ListClaims
  imports ListNavigation
begin

text \<open>
  The calls a list controller answers, the states it reaches, the invariant of those states, and
  the properties of the list: unique keys, focus, navigation, nearest match, range selection.
\<close>

section \<open>Calls\<close>

datatype ('a, 'm) list_call =
  LSetItems "'a list"
| LFocusSet list_key focus_options
| LFocusSetIndex int focus_options
| LFocusRequest "list_key option" focus_options
| LFocusRestore "list_key option" restore_options
| LFocusFirst "'a navigation_options"
| LFocusLast "'a navigation_options"
| LFocusNearest int "'a navigation_options"
| LFocusClear focus_options
| LFocusPrune focus_options
| LNavigateBy offset "'a navigation_options"
| LActivateCurrent "'m activate_options"
| LActivateKey list_key "'m activate_options"
| LActivateIndex int "'m activate_options"
| LSelect list_key
| LDeselect list_key
| LSet list_key bool bool
| LToggle list_key bool
| LSelectKey list_key
| LDeselectKey list_key
| LToggleKey list_key
| LAdd "list_key list"
| LReplace "list_key list"
| LRestore "list_key list"
| LSelectRange list_key list_key bool
| LExtendRange list_key bool
| LSetAnchor "list_key option"
| LSelectAllVisible
| LToggleAllVisible
| LClear
| LPrune

text \<open>The controller after a call, or the error it throws. Results of calls are dropped here.\<close>

fun list_step :: "'a list_options \<Rightarrow> ('a, 'm) list_call \<Rightarrow> ('a, 'm) list_controller \<Rightarrow> ('a, 'm) list_controller js" where
  "list_step opts (LSetItems items) c = set_items opts items c"
| "list_step opts (LFocusSet key fo) c = Ret (snd (focusResult opts (itemResultFor opts key c) fo c))"
| "list_step opts (LFocusSetIndex index fo) c = Ret (snd (focusResult opts (itemResultAt opts index c) fo c))"
| "list_step opts (LFocusRequest key fo) c = Ret (snd (focus_request opts key fo c))"
| "list_step opts (LFocusRestore key ro) c = Ret (snd (restoreFocus opts key ro c))"
| "list_step opts (LFocusFirst nav) c = Ret (snd (focusFirst opts nav c))"
| "list_step opts (LFocusLast nav) c = Ret (snd (focusLast opts nav c))"
| "list_step opts (LFocusNearest index nav) c = Ret (snd (focusNearest opts index nav c))"
| "list_step opts (LFocusClear fo) c = Ret (snd (focus_clear opts fo c))"
| "list_step opts (LFocusPrune fo) c = Ret (focus_prune opts fo c)"
| "list_step opts (LNavigateBy offs nav) c =
     (case navigateBy opts offs nav c of (Throw e, _) \<Rightarrow> Throw e | (Ret _, c1) \<Rightarrow> Ret c1)"
| "list_step opts (LActivateCurrent ao) c = Ret (snd (activateResult opts (focusedResult opts c) ao False c))"
| "list_step opts (LActivateKey key ao) c = Ret (snd (activateResult opts (itemResultFor opts key c) ao True c))"
| "list_step opts (LActivateIndex index ao) c = Ret (snd (activateResult opts (itemResultAt opts index c) ao True c))"
| "list_step opts (LSelect rowKey) c = Ret (selection_select opts rowKey c)"
| "list_step opts (LDeselect rowKey) c = Ret (selection_deselect opts rowKey c)"
| "list_step opts (LSet rowKey selected ranged) c = Ret (snd (setSelected opts rowKey selected ranged c))"
| "list_step opts (LToggle rowKey ranged) c = Ret (snd (toggleSelected opts rowKey ranged c))"
| "list_step opts (LSelectKey key) c = Ret (selection_selectKey opts key c)"
| "list_step opts (LDeselectKey key) c = Ret (on_selection (sel_deselect key) c)"
| "list_step opts (LToggleKey key) c = Ret (selection_toggleKey opts key c)"
| "list_step opts (LAdd keys) c = Ret (selection_add opts keys c)"
| "list_step opts (LReplace keys) c = Ret (replaceSelected opts keys c)"
| "list_step opts (LRestore keys) c = Ret (on_selection (sel_replace keys) c)"
| "list_step opts (LSelectRange fromKey toKey selected) c =
     Ret (selectRange opts fromKey toKey selected (requestedKeys c) c)"
| "list_step opts (LExtendRange key selected) c = Ret (snd (extendSelectionRange opts key selected c))"
| "list_step opts (LSetAnchor key) c = Ret (setSelectionRangeAnchor key c)"
| "list_step opts LSelectAllVisible c = Ret (selectAllVisible opts c)"
| "list_step opts LToggleAllVisible c = Ret (toggleAllVisible opts c)"
| "list_step opts LClear c = Ret (clearSelection c)"
| "list_step opts LPrune c = Ret (selection_prune opts c)"

inductive list_reach :: "'a list_options \<Rightarrow> ('a, 'm) list_controller \<Rightarrow> bool" for opts where
  created: "createListController opts items = Ret c \<Longrightarrow> list_reach opts c"
| called: "list_reach opts c \<Longrightarrow> list_step opts call c = Ret c' \<Longrightarrow> list_reach opts c'"

text \<open>A run of calls, for concrete controllers.\<close>

fun list_run :: "'a list_options \<Rightarrow> ('a, 'm) list_call list \<Rightarrow> ('a, 'm) list_controller js \<Rightarrow> ('a, 'm) list_controller js" where
  "list_run opts [] r = r"
| "list_run opts (call # calls) r = (case r of Throw e \<Rightarrow> Throw e | Ret c \<Rightarrow> list_run opts calls (list_step opts call c))"

lemma list_run_Throw [simp]: "list_run opts calls (Throw e) = Throw e"
  by (cases calls) simp_all

lemma list_run_reach_from: "(\<And>c. r = Ret c \<Longrightarrow> list_reach opts c) \<Longrightarrow> list_run opts calls r = Ret c' \<Longrightarrow> list_reach opts c'"
proof (induction calls arbitrary: r)
  case (Cons call calls)
  then show ?case by (cases r) (auto intro: list_reach.called)
qed simp

lemma list_run_reach: "list_run opts calls (createListController opts items) = Ret c \<Longrightarrow> list_reach opts c"
  by (rule list_run_reach_from) (auto intro: list_reach.created)

section \<open>Frames\<close>

text \<open>The commands of focus and activation leave the items and the selection alone.\<close>

definition same_data :: "('a, 'm) list_controller \<Rightarrow> ('a, 'm) list_controller \<Rightarrow> bool" where
  "same_data c c' \<longleftrightarrow> lc_snapshot c' = lc_snapshot c \<and> lc_selection c' = lc_selection c \<and>
     lc_selectionAnchor c' = lc_selectionAnchor c \<and> lc_rangeSession c' = lc_rangeSession c"

lemma same_data_refl [simp]: "same_data c c"
  by (simp add: same_data_def)

lemma commitFocus_data [simp]: "same_data c (snd (commitFocus opts key reason force c))"
  by (simp add: commitFocus_def same_data_def Let_def)

lemma focusResult_data [simp]: "same_data c (snd (focusResult opts r fo c))"
  by (simp add: focusResult_def split: option.split)

lemma focus_calls_data [simp]:
  "same_data c (snd (focusFirst opts nav c))"
  "same_data c (snd (focusLast opts nav c))"
  "same_data c (snd (focusNearest opts index nav c))"
  "same_data c (snd (focus_request opts key fo c))"
  "same_data c (snd (focus_clear opts fo c))"
  "same_data c (focus_prune opts fo c)"
  "same_data c (snd (restore_fallback opts key ro reason c))"
  by (simp_all add: focusFirst_def focusLast_def focusNearest_def focus_request_def focus_clear_def focus_prune_def
      restore_fallback_def split: focus_fallback.split)

lemma same_data_trans: "same_data a b \<Longrightarrow> same_data b c \<Longrightarrow> same_data a c"
  by (simp add: same_data_def)

lemma restore_or_fallback_data:
  "same_data c (snd (case focusResult opts r fo c of
      (Some restored, c1) \<Rightarrow> (Some restored, c1) | (None, c1) \<Rightarrow> restore_fallback opts key ro reason c1))"
proof -
  obtain x c1 where e: "focusResult opts r fo c = (x, c1)" by fastforce
  then have "same_data c c1" using focusResult_data [of c opts r fo] by simp
  with e show ?thesis using same_data_trans [OF _ focus_calls_data(7)] by (cases x) auto
qed

lemma restoreFocus_data [simp]: "same_data c (snd (restoreFocus opts key ro c))"
  by (simp add: restoreFocus_def Let_def restore_or_fallback_data split: option.split)

lemma navigateBy_data [simp]: "same_data c (snd (navigateBy opts offs nav c))"
  by (simp add: navigateBy_def split: js.split)

lemma activateResult_data [simp]: "same_data c (snd (activateResult opts r ao focus c))"
proof -
  have "same_data c (c1\<lparr>lc_activations := xs\<rparr>)" if "same_data c c1" for c1 xs using that by (simp add: same_data_def)
  then show ?thesis by (simp add: activateResult_def Let_def split: option.split)
qed

section \<open>The invariant\<close>

text \<open>
  A listener of \<open>onChange\<close> that starts from the initial keys knows the selection, and is told of
  changes only.
\<close>

definition heard :: "list_key list \<Rightarrow> selection_state \<Rightarrow> bool" where
  "heard init s \<longleftrightarrow> set (last (init # sl_changes s)) = set (sl_selected s) \<and>
     successively (\<lambda>a b. set a \<noteq> set b) (init # sl_changes s)"

lemma heard_becomes: "becomes K s s' \<Longrightarrow> heard init s \<Longrightarrow> heard init s'"
  by (auto simp: becomes_def heard_def successively_append_iff split: if_splits simp flip: append_Cons)

definition list_inv :: "'a list_options \<Rightarrow> ('a, 'm) list_controller \<Rightarrow> bool" where
  "list_inv opts c \<longleftrightarrow> snapshot_wf (lo_getKey opts) (lc_snapshot c) \<and>
     distinct (requestedKeys c) \<and> heard (or_else (lo_initialSelectedKeys opts) []) (lc_selection c) \<and>
     (lc_rangeSession c \<noteq> None \<longrightarrow> lc_selectionAnchor c \<noteq> None)"

lemma list_inv_data: "same_data c c' \<Longrightarrow> list_inv opts c \<Longrightarrow> list_inv opts c'"
  by (simp add: same_data_def list_inv_def requestedKeys_def)

text \<open>The commands of selection make the selection become another set, and may move the anchor.\<close>

lemma list_inv_select:
  assumes "list_inv opts c" "becomes K (lc_selection c) (lc_selection c')" "lc_snapshot c' = lc_snapshot c"
    "lc_rangeSession c' \<noteq> None \<longrightarrow> lc_selectionAnchor c' \<noteq> None"
  shows "list_inv opts c'"
  using assms heard_becomes [OF assms(2)] by (simp add: list_inv_def becomes_def requestedKeys_def)

lemma list_inv_on_selection:
  "list_inv opts c \<Longrightarrow> becomes K (lc_selection c) (f (lc_selection c)) \<Longrightarrow> list_inv opts (on_selection f c)"
  by (rule list_inv_select) (simp_all add: on_selection_def list_inv_def)

lemma list_inv_distinct: "list_inv opts c \<Longrightarrow> distinct (sl_selected (lc_selection c))"
  by (simp add: list_inv_def requestedKeys_def)

lemma list_inv_ops:
  assumes "list_inv opts c"
  shows "list_inv opts (on_selection (sel_select k) c)" "list_inv opts (on_selection (sel_deselect k) c)"
    "list_inv opts (on_selection (sel_toggle k) c)" "list_inv opts (on_selection (sel_add ks) c)"
    "list_inv opts (on_selection (sel_replace ks) c)" "list_inv opts (on_selection sel_clear c)"
    "list_inv opts (on_selection (sel_prune g xs) c)"
  using sel_becomes [OF list_inv_distinct [OF assms]] by (blast intro: list_inv_on_selection assms)+

lemma list_inv_anchor: "list_inv opts c \<Longrightarrow> list_inv opts (setSelectionRangeAnchor k c)"
  by (simp add: list_inv_def setSelectionRangeAnchor_def requestedKeys_def)

lemma list_inv_selectRange: "list_inv opts c \<Longrightarrow> list_inv opts (selectRange opts' a b sel base c)"
  by (simp add: selectRange_def Let_def list_inv_ops)

lemma list_inv_extend:
  assumes "list_inv opts c"
  shows "list_inv opts (snd (extendSelectionRange opts' t sel c))"
proof (cases "lc_selectionAnchor c")
  case (Some a)
  then have "list_inv opts (c\<lparr>lc_rangeSession := Some session\<rparr>)" for session
    using assms by (simp add: list_inv_def requestedKeys_def)
  then show ?thesis using assms Some by (simp add: extendSelectionRange_def Let_def list_inv_selectRange)
qed (simp add: extendSelectionRange_def assms)

lemma list_inv_setSelected: "list_inv opts c \<Longrightarrow> list_inv opts (snd (setSelected opts' k sel ranged c))"
  by (simp add: setSelected_def list_inv_extend list_inv_anchor list_inv_ops split: option.split)

lemma list_inv_created: "createListController opts items = Ret c \<Longrightarrow> list_inv opts c"
  using snapshot_result [of opts items]
  by (auto simp: createListController_def map_js_eq_Ret list_inv_def requestedKeys_def createSelectionState_def heard_def)

lemma list_inv_set_items: "list_inv opts c \<Longrightarrow> set_items opts items c = Ret c' \<Longrightarrow> list_inv opts c'"
  using snapshot_result [of opts items] by (auto simp: set_items_def map_js_eq_Ret list_inv_def requestedKeys_def)

lemmas list_inv_selection = list_inv_ops list_inv_anchor list_inv_selectRange list_inv_extend list_inv_setSelected

lemma list_inv_navigate:
  "list_inv opts c \<Longrightarrow> list_step opts (LNavigateBy offs nav) c = Ret c' \<Longrightarrow> list_inv opts c'"
  using list_inv_data [OF navigateBy_data, of opts c opts offs nav] by (auto split: prod.splits js.splits)

lemmas list_inv_focus = focusResult_data [THEN list_inv_data] focus_calls_data [THEN list_inv_data]
  restoreFocus_data [THEN list_inv_data] activateResult_data [THEN list_inv_data]

lemma list_inv_step:
  assumes "list_inv opts c" "list_step opts call c = Ret c'"
  shows "list_inv opts c'"
proof (cases call)
  case (LSetItems items)
  with assms show ?thesis using list_inv_set_items [OF assms(1)] by simp
next
  case (LNavigateBy offs nav)
  with assms list_inv_navigate show ?thesis by blast
qed (use assms in \<open>auto simp: list_inv_selection toggleSelected_def selection_select_def selection_deselect_def
  selection_selectKey_def selection_toggleKey_def selection_add_def replaceSelected_def selectAllVisible_def
  toggleAllVisible_def clearSelection_def selection_prune_def list_inv_focus Let_def split: option.split\<close>)

lemma list_reach_inv: "list_reach opts c \<Longrightarrow> list_inv opts c"
  by (induction rule: list_reach.induct) (blast intro: list_inv_created list_inv_step)+

section \<open>Ranges\<close>

text \<open>The selection key of the row at a position, when it can be selected, and those of a range.\<close>

definition selectable_at :: "'a list_options \<Rightarrow> ('a, 'm) list_controller \<Rightarrow> int \<Rightarrow> list_key option" where
  "selectable_at opts c i =
     (case itemResultAt opts i c of
        Some r \<Rightarrow> if is_selectable opts r then Some (selectionKeyForResult opts r) else None
      | None \<Rightarrow> None)"

definition range_keys :: "'a list_options \<Rightarrow> list_key \<Rightarrow> list_key \<Rightarrow> ('a, 'm) list_controller \<Rightarrow> list_key list" where
  "range_keys opts a b c =
     (let i = items_indexOf a c; j = items_indexOf b c in List.map_filter (selectable_at opts c) [min i j..max i j])"

lemma range_turn_at:
  "range_turn opts selected c next i =
     (case selectable_at opts c i of None \<Rightarrow> next | Some k \<Rightarrow> if selected then set_add k next else set_delete k next)"
  by (simp add: range_turn_def selectable_at_def Let_def split: option.split)

lemma range_turns:
  "set (foldl (range_turn opts selected c) base xs) =
     (if selected then set base \<union> set (List.map_filter (selectable_at opts c) xs)
      else set base - set (List.map_filter (selectable_at opts c) xs))"
proof (induction xs arbitrary: base)
  case (Cons x xs)
  then show ?case by (auto simp: range_turn_at map_filter_simps split: option.split)
qed (simp add: map_filter_simps)

lemma snapshot_cong:
  assumes "lc_snapshot c' = lc_snapshot c"
  shows "itemResultAt opts i c' = itemResultAt opts i c" "itemResultFor opts k c' = itemResultFor opts k c"
    "selectableResult opts k c' = selectableResult opts k c" "items_indexOf k c' = items_indexOf k c"
    "selectable_at opts c' = selectable_at opts c" "range_keys opts a b c' = range_keys opts a b c"
proof -
  show at: "itemResultAt opts i c' = itemResultAt opts i c" for i
    by (simp add: itemResultAt_def lc_count_def lc_all_def assms)
  show for_key: "itemResultFor opts k c' = itemResultFor opts k c" for k by (simp add: itemResultFor_def at assms split: option.split)
  show "selectableResult opts k c' = selectableResult opts k c" by (simp add: selectableResult_def for_key)
  show idx: "items_indexOf k c' = items_indexOf k c" for k by (simp add: items_indexOf_def assms)
  show sel: "selectable_at opts c' = selectable_at opts c" by (simp add: fun_eq_iff selectable_at_def at)
  show "range_keys opts a b c' = range_keys opts a b c" by (simp add: range_keys_def idx sel)
qed

lemma selectable_present:
  assumes "selectableResult opts k c \<noteq> None"
  shows "0 \<le> items_indexOf k c"
proof -
  obtain r where "itemResultFor opts k c = Some r" using assms by (auto simp: selectableResult_def split: option.splits)
  then obtain i where "map_of (sn_indexByKey (lc_snapshot c)) k = Some i" "itemResultAt opts i c = Some r"
    by (auto simp: itemResultFor_def split: option.splits)
  then show ?thesis using itemResultAt_SomeD [of opts i c r] by (simp add: items_indexOf_def)
qed

definition ranged :: "range_session \<Rightarrow> list_key list \<Rightarrow> list_key set" where
  "ranged s keys = (if rs_selected s then set (rs_baseline s) \<union> set keys else set (rs_baseline s) - set keys)"

lemma selectRange_keys:
  assumes "distinct (requestedKeys c)" "selectableResult opts a c \<noteq> None" "selectableResult opts b c \<noteq> None"
  shows "set (requestedKeys (selectRange opts a b (rs_selected s) (rs_baseline s) c)) = ranged s (range_keys opts a b c)"
proof -
  have "0 \<le> items_indexOf a c" "0 \<le> items_indexOf b c" using selectable_present assms(2,3) by blast+
  then show ?thesis using replace_becomes [of "lc_selection c"] assms(1)
    by (simp add: selectRange_def Let_def requestedKeys_def on_selection_def becomes_def range_turns ranged_def range_keys_def)
qed

lemma selectRange_frame:
  "lc_snapshot (selectRange opts a b sel base c) = lc_snapshot c"
  "lc_selectionAnchor (selectRange opts a b sel base c) = lc_selectionAnchor c"
  "lc_rangeSession (selectRange opts a b sel base c) = lc_rangeSession c"
  by (simp_all add: selectRange_def Let_def on_selection_def)

lemma extend_result:
  fixes sel :: bool
  assumes "list_inv opts c" "lc_selectionAnchor c = Some a"
    "selectableResult opts a c \<noteq> None" "selectableResult opts t c \<noteq> None"
  defines "s \<equiv> or_else (lc_rangeSession c) \<lparr>rs_baseline = requestedKeys c, rs_selected = sel\<rparr>"
  defines "c' \<equiv> snd (extendSelectionRange opts t sel c)"
  shows "lc_snapshot c' = lc_snapshot c" "lc_selectionAnchor c' = Some a" "lc_rangeSession c' = Some s"
    "set (requestedKeys c') = ranged s (range_keys opts a t c)"
proof -
  let ?c = "c\<lparr>lc_rangeSession := Some s\<rparr>"
  have d: "distinct (requestedKeys c)" using assms(1) by (simp add: list_inv_def)
  have c': "c' = selectRange opts a t (rs_selected s) (rs_baseline s) ?c"
    using assms(2-4) d by (auto simp: c'_def extendSelectionRange_def Let_def s_def)
  have sn: "lc_snapshot ?c = lc_snapshot c" by simp
  show "lc_snapshot c' = lc_snapshot c" "lc_selectionAnchor c' = Some a" "lc_rangeSession c' = Some s"
    using assms(2) by (simp_all add: c' selectRange_frame)
  show "set (requestedKeys c') = ranged s (range_keys opts a t c)"
    unfolding c' using d assms(3,4) selectRange_keys [of ?c opts a t s]
    by (simp add: snapshot_cong [OF sn] requestedKeys_def)
qed

fun extend_all ::
    "'a list_options \<Rightarrow> (list_key \<times> bool) list \<Rightarrow> ('a, 'm) list_controller \<Rightarrow> ('a, 'm) list_controller" where
  "extend_all opts [] c = c"
| "extend_all opts ((t, sel) # ts) c = extend_all opts ts (snd (extendSelectionRange opts t sel c))"

lemma extend_all_session:
  assumes "list_inv opts c" "lc_selectionAnchor c = Some a" "lc_rangeSession c = Some s"
    "selectableResult opts a c \<noteq> None" "\<forall>(t, _) \<in> set ts. selectableResult opts t c \<noteq> None"
    "set (requestedKeys c) = ranged s (range_keys opts a t0 c)"
  shows "set (requestedKeys (extend_all opts ts c)) = ranged s (range_keys opts a (last (t0 # map fst ts)) c)"
  using assms
proof (induction ts arbitrary: c t0)
  case (Cons x ts)
  obtain t sel where x: "x = (t, sel)" by fastforce
  let ?c = "snd (extendSelectionRange opts t sel c)"
  have t: "selectableResult opts t c \<noteq> None" using Cons.prems(5) x by simp
  note step = extend_result [OF Cons.prems(1,2,4) t, of sel, unfolded Cons.prems(3) or_else_simps]
  note cong = snapshot_cong [OF step(1)]
  have "set (requestedKeys (extend_all opts ts ?c)) = ranged s (range_keys opts a (last (t # map fst ts)) ?c)"
    using Cons.prems step by (intro Cons.IH) (auto simp: cong list_inv_extend)
  then show ?case by (simp add: x cong)
qed simp

section \<open>A concrete list\<close>

text \<open>A header that cannot be focused or selected, and three rows.\<close>

definition row_options :: "string list_options" where
  "row_options = \<lparr>lo_getKey = (\<lambda>x. x), lo_selectionKey = None, lo_isNavigable = Some (\<lambda>x _. x \<noteq> ''header''),
     lo_isSelectable = Some (\<lambda>x _. x \<noteq> ''header''), lo_wrapNavigation = Some True, lo_initialFocusKey = None,
     lo_initialSelectedKeys = None\<rparr>"

definition any_row :: "string navigation_options" where
  "any_row = \<lparr>fo_reason = None, fo_force = False, no_isNavigable = None, no_wrap = None\<rparr>"

definition row_run :: "(string, unit) list_call list \<Rightarrow> (string, unit) list_controller" where
  "row_run calls = (case list_run row_options calls (createListController row_options [''header'', ''a'', ''b'', ''c'']) of
     Ret c \<Rightarrow> c | Throw e \<Rightarrow> undefined)"

lemma row_run_reach:
  "is_ret (list_run row_options calls (createListController row_options [''header'', ''a'', ''b'', ''c''])) \<Longrightarrow>
   list_reach row_options (row_run calls)"
  by (erule is_retE) (simp add: row_run_def list_run_reach)

section \<open>Claims\<close>

text \<open>
  C33: whoever listens to \<open>onSelectionChange\<close> knows the selection. In every reachable controller,
  the selected keys have no duplicates, the last set reported (or the initial one) is the
  selection, and no two reports in a row are equal as sets: a command that changes nothing
  reports nothing. While a range session is open there is an anchor.
\<close>

theorem selection_listener_in_sync:
  assumes "list_reach opts c"
  shows "distinct (requestedKeys c) \<and> heard (or_else (lo_initialSelectedKeys opts) []) (lc_selection c) \<and>
    (lc_rangeSession c = None \<or> (\<exists>a. lc_selectionAnchor c = Some a))"
  using list_reach_inv [OF assms] by (auto simp: list_inv_def)

theorem selection_listener_in_sync_witness:
  "let c = row_run [LSelect ''a'', LSelect ''a'', LToggleAllVisible, LToggleAllVisible]
   in heard [] (lc_selection c) \<and> sl_changes (lc_selection c) = [[''a''], [''a'', ''b'', ''c''], []]"
proof -
  let ?calls = "[LSelect ''a'', LSelect ''a'', LToggleAllVisible, LToggleAllVisible] :: (string, unit) list_call list"
  have "list_reach row_options (row_run ?calls)" by (rule row_run_reach) code_simp
  from selection_listener_in_sync [OF this] have "heard [] (lc_selection (row_run ?calls))"
    by (simp add: row_options_def)
  moreover have "sl_changes (lc_selection (row_run ?calls)) = [[''a''], [''a'', ''b'', ''c''], []]" by code_simp
  ultimately show ?thesis by (simp add: Let_def)
qed

text \<open>
  C34: a list with a duplicate key is refused. \<open>createListController\<close> throws exactly when two items
  have the same key, with a message that names the key of the first item whose key came before;
  otherwise the lookup by key and the lookup by position agree, and each key finds its item.
\<close>

theorem duplicate_keys_throw:
  "case createListController opts items of
     Throw e \<Rightarrow> (\<exists>key. first_duplicate (lo_getKey opts) items key \<and> e = duplicate_key key)
   | Ret c \<Rightarrow> distinct (map (lo_getKey opts) items) \<and> lc_all c = items \<and>
       (\<forall>key r. itemResultFor opts key c = Some r \<longleftrightarrow> itemResultAt opts (ir_index r) c = Some r \<and> ir_key r = key)"
proof (cases "items_snapshot opts items")
  case (Throw e)
  then show ?thesis using snapshot_result [of opts items] by (simp add: createListController_def)
next
  case (Ret sn)
  then have sn: "snapshot_wf (lo_getKey opts) sn" "sn_all sn = items" using snapshot_result [of opts items] by simp_all
  then have "distinct (map (lo_getKey opts) items)" by (simp add: snapshot_wf_def)
  with Ret sn show ?thesis by (simp add: createListController_def lc_all_def itemResultFor_iff)
qed

text \<open>
  C35: \<open>peekBy\<close> counts matches. An offset other than 0 leads to the \<open>k\<close>-th eligible item in its
  direction, \<open>k\<close> being its absolute value: counted around and around the list when navigation
  wraps, however few the eligible items are, and otherwise no further than the last one. The
  visit limit never cuts this short. Counting starts beside the focused item, or outside the
  list when nothing is focused. On a list that is not empty, an offset that is not a safe integer
  throws.
\<close>

theorem peekBy_counts_matches:
  fixes nav :: "'a navigation_options"
  assumes "list_reach opts c" and "lc_all c \<noteq> []"
  defines "wrap \<equiv> or_else (no_wrap nav) (or_else (lo_wrapNavigation opts) False)"
  shows "peekBy opts NotWhole nav c = Throw ''List navigation offset must be a finite integer'' \<and>
   peekBy opts (Whole i) nav c =
    (if i = 0 then
       Ret (case focusedResult opts c of
              None \<Rightarrow> None | Some r \<Rightarrow> if matchesNavigation opts r nav then Some r else None)
     else if \<bar>i\<bar> > 2 ^ 53 - 1 then Throw ''List navigation offset must be a finite integer''
     else let dir = (if i > 0 then Forward else Backward);
              start = (case focusedResult opts c of
                         Some r \<Rightarrow> ir_index r | None \<Rightarrow> if i > 0 then -1 else lc_count c)
          in Ret (kth_match wrap (nat \<bar>i\<bar>) (List.map_filter (eligible opts nav c) (lap (lc_count c) dir wrap start))))"
proof -
  have wf: "snapshot_wf (lo_getKey opts) (lc_snapshot c)" using list_reach_inv [OF assms(1)] by (simp add: list_inv_def)
  have n: "0 < lc_count c" "lc_count c \<noteq> 0" using assms(2) by (simp_all add: lc_count_def)
  have start: "-1 \<le> ir_index r" "ir_index r \<le> lc_count c" if "focusedResult opts c = Some r" for r
    using focusedResult_SomeD [OF wf that] itemResultAt_SomeD [of opts "ir_index r" c r] by auto
  show ?thesis
    using n start
    by (auto simp: peekBy_def wrap_def Let_def peek_loop_reference split: option.split)
qed

theorem peekBy_counts_matches_witness:
  "let c = row_run [LFocusSet ''c'' \<lparr>fo_reason = None, fo_force = False\<rparr>]
   in peekBy row_options (Whole 5) any_row c = Ret (Some \<lparr>ir_item = ''b'', ir_index = 2, ir_key = ''b''\<rparr>)"
proof -
  let ?c = "row_run [LFocusSet ''c'' \<lparr>fo_reason = None, fo_force = False\<rparr>]"
  have "list_reach row_options ?c" by (rule row_run_reach) code_simp
  moreover have "lc_all ?c \<noteq> []" by code_simp
  moreover have "focusedResult row_options ?c = Some \<lparr>ir_item = ''c'', ir_index = 3, ir_key = ''c''\<rparr>" by code_simp
  moreover have "kth_match True 5 (List.map_filter (eligible row_options any_row ?c) (lap (lc_count ?c) Forward True 3)) =
    Some \<lparr>ir_item = ''b'', ir_index = 2, ir_key = ''b''\<rparr>" by code_simp
  moreover have "or_else (no_wrap any_row) (or_else (lo_wrapNavigation row_options) False)" by code_simp
  ultimately show ?thesis using peekBy_counts_matches [where opts = row_options and c = ?c and nav = any_row and i = 5] by (simp add: Let_def)
qed

text \<open>
  C36: the focus is never out of bounds or stale. In every reachable controller, a focused result
  has an index within the list, is the item now at that index under the requested key, and may be
  navigated to unless it was focused by force.
\<close>

theorem focus_in_bounds:
  assumes "list_reach opts c" and "focusedResult opts c = Some r"
  shows "0 \<le> ir_index r \<and> ir_index r < lc_count c \<and> ir_item r = lc_all c ! nat (ir_index r) \<and>
    ir_key r = lo_getKey opts (ir_item r) \<and> lc_requestedFocusKey c = Some (ir_key r) \<and>
    canNavigateTo opts r (lc_forcedFocus c)"
proof -
  have "snapshot_wf (lo_getKey opts) (lc_snapshot c)" using list_reach_inv [OF assms(1)] by (simp add: list_inv_def)
  from focusedResult_SomeD [OF this assms(2)] itemResultAt_fields [of opts "ir_index r" c r] show ?thesis by auto
qed

theorem focus_in_bounds_witness:
  "let c = row_run [LFocusSet ''c'' \<lparr>fo_reason = None, fo_force = False\<rparr>, LSetItems [''c'', ''d'']]
   in lc_requestedFocusKey c = Some ''c'' \<and> 0 < lc_count c \<and> lc_all c ! 0 = ''c''"
proof -
  let ?c = "row_run [LFocusSet ''c'' \<lparr>fo_reason = None, fo_force = False\<rparr>, LSetItems [''c'', ''d'']]"
  have reach: "list_reach row_options ?c" by (rule row_run_reach) code_simp
  have "focusedResult row_options ?c = Some \<lparr>ir_item = ''c'', ir_index = 0, ir_key = ''c''\<rparr>" by code_simp
  from focus_in_bounds [OF reach this] show ?thesis by simp
qed

text \<open>
  \<open>findNearest\<close> finds the nearest match. When some position is eligible, it answers with an
  eligible position that is at least as near to the target index, wherever the target is, and
  with the later one of two that are equally near.
\<close>

theorem findNearest_is_nearest:
  assumes "eligible opts nav c i = Some r'"
  shows "\<exists>r. findNearest opts t nav c = Some r \<and> eligible opts nav c (ir_index r) = Some r \<and>
    (\<bar>ir_index r - t\<bar> < \<bar>i - t\<bar> \<or> \<bar>ir_index r - t\<bar> = \<bar>i - t\<bar> \<and> i \<le> ir_index r)"
  using findNearest_finds [OF assms, of t] by (simp add: nearer_def)

theorem findNearest_is_nearest_witness:
  "\<exists>r. findNearest row_options (-3) any_row (row_run []) = Some r \<and> \<bar>ir_index r + 3\<bar> \<le> 4"
proof -
  have "eligible row_options any_row (row_run []) 1 = Some \<lparr>ir_item = ''a'', ir_index = 1, ir_key = ''a''\<rparr>" by code_simp
  from findNearest_is_nearest [OF this, of "-3"] show ?thesis by force
qed

text \<open>
  C38: a range follows its target. While the anchor stays, extending the range to a series of
  rows leaves the selection that was there when the session began, plus the keys between the
  anchor and the last row, or minus them when the first extension deselects; nothing of the
  earlier targets remains. Rows that cannot be selected are left out of the range.
\<close>

theorem range_follows_last_target:
  fixes ts :: "(list_key \<times> bool) list" and t :: list_key
  assumes "list_reach opts c" and "lc_selectionAnchor c = Some a" and "lc_rangeSession c = None"
    and "selectableResult opts a c \<noteq> None"
    and "list_all (\<lambda>(t, _). selectableResult opts t c \<noteq> None) ((t, sel) # ts)"
  defines "K \<equiv> set (range_keys opts a (last (t # map fst ts)) c)"
  shows "set (requestedKeys (extend_all opts ((t, sel) # ts) c)) =
    (if sel then set (requestedKeys c) \<union> K else set (requestedKeys c) - K)"
proof -
  let ?c = "snd (extendSelectionRange opts t sel c)" and ?s = "\<lparr>rs_baseline = requestedKeys c, rs_selected = sel\<rparr>"
  have inv: "list_inv opts c" by (rule list_reach_inv [OF assms(1)])
  have t: "selectableResult opts t c \<noteq> None" using assms(5) by simp
  note step = extend_result [OF inv assms(2,4) t, of sel, unfolded assms(3) or_else_simps]
  note cong = snapshot_cong [OF step(1)]
  have "set (requestedKeys (extend_all opts ts ?c)) = ranged ?s (range_keys opts a (last (t # map fst ts)) ?c)"
    using inv step assms(4,5) by (intro extend_all_session) (auto simp: cong list_inv_extend list_all_iff)
  then show ?thesis by (simp add: cong ranged_def K_def)
qed

theorem range_follows_last_target_witness:
  "set (requestedKeys (extend_all row_options [(''c'', True), (''b'', False)] (row_run [LSet ''a'' True False]))) = {''a'', ''b''}"
proof -
  let ?c = "row_run [LSet ''a'' True False]"
  have "list_reach row_options ?c" by (rule row_run_reach) code_simp
  moreover have "lc_selectionAnchor ?c = Some ''a''" by code_simp
  moreover have "lc_rangeSession ?c = None" by code_simp
  moreover have "selectableResult row_options ''a'' ?c \<noteq> None" by code_simp
  moreover have "list_all (\<lambda>(t, _). selectableResult row_options t ?c \<noteq> None) [(''c'', True), (''b'', False)]" by code_simp
  moreover have "range_keys row_options ''a'' (last [''c'', ''b'']) ?c = [''a'', ''b'']" by code_simp
  moreover have "requestedKeys ?c = [''a'']" by code_simp
  ultimately show ?thesis
    using range_follows_last_target [where opts = row_options and c = ?c and a = "''a''" and t = "''c''" and sel = True
      and ts = "[(''b'', False)]"] by auto
qed

end
