(* ===== verification/Machine.thy ===== *)
theory Machine
  imports JsSet
begin

text \<open>
  The state machine runner (\<open>packages/machine\<close>): the pure helpers \<open>step\<close> and \<open>simulate\<close>, and
  \<open>createMachine\<close>, which runs a definition with scopes, subscribers and commands and serializes
  nested events.

  \<^item> A callback (scope, cleanup, subscriber, command, inspector) is a script: the calls it makes of
    the machine, in order, possibly ending in a throw. Which script a callback follows may depend
    on its arguments and on how many callbacks ran before, so that anything outside the machine
    may influence it.
  \<^item> Callbacks run only while \<open>draining\<close> is set (\<open>createMachine\<close> sets it for the initial scope) or
    after disposal. So a dispatch in a script only queues the event, or does nothing.
  \<^item> The reducers are pure: a definition maps a state and an event to a transition or to none.
  \<^item> The log records what the machine did, oldest first. A scope is logged as opened when its
    cleanup is known to the machine, under the number of the callback that mounted it.
\<close>

section \<open>Pure helpers\<close>

record ('s, 'c) transition =
  tr_state :: 's
  tr_commands :: "'c list option"

type_synonym ('s, 'e, 'c) machine_def = "'s \<Rightarrow> 'e \<Rightarrow> ('s, 'c) transition option"

definition step :: "('s, 'e, 'c) machine_def \<Rightarrow> 's \<Rightarrow> 'e \<Rightarrow> ('s, 'c) transition option" where
  "step def state event = def state event"

record ('s, 'e, 'c) simulation_step =
  ss_from :: 's
  ss_event :: 'e
  ss_result :: "('s, 'c) transition option"

record ('s, 'e, 'c) simulation_result =
  sr_state :: 's
  sr_commands :: "'c list"
  sr_steps :: "('s, 'e, 'c) simulation_step list"

definition simulate_turn ::
    "('s, 'e, 'c) machine_def \<Rightarrow> ('s, 'e, 'c) simulation_result \<Rightarrow> 'e \<Rightarrow> ('s, 'e, 'c) simulation_result" where
  "simulate_turn def r event =
     (let result = step def (sr_state r) event;
          r1 = r\<lparr>sr_steps := sr_steps r @ [\<lparr>ss_from = sr_state r, ss_event = event, ss_result = result\<rparr>]\<rparr>
      in case result of
           None \<Rightarrow> r1
         | Some t \<Rightarrow>
             let r2 = r1\<lparr>sr_state := tr_state t\<rparr>
             in case tr_commands t of None \<Rightarrow> r2 | Some cs \<Rightarrow> r2\<lparr>sr_commands := sr_commands r2 @ cs\<rparr>)"

definition simulate :: "('s, 'e, 'c) machine_def \<Rightarrow> 's \<Rightarrow> 'e list \<Rightarrow> ('s, 'e, 'c) simulation_result" where
  "simulate def initial events =
     foldl (simulate_turn def) \<lparr>sr_state = initial, sr_commands = [], sr_steps = []\<rparr> events"

section \<open>The runner\<close>

definition MAX_CHAINED_DISPATCHES :: nat where
  "MAX_CHAINED_DISPATCHES = 1000"

definition TRAIL_LENGTH :: nat where
  "TRAIL_LENGTH = 20"

datatype 'e machine_error = DispatchCycleError "'e list" | Raised string

datatype 'e act =
  ADispatch 'e
| ADispose
| ASubscribe nat
| AUnsubscribe nat
| AThrow string

type_synonym 'e script = "'e act list"

datatype ('s, 'e, 'c) machine_event =
  Inspected "('s, 'e, 'c) simulation_step"
| Opened nat
| Cleaned nat
| Notified nat 's
| Executed 'c

text \<open>
  The options. A scope gives its script and the script of its cleanup, if it returns one; the
  first argument of every callback is the number of callbacks so far.
\<close>

record ('s, 'e, 'c) machine_options =
  mo_initial :: 's
  mo_def :: "('s, 'e, 'c) machine_def"
  mo_scope :: "nat \<Rightarrow> 's \<Rightarrow> ('e script \<times> 'e script option) option"
  mo_execute :: "nat \<Rightarrow> 'c \<Rightarrow> 'e script"
  mo_inspect :: "nat \<Rightarrow> ('s, 'e, 'c) simulation_step \<Rightarrow> 'e script"
  mo_listener :: "nat \<Rightarrow> nat \<Rightarrow> 's \<Rightarrow> 'e script"

record ('s, 'e, 'c) machine =
  mc_state :: 's
  mc_disposed :: bool
  mc_draining :: bool
  mc_disposeScope :: "(nat \<times> 'e script) option"
  mc_listeners :: "nat jsset"
  mc_queue :: "'e list"
  mc_trail :: "'e list"
  mc_callbacks :: nat
  mc_log :: "('s, 'e, 'c) machine_event list"

type_synonym ('s, 'e, 'c) outcome = "'e machine_error option \<times> ('s, 'e, 'c) machine"

text \<open>Go on unless an error was thrown.\<close>

definition and_then ::
    "('s, 'e, 'c) outcome \<Rightarrow> (('s, 'e, 'c) machine \<Rightarrow> ('s, 'e, 'c) outcome) \<Rightarrow> ('s, 'e, 'c) outcome" where
  "and_then r f = (case r of (None, m) \<Rightarrow> f m | (Some e, m) \<Rightarrow> (Some e, m))"

definition note_event :: "('s, 'e, 'c) machine_event \<Rightarrow> ('s, 'e, 'c) machine \<Rightarrow> ('s, 'e, 'c) machine" where
  "note_event x m = m\<lparr>mc_log := mc_log m @ [x]\<rparr>"

text \<open>A callback is about to run.\<close>

definition tick :: "('s, 'e, 'c) machine \<Rightarrow> ('s, 'e, 'c) machine" where
  "tick m = m\<lparr>mc_callbacks := mc_callbacks m + 1\<rparr>"

text \<open>\<open>dispatch\<close> while the machine drains.\<close>

definition dispatch_nested :: "'e \<Rightarrow> ('s, 'e, 'c) machine \<Rightarrow> ('s, 'e, 'c) machine" where
  "dispatch_nested event m = (if mc_disposed m then m else m\<lparr>mc_queue := mc_queue m @ [event]\<rparr>)"

definition subscribe :: "nat \<Rightarrow> ('s, 'e, 'c) machine \<Rightarrow> ('s, 'e, 'c) machine" where
  "subscribe listener m = (if \<not> mc_disposed m then m\<lparr>mc_listeners := set_add listener (mc_listeners m)\<rparr> else m)"

definition unsubscribe :: "nat \<Rightarrow> ('s, 'e, 'c) machine \<Rightarrow> ('s, 'e, 'c) machine" where
  "unsubscribe listener m = m\<lparr>mc_listeners := set_delete listener (mc_listeners m)\<rparr>"

text \<open>Running a script, for a given meaning of \<open>dispose\<close>.\<close>

fun run_with :: "(('s, 'e, 'c) machine \<Rightarrow> ('s, 'e, 'c) outcome) \<Rightarrow> 'e script \<Rightarrow> ('s, 'e, 'c) machine \<Rightarrow> ('s, 'e, 'c) outcome" where
  "run_with disp [] m = (None, m)"
| "run_with disp (ADispatch event # rest) m = run_with disp rest (dispatch_nested event m)"
| "run_with disp (ASubscribe l # rest) m = run_with disp rest (subscribe l m)"
| "run_with disp (AUnsubscribe l # rest) m = run_with disp rest (unsubscribe l m)"
| "run_with disp (AThrow e # rest) m = (Some (Raised e), m)"
| "run_with disp (ADispose # rest) m = and_then (disp m) (run_with disp rest)"

definition unmount_with :: "('e script \<Rightarrow> ('s, 'e, 'c) machine \<Rightarrow> ('s, 'e, 'c) outcome) \<Rightarrow> ('s, 'e, 'c) machine \<Rightarrow> ('s, 'e, 'c) outcome" where
  "unmount_with run m =
     (case mc_disposeScope m of
        None \<Rightarrow> (None, m)
      | Some (k, cleanup) \<Rightarrow> run cleanup (tick (note_event (Cleaned k) (m\<lparr>mc_disposeScope := None\<rparr>))))"

text \<open>The cleanup that \<open>dispose\<close> runs finds the machine disposed, so a \<open>dispose\<close> in it returns at once.\<close>

definition dispose :: "('s, 'e, 'c) machine \<Rightarrow> ('s, 'e, 'c) outcome" where
  "dispose m =
     (if mc_disposed m then (None, m)
      else unmount_with (run_with (\<lambda>m. (None, m)))
             (m\<lparr>mc_disposed := True, mc_queue := [], mc_listeners := []\<rparr>))"

definition run_script :: "'e script \<Rightarrow> ('s, 'e, 'c) machine \<Rightarrow> ('s, 'e, 'c) outcome" where
  "run_script = run_with dispose"

definition unmountScope :: "('s, 'e, 'c) machine \<Rightarrow> ('s, 'e, 'c) outcome" where
  "unmountScope = unmount_with run_script"

definition mountScope :: "('s, 'e, 'c) machine_options \<Rightarrow> ('s, 'e, 'c) machine \<Rightarrow> ('s, 'e, 'c) outcome" where
  "mountScope opts m =
     (let k = mc_callbacks m
      in case mo_scope opts k (mc_state m) of
           None \<Rightarrow> (None, m\<lparr>mc_disposeScope := None\<rparr>)
         | Some (body, cleanup) \<Rightarrow>
             and_then (run_script body (tick m)) (\<lambda>m1.
               case cleanup of
                 None \<Rightarrow> (None, if mc_disposed m1 then m1 else m1\<lparr>mc_disposeScope := None\<rparr>)
               | Some script \<Rightarrow>
                   let m2 = note_event (Opened k) m1
                   in if mc_disposed m2 then run_script script (tick (note_event (Cleaned k) m2))
                      else (None, m2\<lparr>mc_disposeScope := Some (k, script)\<rparr>)))"

fun notify_loop :: "('s, 'e, 'c) machine_options \<Rightarrow> nat list \<Rightarrow> ('s, 'e, 'c) machine \<Rightarrow> ('s, 'e, 'c) outcome" where
  "notify_loop opts [] m = (None, m)"
| "notify_loop opts (listener # rest) m =
     (if mc_disposed m then (None, m)
      else if listener \<in> set (mc_listeners m)
      then and_then (run_script (mo_listener opts (mc_callbacks m) listener (mc_state m))
                       (tick (note_event (Notified listener (mc_state m)) m)))
             (notify_loop opts rest)
      else notify_loop opts rest m)"

fun execute_loop :: "('s, 'e, 'c) machine_options \<Rightarrow> 'c list \<Rightarrow> ('s, 'e, 'c) machine \<Rightarrow> ('s, 'e, 'c) outcome" where
  "execute_loop opts [] m = (None, m)"
| "execute_loop opts (command # rest) m =
     (if mc_disposed m then (None, m)
      else and_then (run_script (mo_execute opts (mc_callbacks m) command) (tick (note_event (Executed command) m)))
             (execute_loop opts rest))"

text \<open>
  \<open>apply\<close>. When the notification stops because the machine was disposed, the source returns; here
  the command loop follows and stops at once for the same reason.
\<close>

definition enter :: "('s, 'e, 'c) machine_options \<Rightarrow> ('s, 'c) transition \<Rightarrow> ('s, 'e, 'c) machine \<Rightarrow> ('s, 'e, 'c) outcome" where
  "enter opts t m =
     and_then (mountScope opts (m\<lparr>mc_state := tr_state t\<rparr>)) (\<lambda>m1.
       and_then (notify_loop opts (mc_listeners m1) m1) (\<lambda>m2.
         execute_loop opts (case tr_commands t of Some cs \<Rightarrow> cs | None \<Rightarrow> []) m2))"

definition apply_event :: "('s, 'e, 'c) machine_options \<Rightarrow> 'e \<Rightarrow> ('s, 'e, 'c) machine \<Rightarrow> ('s, 'e, 'c) outcome" where
  "apply_event opts event m =
     (let result = step (mo_def opts) (mc_state m) event;
          seen = \<lparr>ss_from = mc_state m, ss_event = event, ss_result = result\<rparr>
      in and_then (run_script (mo_inspect opts (mc_callbacks m) seen) (tick (note_event (Inspected seen) m))) (\<lambda>m1.
           case result of
             None \<Rightarrow> (None, m1)
           | Some t \<Rightarrow>
               if mc_disposed m1 then (None, m1)
               else and_then (unmountScope m1) (\<lambda>m2. if mc_disposed m2 then (None, m2) else enter opts t m2)))"

definition push_trail :: "'e \<Rightarrow> 'e list \<Rightarrow> 'e list" where
  "push_trail event trail =
     (let t = trail @ [event] in if length t > TRAIL_LENGTH then tl t else t)"

function drain_loop :: "('s, 'e, 'c) machine_options \<Rightarrow> nat \<Rightarrow> ('s, 'e, 'c) machine \<Rightarrow> ('s, 'e, 'c) outcome" where
  "drain_loop opts steps m =
     (case mc_queue m of
        [] \<Rightarrow> (None, m)
      | event # queue \<Rightarrow>
          if steps + 1 > MAX_CHAINED_DISPATCHES then (Some (DispatchCycleError (mc_trail m)), m)
          else case apply_event opts event (m\<lparr>mc_queue := queue, mc_trail := push_trail event (mc_trail m)\<rparr>) of
                 (None, m1) \<Rightarrow> drain_loop opts (steps + 1) m1
               | (Some e, m1) \<Rightarrow> (Some e, m1))"
  by pat_completeness auto
termination
  by (relation "measure (\<lambda>(_, steps, _). MAX_CHAINED_DISPATCHES - steps)") auto

declare drain_loop.simps [simp del]

definition drain :: "('s, 'e, 'c) machine_options \<Rightarrow> ('s, 'e, 'c) machine \<Rightarrow> ('s, 'e, 'c) outcome" where
  "drain opts m = apsnd (\<lambda>m1. m1\<lparr>mc_draining := False, mc_queue := []\<rparr>) (drain_loop opts 0 (m\<lparr>mc_draining := True\<rparr>))"

definition dispatch :: "('s, 'e, 'c) machine_options \<Rightarrow> 'e \<Rightarrow> ('s, 'e, 'c) machine \<Rightarrow> ('s, 'e, 'c) outcome" where
  "dispatch opts event m =
     (if mc_disposed m then (None, m)
      else let m1 = m\<lparr>mc_queue := mc_queue m @ [event]\<rparr>
           in if \<not> mc_draining m1 then drain opts m1 else (None, m1))"

definition start_machine :: "('s, 'e, 'c) machine_options \<Rightarrow> ('s, 'e, 'c) outcome" where
  "start_machine opts =
     and_then (mountScope opts
         \<lparr>mc_state = mo_initial opts, mc_disposed = False, mc_draining = True, mc_disposeScope = None,
          mc_listeners = [], mc_queue = [], mc_trail = [], mc_callbacks = 0, mc_log = []\<rparr>)
       (\<lambda>m. let m1 = m\<lparr>mc_draining := False\<rparr> in if length (mc_queue m1) > 0 then drain opts m1 else (None, m1))"

definition createMachine :: "('s, 'e, 'c) machine_options \<Rightarrow> ('s, 'e, 'c) outcome" where
  "createMachine opts =
     (case start_machine opts of
        (None, m) \<Rightarrow> (None, m)
      | (Some error, m) \<Rightarrow> and_then (dispose m) (\<lambda>m1. (Some error, m1)))"

end
