(* ===== verification/MachineClaims.thy ===== *)
theory MachineClaims
  imports Machine
begin

text \<open>
  What the state machine runner guarantees: it agrees with the pure simulation of the events it
  processed, it opens and closes scopes in pairs whatever the callbacks do, and a drain stops.
\<close>

section \<open>Reading the log\<close>

definition inspected :: "('s, 'e, 'c) machine \<Rightarrow> ('s, 'e, 'c) simulation_step list" where
  "inspected m = List.map_filter (\<lambda>x. case x of Inspected s \<Rightarrow> Some s | _ \<Rightarrow> None) (mc_log m)"

definition executed :: "('s, 'e, 'c) machine \<Rightarrow> 'c list" where
  "executed m = List.map_filter (\<lambda>x. case x of Executed c \<Rightarrow> Some c | _ \<Rightarrow> None) (mc_log m)"

definition opened :: "('s, 'e, 'c) machine \<Rightarrow> nat list" where
  "opened m = List.map_filter (\<lambda>x. case x of Opened k \<Rightarrow> Some k | _ \<Rightarrow> None) (mc_log m)"

definition cleaned :: "('s, 'e, 'c) machine \<Rightarrow> nat list" where
  "cleaned m = List.map_filter (\<lambda>x. case x of Cleaned k \<Rightarrow> Some k | _ \<Rightarrow> None) (mc_log m)"

lemmas log_defs = inspected_def executed_def opened_def cleaned_def

lemma map_filter_snoc: "List.map_filter f (xs @ [x]) = List.map_filter f xs @ (case f x of None \<Rightarrow> [] | Some y \<Rightarrow> [y])"
  by (auto simp: map_filter_def split: option.split)

lemma log_note [simp]:
  "inspected (note_event x m) = inspected m @ (case x of Inspected s \<Rightarrow> [s] | _ \<Rightarrow> [])"
  "executed (note_event x m) = executed m @ (case x of Executed c \<Rightarrow> [c] | _ \<Rightarrow> [])"
  "opened (note_event x m) = opened m @ (case x of Opened k \<Rightarrow> [k] | _ \<Rightarrow> [])"
  "cleaned (note_event x m) = cleaned m @ (case x of Cleaned k \<Rightarrow> [k] | _ \<Rightarrow> [])"
  by (simp_all add: log_defs note_event_def map_filter_snoc split: machine_event.split)

lemma log_tick [simp]:
  "inspected (tick m) = inspected m" "executed (tick m) = executed m" "opened (tick m) = opened m" "cleaned (tick m) = cleaned m"
  by (simp_all add: log_defs tick_def)

lemma tick_fields [simp]:
  "mc_state (tick m) = mc_state m" "mc_disposed (tick m) = mc_disposed m" "mc_disposeScope (tick m) = mc_disposeScope m"
  "mc_callbacks (tick m) = mc_callbacks m + 1" "mc_listeners (tick m) = mc_listeners m" "mc_queue (tick m) = mc_queue m"
  by (simp_all add: tick_def)

lemma note_fields [simp]:
  "mc_state (note_event x m) = mc_state m" "mc_disposed (note_event x m) = mc_disposed m"
  "mc_disposeScope (note_event x m) = mc_disposeScope m" "mc_callbacks (note_event x m) = mc_callbacks m"
  "mc_listeners (note_event x m) = mc_listeners m" "mc_queue (note_event x m) = mc_queue m"
  by (simp_all add: note_event_def)

lemma log_updates [simp]:
  "inspected (mc_state_update f1 m) = inspected m" "executed (mc_state_update f1 m) = executed m" "opened (mc_state_update f1 m) = opened m" "cleaned (mc_state_update f1 m) = cleaned m"
  "inspected (mc_disposed_update f2 m) = inspected m" "executed (mc_disposed_update f2 m) = executed m" "opened (mc_disposed_update f2 m) = opened m" "cleaned (mc_disposed_update f2 m) = cleaned m"
  "inspected (mc_draining_update f3 m) = inspected m" "executed (mc_draining_update f3 m) = executed m" "opened (mc_draining_update f3 m) = opened m" "cleaned (mc_draining_update f3 m) = cleaned m"
  "inspected (mc_disposeScope_update f4 m) = inspected m" "executed (mc_disposeScope_update f4 m) = executed m" "opened (mc_disposeScope_update f4 m) = opened m" "cleaned (mc_disposeScope_update f4 m) = cleaned m"
  "inspected (mc_listeners_update f5 m) = inspected m" "executed (mc_listeners_update f5 m) = executed m" "opened (mc_listeners_update f5 m) = opened m" "cleaned (mc_listeners_update f5 m) = cleaned m"
  "inspected (mc_queue_update f6 m) = inspected m" "executed (mc_queue_update f6 m) = executed m" "opened (mc_queue_update f6 m) = opened m" "cleaned (mc_queue_update f6 m) = cleaned m"
  "inspected (mc_trail_update f7 m) = inspected m" "executed (mc_trail_update f7 m) = executed m" "opened (mc_trail_update f7 m) = opened m" "cleaned (mc_trail_update f7 m) = cleaned m"
  "inspected (mc_callbacks_update f8 m) = inspected m" "executed (mc_callbacks_update f8 m) = executed m" "opened (mc_callbacks_update f8 m) = opened m" "cleaned (mc_callbacks_update f8 m) = cleaned m"
  by (simp_all add: log_defs)

section \<open>Scripts\<close>

text \<open>What no callback can do: change the state, forge the log, revive the machine or mount a scope.\<close>

definition quiet :: "('s, 'e, 'c) machine \<Rightarrow> ('s, 'e, 'c) machine \<Rightarrow> bool" where
  "quiet m m' \<longleftrightarrow> mc_state m' = mc_state m \<and> (mc_disposed m \<longrightarrow> mc_disposed m') \<and>
     inspected m' = inspected m \<and> executed m' = executed m \<and> opened m' = opened m \<and>
     (mc_disposeScope m = None \<longrightarrow> mc_disposeScope m' = None) \<and> mc_callbacks m \<le> mc_callbacks m'"

lemma quiet_refl [simp]: "quiet m m"
  by (simp add: quiet_def)

lemma quiet_trans: "quiet a b \<Longrightarrow> quiet b c \<Longrightarrow> quiet a c"
  by (auto simp: quiet_def)

lemma quiet_and_then: "quiet m (snd r) \<Longrightarrow> (\<And>m'. quiet m' (snd (f m'))) \<Longrightarrow> quiet m (snd (and_then r f))"
  by (auto simp: and_then_def intro: quiet_trans split: prod.split option.split)

lemma quiet_acts:
  "quiet m (dispatch_nested event m)" "quiet m (subscribe l m)" "quiet m (unsubscribe l m)"
  by (simp_all add: dispatch_nested_def subscribe_def unsubscribe_def quiet_def)

lemma quiet_run_with:
  assumes "\<And>m. quiet m (snd (disp m))"
  shows "quiet m (snd (run_with disp script m))"
proof (induction script arbitrary: m)
  case (Cons a script)
  show ?case by (cases a) (auto intro: quiet_trans [OF _ Cons] quiet_acts quiet_and_then assms Cons)
qed simp

lemma quiet_unmount_with:
  assumes "\<And>script m. quiet m (snd (run script m))"
  shows "quiet m (snd (unmount_with run m))"
proof -
  have "quiet m (tick (note_event (Cleaned k) (m\<lparr>mc_disposeScope := None\<rparr>)))" for k by (simp add: quiet_def)
  then show ?thesis by (auto simp: unmount_with_def intro: quiet_trans [OF _ assms] split: option.split)
qed

lemma quiet_dispose: "quiet m (snd (dispose m))"
proof -
  let ?m = "m\<lparr>mc_disposed := True, mc_queue := [], mc_listeners := []\<rparr>"
  have "quiet m ?m" by (simp add: quiet_def)
  moreover have "quiet ?m (snd (unmount_with (run_with (\<lambda>m. (None, m))) ?m))"
    by (intro quiet_unmount_with quiet_run_with) simp
  ultimately show ?thesis by (auto simp: dispose_def intro: quiet_trans)
qed

lemma quiet_script: "quiet m (snd (run_script script m))"
  unfolding run_script_def by (rule quiet_run_with) (rule quiet_dispose)

lemma quiet_unmount: "quiet m (snd (unmountScope m))"
  unfolding unmountScope_def by (rule quiet_unmount_with) (rule quiet_script)

lemma unmounted: "mc_disposeScope (snd (unmountScope m)) = None"
proof (cases "mc_disposeScope m")
  case (Some p)
  obtain k cl where p: "p = (k, cl)" by fastforce
  let ?m = "tick (note_event (Cleaned k) (m\<lparr>mc_disposeScope := None\<rparr>))"
  have "quiet ?m (snd (run_script cl ?m))" by (rule quiet_script)
  then show ?thesis using Some p by (simp add: unmountScope_def unmount_with_def quiet_def)
qed (simp add: unmountScope_def unmount_with_def)

section \<open>Scopes are opened and closed in pairs\<close>

definition active :: "('s, 'e, 'c) machine \<Rightarrow> nat set" where
  "active m = (case mc_disposeScope m of None \<Rightarrow> {} | Some (k, _) \<Rightarrow> {k})"

definition paired :: "('s, 'e, 'c) machine \<Rightarrow> bool" where
  "paired m \<longleftrightarrow> distinct (opened m) \<and> distinct (cleaned m) \<and> set (opened m) = set (cleaned m) \<union> active m \<and>
     active m \<inter> set (cleaned m) = {} \<and> (\<forall>k \<in> set (opened m). k < mc_callbacks m)"

definition balanced :: "('s, 'e, 'c) machine \<Rightarrow> bool" where
  "balanced m \<longleftrightarrow> paired m \<and> (mc_disposed m \<longrightarrow> mc_disposeScope m = None)"

lemma active_simps [simp]:
  "active (tick m) = active m" "active (note_event x m) = active m" "mc_disposeScope m = None \<Longrightarrow> active m = {}"
  by (simp_all add: active_def)

lemma active_updates [simp]:
  "active (mc_state_update f1 m) = active m" "active (mc_disposed_update f2 m) = active m" "active (mc_draining_update f3 m) = active m"
  "active (mc_listeners_update f4 m) = active m" "active (mc_queue_update f5 m) = active m" "active (mc_trail_update f6 m) = active m"
  "active (m\<lparr>mc_disposeScope := None\<rparr>) = {}" "active (m\<lparr>mc_disposeScope := Some (k, cl)\<rparr>) = {k}"
  by (simp_all add: active_def)

lemma balanced_updates [simp]:
  "balanced (mc_state_update f1 m) = balanced m" "balanced (mc_draining_update f3 m) = balanced m"
  "balanced (mc_listeners_update f4 m) = balanced m" "balanced (mc_queue_update f5 m) = balanced m"
  "balanced (mc_trail_update f6 m) = balanced m"
  by (simp_all add: balanced_def paired_def)

lemma balanced_tick: "balanced m \<Longrightarrow> balanced (tick m)"
  by (simp add: balanced_def paired_def less_Suc_eq)

lemma balanced_note:
  "balanced m \<Longrightarrow> balanced (note_event (Notified l s) m)" "balanced m \<Longrightarrow> balanced (note_event (Executed c) m)"
  "balanced m \<Longrightarrow> balanced (note_event (Inspected i) m)"
  by (auto simp: balanced_def paired_def)

lemma balanced_and_then: "balanced (snd r) \<Longrightarrow> (\<And>m. balanced m \<Longrightarrow> balanced (snd (f m))) \<Longrightarrow> balanced (snd (and_then r f))"
  by (auto simp: and_then_def split: prod.split option.split)

lemma balanced_acts:
  "balanced m \<Longrightarrow> balanced (dispatch_nested event m)" "balanced m \<Longrightarrow> balanced (subscribe l m)"
  "balanced m \<Longrightarrow> balanced (unsubscribe l m)"
  by (simp_all add: dispatch_nested_def subscribe_def unsubscribe_def)

lemma balanced_run_with:
  assumes "\<And>m. balanced m \<Longrightarrow> balanced (snd (disp m))"
  shows "balanced m \<Longrightarrow> balanced (snd (run_with disp script m))"
proof (induction script arbitrary: m)
  case (Cons a script)
  then show ?case by (cases a) (auto intro: balanced_acts balanced_and_then assms)
qed simp

lemma balanced_unmount_with:
  assumes "\<And>script m. balanced m \<Longrightarrow> balanced (snd (run script m))" "paired m"
  shows "balanced (snd (unmount_with run m))"
proof (cases "mc_disposeScope m")
  case None
  with assms(2) show ?thesis by (simp add: unmount_with_def balanced_def)
next
  case (Some p)
  obtain k cl where p: "p = (k, cl)" by fastforce
  have "balanced (tick (note_event (Cleaned k) (m\<lparr>mc_disposeScope := None\<rparr>)))"
    using assms(2) Some p by (intro balanced_tick) (auto simp: balanced_def paired_def active_def)
  with assms(1) Some p show ?thesis by (simp add: unmount_with_def)
qed

lemma balanced_dispose: "balanced m \<Longrightarrow> balanced (snd (dispose m))"
  unfolding dispose_def
  by (auto intro!: balanced_unmount_with balanced_run_with) (simp_all add: balanced_def paired_def)

lemma balanced_script: "balanced m \<Longrightarrow> balanced (snd (run_script script m))"
  unfolding run_script_def by (rule balanced_run_with) (rule balanced_dispose)

lemma balanced_unmount: "balanced m \<Longrightarrow> balanced (snd (unmountScope m))"
  unfolding unmountScope_def by (rule balanced_unmount_with [OF balanced_script]) (simp_all add: balanced_def)

lemma balanced_mount:
  assumes "balanced m" "mc_disposeScope m = None"
  shows "balanced (snd (mountScope opts m))"
proof (cases "mo_scope opts (mc_callbacks m) (mc_state m)")
  case None
  with assms show ?thesis by (simp add: mountScope_def balanced_def paired_def active_def)
next
  case (Some p)
  obtain body cl where p: "p = (body, cl)" by fastforce
  let ?k = "mc_callbacks m"
  obtain e m1 where run: "run_script body (tick m) = (e, m1)" by fastforce
  have b1: "balanced m1" using balanced_script [OF balanced_tick [OF assms(1)], of body] run by simp
  have q: "quiet (tick m) m1" using quiet_script [of "tick m" body] run by simp
  then have none: "mc_disposeScope m1 = None" using assms(2) by (simp add: quiet_def)
  have fresh: "?k \<notin> set (opened m1)" "?k \<notin> set (cleaned m1)" "?k < mc_callbacks m1"
    using q assms(1) b1 by (auto simp: quiet_def balanced_def paired_def)
  have "balanced (tick (note_event (Cleaned ?k) (note_event (Opened ?k) m1)))"
    using b1 fresh none by (intro balanced_tick) (auto simp: balanced_def paired_def)
  from balanced_script [OF this] have disp: "balanced (snd (run_script script (tick (note_event (Cleaned ?k) (note_event (Opened ?k) m1)))))" for script .
  have "balanced ((note_event (Opened ?k) m1)\<lparr>mc_disposeScope := Some (?k, script)\<rparr>)" if "\<not> mc_disposed m1" for script
    using b1 fresh none that by (auto simp: balanced_def paired_def)
  moreover have "m1\<lparr>mc_disposeScope := None\<rparr> = m1" using none by simp
  ultimately show ?thesis using Some p run b1 disp
    by (auto simp: mountScope_def Let_def and_then_def split: option.split)
qed

lemma balanced_notify: "balanced m \<Longrightarrow> balanced (snd (notify_loop opts ls m))"
  by (induction ls arbitrary: m) (auto intro!: balanced_and_then balanced_script balanced_tick balanced_note)

lemma balanced_execute: "balanced m \<Longrightarrow> balanced (snd (execute_loop opts cs m))"
  by (induction cs arbitrary: m) (auto intro!: balanced_and_then balanced_script balanced_tick balanced_note)

lemma balanced_enter: "balanced m \<Longrightarrow> mc_disposeScope m = None \<Longrightarrow> balanced (snd (enter opts t m))"
  unfolding enter_def
  by (intro balanced_and_then balanced_mount balanced_notify balanced_execute) simp_all

lemma balanced_apply: 
  assumes "balanced m"
  shows "balanced (snd (apply_event opts event m))"
proof -
  have exit: "balanced (snd (and_then (unmountScope m1) (\<lambda>m2. if mc_disposed m2 then (None, m2) else enter opts t m2)))"
    if "balanced m1" for m1 t
    using that balanced_unmount [of m1] unmounted [of m1] balanced_enter
    by (cases "unmountScope m1") (auto simp: and_then_def split: option.split)
  show ?thesis unfolding apply_event_def Let_def using assms exit
    by (intro balanced_and_then balanced_script balanced_tick balanced_note) (auto split: option.split)
qed

lemma balanced_drain_loop: "balanced m \<Longrightarrow> balanced (snd (drain_loop opts steps m))"
proof (induction opts steps m rule: drain_loop.induct)
  case (1 opts steps m)
  show ?case
  proof (cases "mc_queue m")
    case (Cons event queue)
    let ?m = "m\<lparr>mc_queue := queue, mc_trail := push_trail event (mc_trail m)\<rparr>"
    have "balanced (snd (apply_event opts event ?m))" using 1(2) by (intro balanced_apply) simp
    then show ?thesis using 1(1) [OF Cons] 1(2) Cons
      by (subst drain_loop.simps) (auto split: prod.split option.split)
  qed (simp add: drain_loop.simps 1(2))
qed

lemma balanced_drain: "balanced m \<Longrightarrow> balanced (snd (drain opts m))"
  by (simp add: drain_def balanced_drain_loop)

lemma balanced_dispatch: "balanced m \<Longrightarrow> balanced (snd (dispatch opts event m))"
  by (simp add: dispatch_def Let_def balanced_drain)

lemma balanced_create: "balanced (snd (createMachine opts))"
proof -
  have "balanced (snd (start_machine opts))" unfolding start_machine_def Let_def
    by (intro balanced_and_then balanced_mount)
      (auto simp: balanced_drain, simp_all add: balanced_def paired_def log_defs map_filter_simps)
  then show ?thesis unfolding createMachine_def
    by (cases "start_machine opts") (auto intro!: balanced_and_then dest: balanced_dispose split: option.split)
qed

section \<open>The runner follows the simulation\<close>

definition calm :: "('s, 'e, 'c) machine \<Rightarrow> ('s, 'e, 'c) machine \<Rightarrow> bool" where
  "calm m m' \<longleftrightarrow> mc_state m' = mc_state m \<and> (mc_disposed m \<longrightarrow> mc_disposed m') \<and>
     inspected m' = inspected m \<and> executed m' = executed m"

lemma calm_chain: "calm a b \<Longrightarrow> calm b c \<Longrightarrow> calm a c"
  by (simp add: calm_def)

lemma quiet_calm: "quiet m m' \<Longrightarrow> calm m m'"
  by (simp add: quiet_def calm_def)

lemma calm_and_then: "calm m (snd r) \<Longrightarrow> (\<And>m'. calm m (m') \<Longrightarrow> calm m (snd (f m'))) \<Longrightarrow> calm m (snd (and_then r f))"
  by (auto simp: and_then_def split: prod.split option.split)

lemmas calm_script = quiet_script [THEN quiet_calm]

lemma calm_then_script: "calm a b \<Longrightarrow> calm a (snd (run_script script b))"
  using calm_script calm_chain by blast

lemma calm_mount: "calm m (snd (mountScope opts m))"
proof -
  have "calm m (tick m)" "calm m (m\<lparr>mc_disposeScope := None\<rparr>)" by (simp_all add: calm_def)
  moreover have "calm m m1 \<Longrightarrow> calm m (tick (note_event (Cleaned k) (note_event (Opened k) m1)))"
    "calm m m1 \<Longrightarrow> calm m (m1\<lparr>mc_disposeScope := None\<rparr>)"
    "calm m m1 \<Longrightarrow> calm m ((note_event (Opened k) m1)\<lparr>mc_disposeScope := Some p\<rparr>)" for m1 k p
    by (simp_all add: calm_def)
  ultimately show ?thesis unfolding mountScope_def Let_def
    by (auto intro!: calm_and_then calm_then_script split: option.split)
qed

lemma calm_notify: "calm m (snd (notify_loop opts ls m))"
proof (induction ls arbitrary: m)
  case (Cons l ls)
  have "calm m (tick (note_event (Notified l (mc_state m)) m))" by (simp add: calm_def)
  then have "calm m (snd (run_script script (tick (note_event (Notified l (mc_state m)) m))))" for script
    by (rule calm_then_script)
  then show ?case using Cons by (auto intro!: calm_and_then intro: calm_chain simp: calm_def [of m m])
qed (simp add: calm_def)

lemma and_then_None: "and_then r f = (None, m') \<longleftrightarrow> (\<exists>m1. r = (None, m1) \<and> f m1 = (None, m'))"
  by (auto simp: and_then_def split: prod.splits option.splits)

text \<open>Unless the machine was disposed on the way, every command was executed.\<close>

lemma execute_all:
  "execute_loop opts cs m = (None, m') \<Longrightarrow> \<not> mc_disposed m' \<Longrightarrow>
   mc_state m' = mc_state m \<and> inspected m' = inspected m \<and> executed m' = executed m @ cs"
proof (induction cs arbitrary: m)
  case (Cons c cs)
  let ?m = "tick (note_event (Executed c) m)"
  show ?case
  proof (cases "mc_disposed m")
    case False
    then obtain m1 where run: "run_script (mo_execute opts (mc_callbacks m) c) ?m = (None, m1)" "execute_loop opts cs m1 = (None, m')"
      using Cons.prems(1) by (auto simp: and_then_None)
    have "calm ?m m1" using calm_script [of ?m] run(1) by (metis snd_conv)
    with Cons.IH [OF run(2) Cons.prems(2)] show ?thesis by (simp add: calm_def)
  qed (use Cons.prems in auto)
qed simp

definition follows :: "('s, 'e, 'c) machine_options \<Rightarrow> ('s, 'e, 'c) machine \<Rightarrow> bool" where
  "follows opts m \<longleftrightarrow> simulate (mo_def opts) (mo_initial opts) (map ss_event (inspected m)) =
     \<lparr>sr_state = mc_state m, sr_commands = executed m, sr_steps = inspected m\<rparr>"

lemma simulate_snoc: "simulate def s (es @ [e]) = simulate_turn def (simulate def s es) e"
  by (simp add: simulate_def)

lemma disposed_mono:
  "run_script script m = (e, m') \<Longrightarrow> mc_disposed m \<Longrightarrow> mc_disposed m'"
  "unmountScope m = (e, m') \<Longrightarrow> mc_disposed m \<Longrightarrow> mc_disposed m'"
  "mountScope opts m = (e, m') \<Longrightarrow> mc_disposed m \<Longrightarrow> mc_disposed m'"
  "notify_loop opts ls m = (e, m') \<Longrightarrow> mc_disposed m \<Longrightarrow> mc_disposed m'"
  using calm_script [of m script] quiet_calm [OF quiet_unmount [of m]] calm_mount [of m opts] calm_notify [of m opts ls]
  by (auto simp: calm_def)

lemma enter_effect:
  assumes "enter opts t m = (None, m')" "\<not> mc_disposed m'"
  shows "mc_state m' = tr_state t \<and> inspected m' = inspected m \<and>
    executed m' = executed m @ (case tr_commands t of Some cs \<Rightarrow> cs | None \<Rightarrow> [])"
proof -
  let ?m = "m\<lparr>mc_state := tr_state t\<rparr>"
  obtain m1 m2 where run: "mountScope opts ?m = (None, m1)" "notify_loop opts (mc_listeners m1) m1 = (None, m2)"
    "execute_loop opts (case tr_commands t of Some cs \<Rightarrow> cs | None \<Rightarrow> []) m2 = (None, m')"
    using assms(1) by (auto simp: enter_def and_then_None)
  have "calm ?m m1" using calm_mount [of ?m opts] run(1) by simp
  moreover have "calm m1 m2" using calm_notify [of m1 opts "mc_listeners m1"] run(2) by simp
  ultimately show ?thesis using execute_all [OF run(3) assms(2)] by (simp add: calm_def)
qed

lemma follows_apply:
  assumes "follows opts m" "apply_event opts event m = (None, m')" "\<not> mc_disposed m'"
  shows "follows opts m'"
proof -
  let ?r = "step (mo_def opts) (mc_state m) event"
  let ?seen = "\<lparr>ss_from = mc_state m, ss_event = event, ss_result = ?r\<rparr>"
  let ?m = "tick (note_event (Inspected ?seen) m)"
  obtain m1 where run: "run_script (mo_inspect opts (mc_callbacks m) ?seen) ?m = (None, m1)"
    and rest: "(case ?r of None \<Rightarrow> (None, m1) | Some t \<Rightarrow> if mc_disposed m1 then (None, m1)
      else and_then (unmountScope m1) (\<lambda>m2. if mc_disposed m2 then (None, m2) else enter opts t m2)) = (None, m')"
    using assms(2) by (auto simp: apply_event_def Let_def and_then_None)
  have m1: "calm ?m m1" using calm_script [of ?m] run by (metis snd_conv)
  show ?thesis
  proof (cases ?r)
    case None
    with rest m1 assms(1) show ?thesis
      by (simp add: follows_def calm_def simulate_snoc simulate_turn_def)
  next
    case (Some t)
    with rest assms(3) obtain m2 where m2: "unmountScope m1 = (None, m2)" "enter opts t m2 = (None, m')"
      by (auto simp: and_then_None split: if_splits)
    have "calm m1 m2" using quiet_calm [OF quiet_unmount [of m1]] m2(1) by simp
    with m1 Some assms(1) enter_effect [OF m2(2) assms(3)] show ?thesis
      by (auto simp: follows_def calm_def simulate_snoc simulate_turn_def Let_def split: option.split)
  qed
qed

lemma disposed_and_then:
  "mc_disposed (snd r) \<Longrightarrow> (\<And>m. mc_disposed m \<Longrightarrow> mc_disposed (snd (f m))) \<Longrightarrow> mc_disposed (snd (and_then r f))"
  by (auto simp: and_then_def split: prod.split option.split)

lemma disposed_script: "mc_disposed m \<Longrightarrow> mc_disposed (snd (run_script script m))"
  using calm_script [of m script] by (simp add: calm_def)

lemma disposed_apply: "mc_disposed m \<Longrightarrow> mc_disposed (snd (apply_event opts event m))"
  unfolding apply_event_def Let_def
  by (intro disposed_and_then disposed_script) (auto split: option.split)

lemma disposed_drain_loop: "mc_disposed m \<Longrightarrow> mc_disposed (snd (drain_loop opts steps m))"
proof (induction opts steps m rule: drain_loop.induct)
  case (1 opts steps m)
  show ?case
  proof (cases "mc_queue m")
    case (Cons event queue)
    let ?m = "m\<lparr>mc_queue := queue, mc_trail := push_trail event (mc_trail m)\<rparr>"
    have "mc_disposed (snd (apply_event opts event ?m))" using 1(2) by (intro disposed_apply) simp
    then show ?thesis using 1(1) [OF Cons] 1(2) Cons
      by (subst drain_loop.simps) (auto split: prod.split option.split)
  qed (simp add: drain_loop.simps 1(2))
qed

lemma follows_drain_loop:
  "follows opts m \<Longrightarrow> drain_loop opts steps m = (None, m') \<Longrightarrow> \<not> mc_disposed m' \<Longrightarrow> follows opts m'"
proof (induction opts steps m rule: drain_loop.induct)
  case (1 opts steps m)
  show ?case
  proof (cases "mc_queue m")
    case (Cons event queue)
    let ?m = "m\<lparr>mc_queue := queue, mc_trail := push_trail event (mc_trail m)\<rparr>"
    from 1(3) Cons obtain m1 where m1: "\<not> steps + 1 > MAX_CHAINED_DISPATCHES"
      "apply_event opts event ?m = (None, m1)" "drain_loop opts (steps + 1) m1 = (None, m')"
      by (subst (asm) drain_loop.simps) (auto split: if_splits prod.splits option.splits)
    have "\<not> mc_disposed m1" using disposed_drain_loop [of m1 opts "steps + 1"] m1(3) 1(4) by auto
    moreover have "follows opts ?m" using 1(2) by (simp add: follows_def)
    ultimately have "follows opts m1" using follows_apply [OF _ m1(2)] by blast
    then show ?thesis using 1(1) [OF Cons m1(1) m1(2) [symmetric]] m1(3) 1(4) by simp
  next
    case Nil
    with 1(2,3) show ?thesis by (simp add: drain_loop.simps)
  qed
qed

lemma follows_updates [simp]:
  "follows opts (mc_draining_update f1 m) = follows opts m" "follows opts (mc_queue_update f2 m) = follows opts m"
  "follows opts (mc_listeners_update f3 m) = follows opts m"
  by (simp_all add: follows_def)

lemma follows_drain: "follows opts m \<Longrightarrow> drain opts m = (None, m') \<Longrightarrow> \<not> mc_disposed m' \<Longrightarrow> follows opts m'"
  by (cases "drain_loop opts 0 (m\<lparr>mc_draining := True\<rparr>)") (auto simp: drain_def dest!: follows_drain_loop [rotated])

lemma follows_dispatch: "follows opts m \<Longrightarrow> dispatch opts event m = (None, m') \<Longrightarrow> \<not> mc_disposed m' \<Longrightarrow> follows opts m'"
  by (auto simp: dispatch_def Let_def dest!: follows_drain [rotated] split: if_splits)

lemma follows_create:
  assumes "createMachine opts = (None, m)" "\<not> mc_disposed m"
  shows "follows opts m"
proof -
  let ?m = "\<lparr>mc_state = mo_initial opts, mc_disposed = False, mc_draining = True, mc_disposeScope = None,
    mc_listeners = [], mc_queue = [], mc_trail = [], mc_callbacks = 0, mc_log = []\<rparr> :: ('b, 'a, 'c) machine"
  from assms(1) obtain m1 where m1: "mountScope opts ?m = (None, m1)"
    "(if length (mc_queue m1) > 0 then drain opts (m1\<lparr>mc_draining := False\<rparr>) else (None, m1\<lparr>mc_draining := False\<rparr>)) = (None, m)"
    by (auto simp: createMachine_def start_machine_def Let_def and_then_None split: prod.splits option.splits)
  have "follows opts ?m" by (simp add: follows_def simulate_def log_defs map_filter_simps)
  moreover have "calm ?m m1" using calm_mount [of ?m opts] m1(1) by simp
  ultimately have "follows opts m1" by (simp add: follows_def calm_def)
  with m1(2) assms(2) show ?thesis by (auto dest!: follows_drain [rotated] split: if_splits)
qed

section \<open>Runs\<close>

datatype 'e machine_call = MDispatch 'e | MSubscribe nat | MUnsubscribe nat | MDispose

fun call_machine :: "('s, 'e, 'c) machine_options \<Rightarrow> 'e machine_call \<Rightarrow> ('s, 'e, 'c) machine \<Rightarrow> ('s, 'e, 'c) outcome" where
  "call_machine opts (MDispatch event) m = dispatch opts event m"
| "call_machine opts (MSubscribe l) m = (None, subscribe l m)"
| "call_machine opts (MUnsubscribe l) m = (None, unsubscribe l m)"
| "call_machine opts MDispose m = dispose m"

text \<open>The machines a program gets to, and whether nothing was thrown on the way.\<close>

inductive machine_reach :: "('s, 'e, 'c) machine_options \<Rightarrow> bool \<Rightarrow> ('s, 'e, 'c) machine \<Rightarrow> bool" for opts where
  created: "createMachine opts = (e, m) \<Longrightarrow> machine_reach opts (e = None) m"
| called: "machine_reach opts ok m \<Longrightarrow> call_machine opts call m = (e, m') \<Longrightarrow> machine_reach opts (ok \<and> e = None) m'"

lemma balanced_call: "balanced m \<Longrightarrow> balanced (snd (call_machine opts call m))"
  by (cases call) (simp_all add: balanced_dispatch balanced_dispose balanced_acts)

lemma machine_reach_balanced: "machine_reach opts ok m \<Longrightarrow> balanced m"
proof (induction rule: machine_reach.induct)
  case (created e m)
  then show ?case using balanced_create [of opts] by simp
next
  case (called ok m call e m')
  then show ?case using balanced_call [of m opts call] by simp
qed

lemma dispose_disposes: "mc_disposed (snd (dispose m))"
proof -
  have "quiet m' (snd (unmount_with (run_with (\<lambda>m. (None, m))) m'))" for m' :: "('a, 'b, 'c) machine"
    by (intro quiet_unmount_with quiet_run_with) simp
  then show ?thesis by (simp add: dispose_def quiet_def)
qed

lemma disposed_call: "mc_disposed m \<Longrightarrow> mc_disposed (snd (call_machine opts call m))"
  by (cases call) (simp_all add: dispatch_def dispose_def subscribe_def unsubscribe_def)

lemma machine_reach_follows: "machine_reach opts ok m \<Longrightarrow> ok \<Longrightarrow> \<not> mc_disposed m \<Longrightarrow> follows opts m"
proof (induction rule: machine_reach.induct)
  case (created e m)
  then show ?case using follows_create [of opts m] by simp
next
  case (called ok m call e m')
  then have alive: "\<not> mc_disposed m" using disposed_call [of m opts call] by auto
  with called have "follows opts m" and m': "call_machine opts call m = (None, m')" by simp_all
  then show ?case using called.prems alive dispose_disposes [of m]
    by (cases call) (auto intro: follows_dispatch simp: subscribe_def unsubscribe_def)
qed

section \<open>A concrete machine\<close>

text \<open>States and events are numbers: event 0 is ignored, another one leads to its state; state 1 sends event 2.\<close>

definition relay_options :: "(nat, nat, nat) machine_options" where
  "relay_options = \<lparr>mo_initial = 0,
     mo_def = (\<lambda>s e. if e = 0 then None else Some \<lparr>tr_state = e, tr_commands = Some [s]\<rparr>),
     mo_scope = (\<lambda>_ s. Some (if s = 1 then [ADispatch 2] else [], Some [])),
     mo_execute = (\<lambda>_ _. []), mo_inspect = (\<lambda>_ _. []), mo_listener = (\<lambda>_ _ _. [])\<rparr>"

fun machine_run :: "('s, 'e, 'c) machine_options \<Rightarrow> 'e machine_call list \<Rightarrow> ('s, 'e, 'c) outcome \<Rightarrow> ('s, 'e, 'c) outcome" where
  "machine_run opts [] r = r"
| "machine_run opts (call # calls) r = and_then r (\<lambda>m. machine_run opts calls (call_machine opts call m))"

lemma machine_run_from:
  "(\<And>m. r = (None, m) \<Longrightarrow> machine_reach opts True m) \<Longrightarrow> machine_run opts calls r = (None, m') \<Longrightarrow> machine_reach opts True m'"
proof (induction calls arbitrary: r)
  case (Cons call calls)
  then obtain m where m: "r = (None, m)" "machine_run opts calls (call_machine opts call m) = (None, m')"
    by (auto simp: and_then_None)
  show ?case
  proof (rule Cons.IH [OF _ m(2)])
    fix m1 assume "call_machine opts call m = (None, m1)"
    then show "machine_reach opts True m1" using machine_reach.called [of opts True m call None m1] Cons.prems(1) [OF m(1)] by simp
  qed
qed simp

lemma machine_run_reach:
  assumes "fst (machine_run opts calls (createMachine opts)) = None"
  shows "machine_reach opts True (snd (machine_run opts calls (createMachine opts)))"
proof (rule machine_run_from)
  show "machine_run opts calls (createMachine opts) = (None, snd (machine_run opts calls (createMachine opts)))"
    using assms by (simp add: prod_eq_iff)
  show "machine_reach opts True m" if "createMachine opts = (None, m)" for m
    using machine_reach.created [OF that] by simp
qed

section \<open>Claims\<close>

text \<open>
  C39: the runner agrees with \<open>simulate\<close>. In every machine that a program gets to without an
  exception and that is not disposed, whatever events the callbacks sent and in whatever order,
  simulating the inspected events from the initial state gives the machine's state, exactly the
  commands it executed in the order it executed them, and the inspected steps. Nested events never
  interrupt the transition in which they were sent.
\<close>

theorem machine_agrees_with_simulation:
  assumes "machine_reach opts True m" and "\<not> mc_disposed m"
  shows "simulate (mo_def opts) (mo_initial opts) (map ss_event (inspected m)) =
    \<lparr>sr_state = mc_state m, sr_commands = executed m, sr_steps = inspected m\<rparr>"
  using machine_reach_follows [OF assms(1) _ assms(2)] by (simp add: follows_def)

theorem machine_agrees_with_simulation_witness:
  "let m = snd (machine_run relay_options [MDispatch 0, MDispatch 1] (createMachine relay_options))
   in sr_state (simulate (mo_def relay_options) 0 [0, 1, 2]) = mc_state m \<and> mc_state m = 2 \<and> executed m = [0, 1]"
proof -
  let ?r = "machine_run relay_options [MDispatch 0, MDispatch 1] (createMachine relay_options)"
  have "fst ?r = None" by code_simp
  then have reach: "machine_reach relay_options True (snd ?r)" by (rule machine_run_reach)
  have alive: "\<not> mc_disposed (snd ?r)" by code_simp
  have "map ss_event (inspected (snd ?r)) = [0, 1, 2]" "mc_state (snd ?r) = 2" "executed (snd ?r) = [0, 1]" "mo_initial relay_options = 0"
    by code_simp+
  then show ?thesis using machine_agrees_with_simulation [OF reach alive] by (simp add: Let_def)
qed

text \<open>
  C40: scopes are released exactly once, whatever the callbacks do: dispatch, subscribe, dispose
  the machine or throw. In every machine a program gets to, also after exceptions and after a
  failed \<open>createMachine\<close>, no cleanup has run twice, and the scopes whose cleanup has not run are
  just the current one; a disposed machine has none left.
\<close>

theorem scopes_released_once:
  assumes "machine_reach opts ok m"
  shows "distinct (cleaned m) \<and> distinct (opened m) \<and>
    set (opened m) - set (cleaned m) = (case mc_disposeScope m of None \<Rightarrow> {} | Some (k, _) \<Rightarrow> {k}) \<and>
    set (cleaned m) \<subseteq> set (opened m) \<and> (mc_disposeScope m = None \<or> mc_disposed m = False)"
  using machine_reach_balanced [OF assms] by (auto simp: balanced_def paired_def active_def split: option.splits)

theorem scopes_released_once_witness:
  "let m = snd (machine_run relay_options [MDispatch 1, MDispose] (createMachine relay_options))
   in length (opened m) = 3 \<and> set (opened m) = set (cleaned m)"
proof -
  let ?r = "machine_run relay_options [MDispatch 1, MDispose] (createMachine relay_options)"
  have "fst ?r = None" by code_simp
  then have "machine_reach relay_options True (snd ?r)" by (rule machine_run_reach)
  from scopes_released_once [OF this]
  have eq: "mc_disposeScope (snd ?r) = None \<longrightarrow> set (opened (snd ?r)) = set (cleaned (snd ?r))" by (auto split: option.splits)
  have "mc_disposeScope (snd ?r) = None" "length (opened (snd ?r)) = 3" by code_simp+
  with eq show ?thesis by (simp add: Let_def)
qed

end
