(* ===== verification/RingCoordination.thy ===== *)
theory RingCoordination
  imports Machine "HOL-Library.Char_ord" "HOL-Library.List_Lexorder"
begin

text \<open>
  The election of one audible ringer among the tabs of a browser
  (\<open>features/channel/Call/ring-coordination.ts\<close>, with \<open>evictOldest.ts\<close>), one tab at a time: its
  claims, silenced calls and participations, and a handler for every message, timer and call.

  \<^item> A participation's state machine is given by \<open>ringDefinition\<close> through \<open>step\<close> of the machine
    model; the scopes' effects are written out. A participation is in the map as long as its
    machine has not ended, and its timers run as long.
  \<^item> The clock, \<open>shouldStop\<close> and \<open>isAudioLikelyBlocked\<close> are arguments; readings of the clock within
    one handler agree. Times are integers.
  \<^item> \<open>publish\<close> hands a message to this tab's own handler before it goes out: a claim of this tab is
    ignored there, the other kinds are handled. Outgoing messages are effects, as are starting and
    stopping the sound and \<open>onEnd\<close>.
  \<^item> Parsing of messages is left to the bus; the \<open>ring\<close> callback asks for the end in a step of its
    own, after the transition that started it.
\<close>

section \<open>State\<close>

type_synonym call_id = string
type_synonym ring_tab_id = string

definition CLAIM_TTL_MS :: int where "CLAIM_TTL_MS = 3500"
definition CLAIM_DEFENSE_MIN_INTERVAL_MS :: int where "CLAIM_DEFENSE_MIN_INTERVAL_MS = 250"
definition MAX_TRACKED_CALLS :: nat where "MAX_TRACKED_CALLS = 50"
definition MAX_SILENCED_CALLS :: nat where "MAX_SILENCED_CALLS = 100"

record ring_claim =
  rc_tabId :: ring_tab_id
  rc_claimedAt :: int
  rc_audible :: bool

record tracked_claim = ring_claim +
  tc_lastSeenAt :: int

datatype ring_message =
  ClaimMessage call_id ring_claim int
| SilenceMessage call_id int
| ReleaseMessage call_id ring_tab_id int

datatype ring_state = Suppressed | Audible int bool | Ended

datatype ring_event = Acquire int bool | Suppress | End

fun ringDefinition :: "(ring_state, ring_event, unit) machine_def" where
  "ringDefinition Suppressed (Acquire claimedAt audible) = Some \<lparr>tr_state = Audible claimedAt audible, tr_commands = None\<rparr>"
| "ringDefinition Suppressed End = Some \<lparr>tr_state = Ended, tr_commands = None\<rparr>"
| "ringDefinition Suppressed Suppress = None"
| "ringDefinition (Audible _ _) Suppress = Some \<lparr>tr_state = Suppressed, tr_commands = None\<rparr>"
| "ringDefinition (Audible _ _) End = Some \<lparr>tr_state = Ended, tr_commands = None\<rparr>"
| "ringDefinition (Audible _ _) (Acquire _ _) = None"
| "ringDefinition Ended _ = None"

record participation =
  pa_state :: ring_state
  pa_deadline :: int
  pa_lastDefendedAt :: int

record ring_tab =
  rt_tabId :: ring_tab_id
  rt_trackedClaims :: "(call_id, tracked_claim) jsmap"
  rt_silencedCallIds :: "call_id jsset"
  rt_participations :: "(call_id, participation) jsmap"

datatype ring_effect =
  Publish ring_message
| StartRing call_id
| StopRing call_id
| OnEnd call_id

section \<open>Claims\<close>

text \<open>Negative when \<open>a\<close> outranks \<open>b\<close>.\<close>

definition compareClaims :: "'x ring_claim_scheme \<Rightarrow> 'y ring_claim_scheme \<Rightarrow> int" where
  "compareClaims a b =
     (if rc_audible a \<noteq> rc_audible b then (if rc_audible a then -1 else 1)
      else if rc_claimedAt a \<noteq> rc_claimedAt b then rc_claimedAt a - rc_claimedAt b
      else if rc_tabId a < rc_tabId b then -1 else if rc_tabId a > rc_tabId b then 1 else 0)"

definition getLiveClaim :: "call_id \<Rightarrow> int \<Rightarrow> ring_tab \<Rightarrow> tracked_claim option" where
  "getLiveClaim callId now t =
     (case map_of (rt_trackedClaims t) callId of
        None \<Rightarrow> None
      | Some claim \<Rightarrow>
          if now - tc_lastSeenAt claim > CLAIM_TTL_MS then None
          else if rc_tabId claim = rt_tabId t then None
          else Some claim)"

definition track :: "call_id \<Rightarrow> tracked_claim \<Rightarrow> ring_tab \<Rightarrow> ring_tab" where
  "track callId claim t =
     t\<lparr>rt_trackedClaims := evictOldest MAX_TRACKED_CALLS (AList.update callId claim (rt_trackedClaims t))\<rparr>"

definition publishClaim :: "call_id \<Rightarrow> int \<Rightarrow> ring_tab \<Rightarrow> ring_tab \<times> ring_effect list" where
  "publishClaim callId now t =
     (case map_of (rt_participations t) callId of
        Some p \<Rightarrow>
          (case pa_state p of
             Audible claimedAt audible \<Rightarrow>
               (track callId \<lparr>rc_tabId = rt_tabId t, rc_claimedAt = claimedAt, rc_audible = audible, tc_lastSeenAt = now\<rparr> t,
                [Publish (ClaimMessage callId \<lparr>rc_tabId = rt_tabId t, rc_claimedAt = claimedAt, rc_audible = audible\<rparr> now)])
           | _ \<Rightarrow> (t, []))
      | None \<Rightarrow> (t, []))"

definition finishParticipation :: "call_id \<Rightarrow> ring_tab \<Rightarrow> ring_tab \<times> ring_effect list" where
  "finishParticipation callId t =
     (let t1 = t\<lparr>rt_participations := AList.delete callId (rt_participations t)\<rparr>;
          t2 = (case map_of (rt_trackedClaims t1) callId of
                  Some claim \<Rightarrow>
                    if rc_tabId claim = rt_tabId t1
                    then t1\<lparr>rt_trackedClaims := AList.delete callId (rt_trackedClaims t1)\<rparr> else t1
                | None \<Rightarrow> t1)
      in (t2, [OnEnd callId]))"

text \<open>The scopes: what leaving and entering a state does.\<close>

fun leave_scope :: "call_id \<Rightarrow> ring_state \<Rightarrow> ring_effect list" where
  "leave_scope callId (Audible _ _) = [StopRing callId]"
| "leave_scope callId _ = []"

fun enter_scope :: "call_id \<Rightarrow> int \<Rightarrow> ring_state \<Rightarrow> ring_tab \<Rightarrow> ring_tab \<times> ring_effect list" where
  "enter_scope callId now Suppressed t = (t, [])"
| "enter_scope callId now (Audible _ _) t = apsnd (\<lambda>es. es @ [StartRing callId]) (publishClaim callId now t)"
| "enter_scope callId now Ended t = finishParticipation callId t"

definition ring_dispatch :: "call_id \<Rightarrow> int \<Rightarrow> ring_event \<Rightarrow> ring_tab \<Rightarrow> ring_tab \<times> ring_effect list" where
  "ring_dispatch callId now event t =
     (case map_of (rt_participations t) callId of
        None \<Rightarrow> (t, [])
      | Some p \<Rightarrow>
          (case step ringDefinition (pa_state p) event of
             None \<Rightarrow> (t, [])
           | Some tr \<Rightarrow>
               let t1 = t\<lparr>rt_participations := AList.update callId (p\<lparr>pa_state := tr_state tr\<rparr>) (rt_participations t)\<rparr>
               in apsnd (\<lambda>es. leave_scope callId (pa_state p) @ es) (enter_scope callId now (tr_state tr) t1)))"

definition ring_acquire :: "call_id \<Rightarrow> int \<Rightarrow> bool \<Rightarrow> ring_tab \<Rightarrow> ring_tab \<times> ring_effect list" where
  "ring_acquire callId now blocked t = ring_dispatch callId now (Acquire now (\<not> blocked)) t"

definition demote :: "call_id \<Rightarrow> int \<Rightarrow> ring_tab \<Rightarrow> ring_tab \<times> ring_effect list" where
  "demote callId now t = ring_dispatch callId now Suppress t"

definition endParticipation :: "call_id \<Rightarrow> int \<Rightarrow> ring_tab \<Rightarrow> ring_tab \<times> ring_effect list" where
  "endParticipation callId now t = ring_dispatch callId now End t"

definition maybeClaim :: "call_id \<Rightarrow> int \<Rightarrow> bool \<Rightarrow> ring_tab \<Rightarrow> ring_tab \<times> ring_effect list" where
  "maybeClaim callId now blocked t =
     (case getLiveClaim callId now t of
        Some best \<Rightarrow>
          if compareClaims best \<lparr>rc_tabId = rt_tabId t, rc_claimedAt = now, rc_audible = (\<not> blocked)\<rparr> < 0 then (t, [])
          else ring_acquire callId now blocked t
      | None \<Rightarrow> ring_acquire callId now blocked t)"

section \<open>Timers\<close>

definition ring_tick :: "call_id \<Rightarrow> int \<Rightarrow> bool \<Rightarrow> bool \<Rightarrow> ring_tab \<Rightarrow> ring_tab \<times> ring_effect list" where
  "ring_tick callId now shouldStop blocked t =
     (case map_of (rt_participations t) callId of
        None \<Rightarrow> (t, [])
      | Some p \<Rightarrow>
          if now \<ge> pa_deadline p \<or> callId \<in> set (rt_silencedCallIds t) \<or> shouldStop then endParticipation callId now t
          else case pa_state p of
                 Audible _ _ \<Rightarrow> publishClaim callId now t
               | _ \<Rightarrow> maybeClaim callId now blocked t)"

section \<open>Messages\<close>

text \<open>The two halves of \<open>handleClaimMessage\<close>: tracking the incoming claim, and answering it.\<close>

definition track_incoming :: "call_id \<Rightarrow> tracked_claim \<Rightarrow> int \<Rightarrow> ring_tab \<Rightarrow> ring_tab" where
  "track_incoming callId incoming now t =
     (case map_of (rt_trackedClaims t) callId of
        None \<Rightarrow> track callId incoming t
      | Some existing \<Rightarrow>
          if rc_tabId existing = rc_tabId incoming \<or> now - tc_lastSeenAt existing > CLAIM_TTL_MS \<or>
             compareClaims incoming existing < 0
          then track callId incoming t else t)"

definition answer_incoming :: "call_id \<Rightarrow> tracked_claim \<Rightarrow> int \<Rightarrow> ring_tab \<Rightarrow> ring_tab \<times> ring_effect list" where
  "answer_incoming callId incoming now t =
     (case map_of (rt_participations t) callId of
        Some p \<Rightarrow>
          (case pa_state p of
             Audible claimedAt audible \<Rightarrow>
               if compareClaims incoming \<lparr>rc_tabId = rt_tabId t, rc_claimedAt = claimedAt, rc_audible = audible\<rparr> < 0
               then demote callId now t
               else if now - pa_lastDefendedAt p \<ge> CLAIM_DEFENSE_MIN_INTERVAL_MS
               then publishClaim callId now
                      (t\<lparr>rt_participations := AList.update callId (p\<lparr>pa_lastDefendedAt := now\<rparr>) (rt_participations t)\<rparr>)
               else (t, [])
           | _ \<Rightarrow> (t, []))
      | None \<Rightarrow> (t, []))"

definition handleClaimMessage :: "call_id \<Rightarrow> ring_claim \<Rightarrow> int \<Rightarrow> ring_tab \<Rightarrow> ring_tab \<times> ring_effect list" where
  "handleClaimMessage callId claim now t =
     (if rc_tabId claim = rt_tabId t then (t, [])
      else let incoming = \<lparr>rc_tabId = rc_tabId claim, rc_claimedAt = rc_claimedAt claim, rc_audible = rc_audible claim,
                 tc_lastSeenAt = now\<rparr>
           in answer_incoming callId incoming now (track_incoming callId incoming now t))"

definition handleSilenceMessage :: "call_id \<Rightarrow> int \<Rightarrow> ring_tab \<Rightarrow> ring_tab \<times> ring_effect list" where
  "handleSilenceMessage callId now t =
     endParticipation callId now
       (t\<lparr>rt_silencedCallIds := evictOldest MAX_SILENCED_CALLS (set_add callId (rt_silencedCallIds t))\<rparr>)"

definition handleReleaseMessage ::
    "call_id \<Rightarrow> ring_tab_id \<Rightarrow> int \<Rightarrow> bool \<Rightarrow> ring_tab \<Rightarrow> ring_tab \<times> ring_effect list" where
  "handleReleaseMessage callId tabId now blocked t =
     (let t1 = (case map_of (rt_trackedClaims t) callId of
                  Some claim \<Rightarrow>
                    if rc_tabId claim = tabId
                    then t\<lparr>rt_trackedClaims := AList.delete callId (rt_trackedClaims t)\<rparr> else t
                | None \<Rightarrow> t)
      in case map_of (rt_participations t1) callId of
           Some p \<Rightarrow> if pa_state p = Suppressed then maybeClaim callId now blocked t1 else (t1, [])
         | None \<Rightarrow> (t1, []))"

fun handleRingMessage :: "ring_message \<Rightarrow> int \<Rightarrow> bool \<Rightarrow> ring_tab \<Rightarrow> ring_tab \<times> ring_effect list" where
  "handleRingMessage (ClaimMessage callId claim _) now blocked t = handleClaimMessage callId claim now t"
| "handleRingMessage (SilenceMessage callId _) now blocked t = handleSilenceMessage callId now t"
| "handleRingMessage (ReleaseMessage callId tabId _) now blocked t = handleReleaseMessage callId tabId now blocked t"

section \<open>Calls\<close>

text \<open>Two handlers in a row.\<close>

definition ring_then ::
    "ring_tab \<times> ring_effect list \<Rightarrow> (ring_tab \<Rightarrow> ring_tab \<times> ring_effect list) \<Rightarrow> ring_tab \<times> ring_effect list" where
  "ring_then r f = (case r of (t, es) \<Rightarrow> apsnd (\<lambda>es'. es @ es') (f t))"

fun pagehide_loop :: "call_id list \<Rightarrow> int \<Rightarrow> bool \<Rightarrow> ring_tab \<Rightarrow> ring_tab \<times> ring_effect list" where
  "pagehide_loop [] now blocked t = (t, [])"
| "pagehide_loop (callId # rest) now blocked t =
     ring_then
       (ring_then
         (case map_of (rt_participations t) callId of
            Some p \<Rightarrow>
              (case pa_state p of
                 Audible _ _ \<Rightarrow>
                   apsnd (\<lambda>es. es @ [Publish (ReleaseMessage callId (rt_tabId t) now)])
                     (handleReleaseMessage callId (rt_tabId t) now blocked t)
               | _ \<Rightarrow> (t, []))
          | None \<Rightarrow> (t, []))
         (endParticipation callId now))
       (pagehide_loop rest now blocked)"

definition handlePageHide :: "int \<Rightarrow> bool \<Rightarrow> ring_tab \<Rightarrow> ring_tab \<times> ring_effect list" where
  "handlePageHide now blocked t = pagehide_loop (map_keys (rt_participations t)) now blocked t"

definition participateInRing ::
    "call_id \<Rightarrow> int \<Rightarrow> int \<Rightarrow> bool \<Rightarrow> bool \<Rightarrow> ring_tab \<Rightarrow> ring_tab \<times> ring_effect list" where
  "participateInRing callId maxDurationMs now shouldStop blocked t =
     ring_then (endParticipation callId now t) (\<lambda>t1.
       if callId \<in> set (rt_silencedCallIds t1) \<or> shouldStop then (t1, [OnEnd callId])
       else maybeClaim callId now blocked
              (t1\<lparr>rt_participations := AList.update callId
                 \<lparr>pa_state = Suppressed, pa_deadline = now + maxDurationMs, pa_lastDefendedAt = 0\<rparr> (rt_participations t1)\<rparr>))"

definition silenceIncomingCallRing :: "call_id \<Rightarrow> int \<Rightarrow> ring_tab \<Rightarrow> ring_tab \<times> ring_effect list" where
  "silenceIncomingCallRing callId now t =
     apsnd (\<lambda>es. es @ [Publish (SilenceMessage callId now)]) (handleSilenceMessage callId now t)"

definition ring_tab_new :: "ring_tab_id \<Rightarrow> ring_tab" where
  "ring_tab_new tabId =
     \<lparr>rt_tabId = tabId, rt_trackedClaims = [], rt_silencedCallIds = [], rt_participations = []\<rparr>"

end
