(* ===== verification/RingClaims.thy ===== *)
theory RingClaims
  imports RingCoordination "HOL-Library.Product_Lexorder"
begin

text \<open>
  What the ring election guarantees: in a tab, a silenced call has no participation, the sound
  plays exactly while the tab is the audible one, and the collections stay bounded; among tabs,
  once the claims have gone round, exactly the best claim keeps ringing.
\<close>

section \<open>Inputs of a tab\<close>

datatype ring_input =
  RMessage ring_message int bool
| RTick call_id int bool bool
| REnd call_id int
| RParticipate call_id int int bool bool
| RSilence call_id int
| RPageHide int bool

fun ring_step :: "ring_input \<Rightarrow> ring_tab \<Rightarrow> ring_tab \<times> ring_effect list" where
  "ring_step (RMessage message now blocked) t = handleRingMessage message now blocked t"
| "ring_step (RTick callId now shouldStop blocked) t = ring_tick callId now shouldStop blocked t"
| "ring_step (REnd callId now) t = endParticipation callId now t"
| "ring_step (RParticipate callId maxDurationMs now shouldStop blocked) t =
     participateInRing callId maxDurationMs now shouldStop blocked t"
| "ring_step (RSilence callId now) t = silenceIncomingCallRing callId now t"
| "ring_step (RPageHide now blocked) t = handlePageHide now blocked t"

fun ring_run :: "ring_input list \<Rightarrow> ring_tab \<Rightarrow> ring_tab \<times> ring_effect list" where
  "ring_run [] t = (t, [])"
| "ring_run (i # inputs) t = ring_then (ring_step i t) (ring_run inputs)"

text \<open>Whether the tab is the audible one for a call.\<close>

definition rings :: "call_id \<Rightarrow> ring_tab \<Rightarrow> bool" where
  "rings c t \<longleftrightarrow> (case map_of (rt_participations t) c of
     Some p \<Rightarrow> (case pa_state p of Audible _ _ \<Rightarrow> True | _ \<Rightarrow> False) | None \<Rightarrow> False)"

text \<open>
  The sound of a call after some effects; none if it was started while it played or stopped while
  it did not.
\<close>

fun sound :: "call_id \<Rightarrow> ring_effect list \<Rightarrow> bool \<Rightarrow> bool option" where
  "sound c [] on = Some on"
| "sound c (StartRing d # es) on = (if d = c then (if on then None else sound c es True) else sound c es on)"
| "sound c (StopRing d # es) on = (if d = c then (if on then sound c es False else None) else sound c es on)"
| "sound c (_ # es) on = sound c es on"

lemma sound_append: "sound c (es @ fs) on = (case sound c es on of None \<Rightarrow> None | Some on' \<Rightarrow> sound c fs on')"
  by (induction c es on rule: sound.induct) auto

section \<open>The invariant of a tab\<close>

definition parts_ok :: "ring_tab \<Rightarrow> bool" where
  "parts_ok t \<longleftrightarrow> (\<forall>p \<in> ran (map_of (rt_participations t)). pa_state p \<noteq> Ended) \<and>
     length (rt_trackedClaims t) \<le> MAX_TRACKED_CALLS \<and> length (rt_silencedCallIds t) \<le> MAX_SILENCED_CALLS"

definition ring_ok :: "ring_tab \<Rightarrow> bool" where
  "ring_ok t \<longleftrightarrow> parts_ok t \<and> (\<forall>c \<in> set (rt_silencedCallIds t). map_of (rt_participations t) c = None)"

text \<open>A handler's outcome: the invariant holds and the sound follows the state.\<close>

definition sounds_right :: "ring_tab \<Rightarrow> ring_tab \<times> ring_effect list \<Rightarrow> bool" where
  "sounds_right t r \<longleftrightarrow> (\<forall>c. sound c (snd r) (rings c t) = Some (rings c (fst r)))"

definition good :: "ring_tab \<Rightarrow> ring_tab \<times> ring_effect list \<Rightarrow> bool" where
  "good t r \<longleftrightarrow> ring_ok (fst r) \<and> sounds_right t r \<and> rt_tabId (fst r) = rt_tabId t"

lemma good_refl: "ring_ok t \<Longrightarrow> good t (t, [])"
  by (simp add: good_def sounds_right_def)

lemma good_then:
  assumes "good t r" "\<And>t'. ring_ok t' \<Longrightarrow> good t' (f t')"
  shows "good t (ring_then r f)"
proof -
  obtain t1 es where r: "r = (t1, es)" by fastforce
  then have "good t1 (f t1)" using assms by (simp add: good_def)
  then show ?thesis using assms(1) r by (simp add: good_def sounds_right_def ring_then_def sound_append)
qed

text \<open>Changes of the tracked claims or of the silenced calls are not heard.\<close>

lemma rings_tracked [simp]: "rings c (t\<lparr>rt_trackedClaims := x\<rparr>) = rings c t"
  by (simp add: rings_def)

lemma rings_silenced [simp]: "rings c (t\<lparr>rt_silencedCallIds := x\<rparr>) = rings c t"
  by (simp add: rings_def)

lemma rings_update:
  "rings c (t\<lparr>rt_participations := AList.update d p (rt_participations t)\<rparr>) =
     (if c = d then (case pa_state p of Audible _ _ \<Rightarrow> True | _ \<Rightarrow> False) else rings c t)"
  by (simp add: rings_def)

lemma rings_delete:
  "rings c (t\<lparr>rt_participations := AList.delete d (rt_participations t)\<rparr>) = (c \<noteq> d \<and> rings c t)"
  by (simp add: rings_def)

lemma ring_ok_tracked: "ring_ok t \<Longrightarrow> length x \<le> length (rt_trackedClaims t) \<Longrightarrow> ring_ok (t\<lparr>rt_trackedClaims := x\<rparr>)"
  by (simp add: ring_ok_def parts_ok_def)

lemma track_frame [simp]:
  "rt_participations (track c k t) = rt_participations t" "rt_silencedCallIds (track c k t) = rt_silencedCallIds t"
  "rt_tabId (track c k t) = rt_tabId t" "rings d (track c k t) = rings d t"
  by (simp_all add: track_def)

lemma ring_ok_track: "ring_ok t \<Longrightarrow> ring_ok (track c k t)"
  using length_evictOldest [of MAX_TRACKED_CALLS "AList.update c k (rt_trackedClaims t)"]
  by (simp add: ring_ok_def parts_ok_def) (simp add: track_def)

lemma ran_update: "ran (m(k \<mapsto> v)) \<subseteq> insert v (ran m)"
  by (auto simp: ran_def)

lemma parts_ok_update:
  "parts_ok t \<Longrightarrow> pa_state p \<noteq> Ended \<Longrightarrow> parts_ok (t\<lparr>rt_participations := AList.update d p (rt_participations t)\<rparr>)"
  by (auto simp: parts_ok_def dest!: subsetD [OF ran_update])

lemma parts_ok_delete:
  "parts_ok t \<Longrightarrow> parts_ok (t\<lparr>rt_participations := AList.delete d (rt_participations t)\<rparr>)"
  by (auto simp: parts_ok_def ran_def split: if_splits)

lemma parts_ok_part: "parts_ok t \<Longrightarrow> map_of (rt_participations t) c = Some p \<Longrightarrow> pa_state p \<noteq> Ended"
  by (auto simp: parts_ok_def ran_def)

lemma good_publishClaim: "ring_ok t \<Longrightarrow> good t (publishClaim c now t)"
  by (auto simp: publishClaim_def good_def sounds_right_def ring_ok_track split: option.split ring_state.split)

section \<open>Handlers\<close>

text \<open>Ending a participation: it is gone, its sound stops, \<open>onEnd\<close> is called.\<close>

lemma end_result:
  assumes "map_of (rt_participations t) c = Some p" "pa_state p \<noteq> Ended"
  obtains x where "endParticipation c now t =
      (t\<lparr>rt_participations := AList.delete c (rt_participations t), rt_trackedClaims := x\<rparr>, leave_scope c (pa_state p) @ [OnEnd c])"
    "length x \<le> length (rt_trackedClaims t)"
proof -
  have step: "step ringDefinition (pa_state p) End = Some \<lparr>tr_state = Ended, tr_commands = None\<rparr>"
    using assms(2) by (cases "pa_state p") (simp_all add: step_def)
  let ?x = "case map_of (rt_trackedClaims t) c of
    Some claim \<Rightarrow> if rc_tabId claim = rt_tabId t then AList.delete c (rt_trackedClaims t) else rt_trackedClaims t
  | None \<Rightarrow> rt_trackedClaims t"
  have "endParticipation c now t =
      (t\<lparr>rt_participations := AList.delete c (rt_participations t), rt_trackedClaims := ?x\<rparr>, leave_scope c (pa_state p) @ [OnEnd c])"
    using assms(1) step
    by (auto simp: endParticipation_def ring_dispatch_def finishParticipation_def Let_def delete_update_same split: option.split)
  moreover have "length ?x \<le> length (rt_trackedClaims t)" by (simp add: AList.delete_eq split: option.split)
  ultimately show ?thesis by (rule that)
qed

lemma end_absent: "map_of (rt_participations t) c = None \<Longrightarrow> endParticipation c now t = (t, [])"
  by (simp add: endParticipation_def ring_dispatch_def)

text \<open>Ending restores the invariant for a call that was just silenced.\<close>

lemma good_end_silenced:
  assumes "parts_ok t" "\<forall>d \<in> set (rt_silencedCallIds t). d = c \<or> map_of (rt_participations t) d = None"
  shows "good t (endParticipation c now t)"
proof (cases "map_of (rt_participations t) c")
  case None
  then show ?thesis using assms(1,2) by (auto simp: end_absent intro!: good_refl simp: ring_ok_def)
next
  case (Some p)
  have p: "pa_state p \<noteq> Ended" using parts_ok_part [OF assms(1) Some] .
  obtain x where x: "endParticipation c now t =
      (t\<lparr>rt_participations := AList.delete c (rt_participations t), rt_trackedClaims := x\<rparr>, leave_scope c (pa_state p) @ [OnEnd c])"
    "length x \<le> length (rt_trackedClaims t)" by (rule end_result [OF Some p])
  have "ring_ok (t\<lparr>rt_participations := AList.delete c (rt_participations t), rt_trackedClaims := x\<rparr>)"
    using parts_ok_delete [OF assms(1), of c] assms(2) x(2) by (auto simp: ring_ok_def parts_ok_def)
  moreover have "sounds_right t (endParticipation c now t)" using Some p x(1)
    by (cases "pa_state p") (auto simp: sounds_right_def rings_delete, auto simp: rings_def)
  ultimately show ?thesis by (simp add: good_def x(1))
qed

lemma good_end: "ring_ok t \<Longrightarrow> good t (endParticipation c now t)"
  by (rule good_end_silenced) (auto simp: ring_ok_def)

lemma ring_ok_update:
  "ring_ok t \<Longrightarrow> map_of (rt_participations t) c \<noteq> None \<or> c \<notin> set (rt_silencedCallIds t) \<Longrightarrow> pa_state p \<noteq> Ended \<Longrightarrow>
   ring_ok (t\<lparr>rt_participations := AList.update c p (rt_participations t)\<rparr>)"
  by (auto simp: ring_ok_def parts_ok_update)

text \<open>\<open>publishClaim\<close> sends claims and starts nothing.\<close>

lemma publishClaim_effects: "snd (publishClaim c now t) = [] \<or> (\<exists>m. snd (publishClaim c now t) = [Publish m])"
  by (simp add: publishClaim_def split: option.split ring_state.split)

lemma publishClaim_frame:
  "rt_participations (fst (publishClaim c now t)) = rt_participations t" "rt_tabId (fst (publishClaim c now t)) = rt_tabId t"
  by (simp_all add: publishClaim_def split: option.split ring_state.split)

lemma rings_cong: "rt_participations t' = rt_participations t \<Longrightarrow> rings c t' = rings c t"
  by (simp add: rings_def)

lemma good_acquire:
  assumes "ring_ok t"
  shows "good t (ring_acquire c now blocked t)"
proof (cases "map_of (rt_participations t) c")
  case (Some p)
  show ?thesis
  proof (cases "pa_state p")
    case Suppressed
    let ?t = "t\<lparr>rt_participations := AList.update c (p\<lparr>pa_state := Audible now (\<not> blocked)\<rparr>) (rt_participations t)\<rparr>"
    have eq: "ring_acquire c now blocked t = apsnd (\<lambda>es. es @ [StartRing c]) (publishClaim c now ?t)"
      using Some Suppressed by (simp add: ring_acquire_def ring_dispatch_def step_def Let_def apsnd_def map_prod_def case_prod_beta)
    have ok: "ring_ok ?t" using assms Some by (intro ring_ok_update) auto
    have "rings d (fst (publishClaim c now ?t)) = (d = c \<or> rings d t)" for d
      using rings_cong [OF publishClaim_frame(1), of d c now ?t] by (simp add: rings_update)
    moreover have "\<not> rings c t" using Some Suppressed by (simp add: rings_def)
    ultimately have "sounds_right t (ring_acquire c now blocked t)"
      using publishClaim_effects [of c now ?t] by (auto simp: sounds_right_def eq)
    then show ?thesis using good_publishClaim [OF ok, of c now] by (simp add: good_def eq publishClaim_frame)
  qed (use assms Some in \<open>simp_all add: ring_acquire_def ring_dispatch_def step_def good_refl\<close>)
qed (simp add: ring_acquire_def ring_dispatch_def good_refl assms)

lemma good_demote:
  assumes "ring_ok t"
  shows "good t (demote c now t)"
proof (cases "map_of (rt_participations t) c")
  case (Some p)
  show ?thesis
  proof (cases "pa_state p")
    case (Audible a b)
    let ?t = "t\<lparr>rt_participations := AList.update c (p\<lparr>pa_state := Suppressed\<rparr>) (rt_participations t)\<rparr>"
    have eq: "demote c now t = (?t, [StopRing c])"
      using Some Audible by (simp add: demote_def ring_dispatch_def step_def Let_def)
    have "ring_ok ?t" using assms Some by (intro ring_ok_update) auto
    moreover have "rings c t" using Some Audible by (simp add: rings_def)
    ultimately show ?thesis by (simp add: good_def sounds_right_def eq rings_update)
  qed (use assms Some in \<open>simp_all add: demote_def ring_dispatch_def step_def good_refl\<close>)
qed (simp add: demote_def ring_dispatch_def good_refl assms)

lemma good_maybeClaim: "ring_ok t \<Longrightarrow> good t (maybeClaim c now blocked t)"
  by (simp add: maybeClaim_def good_acquire good_refl split: option.split)

lemma good_tick: "ring_ok t \<Longrightarrow> good t (ring_tick c now stop blocked t)"
  by (simp add: ring_tick_def good_end good_publishClaim good_maybeClaim good_refl split: option.split ring_state.split)

text \<open>From a state with the same participations.\<close>

lemma good_from: "good t' r \<Longrightarrow> rt_tabId t' = rt_tabId t \<Longrightarrow> (\<And>c. rings c t' = rings c t) \<Longrightarrow> good t r"
  by (simp add: good_def sounds_right_def)

lemma good_answer:
  assumes ok: "ring_ok t"
  shows "good t (answer_incoming c incoming now t)"
proof (cases "map_of (rt_participations t) c")
  case (Some p)
  show ?thesis
  proof (cases "pa_state p")
    case (Audible a b)
    let ?t = "t\<lparr>rt_participations := AList.update c (p\<lparr>pa_lastDefendedAt := now\<rparr>) (rt_participations t)\<rparr>"
    have "ring_ok ?t" using ok Some Audible by (intro ring_ok_update) auto
    from good_publishClaim [OF this] have "good t (publishClaim c now ?t)"
      by (rule good_from) (use Some Audible in \<open>auto simp: rings_def\<close>)
    then show ?thesis using Some Audible ok by (simp add: answer_incoming_def good_demote good_refl)
  qed (use Some ok in \<open>simp_all add: answer_incoming_def good_refl\<close>)
qed (simp add: answer_incoming_def good_refl ok)

lemma track_incoming_cases: "track_incoming c k now t = t \<or> track_incoming c k now t = track c k t"
  by (simp add: track_incoming_def split: option.split)

lemma track_incoming_frame [simp]:
  "rt_participations (track_incoming c k now t) = rt_participations t" "rt_tabId (track_incoming c k now t) = rt_tabId t"
  "rings d (track_incoming c k now t) = rings d t"
  using track_incoming_cases [of c k now t] by auto

lemma good_handleClaim:
  assumes "ring_ok t"
  shows "good t (handleClaimMessage c claim now t)"
proof -
  have "ring_ok (track_incoming c k now t)" for k
    using track_incoming_cases [of c k now t] ring_ok_track [OF assms] assms by auto
  from good_from [OF good_answer [OF this]] show ?thesis
    by (simp add: handleClaimMessage_def Let_def good_refl assms)
qed

lemma good_handleSilence:
  assumes "ring_ok t"
  shows "good t (handleSilenceMessage c now t)"
proof -
  let ?t = "t\<lparr>rt_silencedCallIds := evictOldest MAX_SILENCED_CALLS (set_add c (rt_silencedCallIds t))\<rparr>"
  have "parts_ok ?t" using assms length_evictOldest by (simp add: ring_ok_def parts_ok_def)
  moreover have "\<forall>d \<in> set (rt_silencedCallIds ?t). d = c \<or> map_of (rt_participations ?t) d = None"
    using assms set_evictOldest [of MAX_SILENCED_CALLS "set_add c (rt_silencedCallIds t)"] by (auto simp: ring_ok_def)
  ultimately have "good ?t (endParticipation c now ?t)" by (rule good_end_silenced)
  then show ?thesis unfolding handleSilenceMessage_def by (rule good_from) simp_all
qed

lemma good_handleRelease:
  assumes "ring_ok t"
  shows "good t (handleReleaseMessage c k now blocked t)"
proof -
  let ?t = "t\<lparr>rt_trackedClaims := AList.delete c (rt_trackedClaims t)\<rparr>"
  have "ring_ok ?t" using assms by (rule ring_ok_tracked) (simp add: AList.delete_eq)
  then have "good t (?t, [])" "good t (maybeClaim c now blocked ?t)"
    using good_from [OF good_refl, of ?t t] good_from [OF good_maybeClaim, of ?t t] by simp_all
  then show ?thesis using assms
    by (simp add: handleReleaseMessage_def Let_def good_maybeClaim good_refl split: option.split)
qed

lemma good_quiet: "good t r \<Longrightarrow> good t (apsnd (\<lambda>es. es @ [Publish m]) r)"
  by (simp add: good_def sounds_right_def sound_append)

lemma good_pagehide: "ring_ok t \<Longrightarrow> good t (pagehide_loop cs now blocked t)"
proof (induction cs arbitrary: t)
  case (Cons c cs)
  then show ?case unfolding pagehide_loop.simps
    by (intro good_then) (auto intro: good_quiet good_handleRelease good_refl good_end split: option.split ring_state.split)
qed (simp add: good_refl)

lemma good_participate:
  assumes "ring_ok t"
  shows "good t (participateInRing c d now stop blocked t)"
proof -
  let ?p = "\<lparr>pa_state = Suppressed, pa_deadline = now + d, pa_lastDefendedAt = 0\<rparr>"
  have join: "good t1 (maybeClaim c now blocked (t1\<lparr>rt_participations := AList.update c ?p (rt_participations t1)\<rparr>))"
    if "ring_ok t1" "c \<notin> set (rt_silencedCallIds t1)" "\<not> rings c t1" for t1
    using that by (intro good_from [OF good_maybeClaim]) (auto intro: ring_ok_update simp: rings_update)
  obtain t1 es where e: "endParticipation c now t = (t1, es)" by fastforce
  have "good t (t1, es)" using good_end [OF assms, of c now] e by simp
  moreover have "\<not> rings c t1"
  proof (cases "map_of (rt_participations t) c")
    case None
    then show ?thesis using e by (auto simp: end_absent rings_def)
  next
    case (Some p)
    have "pa_state p \<noteq> Ended" using parts_ok_part [OF _ Some] assms by (simp add: ring_ok_def)
    then obtain x where "endParticipation c now t =
        (t\<lparr>rt_participations := AList.delete c (rt_participations t), rt_trackedClaims := x\<rparr>, leave_scope c (pa_state p) @ [OnEnd c])"
      by (rule end_result [OF Some])
    with e have "t1 = t\<lparr>rt_participations := AList.delete c (rt_participations t), rt_trackedClaims := x\<rparr>" by simp
    then show ?thesis by (simp add: rings_def)
  qed
  moreover have "good t1 (t1, [OnEnd c])" if "ring_ok t1" using that by (simp add: good_def sounds_right_def)
  ultimately have "good t1 (if c \<in> set (rt_silencedCallIds t1) \<or> stop then (t1, [OnEnd c])
      else maybeClaim c now blocked (t1\<lparr>rt_participations := AList.update c ?p (rt_participations t1)\<rparr>))"
    using join by (simp add: good_def)
  with \<open>good t (t1, es)\<close> show ?thesis
    by (simp add: participateInRing_def e ring_then_def good_def sounds_right_def sound_append)
qed

lemma good_step: "ring_ok t \<Longrightarrow> good t (ring_step i t)"
proof (cases i)
  case (RMessage message now blocked)
  then show "ring_ok t \<Longrightarrow> good t (ring_step i t)"
    by (cases message) (simp_all add: good_handleClaim good_handleSilence good_handleRelease)
qed (simp_all add: good_tick good_end good_participate silenceIncomingCallRing_def good_quiet good_handleSilence
    handlePageHide_def good_pagehide)

lemma good_run: "ring_ok t \<Longrightarrow> good t (ring_run inputs t)"
  by (induction inputs arbitrary: t) (simp_all add: good_refl good_then good_step)

lemma ring_ok_new: "ring_ok (ring_tab_new k)"
  by (simp add: ring_ok_def parts_ok_def ring_tab_new_def)

section \<open>The election\<close>

text \<open>The order of claims, as a lexicographic one.\<close>

definition rank :: "'x ring_claim_scheme \<Rightarrow> bool \<times> int \<times> ring_tab_id" where
  "rank k = (\<not> rc_audible k, rc_claimedAt k, rc_tabId k)"

lemma compareClaims_rank: "compareClaims a b < 0 \<longleftrightarrow> rank a < rank b"
  by (auto simp: compareClaims_def rank_def less_prod_def less_le)

text \<open>The claim with which a tab rings.\<close>

definition own_claim :: "call_id \<Rightarrow> ring_tab \<Rightarrow> ring_claim option" where
  "own_claim c t = (case map_of (rt_participations t) c of
     Some p \<Rightarrow> (case pa_state p of
        Audible a b \<Rightarrow> Some \<lparr>rc_tabId = rt_tabId t, rc_claimedAt = a, rc_audible = b\<rparr> | _ \<Rightarrow> None)
   | None \<Rightarrow> None)"

lemma rings_own_claim: "rings c t \<longleftrightarrow> own_claim c t \<noteq> None"
  by (auto simp: rings_def own_claim_def split: option.split ring_state.split)

lemma own_claim_cong:
  "rt_participations t' = rt_participations t \<Longrightarrow> rt_tabId t' = rt_tabId t \<Longrightarrow> own_claim c t' = own_claim c t"
  by (simp add: own_claim_def split: option.split ring_state.split)

lemma answer_own_claim:
  "own_claim c (fst (answer_incoming c k now t)) =
     (case own_claim c t of None \<Rightarrow> None | Some own \<Rightarrow> if rank k < rank own then None else Some own)"
proof (cases "map_of (rt_participations t) c")
  case (Some p)
  show ?thesis
  proof (cases "pa_state p")
    case (Audible a b)
    let ?t = "t\<lparr>rt_participations := AList.update c (p\<lparr>pa_lastDefendedAt := now\<rparr>) (rt_participations t)\<rparr>"
    have "own_claim c (fst (publishClaim c now ?t)) = own_claim c t"
      using Some Audible by (simp add: own_claim_def publishClaim_frame)
    moreover have "own_claim c (fst (demote c now t)) = None"
      using Some Audible by (simp add: demote_def ring_dispatch_def step_def Let_def own_claim_def)
    moreover have "own_claim c t = Some \<lparr>rc_tabId = rt_tabId t, rc_claimedAt = a, rc_audible = b\<rparr>"
      using Some Audible by (simp add: own_claim_def)
    ultimately show ?thesis using Some Audible by (simp add: answer_incoming_def compareClaims_rank)
  qed (use Some in \<open>simp_all add: answer_incoming_def own_claim_def\<close>)
qed (simp add: answer_incoming_def own_claim_def)

lemma handleClaim_own_claim:
  "own_claim c (fst (handleClaimMessage c k now t)) =
     (case own_claim c t of
        None \<Rightarrow> None
      | Some own \<Rightarrow> if rc_tabId k \<noteq> rt_tabId t \<and> rank k < rank own then None else Some own)"
proof -
  have "own_claim c (track_incoming c x now t) = own_claim c t" for x by (rule own_claim_cong) simp_all
  then show ?thesis
    by (auto simp: handleClaimMessage_def Let_def answer_own_claim rank_def split: option.split)
qed

lemma handleClaim_tabId: "rt_tabId (fst (handleClaimMessage c k now t)) = rt_tabId t"
proof -
  have "rt_tabId (fst (demote c now t')) = rt_tabId t'" for t'
    by (auto simp: demote_def ring_dispatch_def step_def finishParticipation_def Let_def publishClaim_frame
        split: option.split elim!: ringDefinition.elims)
  then show ?thesis
    by (simp add: handleClaimMessage_def Let_def answer_incoming_def publishClaim_frame split: option.split ring_state.split)
qed

text \<open>Claims arriving in a row, each at some time.\<close>

fun deliver_claims :: "call_id \<Rightarrow> (int \<times> ring_claim) list \<Rightarrow> ring_tab \<Rightarrow> ring_tab" where
  "deliver_claims c [] t = t"
| "deliver_claims c ((now, k) # inbox) t = deliver_claims c inbox (fst (handleClaimMessage c k now t))"

lemma deliver_own_claim:
  "own_claim c (deliver_claims c inbox t) =
     (case own_claim c t of
        None \<Rightarrow> None
      | Some own \<Rightarrow> if \<exists>k \<in> snd ` set inbox. rc_tabId k \<noteq> rt_tabId t \<and> rank k < rank own then None else Some own)"
proof (induction c inbox t rule: deliver_claims.induct)
  case (2 c now k inbox t)
  then show ?case by (auto simp: handleClaim_own_claim handleClaim_tabId split: option.splits)
qed (simp split: option.split)

lemma own_claim_tab: "own_claim c t = Some k \<Longrightarrow> rc_tabId k = rt_tabId t"
  by (auto simp: own_claim_def split: option.splits ring_state.splits)

lemma filter_eq_one: "distinct xs \<Longrightarrow> x \<in> set xs \<Longrightarrow> filter (\<lambda>y. y = x) xs = [x]"
proof (induction xs)
  case (Cons y ys)
  then show ?case by (cases "y = x") (auto simp: filter_empty_conv)
qed simp

text \<open>Among tabs with different ids, one has the best claim.\<close>

lemma best_tab:
  assumes "tabs \<noteq> []" "distinct (map rt_tabId tabs)" "\<forall>t \<in> set tabs. own_claim c t = Some (claim t)"
  obtains best where "best \<in> set tabs" "\<And>t. t \<in> set tabs \<Longrightarrow> t \<noteq> best \<Longrightarrow> rank (claim best) < rank (claim t)"
proof -
  let ?f = "\<lambda>t. rank (claim t)"
  have "Min (?f ` set tabs) \<in> ?f ` set tabs" using assms(1) by (intro Min_in) auto
  then obtain best where best: "best \<in> set tabs" "Min (?f ` set tabs) = ?f best" by auto
  have "?f best < ?f t" if "t \<in> set tabs" "t \<noteq> best" for t
  proof -
    have "rt_tabId t \<noteq> rt_tabId best" using assms(2) that best(1) by (auto simp: distinct_map dest: inj_onD)
    moreover have "rc_tabId (claim t) = rt_tabId t" "rc_tabId (claim best) = rt_tabId best"
      using own_claim_tab assms(3) that best(1) by blast+
    ultimately have "?f t \<noteq> ?f best" by (auto simp: rank_def)
    moreover have "?f best \<le> ?f t" using Min_le [of "?f ` set tabs" "?f t"] that best(2) by simp
    ultimately show ?thesis by (simp add: less_le)
  qed
  with best(1) show ?thesis by (rule that)
qed

text \<open>A suppressed tab takes the ring over at its first tick after the last claim has gone stale.\<close>

lemma ring_fails_over:
  assumes "map_of (rt_participations t) c = Some p" "pa_state p = Suppressed" "now < pa_deadline p"
    "c \<notin> set (rt_silencedCallIds t)"
    "\<And>k. map_of (rt_trackedClaims t) c = Some k \<Longrightarrow> tc_lastSeenAt k + CLAIM_TTL_MS < now"
  shows "rings c (fst (ring_tick c now False blocked t))"
proof -
  have "getLiveClaim c now t = None" using assms(5) by (auto simp: getLiveClaim_def split: option.split)
  with assms(1-4) show ?thesis
    by (simp add: ring_tick_def maybeClaim_def ring_acquire_def ring_dispatch_def step_def Let_def rings_def publishClaim_frame)
qed

section \<open>Claims\<close>

text \<open>
  C19: the election converges to one ringer. Take any number of tabs with different ids that all
  ring for the same call. Once each of them has received the claims of all the others, in any
  order, any number of times and at any moments, exactly one tab still rings: the one whose claim
  outranks all others.
\<close>

theorem ring_converges:
  assumes "tabs \<noteq> []" and "distinct (map rt_tabId tabs)"
    and "\<forall>t \<in> set tabs. own_claim c t = Some (claim t)"
    and "\<forall>t \<in> set tabs. snd ` set (inbox (rt_tabId t)) = claim ` (set tabs - {t})"
  shows "\<exists>best \<in> set tabs. filter (\<lambda>t. rings c (deliver_claims c (inbox (rt_tabId t)) t)) tabs = [best] \<and>
    (\<forall>t \<in> set tabs - {best}. compareClaims (claim best) (claim t) < 0)"
proof -
  obtain best where best: "best \<in> set tabs" "\<And>t. t \<in> set tabs \<Longrightarrow> t \<noteq> best \<Longrightarrow> rank (claim best) < rank (claim t)"
    using best_tab [OF assms(1-3)] by blast
  have id: "rc_tabId (claim t) = rt_tabId t" if "t \<in> set tabs" for t using own_claim_tab assms(3) that by blast
  have "rings c (deliver_claims c (inbox (rt_tabId t)) t) \<longleftrightarrow> t = best" if t: "t \<in> set tabs" for t
  proof -
    have "rings c (deliver_claims c (inbox (rt_tabId t)) t) \<longleftrightarrow>
        \<not> (\<exists>u \<in> set tabs - {t}. rc_tabId (claim u) \<noteq> rt_tabId t \<and> rank (claim u) < rank (claim t))"
      using assms(3,4) t by (simp add: rings_own_claim deliver_own_claim)
    also have "\<dots> \<longleftrightarrow> t = best"
    proof (cases "t = best")
      case True
      then show ?thesis using best(2) by (auto dest: less_asym)
    next
      case False
      then have "rt_tabId best \<noteq> rt_tabId t" using assms(2) t best(1) by (auto simp: distinct_map dest: inj_onD)
      then show ?thesis using False best t id by fastforce
    qed
    finally show ?thesis .
  qed
  then have "filter (\<lambda>t. rings c (deliver_claims c (inbox (rt_tabId t)) t)) tabs = filter (\<lambda>t. t = best) tabs"
    by (intro filter_cong) auto
  also have "\<dots> = [best]" using assms(2) best(1)
    by (simp add: distinct_map filter_eq_one)
  finally show ?thesis using best by (auto simp: compareClaims_rank)
qed

definition ring_demo :: "string \<Rightarrow> int \<Rightarrow> bool \<Rightarrow> ring_tab" where
  "ring_demo k now blocked = fst (participateInRing ''call'' 30000 now False blocked (ring_tab_new k))"

theorem ring_converges_witness:
  "\<exists>best \<in> {ring_demo ''a'' 5 True, ring_demo ''b'' 6 False}.
     filter (\<lambda>t. rings ''call'' (deliver_claims ''call''
        (if rt_tabId t = ''a'' then [(7, \<lparr>rc_tabId = ''b'', rc_claimedAt = 6, rc_audible = True\<rparr>)]
         else [(7, \<lparr>rc_tabId = ''a'', rc_claimedAt = 5, rc_audible = False\<rparr>)]) t))
       [ring_demo ''a'' 5 True, ring_demo ''b'' 6 False] = [best]"
proof -
  let ?a = "ring_demo ''a'' 5 True" and ?b = "ring_demo ''b'' 6 False"
  let ?claim = "\<lambda>t. the (own_claim ''call'' t)"
  let ?inbox = "\<lambda>k. if k = ''a'' then [(7, \<lparr>rc_tabId = ''b'', rc_claimedAt = 6, rc_audible = True\<rparr>)]
    else [(7, \<lparr>rc_tabId = ''a'', rc_claimedAt = 5, rc_audible = False\<rparr>)] :: (int \<times> ring_claim) list"
  have ids: "rt_tabId ?a = ''a''" "rt_tabId ?b = ''b''" by code_simp+
  have own: "own_claim ''call'' ?a = Some \<lparr>rc_tabId = ''a'', rc_claimedAt = 5, rc_audible = False\<rparr>"
    "own_claim ''call'' ?b = Some \<lparr>rc_tabId = ''b'', rc_claimedAt = 6, rc_audible = True\<rparr>" by code_simp+
  have "?a \<noteq> ?b" using ids by auto
  then have others: "set [?a, ?b] - {?a} = {?b}" "set [?a, ?b] - {?b} = {?a}" by auto
  have "\<exists>best \<in> set [?a, ?b]. filter (\<lambda>t. rings ''call'' (deliver_claims ''call'' (?inbox (rt_tabId t)) t)) [?a, ?b] = [best] \<and>
      (\<forall>t \<in> set [?a, ?b] - {best}. compareClaims (?claim best) (?claim t) < 0)"
  proof (rule ring_converges)
    show "distinct (map rt_tabId [?a, ?b])" using ids by simp
    show "\<forall>t \<in> set [?a, ?b]. own_claim ''call'' t = Some (?claim t)" using own by simp
    have "snd ` set (?inbox (rt_tabId ?a)) = ?claim ` (set [?a, ?b] - {?a})"
      "snd ` set (?inbox (rt_tabId ?b)) = ?claim ` (set [?a, ?b] - {?b})" unfolding others using ids own by simp_all
    then show "\<forall>t \<in> set [?a, ?b]. snd ` set (?inbox (rt_tabId t)) = ?claim ` (set [?a, ?b] - {t})" by simp
  qed simp
  then obtain best where "best \<in> set [?a, ?b]"
    "filter (\<lambda>t. rings ''call'' (deliver_claims ''call'' (?inbox (rt_tabId t)) t)) [?a, ?b] = [best]" by blast
  then show ?thesis by (intro bexI [of _ best]) (simp_all only: list.set)
qed

text \<open>
  C17: a tab rings when and only when it should. Through any sequence of messages, timers and
  calls, the sound of a call starts only while it is off, stops only while it is on, and is on
  exactly while the tab is audible for the call; a call that is remembered as silenced has no
  participation, so it cannot ring; and at most 50 claims and 100 silenced calls are remembered.
\<close>

theorem ring_tab_sound:
  "case ring_run inputs (ring_tab_new k) of (t, es) \<Rightarrow>
     (\<forall>c. sound c es False = Some (rings c t)) \<and>
     (\<forall>c \<in> set (rt_silencedCallIds t). map_of (rt_participations t) c = None) \<and>
     length (rt_trackedClaims t) \<le> 50 \<and> length (rt_silencedCallIds t) \<le> 100"
proof -
  obtain t es where run: "ring_run inputs (ring_tab_new k) = (t, es)" by fastforce
  have "good (ring_tab_new k) (t, es)" using good_run [OF ring_ok_new, of k inputs] run by simp
  moreover have "\<not> rings c (ring_tab_new k)" for c by (simp add: rings_def ring_tab_new_def)
  ultimately show ?thesis
    by (auto simp: run good_def sounds_right_def ring_ok_def parts_ok_def MAX_TRACKED_CALLS_def MAX_SILENCED_CALLS_def)
qed

theorem ring_tab_sound_witness:
  "let r = ring_run [RParticipate ''call'' 30000 5 False False, RSilence ''call'' 6, RTick ''call'' 7 False False,
       RParticipate ''call'' 30000 8 False False] (ring_tab_new ''a'')
   in sound ''call'' (snd r) False = Some False \<and> rt_silencedCallIds (fst r) = [''call''] \<and>
      StartRing ''call'' \<in> set (snd r)"
proof -
  let ?inputs = "[RParticipate ''call'' 30000 5 False False, RSilence ''call'' 6, RTick ''call'' 7 False False,
    RParticipate ''call'' 30000 8 False False]"
  let ?r = "ring_run ?inputs (ring_tab_new ''a'')"
  have "sound ''call'' (snd ?r) False = Some (rings ''call'' (fst ?r))"
    using ring_tab_sound [of ?inputs "''a''"] by (simp only: case_prod_beta)
  moreover have "rings ''call'' (fst ?r) = False" by code_simp
  moreover have "rt_silencedCallIds (fst ?r) = [''call'']" by code_simp
  moreover have "StartRing ''call'' \<in> set (snd ?r)" by code_simp
  ultimately show ?thesis by (simp only: Let_def simp_thms)
qed

end
