(* ===== verification/CacheTelemetry.thy ===== *)
theory CacheTelemetry
  imports Complex_Main JsValue
begin

text \<open>
  The telemetry of the GraphQL cache (\<open>graphql-cache/telemetry.ts\<close>): observations with an
  allowlist for every field, the recorder that counts high-volume successes in aggregates and
  keeps every error visible, the reporter that adds the runtime context, and the functions that
  classify requests and errors.

  Enumerated fields are strings, since the code checks them against lists at run time. A number is
  finite, with an exact value, or one of the values that \<open>Number.isFinite\<close> refuses. The key of an
  aggregate is \<open>JSON.stringify\<close> of an array of four strings; the model keys by the four strings.
  The sink may throw; what it was given is recorded, in order.
\<close>

section \<open>Observations\<close>

datatype js_number = Finite rat | NotFinite

definition CACHE_TELEMETRY_EVENT_NAMES :: "string list" where
  "CACHE_TELEMETRY_EVENT_NAMES =
     [''graphql_cache.wasm_download'', ''graphql_cache.wasm_compile'', ''graphql_cache.wasm_instantiate'',
      ''graphql_cache.schema_init'', ''graphql_cache.db_ready'', ''graphql_cache.host_ready'',
      ''graphql_cache.host_request'', ''graphql_cache.coordinator_request'', ''graphql_cache.engine_request'',
      ''graphql_cache.transaction'', ''graphql_cache.read'', ''graphql_cache.owner'',
      ''graphql_cache.stale_drop'', ''graphql_cache.lock_wait'', ''graphql_cache.storage_reset_required'',
      ''graphql_cache.logical_reset'', ''graphql_cache.revision_advance'', ''graphql_cache.reset_wipe'',
      ''graphql_cache.origin_storage_pressure'', ''graphql_cache.linear_memory'',
      ''graphql_cache.queue_diagnostics'', ''graphql_cache.navigation'', ''graphql_cache.aggregate'']"

definition CACHE_OPERATION_CATEGORIES :: "string list" where
  "CACHE_OPERATION_CATEGORIES =
     [''initialization'', ''read'', ''write'', ''transaction'', ''queue'', ''inspection'',
      ''invalidation'', ''lifecycle'', ''storage'', ''navigation'', ''unknown'']"

definition CACHE_TELEMETRY_OUTCOMES :: "string list" where
  "CACHE_TELEMETRY_OUTCOMES =
     [''success'', ''error'', ''hit'', ''miss'', ''graceful'', ''abrupt'', ''granted'', ''denied'', ''unknown'']"

definition CACHE_OPEN_OUTCOMES :: "string list" where
  "CACHE_OPEN_OUTCOMES =
     [''opened-existing'', ''opened-new'', ''reset-incompatible'', ''reset-corrupt'', ''reset-storage-uncertain'']"

definition CACHE_QUEUE_DIAGNOSTICS_AVAILABILITY :: "string list" where
  "CACHE_QUEUE_DIAGNOSTICS_AVAILABILITY = [''available'', ''unavailable'']"

definition CACHE_REVISION_CATEGORIES :: "string list" where
  "CACHE_REVISION_CATEGORIES =
     [''authoritative-write'', ''optimistic-enqueue'', ''optimistic-commit'', ''optimistic-rollback'',
      ''external-invalidation'', ''deletion'', ''clear'']"

definition CACHE_ERROR_CODES :: "string list" where
  "CACHE_ERROR_CODES =
     [''none'', ''unsupported'', ''timeout'', ''wasm-download'', ''wasm-compile'', ''wasm-instantiate'',
      ''schema'', ''integrity'', ''opfs-unavailable'', ''opfs-quota'', ''opfs-io'', ''lock'', ''owner-lost'',
      ''protocol'', ''transport'', ''storage-reset'', ''initialization'', ''unknown'']"

definition CACHE_RESET_REASONS :: "string list" where
  "CACHE_RESET_REASONS =
     [''explicit-clear'', ''identity-change'', ''namespace-mismatch'', ''integrity-failure'',
      ''storage-reset-required'', ''abrupt-owner-loss'', ''storage-eviction'', ''quota-failure'', ''unknown'']"

definition CACHE_OWNER_EVENTS :: "string list" where
  "CACHE_OWNER_EVENTS =
     [''elected'', ''activated'', ''graceful-drain-started'', ''graceful-drain-completed'',
      ''navigation-departure'', ''abrupt-loss'', ''replacement'', ''multiple-owner-detected'']"

definition CACHE_ROLLOUT_COHORTS :: "string list" where
  "CACHE_ROLLOUT_COHORTS = [''control'', ''treatment'', ''override'', ''unknown'']"

record observation =
  ob_name :: string
  ob_aggregatedEventName :: "string option"
  ob_operationCategory :: string
  ob_outcome :: "string option"
  ob_errorCode :: "string option"
  ob_resetReason :: "string option"
  ob_ownerEvent :: "string option"
  ob_persistence :: "string option"
  ob_openOutcome :: "string option"
  ob_queueDiagnosticsAvailability :: "string option"
  ob_revisionCategory :: "string option"
  ob_resetAttempt :: "string option"
  ob_durationMs :: "js_number option"
  ob_bytes :: "js_number option"
  ob_highWaterBytes :: "js_number option"
  ob_usageBytes :: "js_number option"
  ob_quotaBytes :: "js_number option"
  ob_ratio :: "js_number option"
  ob_count :: "js_number option"
  ob_sampleRate :: "js_number option"
  ob_queueDepth :: "js_number option"
  ob_oldestAgeMs :: "js_number option"

text \<open>An object literal with the two required fields.\<close>

definition observe :: "string \<Rightarrow> string \<Rightarrow> observation" where
  "observe name category = \<lparr>ob_name = name, ob_aggregatedEventName = None, ob_operationCategory = category,
     ob_outcome = None, ob_errorCode = None, ob_resetReason = None, ob_ownerEvent = None,
     ob_persistence = None, ob_openOutcome = None, ob_queueDiagnosticsAvailability = None,
     ob_revisionCategory = None, ob_resetAttempt = None, ob_durationMs = None, ob_bytes = None,
     ob_highWaterBytes = None, ob_usageBytes = None, ob_quotaBytes = None, ob_ratio = None,
     ob_count = None, ob_sampleRate = None, ob_queueDepth = None, ob_oldestAgeMs = None\<rparr>"

definition HIGH_VOLUME_NAMES :: "string list" where
  "HIGH_VOLUME_NAMES =
     [''graphql_cache.host_request'', ''graphql_cache.coordinator_request'', ''graphql_cache.engine_request'',
      ''graphql_cache.transaction'', ''graphql_cache.read'']"

definition max_safe_number :: rat where
  "max_safe_number = 9007199254740991"

fun boundedNumber :: "js_number option \<Rightarrow> rat \<Rightarrow> js_number option" where
  "boundedNumber (Some (Finite v)) maximum = (if v \<ge> 0 then Some (Finite (min v maximum)) else None)"
| "boundedNumber _ _ = None"

text \<open>\<open>value !== undefined && list.includes(value) ? { value } : {}\<close>\<close>

definition allowed :: "string list \<Rightarrow> string option \<Rightarrow> string option" where
  "allowed names v = (case v of Some s \<Rightarrow> (if s \<in> set names then Some s else None) | None \<Rightarrow> None)"

definition sanitizeObservation :: "observation \<Rightarrow> observation option" where
  "sanitizeObservation input =
     (if ob_name input \<notin> set CACHE_TELEMETRY_EVENT_NAMES then None
      else if ob_operationCategory input \<notin> set CACHE_OPERATION_CATEGORIES then None
      else Some \<lparr>ob_name = ob_name input,
        ob_aggregatedEventName =
          (if ob_name input = ''graphql_cache.aggregate'' then allowed HIGH_VOLUME_NAMES (ob_aggregatedEventName input)
           else None),
        ob_operationCategory = ob_operationCategory input,
        ob_outcome = allowed CACHE_TELEMETRY_OUTCOMES (ob_outcome input),
        ob_errorCode = allowed CACHE_ERROR_CODES (ob_errorCode input),
        ob_resetReason = allowed CACHE_RESET_REASONS (ob_resetReason input),
        ob_ownerEvent = allowed CACHE_OWNER_EVENTS (ob_ownerEvent input),
        ob_persistence = allowed [''granted'', ''denied'', ''unknown''] (ob_persistence input),
        ob_openOutcome = allowed CACHE_OPEN_OUTCOMES (ob_openOutcome input),
        ob_queueDiagnosticsAvailability =
          allowed CACHE_QUEUE_DIAGNOSTICS_AVAILABILITY (ob_queueDiagnosticsAvailability input),
        ob_revisionCategory = allowed CACHE_REVISION_CATEGORIES (ob_revisionCategory input),
        ob_resetAttempt = allowed [''wipe-before-open''] (ob_resetAttempt input),
        ob_durationMs = boundedNumber (ob_durationMs input) 3600000,
        ob_bytes = boundedNumber (ob_bytes input) max_safe_number,
        ob_highWaterBytes = boundedNumber (ob_highWaterBytes input) max_safe_number,
        ob_usageBytes = boundedNumber (ob_usageBytes input) max_safe_number,
        ob_quotaBytes = boundedNumber (ob_quotaBytes input) max_safe_number,
        ob_ratio = boundedNumber (ob_ratio input) 1,
        ob_count = boundedNumber (ob_count input) max_safe_number,
        ob_sampleRate = boundedNumber (ob_sampleRate input) max_safe_number,
        ob_queueDepth = boundedNumber (ob_queueDepth input) max_safe_number,
        ob_oldestAgeMs = boundedNumber (ob_oldestAgeMs input) 31536000000\<rparr>)"

section \<open>The recorder\<close>

record aggregate =
  ag_template :: observation
  ag_count :: rat
  ag_totalDurationMs :: rat

type_synonym aggregate_key = "string \<times> string \<times> string \<times> string"

record recorder =
  rec_sampleRate :: nat
  rec_aggregateEvery :: rat
  rec_sampleSequences :: "(aggregate_key, nat) jsmap"
  rec_aggregates :: "(aggregate_key, aggregate) jsmap"
  rec_emitted :: "observation list"

definition new_recorder :: "nat \<Rightarrow> rat \<Rightarrow> recorder" where
  "new_recorder sampleRate aggregateEvery =
     \<lparr>rec_sampleRate = sampleRate, rec_aggregateEvery = aggregateEvery, rec_sampleSequences = [],
      rec_aggregates = [], rec_emitted = []\<rparr>"

text \<open>Whether or not the sink throws, the call returns and the observation was handed over.\<close>

definition safeEmit :: "observation \<Rightarrow> recorder \<Rightarrow> recorder" where
  "safeEmit ob rc = rc\<lparr>rec_emitted := rec_emitted rc @ [ob]\<rparr>"

definition aggregate_observation :: "aggregate \<Rightarrow> observation" where
  "aggregate_observation ag =
     (observe ''graphql_cache.aggregate'' (ob_operationCategory (ag_template ag)))
       \<lparr>ob_aggregatedEventName := Some (ob_name (ag_template ag)),
        ob_outcome := ob_outcome (ag_template ag), ob_errorCode := ob_errorCode (ag_template ag),
        ob_count := Some (Finite (ag_count ag)),
        ob_durationMs := (if ag_count ag > 0 then Some (Finite (ag_totalDurationMs ag / ag_count ag)) else None),
        ob_sampleRate := Some (Finite 1)\<rparr>"

definition flushOne :: "aggregate_key \<Rightarrow> aggregate \<Rightarrow> recorder \<Rightarrow> recorder" where
  "flushOne key ag rc =
     safeEmit (aggregate_observation ag) (rc\<lparr>rec_aggregates := AList.delete key (rec_aggregates rc)\<rparr>)"

fun flush_all :: "(aggregate_key, aggregate) jsmap \<Rightarrow> recorder \<Rightarrow> recorder" where
  "flush_all [] rc = rc"
| "flush_all ((key, ag) # rest) rc = flush_all rest (flushOne key ag rc)"

definition flush :: "recorder \<Rightarrow> recorder" where
  "flush rc = flush_all (rec_aggregates rc) rc"

definition flushMatchingSuccesses :: "observation \<Rightarrow> recorder \<Rightarrow> recorder" where
  "flushMatchingSuccesses err rc =
     flush_all (filter (\<lambda>(key, ag). ob_name (ag_template ag) = ob_name err) (rec_aggregates rc)) rc"

definition or_string :: "string option \<Rightarrow> string \<Rightarrow> string" where
  "or_string v d = (case v of Some s \<Rightarrow> s | None \<Rightarrow> d)"

fun or_number :: "js_number option \<Rightarrow> rat \<Rightarrow> rat" where
  "or_number (Some (Finite v)) _ = v"
| "or_number _ d = d"

definition key_of :: "observation \<Rightarrow> aggregate_key" where
  "key_of ob = (ob_name ob, ob_operationCategory ob, or_string (ob_outcome ob) ''unknown'',
     or_string (ob_errorCode ob) ''none'')"

definition is_error :: "observation \<Rightarrow> bool" where
  "is_error ob \<longleftrightarrow> ob_outcome ob = Some ''error'' \<or> ob_errorCode ob = Some ''owner-lost''"

definition add_to_aggregate :: "observation \<Rightarrow> recorder \<Rightarrow> recorder" where
  "add_to_aggregate ob rc =
     (let key = key_of ob;
          ag = (case map_of (rec_aggregates rc) key of Some a \<Rightarrow> a
                | None \<Rightarrow> \<lparr>ag_template = ob, ag_count = 0, ag_totalDurationMs = 0\<rparr>);
          weight = or_number (ob_count ob) 1;
          ag' = ag\<lparr>ag_count := ag_count ag + weight,
                   ag_totalDurationMs := ag_totalDurationMs ag + or_number (ob_durationMs ob) 0 * weight\<rparr>;
          rc1 = rc\<lparr>rec_aggregates := AList.update key ag' (rec_aggregates rc)\<rparr>
      in if ag_count ag' \<ge> rec_aggregateEvery rc then flushOne key ag' rc1 else rc1)"

definition sample :: "observation \<Rightarrow> recorder \<Rightarrow> recorder" where
  "sample ob rc =
     (let key = key_of ob;
          sampleSequence = (case map_of (rec_sampleSequences rc) key of Some n \<Rightarrow> n | None \<Rightarrow> 0) + 1;
          rc1 = rc\<lparr>rec_sampleSequences := AList.update key sampleSequence (rec_sampleSequences rc)\<rparr>
      in if rec_sampleRate rc \<le> 1 \<or> sampleSequence mod rec_sampleRate rc = 0
         then safeEmit (ob\<lparr>ob_sampleRate := Some (Finite (of_nat (rec_sampleRate rc)))\<rparr>) rc1 else rc1)"

definition record_observation :: "observation \<Rightarrow> recorder \<Rightarrow> recorder" where
  "record_observation input rc =
     (case sanitizeObservation input of
        None \<Rightarrow> rc
      | Some ob \<Rightarrow>
          if ob_name ob \<notin> set HIGH_VOLUME_NAMES then safeEmit ob rc
          else if is_error ob
          then safeEmit (ob\<lparr>ob_sampleRate := Some (Finite 1)\<rparr>) (flushMatchingSuccesses ob rc)
          else sample ob (add_to_aggregate ob rc))"

section \<open>The reporter\<close>

record telemetry_context =
  tc_browserFamily :: string
  tc_browserVersion :: string
  tc_appVersion :: string
  tc_backend :: string
  tc_rolloutCohort :: string

definition digit :: "char \<Rightarrow> bool" where
  "digit c \<longleftrightarrow> (let n = of_char c :: nat in 48 \<le> n \<and> n \<le> 57)"

text \<open>\<open>/^\d{1,3}$/\<close> and \<open>/^\d+\.\d+$/\<close>\<close>

definition short_version :: "string \<Rightarrow> bool" where
  "short_version s \<longleftrightarrow> 1 \<le> length s \<and> length s \<le> 3 \<and> list_all digit s"

definition release_version :: "string \<Rightarrow> bool" where
  "release_version s \<longleftrightarrow>
     takeWhile digit s \<noteq> [] \<and>
     (case dropWhile digit s of [] \<Rightarrow> False
      | c # rest \<Rightarrow> c = CHR ''.'' \<and> rest \<noteq> [] \<and> list_all digit rest)"

definition new_reporter :: "telemetry_context \<Rightarrow> telemetry_context" where
  "new_reporter ctx =
     \<lparr>tc_browserFamily = (if tc_browserFamily ctx \<in> set [''chromium'', ''firefox'', ''safari'', ''other'']
        then tc_browserFamily ctx else ''other''),
      tc_browserVersion = (if short_version (tc_browserVersion ctx) then tc_browserVersion ctx else ''unknown''),
      tc_appVersion = (if release_version (tc_appVersion ctx) then take 16 (tc_appVersion ctx) else ''unknown''),
      tc_backend = ''turso-wasm-opfs'',
      tc_rolloutCohort = (if tc_rolloutCohort ctx \<in> set CACHE_ROLLOUT_COHORTS
        then tc_rolloutCohort ctx else ''unknown'')\<rparr>"

definition reporter_emit :: "telemetry_context \<Rightarrow> observation \<Rightarrow> (telemetry_context \<times> observation) option" where
  "reporter_emit ctx input = map_option (Pair ctx) (sanitizeObservation input)"

section \<open>Classification\<close>

text \<open>\<open>match(request.kind)\<close>; \<open>exhaustive\<close> throws on another kind.\<close>

definition operationCategoryForRequest :: "string \<Rightarrow> string js" where
  "operationCategoryForRequest kind =
     (if kind = ''init'' then Ret ''initialization''
      else if kind \<in> set [''read'', ''current-revision'', ''read-records-by-keys'', ''search'', ''entity-filter'']
      then Ret ''read''
      else if kind \<in> set [''write'', ''hydrate''] then Ret ''write''
      else if kind \<in> set [''enqueue-optimistic-mutation'', ''claim-next-mutation'', ''defer-optimistic-write'',
        ''commit-optimistic-write'', ''rollback-optimistic-write''] then Ret ''transaction''
      else if kind \<in> set [''inspect-query'', ''inspect-query-variants''] then Ret ''inspection''
      else if kind \<in> set [''invalidate'', ''delete-records''] then Ret ''invalidation''
      else if kind \<in> set [''teardown'', ''clear''] then Ret ''lifecycle''
      else Throw ''Pattern matching error'')"

definition isStorageTransactionRequest :: "string \<Rightarrow> bool" where
  "isStorageTransactionRequest kind \<longleftrightarrow>
     kind \<in> set [''write'', ''hydrate'', ''enqueue-optimistic-mutation'', ''claim-next-mutation'',
       ''defer-optimistic-write'', ''commit-optimistic-write'', ''rollback-optimistic-write'',
       ''invalidate'', ''delete-records'', ''clear'']"

text \<open>\<open>toLowerCase\<close> on code points below 256\<close>

definition lower_char :: "char \<Rightarrow> char" where
  "lower_char c = (let n = of_char c :: nat
     in if (65 \<le> n \<and> n \<le> 90) \<or> (192 \<le> n \<and> n \<le> 222 \<and> n \<noteq> 215) then char_of (n + 32) else c)"

definition lower_case :: "string \<Rightarrow> string" where
  "lower_case s = map lower_char s"

text \<open>\<open>s.includes(part)\<close>\<close>

fun str_includes :: "string \<Rightarrow> string \<Rightarrow> bool" where
  "str_includes [] part = (part = [])"
| "str_includes (c # s) part = (take (length part) (c # s) = part \<or> str_includes s part)"

definition word_char :: "char \<Rightarrow> bool" where
  "word_char c \<longleftrightarrow> digit c \<or> (let n = of_char c :: nat in (65 \<le> n \<and> n \<le> 90) \<or> (97 \<le> n \<and> n \<le> 122)) \<or> c = CHR ''_''"

text \<open>\<open>/\bfull\b/\<close>: the word between two places where a word starts and ends\<close>

fun has_word :: "bool \<Rightarrow> string \<Rightarrow> string \<Rightarrow> bool" where
  "has_word inside [] w = False"
| "has_word inside (c # s) w =
     (\<not> inside \<and> take (length w) (c # s) = w \<and>
        (case drop (length w) (c # s) of [] \<Rightarrow> True | d # _ \<Rightarrow> \<not> word_char d) \<or>
      has_word (word_char c) s w)"

datatype thrown_value = ErrorObject string | StringValue string | OtherValue

fun error_text :: "thrown_value \<Rightarrow> string" where
  "error_text (ErrorObject m) = lower_case m"
| "error_text (StringValue s) = lower_case s"
| "error_text OtherValue = ''''"

definition classifyCacheError :: "thrown_value \<Rightarrow> string" where
  "classifyCacheError err =
     (let message = error_text err
      in if str_includes message ''timeout'' then ''timeout''
         else if str_includes message ''quota'' \<or> has_word False message ''full'' then ''opfs-quota''
         else if str_includes message ''opfs'' \<and> str_includes message ''unavailable'' then ''opfs-unavailable''
         else if str_includes message ''opfs'' \<or> str_includes message ''wal'' then ''opfs-io''
         else if str_includes message ''lock'' then ''lock''
         else if str_includes message ''owner epoch'' \<or> str_includes message ''owner-lost'' then ''owner-lost''
         else if str_includes message ''protocol'' \<or> str_includes message ''envelope'' then ''protocol''
         else if str_includes message ''transport'' \<or> str_includes message ''messageport'' then ''transport''
         else if str_includes message ''schema'' \<or> str_includes message ''namespace'' then ''schema''
         else if str_includes message ''integrity'' \<or> str_includes message ''corrupt'' then ''integrity''
         else if str_includes message ''reset required'' then ''storage-reset''
         else if str_includes message ''wasm'' then ''wasm-instantiate''
         else if str_includes message ''initializ'' \<or> str_includes message ''open'' then ''initialization''
         else ''unknown'')"

definition resetReasonForError :: "thrown_value \<Rightarrow> string" where
  "resetReasonForError err =
     (let code = classifyCacheError err
      in if code = ''opfs-quota'' then ''quota-failure''
         else if code = ''integrity'' then ''integrity-failure''
         else if code = ''schema'' then ''namespace-mismatch''
         else if code = ''owner-lost'' then ''abrupt-owner-loss''
         else ''storage-reset-required'')"

end
