(* ===== verification/TelemetryClaims.thy ===== *)
theory TelemetryClaims
  imports CacheTelemetry
begin

text \<open>
  The recorder loses nothing: successes of high volume are counted exactly once in aggregates,
  every error is emitted by itself.
\<close>

section \<open>Accounting\<close>

text \<open>What an observation contributes to the aggregated count of a key.\<close>

definition aggregated_weight :: "aggregate_key \<Rightarrow> observation \<Rightarrow> rat" where
  "aggregated_weight k ob =
     (if ob_name ob = ''graphql_cache.aggregate'' \<and>
         (case ob_aggregatedEventName ob of Some n \<Rightarrow> key_of (ob\<lparr>ob_name := n\<rparr>) = k | None \<Rightarrow> False)
      then or_number (ob_count ob) 0 else 0)"

definition aggregated_total :: "aggregate_key \<Rightarrow> observation list \<Rightarrow> rat" where
  "aggregated_total k obs = sum_list (map (aggregated_weight k) obs)"

definition pending_count :: "aggregate_key \<Rightarrow> recorder \<Rightarrow> rat" where
  "pending_count k rc = (case map_of (rec_aggregates rc) k of Some ag \<Rightarrow> ag_count ag | None \<Rightarrow> 0)"

datatype telemetry_call = RecordCall observation | FlushCall

fun telemetry_step :: "telemetry_call \<Rightarrow> recorder \<Rightarrow> recorder" where
  "telemetry_step (RecordCall ob) rc = record_observation ob rc"
| "telemetry_step FlushCall rc = flush rc"

text \<open>The weight that a call owes to the key, and the errors it has to show.\<close>

fun owed_weight :: "aggregate_key \<Rightarrow> telemetry_call \<Rightarrow> rat" where
  "owed_weight k (RecordCall input) =
     (case sanitizeObservation input of
        None \<Rightarrow> 0
      | Some ob \<Rightarrow>
          if ob_name ob \<notin> set HIGH_VOLUME_NAMES then aggregated_weight k ob
          else if is_error ob \<or> key_of ob \<noteq> k then 0 else or_number (ob_count ob) 1)"
| "owed_weight k FlushCall = 0"

fun owed_errors :: "telemetry_call \<Rightarrow> observation list" where
  "owed_errors (RecordCall input) =
     (case sanitizeObservation input of
        None \<Rightarrow> []
      | Some ob \<Rightarrow>
          if \<not> is_error ob then []
          else if ob_name ob \<in> set HIGH_VOLUME_NAMES then [ob\<lparr>ob_sampleRate := Some (Finite 1)\<rparr>] else [ob])"
| "owed_errors FlushCall = []"

section \<open>The recorder's invariant\<close>

definition aggregate_ok :: "rat \<Rightarrow> aggregate_key \<times> aggregate \<Rightarrow> bool" where
  "aggregate_ok every p \<longleftrightarrow>
     fst p = key_of (ag_template (snd p)) \<and> ob_name (ag_template (snd p)) \<in> set HIGH_VOLUME_NAMES \<and>
     \<not> is_error (ag_template (snd p)) \<and> ag_count (snd p) < every"

definition recorder_inv :: "recorder \<Rightarrow> bool" where
  "recorder_inv rc \<longleftrightarrow> distinct (map fst (rec_aggregates rc)) \<and>
     (\<forall>p \<in> set (rec_aggregates rc). aggregate_ok (rec_aggregateEvery rc) p)"

lemma high_volume_not_aggregate: "n \<in> set HIGH_VOLUME_NAMES \<Longrightarrow> n \<noteq> ''graphql_cache.aggregate''"
  by (auto simp: HIGH_VOLUME_NAMES_def)

lemma aggregated_total_simps [simp]:
  "aggregated_total k [] = 0"
  "aggregated_total k (xs @ ys) = aggregated_total k xs + aggregated_total k ys"
  "aggregated_total k [ob] = aggregated_weight k ob"
  by (simp_all add: aggregated_total_def)

lemma aggregate_observation_facts:
  "aggregated_weight k (aggregate_observation ag) = (if key_of (ag_template ag) = k then ag_count ag else 0)"
  "is_error (aggregate_observation ag) = is_error (ag_template ag)"
  by (auto simp: aggregate_observation_def observe_def aggregated_weight_def key_of_def is_error_def)

lemma sampled_facts [simp]:
  "is_error (ob\<lparr>ob_sampleRate := v\<rparr>) = is_error ob"
  "ob_name ob \<in> set HIGH_VOLUME_NAMES \<Longrightarrow> aggregated_weight k (ob\<lparr>ob_sampleRate := v\<rparr>) = 0"
  by (auto simp: is_error_def aggregated_weight_def HIGH_VOLUME_NAMES_def)

lemma delete_as_filter: "AList.delete k m = filter (\<lambda>p. fst p \<noteq> k) m"
  by (auto simp: AList.delete_eq case_prod_beta intro: filter_cong)

text \<open>Flushing one aggregate moves its count from the pending to the emitted side.\<close>

lemma flushOne_facts:
  assumes "recorder_inv rc" "(key, ag) \<in> set (rec_aggregates rc)"
  shows "recorder_inv (flushOne key ag rc)"
    and "aggregated_total k (rec_emitted (flushOne key ag rc)) + pending_count k (flushOne key ag rc) =
      aggregated_total k (rec_emitted rc) + pending_count k rc"
    and "filter is_error (rec_emitted (flushOne key ag rc)) = filter is_error (rec_emitted rc)"
proof -
  have ag: "key = key_of (ag_template ag)" "\<not> is_error (ag_template ag)" "map_of (rec_aggregates rc) key = Some ag"
    using assms by (auto simp: recorder_inv_def aggregate_ok_def)
  show "recorder_inv (flushOne key ag rc)"
    using assms(1) by (auto simp: recorder_inv_def flushOne_def safeEmit_def set_delete distinct_delete)
  show "aggregated_total k (rec_emitted (flushOne key ag rc)) + pending_count k (flushOne key ag rc) =
      aggregated_total k (rec_emitted rc) + pending_count k rc"
    using ag by (auto simp: flushOne_def safeEmit_def pending_count_def aggregate_observation_facts)
  show "filter is_error (rec_emitted (flushOne key ag rc)) = filter is_error (rec_emitted rc)"
    using ag by (simp add: flushOne_def safeEmit_def aggregate_observation_facts)
qed

text \<open>Flushing does not change the books: the relation between two states of the recorder.\<close>

definition books_kept :: "aggregate_key \<Rightarrow> recorder \<Rightarrow> recorder \<Rightarrow> bool" where
  "books_kept k rc rc' \<longleftrightarrow> recorder_inv rc' \<and> rec_aggregateEvery rc' = rec_aggregateEvery rc \<and>
     rec_sampleRate rc' = rec_sampleRate rc \<and>
     aggregated_total k (rec_emitted rc') + pending_count k rc' =
       aggregated_total k (rec_emitted rc) + pending_count k rc \<and>
     filter is_error (rec_emitted rc') = filter is_error (rec_emitted rc)"

lemma books_kept_trans [trans]: "books_kept k a b \<Longrightarrow> books_kept k b c \<Longrightarrow> books_kept k a c"
  by (simp add: books_kept_def)

lemma flushOne_books: "recorder_inv rc \<Longrightarrow> (key, ag) \<in> set (rec_aggregates rc) \<Longrightarrow> books_kept k rc (flushOne key ag rc)"
  by (simp only: books_kept_def flushOne_facts) (simp add: flushOne_def safeEmit_def)

lemma flush_all_books:
  assumes "recorder_inv rc" "set ags \<subseteq> set (rec_aggregates rc)" "distinct (map fst ags)"
  shows "books_kept k rc (flush_all ags rc)"
    and "rec_aggregates (flush_all ags rc) = filter (\<lambda>p. fst p \<notin> fst ` set ags) (rec_aggregates rc)"
proof -
  have "books_kept k rc (flush_all ags rc) \<and>
      rec_aggregates (flush_all ags rc) = filter (\<lambda>p. fst p \<notin> fst ` set ags) (rec_aggregates rc)"
    using assms
  proof (induction ags arbitrary: rc)
    case (Cons p ags)
    obtain key ag where p: "p = (key, ag)" by fastforce
    let ?rc = "flushOne key ag rc"
    have agg: "rec_aggregates ?rc = filter (\<lambda>p. fst p \<noteq> key) (rec_aggregates rc)"
      by (simp add: flushOne_def safeEmit_def delete_as_filter)
    have "set ags \<subseteq> set (rec_aggregates ?rc)" using Cons.prems p unfolding agg by force
    then have IH: "books_kept k ?rc (flush_all ags ?rc)"
      "rec_aggregates (flush_all ags ?rc) = filter (\<lambda>p. fst p \<notin> fst ` set ags) (rec_aggregates ?rc)"
      using Cons.IH [of ?rc] Cons.prems p flushOne_facts(1) [of rc key ag] by auto
    have "books_kept k rc ?rc" using Cons.prems p by (intro flushOne_books) auto
    also note IH(1)
    finally show ?case using IH(2) p
      by (simp add: agg)
  qed (simp add: books_kept_def)
  then show "books_kept k rc (flush_all ags rc)"
    "rec_aggregates (flush_all ags rc) = filter (\<lambda>p. fst p \<notin> fst ` set ags) (rec_aggregates rc)"
    by simp_all
qed

lemma flush_books:
  assumes "recorder_inv rc"
  shows "books_kept k rc (flush rc)" and "rec_aggregates (flush rc) = []"
  using flush_all_books [OF assms, of "rec_aggregates rc"] assms
  by (auto simp: flush_def recorder_inv_def filter_empty_conv)

lemma flushMatching_books:
  assumes "recorder_inv rc"
  shows "books_kept k rc (flushMatchingSuccesses err rc)"
  unfolding flushMatchingSuccesses_def using assms
  by (intro flush_all_books) (auto simp: recorder_inv_def intro: distinct_keys_filter)

text \<open>Adding a success to its aggregate adds its weight to the books of its key.\<close>

lemma add_to_aggregate_facts:
  assumes inv: "recorder_inv rc" and ob: "ob_name ob \<in> set HIGH_VOLUME_NAMES" "\<not> is_error ob"
  defines "rc' \<equiv> add_to_aggregate ob rc"
  shows "recorder_inv rc'" and "rec_aggregateEvery rc' = rec_aggregateEvery rc"
    and "rec_sampleRate rc' = rec_sampleRate rc"
    and "aggregated_total k (rec_emitted rc') + pending_count k rc' =
      aggregated_total k (rec_emitted rc) + pending_count k rc +
      (if key_of ob = k then or_number (ob_count ob) 1 else 0)"
    and "filter is_error (rec_emitted rc') = filter is_error (rec_emitted rc)"
proof -
  let ?key = "key_of ob"
  define ag where "ag = (case map_of (rec_aggregates rc) ?key of Some a \<Rightarrow> a
     | None \<Rightarrow> \<lparr>ag_template = ob, ag_count = 0, ag_totalDurationMs = 0\<rparr>)"
  define ag' where "ag' = ag\<lparr>ag_count := ag_count ag + or_number (ob_count ob) 1,
     ag_totalDurationMs := ag_totalDurationMs ag + or_number (ob_durationMs ob) 0 * or_number (ob_count ob) 1\<rparr>"
  define rc1 where "rc1 = rc\<lparr>rec_aggregates := AList.update ?key ag' (rec_aggregates rc)\<rparr>"
  have tpl: "?key = key_of (ag_template ag)" "ob_name (ag_template ag) \<in> set HIGH_VOLUME_NAMES"
    "\<not> is_error (ag_template ag)"
    using inv ob by (auto simp: ag_def recorder_inv_def aggregate_ok_def dest!: map_of_SomeD split: option.splits)
  have cnt: "pending_count ?key rc = ag_count ag" by (auto simp: pending_count_def ag_def split: option.splits)
  have rc': "rc' = (if ag_count ag' \<ge> rec_aggregateEvery rc then flushOne ?key ag' rc1 else rc1)"
    by (simp add: rc'_def add_to_aggregate_def Let_def ag_def ag'_def rc1_def)
  have mem: "p = (?key, ag') \<or> p \<in> set (rec_aggregates rc)" if "p \<in> set (rec_aggregates rc1)" for p
    using that set_update_subset [of ?key ag' "rec_aggregates rc"] by (auto simp: rc1_def)
  have dist: "distinct (map fst (rec_aggregates rc1))" using inv by (simp add: rc1_def recorder_inv_def distinct_update)
  have pend: "pending_count k rc1 = pending_count k rc + (if ?key = k then or_number (ob_count ob) 1 else 0)"
    using cnt by (auto simp: rc1_def pending_count_def ag'_def)
  have em: "rec_emitted rc1 = rec_emitted rc" by (simp add: rc1_def)
  have fl: "rec_aggregates (flushOne ?key ag' rc1) = filter (\<lambda>p. fst p \<noteq> ?key) (rec_aggregates rc1)"
    "rec_emitted (flushOne ?key ag' rc1) = rec_emitted rc @ [aggregate_observation ag']"
    by (simp_all add: flushOne_def safeEmit_def delete_as_filter rc1_def)
  show "recorder_inv rc'"
  proof (cases "ag_count ag' \<ge> rec_aggregateEvery rc")
    case True
    have "p \<in> set (rec_aggregates rc)" if "p \<in> set (rec_aggregates rc')" for p
      using that mem [of p] True by (auto simp: rc' fl)
    moreover have "distinct (map fst (rec_aggregates rc'))" using dist True by (simp add: rc' fl distinct_keys_filter)
    ultimately show ?thesis using inv True by (simp add: recorder_inv_def rc' flushOne_def safeEmit_def rc1_def)
  next
    case False
    then have "aggregate_ok (rec_aggregateEvery rc) (?key, ag')" using tpl by (simp add: aggregate_ok_def ag'_def)
    then have "aggregate_ok (rec_aggregateEvery rc) p" if "p \<in> set (rec_aggregates rc1)" for p
      using mem [OF that] inv by (metis recorder_inv_def)
    moreover have "rec_aggregateEvery rc1 = rec_aggregateEvery rc" by (simp add: rc1_def)
    ultimately show ?thesis using dist False by (simp add: recorder_inv_def rc')
  qed
  show "aggregated_total k (rec_emitted rc') + pending_count k rc' =
      aggregated_total k (rec_emitted rc) + pending_count k rc +
      (if ?key = k then or_number (ob_count ob) 1 else 0)"
  proof (cases "ag_count ag' \<ge> rec_aggregateEvery rc")
    case True
    have "pending_count k (flushOne ?key ag' rc1) = (if ?key = k then 0 else pending_count k rc1)"
      by (simp add: pending_count_def flushOne_def safeEmit_def)
    moreover have "aggregated_weight k (aggregate_observation ag') = (if ?key = k then ag_count ag' else 0)"
      using tpl by (simp add: aggregate_observation_facts ag'_def)
    moreover have "ag_count ag' = ag_count ag + or_number (ob_count ob) 1" by (simp add: ag'_def)
    ultimately show ?thesis using True pend cnt by (auto simp: rc' fl)
  next
    case False
    then show ?thesis using pend em by (simp add: rc')
  qed
  show "filter is_error (rec_emitted rc') = filter is_error (rec_emitted rc)"
  proof -
    have "ag_template ag' = ag_template ag" by (simp add: ag'_def)
    then show ?thesis using tpl(3) by (auto simp: rc' fl(2) em aggregate_observation_facts)
  qed
  show "rec_aggregateEvery rc' = rec_aggregateEvery rc" "rec_sampleRate rc' = rec_sampleRate rc"
    by (simp_all add: rc' rc1_def flushOne_def safeEmit_def)
qed

lemma sample_facts:
  assumes "ob_name ob \<in> set HIGH_VOLUME_NAMES" "\<not> is_error ob"
  shows "rec_aggregates (sample ob rc) = rec_aggregates rc"
    and "rec_aggregateEvery (sample ob rc) = rec_aggregateEvery rc"
    and "aggregated_total k (rec_emitted (sample ob rc)) = aggregated_total k (rec_emitted rc)"
    and "filter is_error (rec_emitted (sample ob rc)) = filter is_error (rec_emitted rc)"
  using assms by (simp_all add: sample_def Let_def safeEmit_def)

lemma recorder_inv_cong:
  "rec_aggregates rc' = rec_aggregates rc \<Longrightarrow> rec_aggregateEvery rc' = rec_aggregateEvery rc \<Longrightarrow>
   recorder_inv rc' = recorder_inv rc"
  by (simp add: recorder_inv_def)

lemma safeEmit_facts:
  "rec_aggregates (safeEmit ob rc) = rec_aggregates rc"
  "rec_aggregateEvery (safeEmit ob rc) = rec_aggregateEvery rc"
  "rec_emitted (safeEmit ob rc) = rec_emitted rc @ [ob]"
  by (simp_all add: safeEmit_def)

lemma telemetry_step_books:
  assumes inv: "recorder_inv rc"
  shows "recorder_inv (telemetry_step call rc) \<and>
    rec_aggregateEvery (telemetry_step call rc) = rec_aggregateEvery rc \<and>
    aggregated_total k (rec_emitted (telemetry_step call rc)) + pending_count k (telemetry_step call rc) =
      aggregated_total k (rec_emitted rc) + pending_count k rc + owed_weight k call \<and>
    filter is_error (rec_emitted (telemetry_step call rc)) = filter is_error (rec_emitted rc) @ owed_errors call"
proof (cases call)
  case FlushCall
  then show ?thesis using flush_books(1) [OF inv, of k] by (simp add: books_kept_def)
next
  case (RecordCall input)
  show ?thesis
  proof (cases "sanitizeObservation input")
    case None
    then show ?thesis using inv RecordCall by (simp add: record_observation_def)
  next
    case (Some ob)
    consider (plain) "ob_name ob \<notin> set HIGH_VOLUME_NAMES"
      | (failed) "ob_name ob \<in> set HIGH_VOLUME_NAMES" "is_error ob"
      | (success) "ob_name ob \<in> set HIGH_VOLUME_NAMES" "\<not> is_error ob" by blast
    then show ?thesis
    proof cases
      case plain
      then show ?thesis using inv RecordCall Some
        by (simp add: record_observation_def safeEmit_facts recorder_inv_def pending_count_def)
    next
      case failed
      let ?rc = "flushMatchingSuccesses ob rc"
      have "recorder_inv (safeEmit (ob\<lparr>ob_sampleRate := Some (Finite 1)\<rparr>) ?rc) = recorder_inv ?rc"
        by (rule recorder_inv_cong) (simp_all add: safeEmit_facts)
      then show ?thesis using failed flushMatching_books [OF inv, of k ob] RecordCall Some
        by (simp add: record_observation_def safeEmit_facts pending_count_def books_kept_def)
    next
      case success
      note add = add_to_aggregate_facts [OF inv success]
      note smp = sample_facts [OF success, where rc = "add_to_aggregate ob rc"]
      show ?thesis using success RecordCall Some add(4,5)
        recorder_inv_cong [OF smp(1,2)] add(1,2)
        by (simp add: record_observation_def smp pending_count_def)
    qed
  qed
qed

lemma telemetry_run_books:
  defines "run \<equiv> (\<lambda>calls rc. fold telemetry_step calls rc)"
  assumes "recorder_inv rc"
  shows "recorder_inv (run calls rc) \<and> rec_aggregateEvery (run calls rc) = rec_aggregateEvery rc \<and>
    aggregated_total k (rec_emitted (run calls rc)) + pending_count k (run calls rc) =
      aggregated_total k (rec_emitted rc) + pending_count k rc + sum_list (map (owed_weight k) calls) \<and>
    filter is_error (rec_emitted (run calls rc)) = filter is_error (rec_emitted rc) @ concat (map owed_errors calls)"
  using assms(2) unfolding run_def
proof (induction calls arbitrary: rc)
  case (Cons call calls)
  note step = telemetry_step_books [OF Cons.prems, of call k]
  from Cons.IH [OF conjunct1 [OF step]] step show ?case by auto
qed simp

section \<open>Claims\<close>

text \<open>
  C14: the telemetry recorder loses nothing. After any calls of \<open>record\<close> and \<open>flush\<close>, and for every
  key of name, category, outcome and error code: the counts of the aggregates emitted so far and
  the count still pending add up to the weights of the successes recorded (and of the aggregates
  relayed); less than one full aggregate is pending; the errors emitted are exactly the errors
  recorded, in order; and a \<open>flush\<close> leaves nothing pending.
\<close>

theorem telemetry_loses_nothing:
  fixes sampleRate :: nat and calls :: "telemetry_call list"
  assumes "0 < aggregateEvery"
  defines "rc \<equiv> fold telemetry_step calls (new_recorder sampleRate aggregateEvery)"
  shows "aggregated_total k (rec_emitted rc) + pending_count k rc = sum_list (map (owed_weight k) calls) \<and>
    pending_count k rc < aggregateEvery \<and>
    filter is_error (rec_emitted rc) = concat (map owed_errors calls) \<and>
    aggregated_total k (rec_emitted (flush rc)) = sum_list (map (owed_weight k) calls)"
proof -
  let ?rc0 = "new_recorder sampleRate aggregateEvery"
  have start: "recorder_inv ?rc0" "rec_emitted ?rc0 = []" "pending_count k ?rc0 = 0"
    "rec_aggregateEvery ?rc0 = aggregateEvery"
    by (simp_all add: new_recorder_def recorder_inv_def pending_count_def)
  note books = telemetry_run_books [OF start(1), of calls k, folded rc_def]
  then have "pending_count k rc < aggregateEvery"
    using assms(1) start(4)
    by (auto simp: pending_count_def recorder_inv_def aggregate_ok_def dest!: map_of_SomeD split: option.splits)
  moreover have "pending_count k (flush rc) = 0"
    using flush_books(2) [of rc] books by (simp add: pending_count_def)
  ultimately show ?thesis using books start flush_books(1) [of rc k] by (simp add: books_kept_def)
qed

theorem telemetry_loses_nothing_witness:
  "aggregated_total (''graphql_cache.read'', ''read'', ''hit'', ''none'') (rec_emitted (flush
     (fold telemetry_step
       (replicate 3 (RecordCall ((observe ''graphql_cache.read'' ''read'')\<lparr>ob_outcome := Some ''hit''\<rparr>)) @
        [RecordCall ((observe ''graphql_cache.read'' ''read'')\<lparr>ob_outcome := Some ''error''\<rparr>)]) (new_recorder 2 2)))) = 3"
proof -
  let ?k = "(''graphql_cache.read'', ''read'', ''hit'', ''none'')"
  let ?calls = "replicate 3 (RecordCall ((observe ''graphql_cache.read'' ''read'')\<lparr>ob_outcome := Some ''hit''\<rparr>)) @
     [RecordCall ((observe ''graphql_cache.read'' ''read'')\<lparr>ob_outcome := Some ''error''\<rparr>)]"
  have "sum_list (map (owed_weight ?k) ?calls) = 3" by code_simp
  then show ?thesis using telemetry_loses_nothing [of 2 ?k ?calls 2] by simp
qed

end
