(* ===== verification/CoordinatorRouter.thy ===== *)
theory CoordinatorRouter
  imports CacheTelemetry ProtocolClaims
begin

text \<open>
  The shared worker's adapter around the coordinator core (\<open>worker/coordinator-router.ts\<close>): it
  validates the messages of tabs and engines, calls the core, and carries out the core's actions on
  message ports, timers and the direct channel to the owner's engine.

  \<^item> Ports of tabs are numbers. Connections, pending registrations and engine routes, which the code
    compares by identity, carry the number they were created with.
  \<^item> \<open>rt_timers\<close> and \<open>rt_microtasks\<close> are the platform's pending callbacks; \<open>rt_effects\<close> lists what the
    router did to the outside, telemetry included, and \<open>rt_calls\<close> the calls of the core with their
    results.
  \<^item> \<open>register\<close> awaits a lock probe: the part before the await leaves a suspended call in \<open>rt_probes\<close>,
    the part after it runs when the probe settles.
  \<^item> The transport to the engine is a library: whether a transport can be created on a port, whether a
    send on it fails, and the delays of its retry schedule are options. \<open>performance.now\<close> is read once
    per task.
  \<^item> A function that may throw returns the state beside the outcome.
\<close>

section \<open>Sequencing\<close>

definition and_then :: "'s \<times> 'a js \<Rightarrow> ('a \<Rightarrow> 's \<Rightarrow> 's \<times> 'b js) \<Rightarrow> 's \<times> 'b js" where
  "and_then m k = (case m of (s, Throw err) \<Rightarrow> (s, Throw err) | (s, Ret a) \<Rightarrow> k a s)"

fun for_each :: "('x \<Rightarrow> 's \<Rightarrow> 's \<times> unit js) \<Rightarrow> 'x list \<Rightarrow> 's \<Rightarrow> 's \<times> unit js" where
  "for_each f [] s = (s, Ret ())"
| "for_each f (x # xs) s = and_then (f x s) (\<lambda>_. for_each f xs)"

definition done_with :: "'s \<Rightarrow> 's \<times> unit js" where
  "done_with s = (s, Ret ())"

section \<open>State\<close>

type_synonym port = nat
type_synonym request_object = "(string \<times> jsvalue) list"
type_synonym router_core = "request_object coordinator_core"
type_synonym router_action = "(request_object, jsvalue, jsvalue) coordinator_action"
type_synonym core_call = "(request_object, jsvalue, jsvalue) core_event \<times> router_action list js"

record tab_connection =
  cn_id :: nat
  cn_port :: port

record engine_route =
  er_id :: nat
  er_tab :: tab_id
  er_epoch :: owner_epoch

record route_timing =
  tm_startedAt :: rat
  tm_epoch :: owner_epoch
  tm_category :: string

datatype timer_callback =
  StartupWatchdog tab_id owner_epoch engine_startup_phase
| HeartbeatInterval owner_epoch
| HeartbeatTimeout tab_id owner_epoch nat
| RecoveryActivate

datatype router_effect =
  StartPort port
| PostTab port coordinator_to_tab
| ClosePort port
| CloseTransferredPort nat
| CloseEnginePort jsvalue
| SendEngine nat coordinator_to_engine
| CloseTransport nat
| ProbeLock nat string
| WatchLock nat string
| CancelWatch nat
| Telemetry observation

record router_options =
  ro_assetLoadTimeoutMs :: nat
  ro_activationTimeoutMs :: nat
  ro_heartbeatIntervalMs :: nat
  ro_heartbeatTimeoutMs :: nat
  ro_recoveryRetryDelayMs :: "nat \<Rightarrow> nat"
  ro_createTransport :: "jsvalue \<Rightarrow> string option"
  ro_send :: "nat \<Rightarrow> coordinator_to_engine \<Rightarrow> string option"

record suspended_registration =
  sr_port :: port
  sr_scope :: string
  sr_tab :: tab_id
  sr_lock :: string
  sr_hot :: "nat option"

record router =
  rt_core :: "router_core option"
  rt_hotCapacity :: "nat option"
  rt_tabs :: "(tab_id, tab_connection) jsmap"
  rt_portTabs :: "(port, tab_id) jsmap"
  rt_pendingRegistrations :: "(port, nat) jsmap"
  rt_cancelledRegistrations :: "nat list"
  rt_engineRoute :: "engine_route option"
  rt_activationTimer :: "nat option"
  rt_heartbeatIntervalTimer :: "nat option"
  rt_heartbeatTimeoutTimer :: "nat option"
  rt_nextHeartbeatId :: nat
  rt_pendingHeartbeat :: "(owner_epoch \<times> nat) option"
  rt_routeStarted :: "(route_id, route_timing) jsmap"
  rt_activationStarted :: "(owner_epoch, rat) jsmap"
  rt_pendingRecoveryResetEpochs :: "(owner_epoch, string) jsmap"
  rt_nextRecoveryResetReason :: "string option"
  rt_resetRequiredEpochs :: "owner_epoch list"
  rt_recoveryAttemptCount :: nat
  rt_recoveryRetryTimer :: "nat option"
  rt_timers :: "(nat, timer_callback \<times> nat) jsmap"
  rt_nextTimer :: nat
  rt_microtasks :: nat
  rt_nextObject :: nat
  rt_probes :: "(nat, suspended_registration) jsmap"
  rt_now :: rat
  rt_effects :: "router_effect list"
  rt_calls :: "core_call list"

definition RECOVERY_RETRY_LIMIT :: nat where
  "RECOVERY_RETRY_LIMIT = 5"

definition new_router :: router where
  "new_router = \<lparr>rt_core = None, rt_hotCapacity = None, rt_tabs = [], rt_portTabs = [],
     rt_pendingRegistrations = [], rt_cancelledRegistrations = [], rt_engineRoute = None,
     rt_activationTimer = None, rt_heartbeatIntervalTimer = None, rt_heartbeatTimeoutTimer = None,
     rt_nextHeartbeatId = 1, rt_pendingHeartbeat = None, rt_routeStarted = [], rt_activationStarted = [],
     rt_pendingRecoveryResetEpochs = [], rt_nextRecoveryResetReason = None, rt_resetRequiredEpochs = [],
     rt_recoveryAttemptCount = 0, rt_recoveryRetryTimer = None, rt_timers = [], rt_nextTimer = 1,
     rt_microtasks = 0, rt_nextObject = 1, rt_probes = [], rt_now = 0, rt_effects = [], rt_calls = []\<rparr>"

definition core_state :: "router \<Rightarrow> coordinator_state option" where
  "core_state r = map_option stateValue (rt_core r)"

text \<open>\<open>core.method(...)\<close> on the core of the router\<close>

definition core_call :: "(request_object, jsvalue, jsvalue) core_event \<Rightarrow> router \<Rightarrow> router \<times> router_action list js" where
  "core_call ev r =
     (case rt_core r of
        None \<Rightarrow> (r, Ret [])
      | Some c \<Rightarrow> (case core_step ev c of (c', res) \<Rightarrow>
          (r\<lparr>rt_core := Some c', rt_calls := rt_calls r @ [(ev, res)]\<rparr>, res)))"

definition emit :: "router_effect \<Rightarrow> router \<Rightarrow> router" where
  "emit ef r = r\<lparr>rt_effects := rt_effects r @ [ef]\<rparr>"

section \<open>Telemetry\<close>

text \<open>\<open>this.telemetry.record\<close>, which never throws\<close>

definition tell :: "observation \<Rightarrow> router \<Rightarrow> router" where
  "tell ob r = emit (Telemetry ob) r"

definition owner_event :: "string \<Rightarrow> string option \<Rightarrow> observation" where
  "owner_event result ev =
     (observe ''graphql_cache.owner'' ''lifecycle'')\<lparr>ob_outcome := Some result, ob_ownerEvent := ev\<rparr>"

fun resetReasonForOpenOutcome :: "engine_open_outcome \<Rightarrow> string" where
  "resetReasonForOpenOutcome ResetIncompatible = ''namespace-mismatch''"
| "resetReasonForOpenOutcome ResetCorrupt = ''integrity-failure''"
| "resetReasonForOpenOutcome ResetStorageUncertain = ''storage-reset-required''"
| "resetReasonForOpenOutcome OutcomeOpenedExisting = ''unknown''"
| "resetReasonForOpenOutcome OutcomeOpenedNew = ''unknown''"

definition recordStorageResetRequired :: "owner_epoch \<Rightarrow> string \<Rightarrow> engine_open_outcome option \<Rightarrow> router \<Rightarrow> router" where
  "recordStorageResetRequired e resetReason openOutcome r =
     (if e \<in> set (rt_resetRequiredEpochs r) then r
      else tell ((observe ''graphql_cache.storage_reset_required'' ''storage'')
          \<lparr>ob_outcome := Some ''error'',
           ob_errorCode := Some (if resetReason = ''namespace-mismatch'' then ''schema''
             else if resetReason = ''integrity-failure'' then ''integrity'' else ''storage-reset''),
           ob_resetReason := Some resetReason,
           ob_openOutcome := map_option outcome_string openOutcome\<rparr>)
        (r\<lparr>rt_resetRequiredEpochs := rt_resetRequiredEpochs r @ [e]\<rparr>))"

definition recordLogicalResetAndWipe :: "string \<Rightarrow> engine_open_outcome \<Rightarrow> bool \<Rightarrow> router \<Rightarrow> router" where
  "recordLogicalResetAndWipe resetReason openOutcome coordinatorWipe r =
     (let fields = (\<lambda>ob. ob\<lparr>ob_outcome := Some ''success'', ob_errorCode := Some ''none'',
            ob_resetReason := Some resetReason, ob_openOutcome := Some (outcome_string openOutcome)\<rparr>)
      in tell ((fields (observe ''graphql_cache.reset_wipe'' ''storage''))
           \<lparr>ob_resetAttempt := (if coordinatorWipe then Some ''wipe-before-open'' else None)\<rparr>)
         (tell (fields (observe ''graphql_cache.logical_reset'' ''storage'')) r))"

definition recordPendingResetFailure ::
    "owner_epoch \<Rightarrow> string \<Rightarrow> activation_failure_code option \<Rightarrow> router \<Rightarrow> string option \<times> router" where
  "recordPendingResetFailure e reason failureCode r =
     (case map_of (rt_pendingRecoveryResetEpochs r) e of
        None \<Rightarrow> (None, r)
      | Some resetReason \<Rightarrow>
          (Some resetReason,
           tell ((observe ''graphql_cache.reset_wipe'' ''storage'')
             \<lparr>ob_outcome := Some ''error'',
              ob_errorCode := Some (if failureCode = Some RecoveryOpenFailed then ''storage-reset''
                else classifyCacheError (StringValue reason)),
              ob_resetReason := Some resetReason, ob_resetAttempt := Some ''wipe-before-open''\<rparr>)
             (r\<lparr>rt_pendingRecoveryResetEpochs := AList.delete e (rt_pendingRecoveryResetEpochs r)\<rparr>)))"

text \<open>\<open>this.now() - startedAt\<close>\<close>

definition elapsed :: "rat \<Rightarrow> router \<Rightarrow> js_number option" where
  "elapsed startedAt r = Some (Finite (rt_now r - startedAt))"

text \<open>The loop over \<open>routeStarted\<close> that reports and forgets the routes of a lost owner.\<close>

definition drop_route_timings :: "owner_epoch \<Rightarrow> router \<Rightarrow> router" where
  "drop_route_timings e r =
     fold (\<lambda>p. tell ((observe ''graphql_cache.coordinator_request'' (tm_category (snd p)))
         \<lparr>ob_outcome := Some ''error'', ob_errorCode := Some ''owner-lost'',
          ob_durationMs := elapsed (tm_startedAt (snd p)) r\<rparr>))
       (filter (\<lambda>p. tm_epoch (snd p) = e) (rt_routeStarted r))
       (r\<lparr>rt_routeStarted := map_reject (\<lambda>p. tm_epoch (snd p) = e) (rt_routeStarted r)\<rparr>)"

section \<open>Ports\<close>

definition postToTab :: "tab_id \<Rightarrow> coordinator_to_tab \<Rightarrow> router \<Rightarrow> router" where
  "postToTab t msg r =
     (case map_of (rt_tabs r) t of None \<Rightarrow> r | Some cn \<Rightarrow> emit (PostTab (cn_port cn) msg) r)"

definition broadcast :: "coordinator_to_tab \<Rightarrow> router \<Rightarrow> router" where
  "broadcast msg r = fold (\<lambda>cn. emit (PostTab (cn_port cn) msg)) (map_values (rt_tabs r)) r"

definition postProtocolError :: "port option \<Rightarrow> string \<Rightarrow> router \<Rightarrow> router" where
  "postProtocolError p err r = (case p of None \<Rightarrow> r | Some q \<Rightarrow> emit (PostTab q (ProtocolErrorEnv err)) r)"

definition postTerminateEngine :: "tab_id \<Rightarrow> owner_epoch \<Rightarrow> string \<Rightarrow> router \<Rightarrow> router" where
  "postTerminateEngine t e reason r = postToTab t (TerminateEngineEnv t e reason) r"

definition postCacheResponse :: "tab_id \<Rightarrow> jsvalue cache_response \<Rightarrow> router \<Rightarrow> router" where
  "postCacheResponse t resp r = postToTab t (CacheMessageEnv (encode_response resp)) r"

definition removeTabConnection :: "tab_id \<Rightarrow> router \<Rightarrow> router" where
  "removeTabConnection t r =
     (case map_of (rt_tabs r) t of
        None \<Rightarrow> r
      | Some cn \<Rightarrow>
          emit (ClosePort (cn_port cn)) (emit (CancelWatch (cn_id cn))
            (r\<lparr>rt_tabs := AList.delete t (rt_tabs r),
               rt_portTabs := AList.delete (cn_port cn) (rt_portTabs r)\<rparr>)))"

section \<open>Timers\<close>

definition setTimer :: "timer_callback \<Rightarrow> nat \<Rightarrow> router \<Rightarrow> nat \<times> router" where
  "setTimer cb ms r =
     (rt_nextTimer r, r\<lparr>rt_timers := rt_timers r @ [(rt_nextTimer r, (cb, ms))], rt_nextTimer := rt_nextTimer r + 1\<rparr>)"

definition clearTimer :: "nat \<Rightarrow> router \<Rightarrow> router" where
  "clearTimer k r = r\<lparr>rt_timers := AList.delete k (rt_timers r)\<rparr>"

definition clearActivationTimer :: "router \<Rightarrow> router" where
  "clearActivationTimer r =
     (case rt_activationTimer r of None \<Rightarrow> r | Some k \<Rightarrow> (clearTimer k r)\<lparr>rt_activationTimer := None\<rparr>)"

definition clear_heartbeat_interval :: "router \<Rightarrow> router" where
  "clear_heartbeat_interval r =
     (case rt_heartbeatIntervalTimer r of None \<Rightarrow> r | Some k \<Rightarrow> (clearTimer k r)\<lparr>rt_heartbeatIntervalTimer := None\<rparr>)"

definition clear_heartbeat_timeout :: "router \<Rightarrow> router" where
  "clear_heartbeat_timeout r =
     (case rt_heartbeatTimeoutTimer r of None \<Rightarrow> r | Some k \<Rightarrow> (clearTimer k r)\<lparr>rt_heartbeatTimeoutTimer := None\<rparr>)"

definition clearHeartbeatTimers :: "router \<Rightarrow> router" where
  "clearHeartbeatTimers r =
     (clear_heartbeat_timeout (clear_heartbeat_interval r))\<lparr>rt_pendingHeartbeat := None\<rparr>"

definition clearEngineWatchdogs :: "router \<Rightarrow> router" where
  "clearEngineWatchdogs r = clearHeartbeatTimers (clearActivationTimer r)"

definition clearRecoveryRetryTimer :: "router \<Rightarrow> router" where
  "clearRecoveryRetryTimer r =
     (case rt_recoveryRetryTimer r of None \<Rightarrow> r | Some k \<Rightarrow> (clearTimer k r)\<lparr>rt_recoveryRetryTimer := None\<rparr>)"

definition resetRecoveryRetries :: "router \<Rightarrow> router" where
  "resetRecoveryRetries r = clearRecoveryRetryTimer (r\<lparr>rt_recoveryAttemptCount := 0\<rparr>)"

definition startupProgress :: "router_options \<Rightarrow> router \<Rightarrow> coordinator_to_tab option" where
  "startupProgress opts r =
     (case core_state r of
        Some (Activating t e act ph) \<Rightarrow> Some (EngineStartupEnv e ph act
          (if ph = LoadingAssets then ro_assetLoadTimeoutMs opts else ro_activationTimeoutMs opts))
      | _ \<Rightarrow> None)"

definition armStartupWatchdog :: "router_options \<Rightarrow> tab_id \<Rightarrow> owner_epoch \<Rightarrow> router \<Rightarrow> router" where
  "armStartupWatchdog opts t e r =
     (let r1 = clearActivationTimer r
      in case startupProgress opts r1 of
           Some (EngineStartupEnv pe ph act ms) \<Rightarrow>
             (case setTimer (StartupWatchdog t e ph) ms (broadcast (EngineStartupEnv pe ph act ms) r1) of
                (k, r2) \<Rightarrow> r2\<lparr>rt_activationTimer := Some k\<rparr>)
         | _ \<Rightarrow> r1)"

definition scheduleHeartbeat :: "router_options \<Rightarrow> owner_epoch \<Rightarrow> router \<Rightarrow> router" where
  "scheduleHeartbeat opts e r =
     (case setTimer (HeartbeatInterval e) (ro_heartbeatIntervalMs opts) (clearHeartbeatTimers r) of
        (k, r1) \<Rightarrow> r1\<lparr>rt_heartbeatIntervalTimer := Some k\<rparr>)"

definition acceptHeartbeat :: "router_options \<Rightarrow> owner_epoch \<Rightarrow> nat \<Rightarrow> router \<Rightarrow> router" where
  "acceptHeartbeat opts e hb r =
     (if rt_pendingHeartbeat r \<noteq> Some (e, hb) then r
      else scheduleHeartbeat opts e ((clear_heartbeat_timeout r)\<lparr>rt_pendingHeartbeat := None\<rparr>))"

section \<open>Owner loss, recovery and the core's actions\<close>

text \<open>
  \<open>applyActions\<close>, \<open>failOwner\<close> and \<open>scheduleResetActivation\<close> call each other. Each is written over the
  functions it calls; \<open>apply_n\<close> ties the knot to a depth, and \<open>applyActions\<close> is depth three, which
  \<open>RouterDepth\<close> shows to be enough: it satisfies the recursion equation of the source.
\<close>

type_synonym apply_fn = "router_action list \<Rightarrow> router \<Rightarrow> router \<times> unit js"
type_synonym fail_fn =
  "tab_id \<Rightarrow> owner_epoch \<Rightarrow> string \<Rightarrow> engine_fatal_code option \<Rightarrow> activation_failure_code option \<Rightarrow>
   router \<Rightarrow> router \<times> unit js"

text \<open>The bookkeeping of \<open>failOwner\<close> between the call of the core and the actions.\<close>

definition note_reset_reason ::
    "owner_epoch \<Rightarrow> string \<Rightarrow> engine_fatal_code option \<Rightarrow> activation_failure_code option \<Rightarrow> router \<Rightarrow> router" where
  "note_reset_reason e reason fatalCode failureCode r =
     (case recordPendingResetFailure e reason failureCode r of
        (pendingReason, r1) \<Rightarrow>
          let resetReason = (case pendingReason of Some s \<Rightarrow> s
                | None \<Rightarrow> if fatalCode = Some StorageResetRequired then ''storage-reset-required'' else ''abrupt-owner-loss'');
              r2 = r1\<lparr>rt_nextRecoveryResetReason := Some resetReason\<rparr>
          in if pendingReason = None then recordStorageResetRequired e resetReason None r2 else r2)"

fun wipes_after_loss :: "coordinator_state option \<Rightarrow> bool" where
  "wipes_after_loss (Some (ResettingAfterLoss _ _ _ WipeBeforeOpen _)) = True"
| "wipes_after_loss _ = False"

definition note_owner_loss ::
    "tab_id \<Rightarrow> owner_epoch \<Rightarrow> string \<Rightarrow> engine_fatal_code option \<Rightarrow> activation_failure_code option \<Rightarrow> router \<Rightarrow> router" where
  "note_owner_loss t e reason fatalCode failureCode r =
     (let r1 = r\<lparr>rt_activationStarted := AList.delete e (rt_activationStarted r)\<rparr>;
          r2 = (if wipes_after_loss (core_state r1) then note_reset_reason e reason fatalCode failureCode r1 else r1);
          r3 = tell ((owner_event ''abrupt'' (Some ''abrupt-loss''))
                 \<lparr>ob_errorCode := Some (if fatalCode = Some StorageResetRequired then ''storage-reset''
                    else classifyCacheError (StringValue reason))\<rparr>) r2;
          r4 = drop_route_timings e r3
      in clearEngineWatchdogs (postTerminateEngine t e reason r4))"

definition failOwner_with :: "apply_fn \<Rightarrow> fail_fn" where
  "failOwner_with apply_acts t e reason fatalCode failureCode r =
     and_then (core_call (EvOwnerLost t e reason) r)
       (\<lambda>acts r1. if acts = [] then done_with r1
          else apply_acts acts (note_owner_loss t e reason fatalCode failureCode r1))"

definition queue_activation :: "router_options \<Rightarrow> router \<Rightarrow> router" where
  "queue_activation opts r =
     (let r1 = r\<lparr>rt_recoveryAttemptCount := rt_recoveryAttemptCount r + 1\<rparr>
      in if rt_recoveryAttemptCount r1 = 1 then r1\<lparr>rt_microtasks := rt_microtasks r1 + 1\<rparr>
         else case setTimer RecoveryActivate (ro_recoveryRetryDelayMs opts (rt_recoveryAttemptCount r1 - 1)) r1 of
                (k, r2) \<Rightarrow> r2\<lparr>rt_recoveryRetryTimer := Some k\<rparr>)"

definition scheduleResetActivation_with :: "router_options \<Rightarrow> apply_fn \<Rightarrow> router \<Rightarrow> router \<times> unit js" where
  "scheduleResetActivation_with opts apply_acts r =
     (case core_state r of
        Some (ResettingAfterLoss pt pe ne act why) \<Rightarrow>
          (if rt_recoveryAttemptCount r \<ge> RECOVERY_RETRY_LIMIT
           then and_then (core_call (EvTerminalFailure (''cache recovery failed after '' @
                    show_nat RECOVERY_RETRY_LIMIT @ '' attempts: '' @ why)) (clearRecoveryRetryTimer r)) apply_acts
           else done_with (queue_activation opts r))
      | _ \<Rightarrow> done_with r)"

definition sendToEngine_with ::
    "router_options \<Rightarrow> fail_fn \<Rightarrow> engine_route \<Rightarrow> coordinator_to_engine \<Rightarrow> router \<Rightarrow> router \<times> bool js" where
  "sendToEngine_with opts fail rt msg r =
     (case ro_send opts (er_id rt) msg of
        None \<Rightarrow> (emit (SendEngine (er_id rt) msg) r, Ret True)
      | Some err \<Rightarrow>
          and_then (fail (er_tab rt) (er_epoch rt) (''engine Effect transport send failed: '' @ err) None None r)
            (\<lambda>_ r1. (r1, Ret False)))"

text \<open>\<open>!route || route.tabId !== tab || route.ownerEpoch !== epoch\<close> fails the owner, else the message is sent.\<close>

definition send_on_route ::
    "router_options \<Rightarrow> fail_fn \<Rightarrow> tab_id \<Rightarrow> owner_epoch \<Rightarrow> string \<Rightarrow> coordinator_to_engine \<Rightarrow> router \<Rightarrow> router \<times> unit js" where
  "send_on_route opts fail t e missing msg r =
     (case rt_engineRoute r of
        None \<Rightarrow> fail t e missing None None r
      | Some rt \<Rightarrow>
          if er_tab rt \<noteq> t \<or> er_epoch rt \<noteq> e then fail t e missing None None r
          else and_then (sendToEngine_with opts fail rt msg r) (\<lambda>_. done_with))"

definition scope_of :: "router \<Rightarrow> string" where
  "scope_of r = (case rt_core r of Some c \<Rightarrow> scope c | None \<Rightarrow> '''')"

definition elect_owner :: "router_options \<Rightarrow> tab_id \<Rightarrow> owner_epoch \<Rightarrow> database_action \<Rightarrow> router \<Rightarrow> router" where
  "elect_owner opts t e act r =
     (let r1 = clearEngineWatchdogs r;
          r2 = tell (owner_event ''success'' (Some ''elected''))
                 (r1\<lparr>rt_activationStarted := AList.update e (rt_now r1) (rt_activationStarted r1)\<rparr>);
          r3 = (if act = WipeBeforeOpen
                then r2\<lparr>rt_pendingRecoveryResetEpochs := AList.update e
                       (or_string (rt_nextRecoveryResetReason r2) ''abrupt-owner-loss'') (rt_pendingRecoveryResetEpochs r2),
                     rt_nextRecoveryResetReason := None\<rparr>
                else r2);
          r4 = armStartupWatchdog opts t e r3
      in postToTab t (BecomeOwnerEnv (scope_of r4) t e act (databaseOwnerLockName (scope_of r4)) (rt_hotCapacity r4)) r4)"

definition close_engine_route :: "tab_id \<Rightarrow> owner_epoch \<Rightarrow> router \<Rightarrow> router" where
  "close_engine_route t e r =
     (let r1 = clearEngineWatchdogs r
      in case rt_engineRoute r1 of
           None \<Rightarrow> r1
         | Some rt \<Rightarrow>
             if er_tab rt = t \<and> er_epoch rt = e
             then emit (CloseTransport (er_id rt)) (r1\<lparr>rt_engineRoute := None\<rparr>) else r1)"

definition violation_event :: "string \<Rightarrow> observation" where
  "violation_event err =
     (owner_event ''error''
        (if str_includes err ''already owns'' \<or> str_includes err ''multiple owner''
         then Some ''multiple-owner-detected'' else None))\<lparr>ob_errorCode := Some ''protocol''\<rparr>"

definition stale_drop_event :: observation where
  "stale_drop_event = (observe ''graphql_cache.stale_drop'' ''lifecycle'')
     \<lparr>ob_outcome := Some ''success'', ob_errorCode := Some ''owner-lost'', ob_count := Some (Finite 1)\<rparr>"

fun apply_action ::
    "router_options \<Rightarrow> fail_fn \<Rightarrow> (router \<Rightarrow> router \<times> unit js) \<Rightarrow> router_action \<Rightarrow> router \<Rightarrow> router \<times> unit js" where
  "apply_action opts fail sched (ElectOwner t e act) r = done_with (elect_owner opts t e act r)"
| "apply_action opts fail sched (RouteRequest ot t e rid req) r =
     and_then (r, operationCategoryForRequest (the_string (get (encode_request req) ''kind'')))
       (\<lambda>category r1.
          send_on_route opts fail ot e ''direct engine MessagePort is missing''
            (EngineRequestEnv e rid (encode_request req))
            (r1\<lparr>rt_routeStarted := AList.update rid
               \<lparr>tm_startedAt = rt_now r1, tm_epoch = e, tm_category = category\<rparr> (rt_routeStarted r1)\<rparr>))"
| "apply_action opts fail sched (DeliverResponse t resp) r = done_with (postCacheResponse t resp r)"
| "apply_action opts fail sched (BroadcastPush push) r = done_with (broadcast (CacheMessageEnv push) r)"
| "apply_action opts fail sched (RejectRequest t i err code) r =
     done_with (postCacheResponse t (ResponseError i err code) r)"
| "apply_action opts fail sched (DrainOwner t e) r =
     send_on_route opts fail t e ''direct engine MessagePort disappeared before drain'' (DrainEngineEnv e)
       (clearHeartbeatTimers (tell (owner_event ''graceful'' (Some ''graceful-drain-started'')) r))"
| "apply_action opts fail sched (CloseEngineRoute t e) r = done_with (close_engine_route t e r)"
| "apply_action opts fail sched (DropTab t) r = done_with (removeTabConnection t r)"
| "apply_action opts fail sched (RetireTab t e) r =
     done_with (removeTabConnection t (postToTab t (RetireCompleteEnv t e) r))"
| "apply_action opts fail sched ScheduleResetActivation r = sched r"
| "apply_action opts fail sched (BroadcastEngineReplaced e) r =
     done_with (broadcast (EngineReplacedEnv e) (tell (owner_event ''success'' (Some ''replacement'')) r))"
| "apply_action opts fail sched (DropStaleEngineMessage e rid why) r = done_with (tell stale_drop_event r)"
| "apply_action opts fail sched (ProtocolViolation err) r =
     done_with (broadcast (ProtocolErrorEnv err) (tell (violation_event err) r))"
| "apply_action opts fail sched (TerminalFailure err untouched) r =
     done_with (broadcast (TerminalErrorEnv err untouched) r)"

primrec apply_n :: "router_options \<Rightarrow> nat \<Rightarrow> apply_fn" where
  "apply_n opts 0 acts r = (r, Throw ''Maximum call stack size exceeded'')"
| "apply_n opts (Suc n) acts r =
     for_each (apply_action opts (failOwner_with (apply_n opts n)) (scheduleResetActivation_with opts (apply_n opts n)))
       acts r"

definition applyActions :: "router_options \<Rightarrow> apply_fn" where
  "applyActions opts = apply_n opts 3"

definition failOwner :: "router_options \<Rightarrow> fail_fn" where
  "failOwner opts = failOwner_with (applyActions opts)"

definition scheduleResetActivation :: "router_options \<Rightarrow> router \<Rightarrow> router \<times> unit js" where
  "scheduleResetActivation opts = scheduleResetActivation_with opts (applyActions opts)"

definition sendToEngine :: "router_options \<Rightarrow> engine_route \<Rightarrow> coordinator_to_engine \<Rightarrow> router \<Rightarrow> router \<times> bool js" where
  "sendToEngine opts = sendToEngine_with opts (failOwner opts)"

text \<open>\<open>this.applyActions(core.method(...))\<close>\<close>

definition call_and_apply :: "router_options \<Rightarrow> (request_object, jsvalue, jsvalue) core_event \<Rightarrow> router \<Rightarrow> router \<times> unit js" where
  "call_and_apply opts ev r = and_then (core_call ev r) (applyActions opts)"

text \<open>The callback \<open>activate\<close> of \<open>scheduleResetActivation\<close>\<close>

definition run_activation :: "router_options \<Rightarrow> router \<Rightarrow> router \<times> unit js" where
  "run_activation opts r = call_and_apply opts EvResumeAfterLoss (r\<lparr>rt_recoveryRetryTimer := None\<rparr>)"

definition isCurrentOwner :: "tab_id \<Rightarrow> owner_epoch \<Rightarrow> router \<Rightarrow> bool" where
  "isCurrentOwner t e r \<longleftrightarrow> (case core_state r of Some st \<Rightarrow> owner_of st = Some (t, e) | None \<Rightarrow> False)"

section \<open>Departures\<close>

text \<open>\<open>departForNavigation\<close> of the router; the state is read before the core is called.\<close>

definition note_departure :: "owner_epoch \<Rightarrow> coordinator_state \<Rightarrow> router \<Rightarrow> router" where
  "note_departure e earlier r =
     (let r1 = r\<lparr>rt_activationStarted := AList.delete e (rt_activationStarted r)\<rparr>;
          interrupted = (case earlier of Activating _ _ WipeBeforeOpen _ \<Rightarrow> map_of (rt_pendingRecoveryResetEpochs r1) e
            | _ \<Rightarrow> None);
          r2 = (if interrupted = None then r1
                else r1\<lparr>rt_pendingRecoveryResetEpochs := AList.delete e (rt_pendingRecoveryResetEpochs r1),
                        rt_nextRecoveryResetReason := interrupted\<rparr>)
      in clearEngineWatchdogs (drop_route_timings e
           (tell (owner_event ''graceful'' (Some ''navigation-departure'')) r2)))"

definition router_departForNavigation ::
    "router_options \<Rightarrow> tab_id \<Rightarrow> owner_epoch \<Rightarrow> string \<Rightarrow> router \<Rightarrow> router \<times> unit js" where
  "router_departForNavigation opts t e reason r =
     (case core_state r of
        None \<Rightarrow> done_with r
      | Some earlier \<Rightarrow>
          and_then (core_call (EvDepartForNavigation t e reason) r)
            (\<lambda>acts r1. applyActions opts acts
               (if owner_of earlier \<noteq> Some (t, e) then r1 else note_departure e earlier r1)))"

text \<open>The part of \<open>loseTab\<close> for a tab that owns the engine.\<close>

definition note_tab_loss :: "tab_id \<Rightarrow> owner_epoch \<Rightarrow> coordinator_state \<Rightarrow> string \<Rightarrow> router \<Rightarrow> router" where
  "note_tab_loss t e st reason r =
     (let r1 = r\<lparr>rt_activationStarted := AList.delete e (rt_activationStarted r)\<rparr>;
          r2 = (case st of Activating _ _ OpenExisting LoadingAssets \<Rightarrow> r1
                | _ \<Rightarrow> note_reset_reason e reason None None r1);
          r3 = tell ((owner_event ''abrupt'' (Some ''abrupt-loss''))
                 \<lparr>ob_errorCode := Some (classifyCacheError (StringValue reason))\<rparr>) r2
      in clearEngineWatchdogs (postTerminateEngine t e reason (drop_route_timings e r3)))"

definition loseTab :: "router_options \<Rightarrow> tab_id \<Rightarrow> string \<Rightarrow> router \<Rightarrow> router \<times> unit js" where
  "loseTab opts t reason r =
     (case core_state r of
        None \<Rightarrow> done_with r
      | Some st \<Rightarrow>
          call_and_apply opts (EvTabLost t reason)
            (case owner_of st of
               Some (ot, e) \<Rightarrow> (if ot = t then note_tab_loss t e st reason r else r)
             | None \<Rightarrow> r))"

section \<open>Registration\<close>

definition refuse_port :: "port \<Rightarrow> string \<Rightarrow> router \<Rightarrow> router" where
  "refuse_port p err r = emit (ClosePort p) (postProtocolError (Some p) err r)"

definition scope_mismatch :: "string \<Rightarrow> router \<Rightarrow> bool" where
  "scope_mismatch sc r \<longleftrightarrow> (case rt_core r of Some c \<Rightarrow> scope c \<noteq> sc | None \<Rightarrow> False)"

definition hot_mismatch :: "nat option \<Rightarrow> router \<Rightarrow> bool" where
  "hot_mismatch hot r \<longleftrightarrow> rt_core r \<noteq> None \<and> rt_hotCapacity r \<noteq> hot"

text \<open>\<open>register\<close> up to the await of the lock probe\<close>

definition register :: "suspended_registration \<Rightarrow> router \<Rightarrow> router" where
  "register m r =
     (let p = sr_port m
      in if map_has (rt_portTabs r) p \<or> map_has (rt_pendingRegistrations r) p
         then postProtocolError (Some p) ''MessagePort already registered'' r
         else if map_has (rt_tabs r) (sr_tab m) then refuse_port p ''tab id is already registered'' r
         else if sr_lock m \<noteq> tabLivenessLockName (sr_scope m) (sr_tab m)
         then refuse_port p ''tab registered without the expected liveness-lock name'' r
         else if scope_mismatch (sr_scope m) r then refuse_port p ''coordinator scope mismatch'' r
         else if hot_mismatch (sr_hot m) r then refuse_port p ''coordinator hot-capacity mismatch'' r
         else let k = rt_nextObject r
              in emit (ProbeLock k (sr_lock m))
                   (r\<lparr>rt_nextObject := k + 1,
                      rt_pendingRegistrations := AList.update p k (rt_pendingRegistrations r),
                      rt_probes := rt_probes r @ [(k, m)]\<rparr>))"

text \<open>The tail of \<open>register\<close>, from the creation of the core on\<close>

definition admit_tab :: "router_options \<Rightarrow> suspended_registration \<Rightarrow> router \<Rightarrow> router \<times> unit js" where
  "admit_tab opts m r =
     and_then (case rt_core r of
                 Some _ \<Rightarrow> done_with r
               | None \<Rightarrow> (case new_core (sr_scope m) of
                   Throw err \<Rightarrow> (r, Throw err)
                 | Ret c \<Rightarrow> done_with (r\<lparr>rt_core := Some c, rt_hotCapacity := sr_hot m\<rparr>)))
       (\<lambda>_ r1.
          let k = rt_nextObject r1; t = sr_tab m;
              r2 = emit (WatchLock k (sr_lock m)) (r1\<lparr>rt_nextObject := k + 1\<rparr>);
              r3 = r2\<lparr>rt_tabs := AList.update t \<lparr>cn_id = k, cn_port = sr_port m\<rparr> (rt_tabs r2),
                      rt_portTabs := AList.update (sr_port m) t (rt_portTabs r2)\<rparr>;
              r4 = postToTab t (RegisteredEnv t) r3
          in and_then (core_call (EvRegisterTab t) r4)
               (\<lambda>acts r5. and_then (applyActions opts acts r5)
                  (\<lambda>_ r6. done_with
                     (if list_ex (\<lambda>a. case a of ElectOwner _ _ _ \<Rightarrow> True | _ \<Rightarrow> False) acts then r6
                      else case startupProgress opts r6 of Some progress \<Rightarrow> postToTab t progress r6 | None \<Rightarrow> r6))))"

datatype probe_result = LockHeld | LockFree | ProbeFailed

text \<open>\<open>register\<close> after the await\<close>

definition resume_registration :: "router_options \<Rightarrow> nat \<Rightarrow> probe_result \<Rightarrow> router \<Rightarrow> router \<times> unit js" where
  "resume_registration opts k result r =
     (case map_of (rt_probes r) k of
        None \<Rightarrow> done_with r
      | Some m \<Rightarrow>
          let p = sr_port m;
              r1 = r\<lparr>rt_probes := AList.delete k (rt_probes r)\<rparr>;
              r2 = r1\<lparr>rt_pendingRegistrations := AList.delete p (rt_pendingRegistrations r1)\<rparr>
          in if k \<in> set (rt_cancelledRegistrations r1) \<or> map_of (rt_pendingRegistrations r1) p \<noteq> Some k
             then done_with r1
             else if result = ProbeFailed then done_with (refuse_port p ''tab liveness-lock verification failed'' r2)
             else if result = LockFree
             then done_with (refuse_port p ''tab registration requires an already-held liveness lock'' r2)
             else if map_has (rt_portTabs r2) p \<or> map_has (rt_tabs r2) (sr_tab m)
             then done_with (refuse_port p ''tab registration raced another port'' r2)
             else if scope_mismatch (sr_scope m) r2 \<or> hot_mismatch (sr_hot m) r2
             then done_with (refuse_port p ''coordinator registration raced a mismatch'' r2)
             else admit_tab opts m r2)"

section \<open>Messages of tabs\<close>

definition attachEnginePort :: "router_options \<Rightarrow> tab_id \<Rightarrow> owner_epoch \<Rightarrow> jsvalue \<Rightarrow> router \<Rightarrow> router \<times> unit js" where
  "attachEnginePort opts t e enginePort r =
     (let expected = (case rt_core r of Some c \<Rightarrow> expectsEngine t e c | None \<Rightarrow> False)
      in if \<not> expected \<or> enginePort = JUndefined \<or> rt_engineRoute r \<noteq> None
         then let r1 = (if enginePort = JUndefined then r else emit (CloseEnginePort enginePort) r)
              in if expected then failOwner opts t e ''invalid direct engine attachment'' None None r1
                 else done_with (postProtocolError (map_option cn_port (map_of (rt_tabs r1) t))
                        (''stale engine port for epoch '' @ show_nat e) r1)
         else case ro_createTransport opts enginePort of
                Some err \<Rightarrow> failOwner opts t e (''engine Effect transport failed: '' @ err) None None
                  (emit (CloseEnginePort enginePort) r)
              | None \<Rightarrow> done_with (r\<lparr>rt_engineRoute := Some \<lparr>er_id = rt_nextObject r, er_tab = t, er_epoch = e\<rparr>,
                  rt_nextObject := rt_nextObject r + 1\<rparr>))"

fun tab_of :: "tab_envelope \<Rightarrow> tab_id" where
  "tab_of (RegisterTabEnv _ t _ _) = t"
| "tab_of (CacheRequestEnv t _) = t"
| "tab_of (AttachEnginePortEnv t _ _) = t"
| "tab_of (GracefulDepartureEnv t _) = t"
| "tab_of (NavigationDepartureEnv t _ _) = t"
| "tab_of (EngineLostEnv t _ _) = t"
| "tab_of (DisconnectTabEnv t _) = t"

text \<open>The validated object as the core's request: its id and its fields\<close>

fun decode_request :: "jsvalue \<Rightarrow> request_object cache_request" where
  "decode_request (JObject m) = \<lparr>request_id = the_nat (get (JObject m) ''id''), request_body = m\<rparr>"
| "decode_request _ = \<lparr>request_id = 0, request_body = []\<rparr>"

text \<open>\<open>match(message)\<close>\<close>

fun dispatch_tab :: "router_options \<Rightarrow> tab_id \<Rightarrow> tab_envelope \<Rightarrow> router \<Rightarrow> router \<times> unit js" where
  "dispatch_tab opts t (CacheRequestEnv _ req) r = call_and_apply opts (EvRequest t (decode_request req)) r"
| "dispatch_tab opts t (AttachEnginePortEnv _ e enginePort) r = attachEnginePort opts t e enginePort r"
| "dispatch_tab opts t (GracefulDepartureEnv _ e) r = call_and_apply opts (EvBeginGracefulDeparture t e) r"
| "dispatch_tab opts t (NavigationDepartureEnv _ e reason) r = router_departForNavigation opts t e reason r"
| "dispatch_tab opts t (EngineLostEnv _ e reason) r = failOwner opts t e reason None None r"
| "dispatch_tab opts t (DisconnectTabEnv _ reason) r = loseTab opts t reason r"
| "dispatch_tab opts t (RegisterTabEnv _ _ _ _) r = done_with r"

definition handleTabMessage :: "router_options \<Rightarrow> port \<Rightarrow> jsvalue \<Rightarrow> nat list \<Rightarrow> router \<Rightarrow> router \<times> unit js" where
  "handleTabMessage opts p rawMessage transferredPorts r =
     (case validateTabToCoordinatorEnvelope rawMessage of
        Fail err \<Rightarrow> done_with (postProtocolError (Some p) err r)
      | Pass v \<Rightarrow>
          (case decode_tab v of
             None \<Rightarrow> done_with r
           | Some message \<Rightarrow>
               if transferredPorts \<noteq> []
               then done_with (postProtocolError (Some p) ''coordinator envelope transferred unexpected event ports''
                      (fold (\<lambda>q. emit (CloseTransferredPort q)) transferredPorts r))
               else (case message of
                  RegisterTabEnv sc t lock hot \<Rightarrow>
                    done_with (register \<lparr>sr_port = p, sr_scope = sc, sr_tab = t, sr_lock = lock, sr_hot = hot\<rparr> r)
                | _ \<Rightarrow>
                    let tab = map_of (rt_portTabs r) p
                    in if \<not> truthy_string tab
                       then done_with (postProtocolError (Some p) ''message arrived before tab registration'' r)
                       else if tab_of message \<noteq> the tab
                       then done_with (postProtocolError (Some p) ''message tab id does not match the registered port'' r)
                       else if rt_core r = None
                       then done_with (postProtocolError (Some p) ''coordinator is not initialized'' r)
                       else dispatch_tab opts (the tab) message r)))"

text \<open>\<open>port.onmessageerror\<close>\<close>

definition handlePortError :: "router_options \<Rightarrow> port \<Rightarrow> router \<Rightarrow> router \<times> unit js" where
  "handlePortError opts p r =
     (let tab = map_of (rt_portTabs r) p
      in if truthy_string tab then loseTab opts (the tab) ''tab MessagePort messageerror'' r
         else done_with (emit (ClosePort p)
           (case map_of (rt_pendingRegistrations r) p of
              None \<Rightarrow> r
            | Some k \<Rightarrow> r\<lparr>rt_cancelledRegistrations := rt_cancelledRegistrations r @ [k],
                          rt_pendingRegistrations := AList.delete p (rt_pendingRegistrations r)\<rparr>)))"

section \<open>Messages of the engine\<close>

fun engine_epoch :: "engine_envelope \<Rightarrow> owner_epoch" where
  "engine_epoch (EngineAssetsReadyEnv _ e) = e"
| "engine_epoch (EngineReadyEnv _ e _ _ _) = e"
| "engine_epoch (EngineResponseEnv e _ _) = e"
| "engine_epoch (EnginePushEnv e _) = e"
| "engine_epoch (EngineDrainedEnv _ e) = e"
| "engine_epoch (EngineFatalEnv _ e _ _) = e"
| "engine_epoch (ActivationFailedEnv _ e _ _) = e"
| "engine_epoch (HeartbeatAckEnv e _) = e"

text \<open>\<open>'tabId' in message\<close>\<close>

fun engine_tab :: "engine_envelope \<Rightarrow> tab_id option" where
  "engine_tab (EngineAssetsReadyEnv t _) = Some t"
| "engine_tab (EngineReadyEnv t _ _ _ _) = Some t"
| "engine_tab (EngineDrainedEnv t _) = Some t"
| "engine_tab (EngineFatalEnv t _ _ _) = Some t"
| "engine_tab (ActivationFailedEnv t _ _ _) = Some t"
| "engine_tab _ = None"

text \<open>A validated response object as the core's response\<close>

definition decode_response :: "jsvalue \<Rightarrow> jsvalue cache_response" where
  "decode_response v =
     (let i = the_nat (get v ''id'')
      in if get v ''ok'' = JBool True then ResponseOk i (get v ''result'')
         else ResponseError i (the_string (get v ''error''))
           (if get v ''errorCode'' = JUndefined then None
            else if get v ''errorCode'' = JString ''owner-epoch-lost'' then Some OwnerEpochLost
            else Some AdmittedEnqueueUncertain))"

definition is_violation :: "router_action \<Rightarrow> bool" where
  "is_violation a \<longleftrightarrow> (case a of ProtocolViolation _ \<Rightarrow> True | _ \<Rightarrow> False)"

definition handle_assets_ready :: "router_options \<Rightarrow> engine_route \<Rightarrow> tab_id \<Rightarrow> owner_epoch \<Rightarrow> router \<Rightarrow> router \<times> unit js" where
  "handle_assets_ready opts rt t e r =
     (let granted = (case rt_core r of Some c \<Rightarrow> snd (beginEngineOpen t e c) | None \<Rightarrow> False)
      in and_then (core_call (EvBeginEngineOpen t e) r)
           (\<lambda>_ r1. if \<not> granted then failOwner opts t e ''unexpected engine asset readiness'' None None r1
              else and_then (sendToEngine opts rt (OpenEngineEnv e) (armStartupWatchdog opts t e r1)) (\<lambda>_. done_with)))"

text \<open>What \<open>engine-ready\<close> records once the owner is active\<close>

definition note_activation :: "router_options \<Rightarrow> owner_epoch \<Rightarrow> engine_open_outcome \<Rightarrow> router \<Rightarrow> router" where
  "note_activation opts e openOutcome r =
     (let r1 = (case map_of (rt_pendingRecoveryResetEpochs r) e of
            Some resetReason \<Rightarrow>
              recordLogicalResetAndWipe resetReason openOutcome True
                (r\<lparr>rt_pendingRecoveryResetEpochs := AList.delete e (rt_pendingRecoveryResetEpochs r)\<rparr>)
          | None \<Rightarrow>
              if starts_with ''reset-'' (outcome_string openOutcome)
              then let resetReason = resetReasonForOpenOutcome openOutcome
                   in recordLogicalResetAndWipe resetReason openOutcome False
                        (recordStorageResetRequired e resetReason (Some openOutcome) r)
              else r);
          startedAt = map_of (rt_activationStarted r1) e;
          r2 = tell ((owner_event ''success'' (Some ''activated''))
                 \<lparr>ob_durationMs := (case startedAt of None \<Rightarrow> None | Some s \<Rightarrow> elapsed s r1)\<rparr>)
                 (r1\<lparr>rt_activationStarted := AList.delete e (rt_activationStarted r1)\<rparr>)
      in scheduleHeartbeat opts e (resetRecoveryRetries (clearActivationTimer r2)))"

definition active_at :: "owner_epoch \<Rightarrow> router \<Rightarrow> bool" where
  "active_at e r \<longleftrightarrow> (case core_state r of Some (Active _ se) \<Rightarrow> se = e | _ \<Rightarrow> False)"

definition handle_engine_ready :: "router_options \<Rightarrow> engine_route \<Rightarrow> engine_ready \<Rightarrow> router \<Rightarrow> router \<times> unit js" where
  "handle_engine_ready opts rt ready r =
     and_then (core_call (EvEngineReady ready) r)
       (\<lambda>acts r1. and_then (applyActions opts acts r1)
          (\<lambda>_ r2.
             if list_ex is_violation acts
             then (if isCurrentOwner (er_tab rt) (er_epoch rt) r2
                   then failOwner opts (er_tab rt) (er_epoch rt) ''engine readiness proof was rejected'' None None r2
                   else done_with (postTerminateEngine (er_tab rt) (er_epoch rt) ''engine readiness proof was rejected'' r2))
             else done_with (if active_at (r_epoch ready) r2 then note_activation opts (r_epoch ready) (r_outcome ready) r2 else r2)))"

text \<open>The timing of a response's route\<close>

definition note_response :: "route_id \<Rightarrow> jsvalue \<Rightarrow> router \<Rightarrow> router" where
  "note_response rid response r =
     (let r1 = r\<lparr>rt_routeStarted := AList.delete rid (rt_routeStarted r)\<rparr>;
          ok = (get response ''ok'' = JBool True)
      in case map_of (rt_routeStarted r) rid of
           None \<Rightarrow> r1
         | Some timing \<Rightarrow>
             tell ((observe ''graphql_cache.coordinator_request'' (tm_category timing))
               \<lparr>ob_outcome := Some (if ok then ''success'' else ''error''),
                ob_errorCode := Some (if ok then ''none''
                  else classifyCacheError (StringValue (the_string (get response ''error'')))),
                ob_durationMs := elapsed (tm_startedAt timing) r1\<rparr>) r1)"

definition handle_engine_drained :: "router_options \<Rightarrow> engine_route \<Rightarrow> tab_id \<Rightarrow> owner_epoch \<Rightarrow> router \<Rightarrow> router \<times> unit js" where
  "handle_engine_drained opts rt t e r =
     and_then (core_call (EvEngineDrained t e) r)
       (\<lambda>acts r1.
          if list_ex is_violation acts
          then and_then (applyActions opts acts r1)
                 (\<lambda>_. failOwner opts (er_tab rt) (er_epoch rt) ''unexpected engine-drained from current direct route'' None None)
          else applyActions opts acts (tell (owner_event ''graceful'' (Some ''graceful-drain-completed'')) r1))"

fun dispatch_engine :: "router_options \<Rightarrow> engine_route \<Rightarrow> engine_envelope \<Rightarrow> router \<Rightarrow> router \<times> unit js" where
  "dispatch_engine opts rt (EngineAssetsReadyEnv t e) r = handle_assets_ready opts rt t e r"
| "dispatch_engine opts rt (EngineReadyEnv t e lock p out) r =
     handle_engine_ready opts rt \<lparr>r_tab = t, r_epoch = e, r_lock_name = lock,
       r_expected_lock_name = databaseOwnerLockName (scope_of r), r_lock_held = True, r_proof = p, r_outcome = out\<rparr> r"
| "dispatch_engine opts rt (EngineResponseEnv e rid response) r =
     call_and_apply opts (EvEngineResponse e rid (decode_response response)) (note_response rid response r)"
| "dispatch_engine opts rt (EnginePushEnv e push) r = call_and_apply opts (EvEnginePush e push) r"
| "dispatch_engine opts rt (EngineDrainedEnv t e) r = handle_engine_drained opts rt t e r"
| "dispatch_engine opts rt (EngineFatalEnv t e reason code) r = failOwner opts t e reason (Some code) None r"
| "dispatch_engine opts rt (ActivationFailedEnv t e reason code) r = failOwner opts t e reason None (Some code) r"
| "dispatch_engine opts rt (HeartbeatAckEnv e hb) r = done_with (acceptHeartbeat opts e hb r)"

definition handleEngineMessage :: "router_options \<Rightarrow> engine_route \<Rightarrow> jsvalue \<Rightarrow> router \<Rightarrow> router \<times> unit js" where
  "handleEngineMessage opts rt rawMessage r =
     (case validateEngineToCoordinatorEnvelope rawMessage of
        Fail err \<Rightarrow> failOwner opts (er_tab rt) (er_epoch rt) (''invalid engine envelope: '' @ err) None None r
      | Pass v \<Rightarrow>
          (case decode_engine v of
             None \<Rightarrow> done_with r
           | Some message \<Rightarrow>
               if rt_core r = None then done_with r
               else if engine_epoch message \<noteq> er_epoch rt \<or>
                 (case engine_tab message of Some t \<Rightarrow> t \<noteq> er_tab rt | None \<Rightarrow> False)
               then failOwner opts (er_tab rt) (er_epoch rt)
                      ''engine envelope owner tuple does not match its direct route'' None None r
               else dispatch_engine opts rt message r))"

section \<open>Timer callbacks\<close>

definition heartbeat_interval :: "router_options \<Rightarrow> owner_epoch \<Rightarrow> router \<Rightarrow> router \<times> unit js" where
  "heartbeat_interval opts e r =
     (case rt_engineRoute r of
        None \<Rightarrow> done_with r
      | Some rt \<Rightarrow>
          if \<not> active_at e r then done_with r
          else let hb = rt_nextHeartbeatId r;
                   r1 = r\<lparr>rt_nextHeartbeatId := hb + 1, rt_pendingHeartbeat := Some (e, hb)\<rparr>
               in and_then (sendToEngine opts rt (HeartbeatEnv e hb) r1)
                    (\<lambda>sent r2. done_with
                       (if \<not> sent then r2
                        else case setTimer (HeartbeatTimeout (er_tab rt) e hb) (ro_heartbeatTimeoutMs opts) r2 of
                               (k, r3) \<Rightarrow> r3\<lparr>rt_heartbeatTimeoutTimer := Some k\<rparr>)))"

fun run_timer :: "router_options \<Rightarrow> timer_callback \<Rightarrow> router \<Rightarrow> router \<times> unit js" where
  "run_timer opts (StartupWatchdog t e ph) r =
     failOwner opts t e (if ph = LoadingAssets then ''engine asset loading watchdog timed out''
       else ''engine database opening watchdog timed out'') None None r"
| "run_timer opts (HeartbeatInterval e) r = heartbeat_interval opts e r"
| "run_timer opts (HeartbeatTimeout t e hb) r =
     (if rt_pendingHeartbeat r = Some (e, hb)
      then failOwner opts t e ''engine heartbeat watchdog timed out'' None None r else done_with r)"
| "run_timer opts RecoveryActivate r = run_activation opts r"

section \<open>Tasks\<close>

datatype router_input =
  Connect port
| TabMessage port jsvalue "nat list"
| TabMessageError port
| ProbeSettled nat probe_result
| LockReleased nat tab_id
| EngineMessage nat jsvalue
| EngineError nat string
| TimerFires nat
| MicrotaskRuns

text \<open>The task that handles one input; \<open>route && this.engineRoute === route\<close> is the guard of both callbacks.\<close>

fun handle :: "router_options \<Rightarrow> router_input \<Rightarrow> router \<Rightarrow> router \<times> unit js" where
  "handle opts (Connect p) r = done_with (emit (StartPort p) r)"
| "handle opts (TabMessage p raw ports) r = handleTabMessage opts p raw ports r"
| "handle opts (TabMessageError p) r = handlePortError opts p r"
| "handle opts (ProbeSettled k result) r = resume_registration opts k result r"
| "handle opts (LockReleased k t) r =
     (case map_of (rt_tabs r) t of
        Some cn \<Rightarrow> (if cn_id cn = k then loseTab opts t ''tab liveness lock was released'' r else done_with r)
      | None \<Rightarrow> done_with r)"
| "handle opts (EngineMessage k raw) r =
     (case rt_engineRoute r of
        Some rt \<Rightarrow> (if er_id rt = k then handleEngineMessage opts rt raw r else done_with r)
      | None \<Rightarrow> done_with r)"
| "handle opts (EngineError k err) r =
     (case rt_engineRoute r of
        Some rt \<Rightarrow> (if er_id rt = k
          then failOwner opts (er_tab rt) (er_epoch rt) (''engine Effect transport failed: '' @ err) None None r
          else done_with r)
      | None \<Rightarrow> done_with r)"
| "handle opts (TimerFires k) r =
     (case map_of (rt_timers r) k of
        Some (cb, ms) \<Rightarrow> run_timer opts cb (clearTimer k r)
      | None \<Rightarrow> done_with r)"
| "handle opts MicrotaskRuns r =
     (if rt_microtasks r = 0 then done_with r else run_activation opts (r\<lparr>rt_microtasks := rt_microtasks r - 1\<rparr>))"

definition router_task :: "router_options \<Rightarrow> rat \<times> router_input \<Rightarrow> router \<Rightarrow> router" where
  "router_task opts x r = fst (handle opts (snd x) (r\<lparr>rt_now := fst x\<rparr>))"

end
