(* ===== verification/CoreMoves.thy ===== *)
theory CoreMoves
  imports CoordinatorRouter
begin

text \<open>
  What a call of the coordinator core means for its router: which owner and which tabs leave with
  the actions it returns, what the phase it ends in owes to them, and the types of the actions.
\<close>

section \<open>Kinds of actions\<close>

fun drops :: "router_action \<Rightarrow> tab_id option" where
  "drops (DropTab t) = Some t"
| "drops (RetireTab t e) = Some t"
| "drops _ = None"

definition dropped :: "router_action list \<Rightarrow> tab_id set" where
  "dropped acts = {t. Some t \<in> drops ` set acts}"

fun routing :: "router_action \<Rightarrow> bool" where
  "routing (RouteRequest _ _ _ _ _) = True"
| "routing (DrainOwner _ _) = True"
| "routing _ = False"

fun elects :: "router_action \<Rightarrow> bool" where
  "elects (ElectOwner _ _ _) = True"
| "elects _ = False"

text \<open>The actions that clear the watchdogs of the engine\<close>

fun clears :: "router_action \<Rightarrow> bool" where
  "clears (ElectOwner _ _ _) = True"
| "clears (CloseEngineRoute _ _) = True"
| "clears (DrainOwner _ _) = True"
| "clears _ = False"

definition calm :: "router_action list \<Rightarrow> bool" where
  "calm acts \<longleftrightarrow> (\<forall>a \<in> set acts. \<not> elects a \<and> drops a = None)"

definition quiet :: "router_action \<Rightarrow> bool" where
  "quiet a \<longleftrightarrow> \<not> elects a \<and> \<not> routing a \<and> a \<noteq> ScheduleResetActivation"

text \<open>An election is the last action and belongs to the phase; requests are routed only by calm lists.\<close>

definition sane :: "coordinator_state \<Rightarrow> router_action list \<Rightarrow> bool" where
  "sane st acts \<longleftrightarrow>
     (\<forall>t e act. ElectOwner t e act \<in> set acts \<longrightarrow>
        st = Activating t e act LoadingAssets \<and> (\<exists>as. acts = as @ [ElectOwner t e act] \<and> (\<forall>a \<in> set as. quiet a))) \<and>
     ((\<exists>a \<in> set acts. routing a) \<longrightarrow> calm acts)"

lemma dropped_simps [simp]:
  "dropped [] = {}"
  "dropped (a # acts) = (case drops a of Some t \<Rightarrow> {t} | None \<Rightarrow> {}) \<union> dropped acts"
  "dropped (as @ bs) = dropped as \<union> dropped bs"
  by (auto simp: dropped_def split: option.splits)

lemma calm_simps [simp]:
  "calm []" "calm (a # acts) \<longleftrightarrow> \<not> elects a \<and> drops a = None \<and> calm acts"
  "calm (as @ bs) \<longleftrightarrow> calm as \<and> calm bs"
  by (auto simp: calm_def)

lemma calm_dropped: "calm acts \<Longrightarrow> dropped acts = {}"
  by (auto simp: calm_def dropped_def image_iff)

lemma sane_electD:
  assumes "sane st acts" "ElectOwner t e act \<in> set acts"
  obtains as where "st = Activating t e act LoadingAssets" "acts = as @ [ElectOwner t e act]" "\<forall>a \<in> set as. quiet a"
  using assms unfolding sane_def by blast

lemma sane_tail: "sane st (a # acts) \<Longrightarrow> sane st acts"
proof -
  assume sane: "sane st (a # acts)"
  have "\<exists>as. acts = as @ [ElectOwner t e act] \<and> (\<forall>a \<in> set as. quiet a)" if el: "ElectOwner t e act \<in> set acts" for t e act
  proof -
    have "ElectOwner t e act \<in> set (a # acts)" using el by simp
    then obtain as where as: "a # acts = as @ [ElectOwner t e act]" "\<forall>a \<in> set as. quiet a"
      by (rule sane_electD [OF sane])
    then obtain as' where "as = a # as'" using el by (cases as) auto
    then show ?thesis using as by auto
  qed
  then show ?thesis using sane by (auto simp: sane_def)
qed

lemma sane_calm: "calm acts \<Longrightarrow> sane st acts"
  by (auto simp: sane_def calm_def)

lemma sane_elect_calm: "sane st (a # acts) \<Longrightarrow> routing a \<Longrightarrow> calm acts"
  by (auto simp: sane_def)

lemma sane_election:
  assumes "sane st (ElectOwner t e act # acts)"
  shows "st = Activating t e act LoadingAssets" "acts = []"
proof -
  obtain as where as: "st = Activating t e act LoadingAssets"
    "ElectOwner t e act # acts = as @ [ElectOwner t e act]" "\<forall>a \<in> set as. quiet a"
    by (rule sane_electD [OF assms, of t e act]) simp_all
  then have "as = []" by (cases as) (auto simp: quiet_def)
  with as show "st = Activating t e act LoadingAssets" "acts = []" by simp_all
qed

section \<open>What a call leaves\<close>

fun registered_by :: "(request_object, jsvalue, jsvalue) core_event \<Rightarrow> router_core \<Rightarrow> tab_id list" where
  "registered_by (EvRegisterTab t) c = (if t \<in> set (tabs c) then [] else [t])"
| "registered_by _ c = []"

definition phase_follows ::
    "(request_object, jsvalue, jsvalue) core_event \<Rightarrow> coordinator_state \<Rightarrow> coordinator_state \<Rightarrow> router_action list \<Rightarrow> bool" where
  "phase_follows ev st st' acts \<longleftrightarrow>
     (case st' of
        Activating t e act ph \<Rightarrow>
          st' = st \<and> (\<forall>a \<in> set acts. \<not> clears a) \<or>
          ph = LoadingAssets \<and> ElectOwner t e act \<in> set acts \<or>
          ev = EvBeginEngineOpen t e \<and> st = Activating t e act LoadingAssets \<and> ph = OpeningDatabase \<and> acts = []
      | Active t e \<Rightarrow>
          (\<forall>a \<in> set acts. \<not> clears a) \<and>
          (st = Active t e \<or> (\<exists>act r. st = Activating t e act OpeningDatabase \<and> ev = EvEngineReady r \<and> r_epoch r = e))
      | Draining t e \<Rightarrow> (st = Draining t e \<or> st = Active t e) \<and> (\<forall>u f. CloseEngineRoute u f \<notin> set acts)
      | ResettingAfterLoss _ _ _ _ _ \<Rightarrow> st' = st \<or> ScheduleResetActivation \<in> set acts
      | _ \<Rightarrow> True)"

definition follows ::
    "(request_object, jsvalue, jsvalue) core_event \<Rightarrow> router_core \<Rightarrow> router_core \<Rightarrow> router_action list \<Rightarrow> bool" where
  "follows ev c c' acts \<longleftrightarrow>
     (\<forall>t e. owner_of (stateValue c) = Some (t, e) \<longrightarrow>
        owner_of (stateValue c') = Some (t, e) \<or> CloseEngineRoute t e \<in> set acts) \<and>
     tabs c' = filter (\<lambda>t. t \<notin> dropped acts) (tabs c @ registered_by ev c) \<and>
     sane (stateValue c') acts \<and> phase_follows ev (stateValue c) (stateValue c') acts \<and> scope c' = scope c"

lemmas follows_defs = follows_def phase_follows_def

text \<open>Rejections are calm and quiet.\<close>

lemma rejections_calm [simp]:
  "calm (map (\<lambda>p. RejectRequest (f p) (g p) err code) xs)"
  "dropped (map (\<lambda>p. RejectRequest (f p) (g p) err code) xs) = {}"
  "a \<in> set (map (\<lambda>p. RejectRequest (f p) (g p) err code) xs) \<Longrightarrow> quiet a \<and> \<not> clears a \<and> \<not> elects a \<and> \<not> routing a"
  by (auto simp: calm_def dropped_def quiet_def)

lemma same_phase_follows:
  assumes "stateValue c' = stateValue c" "tabs c' = tabs c" "scope c' = scope c"
    and "calm acts" "\<forall>a \<in> set acts. \<not> clears a" "registered_by ev c = []"
  shows "follows ev c c' acts"
  using assms by (auto simp: follows_defs sane_calm calm_dropped split: coordinator_state.splits)

lemma violation_follows:
  "follows ev c (fst (recordProtocolViolation err c)) [ProtocolViolation err]" if "registered_by ev c = []"
  using that by (intro same_phase_follows) (simp_all add: recordProtocolViolation_def)

lemma request_follows:
  assumes "core_inv c" "request t req c = (c', Ret acts)"
  shows "follows (EvRequest t req) c c' acts"
  using assms
  by (intro same_phase_follows)
    (auto simp: request_def route_def reject_def Let_def map_js_eq_Ret split: if_splits coordinator_state.splits)

lemma engineResponse_follows:
  assumes "engineResponse e rid resp c = (c', acts)"
  shows "follows (EvEngineResponse e rid resp) c c' acts"
  using assms
  by (intro same_phase_follows) (auto simp: engineResponse_def dropStale_def split: if_splits option.splits)

lemma enginePush_follows:
  assumes "enginePush e p c = (c', acts)"
  shows "follows (EvEnginePush e p) c c' acts"
  using assms by (intro same_phase_follows) (auto simp: enginePush_def dropStale_def split: if_splits)

lemma election_sane: "\<forall>a \<in> set as. quiet a \<Longrightarrow> sane (Activating t e act LoadingAssets) (as @ [ElectOwner t e act])"
  by (auto simp: sane_def quiet_def)

lemma registerTab_follows:
  assumes inv: "core_inv c" and s: "registerTab t c = (c', acts)"
  shows "follows (EvRegisterTab t) c c' acts"
proof (cases "t \<in> set (tabs c)")
  case True
  then show ?thesis using s by (intro same_phase_follows) (auto simp: registerTab_def)
next
  case False
  show ?thesis
  proof (cases "stateValue c")
    case (WaitingForTab act)
    then show ?thesis using s False election_sane [of "[]"]
      by (auto simp: registerTab_def activateNext_def Let_def follows_defs sane_calm split: if_splits)
  qed (use s False in \<open>auto simp: registerTab_def follows_defs sane_calm\<close>)
qed

lemma beginEngineOpen_follows:
  assumes "beginEngineOpen t e c = (c', b)"
  shows "follows (EvBeginEngineOpen t e) c c' []"
  using assms
  by (auto simp: beginEngineOpen_def follows_defs sane_calm split: coordinator_state.splits if_splits)

lemma beginGracefulDeparture_follows:
  assumes "beginGracefulDeparture t e c = (c', acts)"
  shows "follows (EvBeginGracefulDeparture t e) c c' acts"
proof (cases "stateValue c = Active t e")
  case True
  then show ?thesis using assms by (auto simp: beginGracefulDeparture_def follows_defs sane_def)
next
  case False
  then show ?thesis
    using assms violation_follows [of "EvBeginGracefulDeparture t e" c]
    by (auto simp: beginGracefulDeparture_def recordProtocolViolation_def)
qed

lemma abrupt_loss_follows:
  assumes inv: "core_inv c" and "registered_by ev c = []" and s: "transitionToAbruptLoss t e why c = (c', Ret acts)"
  shows "follows ev c c' acts"
proof (cases "owner_of (stateValue c) = Some (t, e)")
  case True
  then show ?thesis using s assms(2) unfolding abrupt_loss_eq [OF inv True]
    by (auto simp: follows_defs intro!: sane_calm)
next
  case False
  then show ?thesis using s assms(2)
    by (intro same_phase_follows) (auto simp: transitionToAbruptLoss_def)
qed

lemma engineReady_follows:
  assumes inv: "core_inv c" and ids: "ids_left c" and s: "engineReady r c = (c', Ret acts)"
  shows "follows (EvEngineReady r) c c' acts"
proof (cases c r rule: engineReady_cases)
  case (accept act)
  have "calm (map (routed_action t e) xs)" "\<forall>a \<in> set (map (routed_action t e) xs). \<not> clears a" for t e and xs :: "(nat \<times> request_object queued_request) list"
    by (auto simp: calm_def routed_action_def)
  then show ?thesis using s accept unfolding engineReady_accept_eq [OF inv ids accept]
    by (auto simp: follows_defs calm_dropped intro!: sane_calm)
next
  case (refuse act err)
  then show ?thesis using s unfolding engineReady_refuse [OF inv refuse]
    by (auto simp: follows_defs intro!: sane_calm)
next
  case unexpected
  then show ?thesis using s violation_follows [of "EvEngineReady r" c] unfolding engineReady_unexpected [OF unexpected]
    by (auto simp: recordProtocolViolation_def)
qed

lemma terminalFailure_follows:
  assumes "terminalFailure why c = (c', Ret acts)" "owner_of (stateValue c) = None"
  shows "follows (EvTerminalFailure why) c c' acts"
  using assms
  by (auto simp: terminalFailure_def Let_def return_checked_def assertInvariants_def follows_defs
      split: coordinator_state.splits intro!: sane_calm)

lemma resumeAfterLoss_follows:
  assumes "resumeAfterLoss c = (c', acts)"
  shows "follows EvResumeAfterLoss c c' acts"
proof (cases "\<exists>pt pe ne act why. stateValue c = ResettingAfterLoss pt pe ne act why \<and> truthy_string (chooseCandidate (Some pt) c)")
  case True
  then show ?thesis using assms election_sane [of "[]"]
    by (auto simp: resumeAfterLoss_def Let_def follows_defs)
next
  case False
  then show ?thesis using assms
    by (auto simp: resumeAfterLoss_def follows_defs sane_calm split: coordinator_state.splits if_splits)
qed

text \<open>A departure drops the tab and elects the next one.\<close>

lemma departure_follows:
  assumes inv: "core_inv c" and own: "owner_of (stateValue c) = Some (t, e)"
    and dep: "after_departure t act c = (c', elected :: router_action list)"
    and quiet: "\<forall>a \<in> set rej. quiet a \<and> drops a = None" and gone: "drops gone = Some t" "quiet gone"
    and reg: "registered_by ev c = []"
  shows "follows ev c c' (rej @ CloseEngineRoute t e # gone # elected)"
proof -
  have dist: "distinct (tabs c)" using inv by (simp add: core_inv_defs)
  have dr: "dropped (rej @ CloseEngineRoute t e # gone # elected) = {t} \<union> dropped elected" "calm rej"
    using quiet gone by (auto simp: calm_def quiet_def calm_dropped)
  have "\<exists>as. rej @ CloseEngineRoute t e # gone # elected = as @ elected \<and> (\<forall>a \<in> set as. quiet a)"
    using quiet gone by (intro exI [of _ "rej @ [CloseEngineRoute t e, gone]"]) (auto simp: quiet_def)
  then obtain as where as: "rej @ CloseEngineRoute t e # gone # elected = as @ elected" "\<forall>a \<in> set as. quiet a" by blast
  define el where "el = filter (\<lambda>u. u \<noteq> t \<and> u \<notin> retiringTabs c) (tabs c)"
  note eq = dep [unfolded after_departure_eq [OF inv], folded el_def]
  have quiet_sane: "sane st as" for st using as(2) by (auto simp: sane_def quiet_def)
  show ?thesis
  proof (cases el)
    case Nil
    then have c': "stateValue c' = WaitingForTab act" "elected = []" "tabs c' = remove1 t (tabs c)" "scope c' = scope c"
      using eq by auto
    then show ?thesis using own dr dist reg as quiet_sane
      by (auto simp: follows_defs remove1_filter_distinct)
  next
    case (Cons u us)
    then have c': "stateValue c' = Activating u (currentEpoch c + 1) act LoadingAssets"
      "elected = [ElectOwner u (currentEpoch c + 1) act]" "tabs c' = remove1 t (tabs c)" "scope c' = scope c"
      using eq by auto
    then show ?thesis using own dr dist reg as election_sane [OF as(2), of u "currentEpoch c + 1" act]
      by (auto simp: follows_defs remove1_filter_distinct)
  qed
qed

lemma engineDrained_follows:
  assumes inv: "core_inv c" and s: "engineDrained t e c = (c', Ret acts)"
  shows "follows (EvEngineDrained t e) c c' acts"
proof (cases "stateValue c = Draining t e")
  case True
  obtain c2 elected where dep: "(after_departure t OpenExisting c :: (request_object, jsvalue, jsvalue) core_effect) = (c2, elected)"
    by fastforce
  have own: "owner_of (stateValue c) = Some (t, e)" using True by simp
  note eq = s [unfolded engineDrained_eq [OF inv True] dep prod.case prod.inject js.inject append_Cons append_Nil]
  show ?thesis unfolding conjunct2 [OF eq, symmetric] conjunct1 [OF eq, symmetric]
    by (rule departure_follows [OF inv own dep]) (auto simp: quiet_def)
next
  case False
  then show ?thesis using s violation_follows [of "EvEngineDrained t e" c]
    by (auto simp: engineDrained_def recordProtocolViolation_def)
qed

lemma departForNavigation_follows:
  assumes inv: "core_inv c" and s: "departForNavigation t e why c = (c', Ret acts)"
  shows "follows (EvDepartForNavigation t e why) c c' acts"
proof (cases "owner_of (stateValue c) = Some (t, e)")
  case True
  define act where "act = (case stateValue c of Activating _ _ a _ \<Rightarrow> a | _ \<Rightarrow> OpenExisting)"
  obtain c2 elected where dep: "(after_departure t act c :: (request_object, jsvalue, jsvalue) core_effect) = (c2, elected)"
    by fastforce
  note eq = s [unfolded departForNavigation_eq [OF inv True, folded act_def] dep prod.case prod.inject js.inject
    append_Cons append_Nil]
  show ?thesis unfolding conjunct2 [OF eq, symmetric] conjunct1 [OF eq, symmetric]
    by (rule departure_follows [OF inv True dep]) (auto simp: quiet_def)
next
  case False
  then show ?thesis using s violation_follows [of "EvDepartForNavigation t e why" c]
    by (auto simp: departForNavigation_def recordProtocolViolation_def)
qed

lemma sane_plain: "\<forall>a \<in> set acts. \<not> elects a \<and> \<not> routing a \<Longrightarrow> sane st acts"
  by (auto simp: sane_def)

lemma tabLost_follows:
  assumes inv: "core_inv c" and s: "tabLost t why c = (c', Ret acts)"
  shows "follows (EvTabLost t why) c c' acts"
proof (cases "t \<in> set (tabs c)")
  case False
  then show ?thesis using s by (intro same_phase_follows) (auto simp: tabLost_def)
next
  case True
  have dist: "distinct (tabs c)" using inv by (simp add: core_inv_defs)
  show ?thesis
  proof (cases "\<exists>e. owner_of (stateValue c) = Some (t, e)")
    case owner: True
    then obtain e where own: "owner_of (stateValue c) = Some (t, e)" by blast
    then have "(tab_loss t why c :: (request_object, jsvalue, jsvalue) core_result) = transitionToAbruptLoss t e why c"
      by (simp add: tab_loss_def)
    with s show ?thesis using own dist unfolding tabLost_eq [OF inv True]
      by (auto simp: abrupt_loss_eq [OF inv own] follows_defs removeTabRecord_def remove1_filter_distinct intro!: sane_plain)
  next
    case False
    then have "(tab_loss t why c :: (request_object, jsvalue, jsvalue) core_result) = (c, Ret [])"
      by (auto simp: tab_loss_def split: option.splits)
    with s show ?thesis using dist unfolding tabLost_eq [OF inv True]
      by (auto simp: follows_defs removeTabRecord_def remove1_filter_distinct intro!: sane_plain split: coordinator_state.splits)
  qed
qed

lemma core_step_follows:
  assumes inv: "core_inv c" and ids: "ids_left c" and s: "core_step ev c = (c', Ret acts)"
    and "\<And>why. ev = EvTerminalFailure why \<Longrightarrow> owner_of (stateValue c) = None"
  shows "follows ev c c' acts"
proof (cases ev)
  case (EvBeginEngineOpen t e)
  then show ?thesis using s beginEngineOpen_follows [of t e c] by (cases "beginEngineOpen t e c") auto
next
  case (EvOwnerLost t e why)
  then show ?thesis using s abrupt_loss_follows [OF inv, of ev t e why] by (simp add: ownerLost_def)
qed (use s assms in \<open>auto simp: registerTab_follows request_follows engineReady_follows engineResponse_follows
  enginePush_follows beginGracefulDeparture_follows engineDrained_follows terminalFailure_follows
  departForNavigation_follows tabLost_follows resumeAfterLoss_follows apsnd_def map_prod_def split: prod.splits\<close>)

section \<open>Types\<close>

definition typed_request :: "request_object cache_request \<Rightarrow> bool" where
  "typed_request req \<longleftrightarrow> isCacheRequest (JObject (request_body req)) \<and> is_safe_nat (request_id req)"

fun reason_ok :: "coordinator_state \<Rightarrow> bool" where
  "reason_ok (ResettingAfterLoss _ _ _ _ why) = (why \<noteq> '''')"
| "reason_ok (Failed why _) = (why \<noteq> '''')"
| "reason_ok _ = True"

definition typed_core :: "router_core \<Rightarrow> bool" where
  "typed_core c \<longleftrightarrow> scope c \<noteq> '''' \<and> reason_ok (stateValue c) \<and>
     (\<forall>q \<in> set (queuedRequests c). typed_request (q_request q)) \<and>
     (\<forall>p \<in> set (inFlight c). typed_request (if_request (snd p)))"

fun typed_event :: "(request_object, jsvalue, jsvalue) core_event \<Rightarrow> bool" where
  "typed_event (EvRegisterTab t) = (t \<noteq> '''')"
| "typed_event (EvRequest t req) = typed_request req"
| "typed_event (EvEnginePush e p) = isCachePush p"
| "typed_event (EvOwnerLost t e why) = (why \<noteq> '''')"
| "typed_event (EvTerminalFailure why) = (why \<noteq> '''')"
| "typed_event (EvTabLost t why) = (why \<noteq> '''')"
| "typed_event _ = True"

text \<open>An action is typed when its message will be; epochs are compared with the latest one.\<close>

fun typed_action :: "owner_epoch \<Rightarrow> router_action \<Rightarrow> bool" where
  "typed_action n (ElectOwner t e act) = (t \<noteq> '''' \<and> 1 \<le> e \<and> e \<le> n)"
| "typed_action n (RouteRequest ot t e rid req) =
     (1 \<le> e \<and> e \<le> n \<and> 1 \<le> rid \<and> is_safe_nat rid \<and> request_id req = rid \<and> isCacheRequest (JObject (request_body req)))"
| "typed_action n (DeliverResponse t resp) = is_safe_nat (response_id resp)"
| "typed_action n (BroadcastPush p) = isCachePush p"
| "typed_action n (RejectRequest t i err code) = is_safe_nat i"
| "typed_action n (DrainOwner t e) = (1 \<le> e \<and> e \<le> n)"
| "typed_action n (RetireTab t e) = (t \<noteq> '''' \<and> 1 \<le> e \<and> e \<le> n)"
| "typed_action n (BroadcastEngineReplaced e) = (1 \<le> e \<and> e \<le> n)"
| "typed_action n (ProtocolViolation err) = (err \<noteq> '''')"
| "typed_action n (TerminalFailure err untouched) = (err \<noteq> '''')"
| "typed_action n _ = True"

definition typed_result :: "router_core \<Rightarrow> router_action list \<Rightarrow> bool" where
  "typed_result c' acts \<longleftrightarrow> typed_core c' \<and> (\<forall>a \<in> set acts. typed_action (currentEpoch c') a)"

lemmas typed_defs = typed_result_def typed_core_def

lemma ready_error_nonempty: "ready_error r = Some err \<Longrightarrow> err \<noteq> ''''"
  by (auto simp: ready_error_def split: if_splits)

lemma owner_epoch:
  assumes "core_inv c" "owner_of (stateValue c) = Some (t, e)"
  shows "1 \<le> e" "e = currentEpoch c" "t \<in> set (tabs c)" "t \<noteq> ''''"
  using assms by (cases "stateValue c"; auto simp: core_inv_defs)+

lemma typed_rejections:
  assumes "typed_core c" "a \<in> set (map (\<lambda>p. RejectRequest (f p) (request_id (if_request (snd p))) err code) (inFlight c))"
  shows "typed_action n a"
  using assms by (fastforce simp: typed_core_def typed_request_def)

lemma abrupt_loss_typed:
  assumes inv: "core_inv c" and "typed_core c" "why \<noteq> ''''" and s: "transitionToAbruptLoss t e why c = (c', Ret acts)"
  shows "typed_result c' acts"
proof (cases "owner_of (stateValue c) = Some (t, e)")
  case True
  note eq = s [unfolded abrupt_loss_eq [OF inv True] prod.inject js.inject]
  have "typed_core c'" using assms(2,3) conjunct1 [OF eq] by (auto simp: typed_core_def)
  then show ?thesis unfolding conjunct2 [OF eq, symmetric] typed_result_def
    using typed_rejections [OF assms(2)] by (auto simp del: append.simps(2))
next
  case False
  then show ?thesis using s assms(2) by (auto simp: transitionToAbruptLoss_def typed_defs)
qed

lemma request_typed:
  assumes inv: "core_inv c" and "typed_core c" "typed_request req" and s: "request t req c = (c', Ret acts)"
  shows "typed_result c' acts"
proof (cases "stateValue c")
  case (Active ot e)
  have "1 \<le> e" "e = currentEpoch c" "1 \<le> nextRouteId c"
    using inv Active by (auto simp: core_inv_defs)
  moreover have "typed_request (if_request (snd p))"
    if "p \<in> set (AList.update k \<lparr>if_tab = t, if_request = req, if_route = k, if_epoch = e\<rparr> (inFlight c))" for p k
    using subsetD [OF set_update_subset that] assms(2,3) by (auto simp: typed_core_def)
  ultimately show ?thesis using s Active assms(2,3)
    by (auto simp: request_def route_def reject_def Let_def typed_defs typed_request_def split: if_splits)
qed (use s assms(2,3) in \<open>auto simp: request_def reject_def typed_defs typed_request_def split: if_splits\<close>)

lemma engineReady_typed:
  assumes inv: "core_inv c" and ids: "ids_left c" and ty: "typed_core c" and s: "engineReady r c = (c', Ret acts)"
  shows "typed_result c' acts"
proof (cases c r rule: engineReady_cases)
  case (accept act)
  have own: "1 \<le> r_epoch r" "r_epoch r = currentEpoch c" "1 \<le> nextRouteId c"
    using inv accept(1) by (auto simp: core_inv_defs)
  have route: "typed_action (currentEpoch c) (routed_action (r_tab r) (r_epoch r) p)"
    and flight: "typed_request (if_request (snd (routed_flight (r_epoch r) p)))"
    if "p \<in> set (enumerate (nextRouteId c) (queuedRequests c))" for p
  proof -
    have p: "nextRouteId c \<le> fst p" "fst p < nextRouteId c + length (queuedRequests c)" "snd p \<in> set (queuedRequests c)"
      using that by (auto simp: in_set_enumerate_eq intro: nth_mem) (metis add.commute less_diff_conv2 nth_mem)
    then have "is_safe_nat (fst p)" "typed_request (q_request (snd p))"
      using ids ty by (auto simp: ids_left_def is_safe_nat_def typed_core_def)
    then show "typed_action (currentEpoch c) (routed_action (r_tab r) (r_epoch r) p)"
      "typed_request (if_request (snd (routed_flight (r_epoch r) p)))"
      using own p by (auto simp: routed_action_def routed_flight_def typed_request_def)
  qed
  note eq = s [unfolded engineReady_accept_eq [OF inv ids accept] prod.inject js.inject]
  have "typed_core c'" using ty flight conjunct1 [OF eq]
    by (auto simp: typed_core_def simp del: One_nat_def) (metis snd_conv)
  moreover have "currentEpoch c' = currentEpoch c" using conjunct1 [OF eq] by auto
  ultimately show ?thesis using route own unfolding typed_result_def conjunct2 [OF eq, symmetric]
    by (auto simp del: One_nat_def)
next
  case (refuse act err)
  then show ?thesis using s ty ready_error_nonempty [OF refuse(2)] unfolding engineReady_refuse [OF inv refuse]
    by (auto simp: typed_defs)
next
  case unexpected
  then show ?thesis using s ty unfolding engineReady_unexpected [OF unexpected] by (auto simp: typed_defs)
qed

lemma departure_typed:
  assumes inv: "core_inv c" and ty: "typed_core c" and dep: "after_departure t act c = (c', elected)"
    and rej: "rej = map (\<lambda>p. RejectRequest (if_tab (snd p)) (request_id (if_request (snd p))) err code) (inFlight c)"
    and gone: "\<And>n. currentEpoch c \<le> n \<Longrightarrow> typed_action n gone"
  shows "typed_result c' (rej @ CloseEngineRoute t e # gone # elected)"
proof -
  define el where "el = filter (\<lambda>u. u \<noteq> t \<and> u \<notin> retiringTabs c) (tabs c)"
  note eq = dep [unfolded after_departure_eq [OF inv], folded el_def]
  have "'''' \<notin> set el" using inv by (auto simp: el_def core_inv_defs)
  moreover have "typed_action n a" if "a \<in> set rej" for a n
    by (rule typed_rejections [OF ty that [unfolded rej]])
  moreover have "currentEpoch c \<le> currentEpoch c'" using eq by (auto split: list.splits)
  ultimately show ?thesis using eq ty gone by (cases el) (auto simp: typed_defs)
qed

lemma engineDrained_typed:
  assumes inv: "core_inv c" and ty: "typed_core c" and s: "engineDrained t e c = (c', Ret acts)"
  shows "typed_result c' acts"
proof (cases "stateValue c = Draining t e")
  case True
  obtain c2 elected where dep: "(after_departure t OpenExisting c :: (request_object, jsvalue, jsvalue) core_effect) = (c2, elected)"
    by fastforce
  note eq = s [unfolded engineDrained_eq [OF inv True] dep prod.case prod.inject js.inject append_Cons append_Nil]
  have "1 \<le> e" "e = currentEpoch c" "t \<noteq> ''''" using owner_epoch [OF inv, of t e] True by simp_all
  then show ?thesis unfolding conjunct2 [OF eq, symmetric] conjunct1 [OF eq, symmetric]
    by (intro departure_typed [OF inv ty dep]) auto
next
  case False
  then show ?thesis using s ty by (auto simp: engineDrained_def recordProtocolViolation_def typed_defs)
qed

lemma departForNavigation_typed:
  assumes inv: "core_inv c" and ty: "typed_core c" and s: "departForNavigation t e why c = (c', Ret acts)"
  shows "typed_result c' acts"
proof (cases "owner_of (stateValue c) = Some (t, e)")
  case True
  define act where "act = (case stateValue c of Activating _ _ a _ \<Rightarrow> a | _ \<Rightarrow> OpenExisting)"
  obtain c2 elected where dep: "(after_departure t act c :: (request_object, jsvalue, jsvalue) core_effect) = (c2, elected)"
    by fastforce
  note eq = s [unfolded departForNavigation_eq [OF inv True, folded act_def] dep prod.case prod.inject js.inject
    append_Cons append_Nil]
  show ?thesis unfolding conjunct2 [OF eq, symmetric] conjunct1 [OF eq, symmetric]
    by (intro departure_typed [OF inv ty dep]) auto
next
  case False
  then show ?thesis using s ty by (auto simp: departForNavigation_def recordProtocolViolation_def typed_defs)
qed

lemma tabLost_typed:
  assumes inv: "core_inv c" and ty: "typed_core c" "why \<noteq> ''''" and s: "tabLost t why c = (c', Ret acts)"
  shows "typed_result c' acts"
proof (cases "t \<in> set (tabs c)")
  case False
  then show ?thesis using s ty by (auto simp: tabLost_def typed_defs)
next
  case True
  obtain c1 las where loss: "(tab_loss t why c :: (request_object, jsvalue, jsvalue) core_result) = (c1, Ret las)"
    using tab_loss_spec [OF inv, of t why] by metis
  have "typed_result c1 las"
    using loss abrupt_loss_typed [OF inv ty] ty(1)
    by (auto simp: tab_loss_def typed_result_def split: option.splits if_splits)
  with s loss show ?thesis unfolding tabLost_eq [OF inv True]
    by (auto simp: typed_defs removeTabRecord_def)
qed

lemma activateNext_typed:
  assumes "tabs_ok c" "typed_core c" "activateNext act c = (c', acts)"
  shows "typed_result c' acts"
  using assms
  by (auto simp: activateNext_def Let_def typed_defs split: if_splits elim!: truthy_stringE)

lemma core_step_typed:
  assumes inv: "core_inv c" and ids: "ids_left c" and ty: "typed_core c" "typed_event ev"
    and s: "core_step ev c = (c', Ret acts)"
  shows "typed_result c' acts"
proof (cases ev)
  case (EvRegisterTab t)
  show ?thesis
  proof (cases "t \<notin> set (tabs c) \<and> (\<exists>act. stateValue c = WaitingForTab act)")
    case True
    then obtain act where act: "stateValue c = WaitingForTab act" by blast
    have "tabs_ok (c\<lparr>tabs := tabs c @ [t]\<rparr>)" using inv True ty EvRegisterTab by (auto simp: core_inv_defs)
    moreover have "typed_core (c\<lparr>tabs := tabs c @ [t]\<rparr>)" using ty by (simp add: typed_core_def)
    ultimately show ?thesis using s EvRegisterTab True act
      by (auto simp: registerTab_def apsnd_def map_prod_def intro: activateNext_typed split: prod.splits)
  next
    case False
    then show ?thesis using s EvRegisterTab ty
      by (auto simp: registerTab_def Let_def typed_defs split: coordinator_state.splits if_splits)
  qed
next
  case (EvBeginEngineOpen t e)
  then show ?thesis using s ty
    by (auto simp: beginEngineOpen_def typed_defs split: coordinator_state.splits if_splits)
next
  case (EvEngineResponse e rid resp)
  show ?thesis
  proof (cases "map_of (inFlight c) rid")
    case None
    then show ?thesis using s ty EvEngineResponse by (auto simp: engineResponse_def dropStale_def typed_defs split: if_splits)
  next
    case (Some f)
    then have "typed_request (if_request f)" using ty by (auto simp: typed_core_def dest!: map_of_SomeD)
    then show ?thesis using s ty EvEngineResponse Some
      by (auto simp: engineResponse_def dropStale_def typed_defs typed_request_def set_delete split: if_splits)
  qed
next
  case (EvEnginePush e p)
  then show ?thesis using s ty by (auto simp: enginePush_def dropStale_def typed_defs split: if_splits)
next
  case (EvBeginGracefulDeparture t e)
  then show ?thesis using s ty owner_epoch [OF inv, of t e]
    by (auto simp: beginGracefulDeparture_def recordProtocolViolation_def typed_defs split: if_splits)
next
  case (EvTerminalFailure why)
  then show ?thesis using s ty
    by (auto simp: terminalFailure_def Let_def return_checked_def assertInvariants_def typed_defs
        split: coordinator_state.splits)
next
  case EvResumeAfterLoss
  show ?thesis
  proof (cases "\<exists>pt pe ne act why. stateValue c = ResettingAfterLoss pt pe ne act why \<and> truthy_string (chooseCandidate (Some pt) c)")
    case True
    then obtain pt pe ne act why where st: "stateValue c = ResettingAfterLoss pt pe ne act why"
      "truthy_string (chooseCandidate (Some pt) c)" by blast
    then have "1 \<le> ne" using inv by (simp add: core_inv_defs)
    then show ?thesis using s EvResumeAfterLoss st ty
      by (auto simp: resumeAfterLoss_def Let_def typed_defs elim!: truthy_stringE)
  next
    case False
    then show ?thesis using s EvResumeAfterLoss ty
      by (auto simp: resumeAfterLoss_def typed_defs split: coordinator_state.splits if_splits)
  qed
qed (use s ty inv ids in \<open>auto simp: ownerLost_def intro: abrupt_loss_typed request_typed engineReady_typed
  engineDrained_typed departForNavigation_typed tabLost_typed\<close>)

end
