(* ===== verification/RouterDepth.thy ===== *)
theory RouterDepth
  imports CoreMoves
begin

text \<open>
  The recursion of the router: how deep its calls nest, and the rule by which a property of the
  router's state is carried through \<open>applyActions\<close>, \<open>failOwner\<close> and \<open>scheduleResetActivation\<close>
  (locale \<open>router_invariant\<close>).
\<close>

section \<open>Sequencing\<close>

lemma and_then_simps [simp]:
  "and_then (s, Ret a) k = k a s"
  "and_then (s, Throw err) k = (s, Throw err)"
  by (simp_all add: and_then_def)

lemma done_with_simps [simp]: "fst (done_with s) = s" "snd (done_with s) = Ret ()" "and_then (done_with s) k = k () s"
  by (simp_all add: done_with_def)

lemma and_then_cong:
  assumes "\<And>a s. m = (s, Ret a) \<Longrightarrow> f a s = g a s"
  shows "and_then m f = and_then m g"
proof -
  obtain s res where "m = (s, res)" by fastforce
  then show ?thesis using assms by (cases res) simp_all
qed

lemma for_each_cong:
  assumes "\<And>x s. x \<in> set xs \<Longrightarrow> f x s = g x s"
  shows "for_each f xs s = for_each g xs s"
  using assms
proof (induction xs arbitrary: s)
  case (Cons x xs)
  have "for_each f xs = for_each g xs" by (rule ext) (rule Cons.IH, simp add: Cons.prems)
  then show ?case using Cons.prems by simp
qed simp

section \<open>The depth of the recursion\<close>

fun rank :: "router_action \<Rightarrow> nat" where
  "rank (RouteRequest _ _ _ _ _) = 3"
| "rank (DrainOwner _ _) = 3"
| "rank ScheduleResetActivation = 2"
| "rank _ = 1"

definition fits :: "nat \<Rightarrow> router_action list \<Rightarrow> bool" where
  "fits n acts \<longleftrightarrow> (\<forall>a \<in> set acts. rank a \<le> n)"

lemma fits_simps [simp]: "fits n []" "fits n (a # acts) \<longleftrightarrow> rank a \<le> n \<and> fits n acts"
  "fits n (as @ bs) \<longleftrightarrow> fits n as \<and> fits n bs"
  by (auto simp: fits_def)

lemma fits_3: "fits 3 acts"
proof -
  have "rank a \<le> 3" for a by (cases a) simp_all
  then show ?thesis by (simp add: fits_def)
qed

lemma rank_routing: "routing a \<longleftrightarrow> rank a = 3"
  by (cases a) simp_all

lemma rank_positive: "1 \<le> rank a"
  by (cases a) simp_all

lemma rank_1_apply: "rank a \<le> 1 \<Longrightarrow> apply_action opts f s a r = apply_action opts f' s' a r"
  by (cases a) simp_all

lemma rank_2_apply: "rank a \<le> 2 \<Longrightarrow> apply_action opts f s a r = apply_action opts f' s a r"
  by (cases a) simp_all

text \<open>What a lost owner and a terminal failure return needs no deeper call.\<close>

lemma core_call_ownerLost_fits:
  assumes "core_call (EvOwnerLost t e why) r = (r', Ret acts)"
  shows "fits 2 acts"
  using assms
  by (auto simp: core_call_def ownerLost_def transitionToAbruptLoss_def rejectEpochRequests_def reject_def
      return_checked_def map_js_eq_Ret fits_def Let_def split: option.splits prod.splits if_splits)

lemma core_call_terminal_fits:
  assumes "core_call (EvTerminalFailure why) r = (r', Ret acts)"
  shows "fits 1 acts"
  using assms
  by (auto simp: core_call_def terminalFailure_def return_checked_def map_js_eq_Ret Let_def
      split: option.splits prod.splits coordinator_state.splits)

lemma apply_n_rank_1: "fits 1 acts \<Longrightarrow> apply_n opts (Suc n) acts r = apply_n opts 1 acts r"
  unfolding One_nat_def apply_n.simps by (rule for_each_cong, rule rank_1_apply) (simp add: fits_def)

lemma schedule_depth:
  "scheduleResetActivation_with opts (apply_n opts (Suc n)) = scheduleResetActivation_with opts (apply_n opts 1)"
proof
  fix r
  have "and_then (core_call (EvTerminalFailure why) r1) (apply_n opts (Suc n)) =
      and_then (core_call (EvTerminalFailure why) r1) (apply_n opts 1)" for why r1
    by (rule and_then_cong) (rule apply_n_rank_1, rule core_call_terminal_fits)
  then show "scheduleResetActivation_with opts (apply_n opts (Suc n)) r = scheduleResetActivation_with opts (apply_n opts 1) r"
    by (simp add: scheduleResetActivation_with_def split: option.splits coordinator_state.splits)
qed

lemma apply_n_rank_2: "fits 2 acts \<Longrightarrow> apply_n opts (Suc (Suc n)) acts r = apply_n opts 2 acts r"
  unfolding numeral_2_eq_2 apply_n.simps(2) [of opts "Suc n"] apply_n.simps(2) [of opts "Suc 0"]
  by (rule for_each_cong) (simp only: fits_def schedule_depth [of opts n] One_nat_def, rule rank_2_apply, auto)

lemma failOwner_depth: "failOwner_with (apply_n opts (Suc (Suc n))) = failOwner_with (apply_n opts 2)"
proof (intro ext)
  fix t e why fc gc r
  show "failOwner_with (apply_n opts (Suc (Suc n))) t e why fc gc r = failOwner_with (apply_n opts 2) t e why fc gc r"
    unfolding failOwner_with_def
    by (rule and_then_cong) (use core_call_ownerLost_fits apply_n_rank_2 in \<open>simp del: apply_n.simps\<close>)
qed

lemma apply_n_3: "apply_n opts (n + 3) = apply_n opts 3"
proof (intro ext)
  fix acts r
  have "scheduleResetActivation_with opts (apply_n opts (Suc (Suc n))) = scheduleResetActivation_with opts (apply_n opts 2)"
    unfolding numeral_2_eq_2 schedule_depth ..
  moreover have "n + 3 = Suc (Suc (Suc n))" "3 = Suc (2 :: nat)" by simp_all
  ultimately show "apply_n opts (n + 3) acts r = apply_n opts 3 acts r"
    by (simp only: apply_n.simps failOwner_depth)
qed

text \<open>The recursion equation of the source.\<close>

lemma applyActions_unfold:
  "applyActions opts acts r = for_each (apply_action opts (failOwner opts) (scheduleResetActivation opts)) acts r"
proof -
  have "applyActions opts acts r = apply_n opts (Suc 3) acts r"
    using apply_n_3 [of opts 1] by (simp add: applyActions_def)
  also have "\<dots> = for_each (apply_action opts (failOwner opts) (scheduleResetActivation opts)) acts r"
    unfolding apply_n.simps failOwner_def scheduleResetActivation_def applyActions_def ..
  finally show ?thesis .
qed

section \<open>Invariants of the recursion\<close>

text \<open>The parts of an action that make no further call.\<close>

definition perform :: "router_options \<Rightarrow> router_action \<Rightarrow> router \<Rightarrow> router" where
  "perform opts a r = fst (apply_action opts (\<lambda>_ _ _ _ _. done_with) done_with a r)"

fun note_routing :: "router_action \<Rightarrow> string \<Rightarrow> router \<Rightarrow> router" where
  "note_routing (RouteRequest ot t e rid req) category r =
     r\<lparr>rt_routeStarted := AList.update rid \<lparr>tm_startedAt = rt_now r, tm_epoch = e, tm_category = category\<rparr> (rt_routeStarted r)\<rparr>"
| "note_routing a category r = clearHeartbeatTimers (tell (owner_event ''graceful'' (Some ''graceful-drain-started'')) r)"

fun routed_to :: "router_action \<Rightarrow> (tab_id \<times> owner_epoch) option" where
  "routed_to (RouteRequest ot t e rid req) = Some (ot, e)"
| "routed_to (DrainOwner t e) = Some (t, e)"
| "routed_to _ = None"

fun message_of :: "router_action \<Rightarrow> coordinator_to_engine" where
  "message_of (RouteRequest ot t e rid req) = EngineRequestEnv e rid (encode_request req)"
| "message_of (DrainOwner t e) = DrainEngineEnv e"
| "message_of _ = DrainEngineEnv 0"

fun missing_text :: "router_action \<Rightarrow> string" where
  "missing_text (RouteRequest ot t e rid req) = ''direct engine MessagePort is missing''"
| "missing_text _ = ''direct engine MessagePort disappeared before drain''"

fun category_of :: "router_action \<Rightarrow> string js" where
  "category_of (RouteRequest ot t e rid req) = operationCategoryForRequest (the_string (get (encode_request req) ''kind''))"
| "category_of _ = Ret ''''"

definition give_up_text :: "string \<Rightarrow> string" where
  "give_up_text why = ''cache recovery failed after '' @ show_nat RECOVERY_RETRY_LIMIT @ '' attempts: '' @ why"

lemma texts_nonempty [simp]: "missing_text a \<noteq> []" "give_up_text why \<noteq> []"
  by (cases a) (simp_all add: give_up_text_def)

lemma routing_apply:
  assumes "routing a" "routed_to a = Some (t, e)"
  shows "apply_action opts fail sched a r =
    and_then (r, category_of a) (\<lambda>category r1. send_on_route opts fail t e (missing_text a) (message_of a) (note_routing a category r1))"
  using assms by (cases a) simp_all

lemma perform_apply: "rank a = 1 \<Longrightarrow> apply_action opts fail sched a r = done_with (perform opts a r)"
  by (cases a) (simp_all add: perform_def)

locale router_invariant =
  fixes opts :: router_options and I :: "router_action list \<Rightarrow> router \<Rightarrow> bool"
  assumes plain: "I (a # acts) r \<Longrightarrow> rank a = 1 \<Longrightarrow> I acts (perform opts a r)"
    and category: "I (a # acts) r \<Longrightarrow> routing a \<Longrightarrow> is_ret (category_of a)"
    and routing_calm: "I (a # acts) r \<Longrightarrow> routing a \<Longrightarrow> calm acts"
    and noted: "I (a # acts) r \<Longrightarrow> routing a \<Longrightarrow> I acts (note_routing a category r)"
    and sent: "I (a # acts) r \<Longrightarrow> routing a \<Longrightarrow> rt_engineRoute r = Some rt \<Longrightarrow> routed_to a = Some (er_tab rt, er_epoch rt) \<Longrightarrow>
      I acts (emit (SendEngine (er_id rt) (message_of a)) (note_routing a category r))"
    and lost: "I acts r \<Longrightarrow> calm acts \<Longrightarrow> why \<noteq> [] \<Longrightarrow>
      \<exists>r1 las. core_call (EvOwnerLost t e why) r = (r1, Ret las) \<and>
        (if las = [] then I acts r1 else I (las @ acts) (note_owner_loss t e why fc gc r1))"
    and unscheduled: "I (ScheduleResetActivation # acts) r \<Longrightarrow>
      (\<And>pt pe ne act why. core_state r \<noteq> Some (ResettingAfterLoss pt pe ne act why)) \<Longrightarrow> I acts r"
    and scheduled: "I (ScheduleResetActivation # acts) r \<Longrightarrow> core_state r = Some (ResettingAfterLoss pt pe ne act why) \<Longrightarrow>
      rt_recoveryAttemptCount r < RECOVERY_RETRY_LIMIT \<Longrightarrow> I acts (queue_activation opts r)"
    and given_up: "I (ScheduleResetActivation # acts) r \<Longrightarrow> core_state r = Some (ResettingAfterLoss pt pe ne act why) \<Longrightarrow>
      rt_recoveryAttemptCount r \<ge> RECOVERY_RETRY_LIMIT \<Longrightarrow>
      \<exists>r1 tas. core_call (EvTerminalFailure (give_up_text why)) (clearRecoveryRetryTimer r) = (r1, Ret tas) \<and> I (tas @ acts) r1"
begin

text \<open>A computation that returns and leaves the invariant.\<close>

definition keeps :: "router_action list \<Rightarrow> router \<times> 'b js \<Rightarrow> bool" where
  "keeps acts m \<longleftrightarrow> is_ret (snd m) \<and> I acts (fst m)"

definition apply_keeps :: "nat \<Rightarrow> bool" where
  "apply_keeps n \<longleftrightarrow> (\<forall>as acts r. fits n as \<longrightarrow> I (as @ acts) r \<longrightarrow> keeps acts (apply_n opts n as r))"

lemma keeps_done: "I acts r \<Longrightarrow> keeps acts (done_with r)"
  by (simp add: keeps_def)

lemma keeps_and_then: "keeps acts m \<Longrightarrow> (\<And>a r. m = (r, Ret a) \<Longrightarrow> I acts r \<Longrightarrow> keeps acts' (k a r)) \<Longrightarrow> keeps acts' (and_then m k)"
  by (cases m) (auto simp: keeps_def)

lemma schedule_keeps:
  assumes "apply_keeps (Suc n)" and I: "I (ScheduleResetActivation # acts) r"
  shows "keeps acts (scheduleResetActivation_with opts (apply_n opts (Suc n)) r)"
proof (cases "\<exists>pt pe ne act why. core_state r = Some (ResettingAfterLoss pt pe ne act why)")
  case False
  then have "I acts r" by (intro unscheduled [OF I]) auto
  with False show ?thesis
    by (auto simp: scheduleResetActivation_with_def keeps_done split: option.splits coordinator_state.splits)
next
  case True
  then obtain pt pe ne act why where st: "core_state r = Some (ResettingAfterLoss pt pe ne act why)" by blast
  show ?thesis
  proof (cases "rt_recoveryAttemptCount r < RECOVERY_RETRY_LIMIT")
    case True
    then show ?thesis using scheduled [OF I st] st by (simp add: scheduleResetActivation_with_def keeps_done)
  next
    case False
    then obtain r1 tas where ended: "core_call (EvTerminalFailure (give_up_text why)) (clearRecoveryRetryTimer r) = (r1, Ret tas)"
      "I (tas @ acts) r1" using given_up [OF I st] by auto
    have "fits 1 tas" by (rule core_call_terminal_fits [OF ended(1)])
    then have "fits (Suc n) tas" by (auto simp: fits_def)
    then have "keeps acts (apply_n opts (Suc n) tas r1)" using assms(1) ended(2) by (simp add: apply_keeps_def del: apply_n.simps)
    then show ?thesis using st False ended(1)
      by (simp add: scheduleResetActivation_with_def give_up_text_def del: apply_n.simps)
  qed
qed

lemma fail_keeps:
  assumes "apply_keeps (Suc (Suc n))" and I: "I acts r" "calm acts" "why \<noteq> []"
  shows "keeps acts (failOwner_with (apply_n opts (Suc (Suc n))) t e why fc gc r)"
proof -
  obtain r1 las where call: "core_call (EvOwnerLost t e why) r = (r1, Ret las)"
    "if las = [] then I acts r1 else I (las @ acts) (note_owner_loss t e why fc gc r1)"
    using lost [OF I, of t e fc gc] by blast
  have "fits (Suc (Suc n)) las" using core_call_ownerLost_fits [OF call(1)] by (auto simp: fits_def)
  then show ?thesis using call assms(1)
    by (auto simp: failOwner_with_def keeps_done apply_keeps_def simp del: apply_n.simps split: if_splits)
qed

lemma send_keeps:
  assumes fail: "\<And>why. why \<noteq> [] \<Longrightarrow> keeps acts (fail t e why None None r')" and t: "t = er_tab rt" "e = er_epoch rt"
    and ok: "I acts (emit (SendEngine (er_id rt) msg) r')"
  shows "keeps acts (sendToEngine_with opts fail rt msg r')"
proof (cases "ro_send opts (er_id rt) msg")
  case None
  then show ?thesis using ok by (simp add: sendToEngine_with_def keeps_def)
next
  case (Some err)
  have "keeps acts (fail t e (''engine Effect transport send failed: '' @ err) None None r')" by (rule fail) simp
  then show ?thesis using Some t by (auto simp: sendToEngine_with_def keeps_def and_then_def split: js.splits prod.splits)
qed

lemma routing_keeps:
  assumes fail: "\<And>why r. why \<noteq> [] \<Longrightarrow> I acts r \<Longrightarrow> keeps acts (fail t e why None None r)"
    and I: "I (a # acts) r" and a: "routing a" "routed_to a = Some (t, e)"
  shows "keeps acts (apply_action opts fail sched a r)"
proof -
  obtain cat where cat: "category_of a = Ret cat" using category [OF I a(1)] by auto
  let ?r = "note_routing a cat r"
  have I': "I acts ?r" by (rule noted [OF I a(1)])
  have route: "rt_engineRoute ?r = rt_engineRoute r"
    by (cases a) (simp_all add: clearHeartbeatTimers_def clear_heartbeat_interval_def clear_heartbeat_timeout_def
      clearTimer_def tell_def emit_def split: option.splits)
  have "keeps acts (send_on_route opts fail t e (missing_text a) (message_of a) ?r)"
  proof (cases "\<exists>rt. rt_engineRoute r = Some rt \<and> er_tab rt = t \<and> er_epoch rt = e")
    case True
    then obtain rt where rt: "rt_engineRoute r = Some rt" "er_tab rt = t" "er_epoch rt = e" by blast
    have "keeps acts (sendToEngine_with opts fail rt (message_of a) ?r)"
      by (rule send_keeps [where t = t and e = e]) (use rt a I I' fail sent [OF I a(1) rt(1)] in auto)
    then have "keeps acts (and_then (sendToEngine_with opts fail rt (message_of a) ?r) (\<lambda>_. done_with))"
      by (rule keeps_and_then) (rule keeps_done)
    then show ?thesis using rt route by (simp add: send_on_route_def)
  next
    case False
    then show ?thesis using fail [OF _ I', of "missing_text a"] route
      by (auto simp: send_on_route_def split: option.splits)
  qed
  then show ?thesis unfolding routing_apply [OF a] by (simp add: cat)
qed

lemma action_keeps:
  assumes IH: "n = 0 \<or> apply_keeps n" and I: "I (a # acts) r" and fits: "rank a \<le> Suc n"
  shows "keeps acts (apply_action opts (failOwner_with (apply_n opts n)) (scheduleResetActivation_with opts (apply_n opts n)) a r)"
proof -
  consider "rank a = 1" | "a = ScheduleResetActivation" | "rank a = 3" by (cases a) auto
  then show ?thesis
  proof cases
    case 1
    then show ?thesis using plain [OF I 1] by (simp add: perform_apply keeps_done)
  next
    case 2
    then obtain m where "n = Suc m" using fits by (cases n) auto
    then show ?thesis using schedule_keeps [of m acts r] IH I 2 by (simp del: apply_n.simps)
  next
    case 3
    then have a: "routing a" by (simp add: rank_routing)
    have "n = Suc (Suc (n - 2))" using fits 3 by simp
    then obtain m where m: "n = Suc (Suc m)" by blast
    obtain t e where te: "routed_to a = Some (t, e)" using a by (cases a) auto
    show ?thesis
      by (rule routing_keeps [OF _ I a te]) (use fail_keeps [of m] IH m routing_calm [OF I a] in \<open>simp del: apply_n.simps\<close>)
  qed
qed

lemma each_keeps:
  assumes IH: "n = 0 \<or> apply_keeps n" and "fits (Suc n) as" "I (as @ acts) r"
  shows "keeps acts (apply_n opts (Suc n) as r)"
  using assms(2,3)
proof (induction as arbitrary: r)
  case Nil
  then show ?case by (simp add: keeps_def)
next
  case (Cons a as)
  have I: "I (a # as @ acts) r" and fits: "rank a \<le> Suc n" "fits (Suc n) as" using Cons.prems by simp_all
  show ?case unfolding apply_n.simps for_each.simps
  proof (rule keeps_and_then [OF action_keeps [OF IH I fits(1)]])
    show "keeps acts (for_each (apply_action opts (failOwner_with (apply_n opts n))
        (scheduleResetActivation_with opts (apply_n opts n))) as r')" if "I (as @ acts) r'" for r'
      using Cons.IH [OF fits(2) that] by (simp only: apply_n.simps)
  qed
qed

lemma apply_n_keeps: "apply_keeps (Suc n)"
proof (induction n)
  case 0
  show ?case unfolding apply_keeps_def using each_keeps [of 0] by blast
next
  case (Suc n)
  then show ?case unfolding apply_keeps_def [of "Suc (Suc n)"] using each_keeps [of "Suc n"] by blast
qed

lemma applyActions_keeps: "I (as @ acts) r \<Longrightarrow> keeps acts (applyActions opts as r)"
  using apply_n_keeps [of 2] fits_3 by (auto simp: apply_keeps_def applyActions_def simp del: apply_n.simps)

lemma failOwner_keeps: "I acts r \<Longrightarrow> calm acts \<Longrightarrow> why \<noteq> [] \<Longrightarrow> keeps acts (failOwner opts t e why fc gc r)"
  using fail_keeps [OF apply_n_keeps, of acts r why 1] by (simp add: failOwner_def applyActions_def numeral_3_eq_3 del: apply_n.simps)

lemma sendToEngine_keeps:
  assumes "I acts r" "calm acts" "I acts (emit (SendEngine (er_id rt) msg) r)"
  shows "keeps acts (sendToEngine opts rt msg r)"
  unfolding sendToEngine_def by (rule send_keeps) (use assms failOwner_keeps in auto)

end

end
