(* ===== verification/RouterInvariant.thy ===== *)
theory RouterInvariant
  imports RouterDepth
begin

text \<open>
  The invariant of the router between the actions of the core. It relates the router's tables to the
  core: the connected tabs are the core's tabs, the engine route belongs to the current owner, and
  every phase that waits for an engine or a recovery has a live timer. The actions that are still to
  be carried out are an argument, since the router lags behind the core by exactly these.
\<close>

section \<open>Parts that do not matter\<close>

text \<open>The fields that only feed telemetry, the clock and the list of effects.\<close>

definition essence :: "router \<Rightarrow> router" where
  "essence r = r\<lparr>rt_routeStarted := [], rt_activationStarted := [], rt_pendingRecoveryResetEpochs := [],
     rt_nextRecoveryResetReason := None, rt_resetRequiredEpochs := [], rt_now := 0, rt_effects := []\<rparr>"

lemma essence_simps [simp]:
  "essence (r\<lparr>rt_routeStarted := a\<rparr>) = essence r"
  "essence (r\<lparr>rt_activationStarted := b\<rparr>) = essence r"
  "essence (r\<lparr>rt_pendingRecoveryResetEpochs := c\<rparr>) = essence r"
  "essence (r\<lparr>rt_nextRecoveryResetReason := d\<rparr>) = essence r"
  "essence (r\<lparr>rt_resetRequiredEpochs := e\<rparr>) = essence r"
  "essence (r\<lparr>rt_now := f\<rparr>) = essence r"
  "essence (emit ef r) = essence r"
  "essence (tell ob r) = essence r"
  by (simp_all add: essence_def emit_def tell_def)

lemma essence_fold [simp]: "(\<And>x r. essence (f x r) = essence r) \<Longrightarrow> essence (fold f xs r) = essence r"
  by (induction xs arbitrary: r) simp_all

lemma essence_ops [simp]:
  "essence (drop_route_timings e r) = essence r"
  "essence (recordStorageResetRequired e why out r) = essence r"
  "essence (recordLogicalResetAndWipe why out' b r) = essence r"
  "essence (snd (recordPendingResetFailure e why gc r)) = essence r"
  "essence (postToTab t msg r) = essence r"
  "essence (broadcast msg r) = essence r"
  "essence (postProtocolError p err r) = essence r"
  "essence (postTerminateEngine t e why r) = essence r"
  "essence (postCacheResponse t resp r) = essence r"
  by (simp_all add: drop_route_timings_def recordStorageResetRequired_def recordLogicalResetAndWipe_def
      recordPendingResetFailure_def postToTab_def broadcast_def postProtocolError_def postTerminateEngine_def
      postCacheResponse_def Let_def split: option.splits)

lemma essence_note_reset [simp]: "essence (note_reset_reason e why fc gc r) = essence r"
proof -
  obtain x r1 where x: "recordPendingResetFailure e why gc r = (x, r1)" by fastforce
  then have "essence r1 = essence r" using essence_ops(4) [of e why gc r] by simp
  then show ?thesis by (simp add: note_reset_reason_def x Let_def)
qed

text \<open>Two routers of the same essence agree on the fields the invariant reads.\<close>

lemma essence_fields:
  assumes "essence r' = essence r"
  shows "rt_core r' = rt_core r" "rt_calls r' = rt_calls r" "rt_tabs r' = rt_tabs r" "rt_portTabs r' = rt_portTabs r"
    "rt_engineRoute r' = rt_engineRoute r" "rt_timers r' = rt_timers r" "rt_nextTimer r' = rt_nextTimer r"
    "rt_activationTimer r' = rt_activationTimer r" "rt_heartbeatIntervalTimer r' = rt_heartbeatIntervalTimer r"
    "rt_heartbeatTimeoutTimer r' = rt_heartbeatTimeoutTimer r" "rt_pendingHeartbeat r' = rt_pendingHeartbeat r"
    "rt_recoveryRetryTimer r' = rt_recoveryRetryTimer r" "rt_microtasks r' = rt_microtasks r"
    "rt_recoveryAttemptCount r' = rt_recoveryAttemptCount r" "rt_hotCapacity r' = rt_hotCapacity r"
    "rt_nextHeartbeatId r' = rt_nextHeartbeatId r" "rt_probes r' = rt_probes r"
    "rt_nextObject r' = rt_nextObject r"
  using arg_cong [OF assms, of rt_core] arg_cong [OF assms, of rt_calls] arg_cong [OF assms, of rt_tabs]
    arg_cong [OF assms, of rt_portTabs] arg_cong [OF assms, of rt_engineRoute] arg_cong [OF assms, of rt_timers]
    arg_cong [OF assms, of rt_nextTimer] arg_cong [OF assms, of rt_activationTimer]
    arg_cong [OF assms, of rt_heartbeatIntervalTimer] arg_cong [OF assms, of rt_heartbeatTimeoutTimer]
    arg_cong [OF assms, of rt_pendingHeartbeat] arg_cong [OF assms, of rt_recoveryRetryTimer]
    arg_cong [OF assms, of rt_microtasks] arg_cong [OF assms, of rt_recoveryAttemptCount]
    arg_cong [OF assms, of rt_hotCapacity] arg_cong [OF assms, of rt_nextHeartbeatId] arg_cong [OF assms, of rt_probes]
    arg_cong [OF assms, of rt_nextObject]
  by (simp_all add: essence_def)

section \<open>Timers\<close>

definition del_opt :: "'k option \<Rightarrow> ('k, 'v) jsmap \<Rightarrow> ('k, 'v) jsmap" where
  "del_opt ko m = (case ko of None \<Rightarrow> m | Some k \<Rightarrow> AList.delete k m)"

lemma map_of_del_opt [simp]: "map_of (del_opt ko m) j = (if ko = Some j then None else map_of m j)"
  by (cases ko) (auto simp: del_opt_def)

lemma clear_eqs:
  "clearActivationTimer r = r\<lparr>rt_timers := del_opt (rt_activationTimer r) (rt_timers r), rt_activationTimer := None\<rparr>"
  "clear_heartbeat_interval r = r\<lparr>rt_timers := del_opt (rt_heartbeatIntervalTimer r) (rt_timers r), rt_heartbeatIntervalTimer := None\<rparr>"
  "clear_heartbeat_timeout r = r\<lparr>rt_timers := del_opt (rt_heartbeatTimeoutTimer r) (rt_timers r), rt_heartbeatTimeoutTimer := None\<rparr>"
  "clearRecoveryRetryTimer r = r\<lparr>rt_timers := del_opt (rt_recoveryRetryTimer r) (rt_timers r), rt_recoveryRetryTimer := None\<rparr>"
  by (simp_all add: clearActivationTimer_def clear_heartbeat_interval_def clear_heartbeat_timeout_def
      clearRecoveryRetryTimer_def clearTimer_def del_opt_def split: option.splits)

lemma clearHeartbeat_eq:
  "clearHeartbeatTimers r =
     r\<lparr>rt_timers := del_opt (rt_heartbeatTimeoutTimer r) (del_opt (rt_heartbeatIntervalTimer r) (rt_timers r)),
       rt_heartbeatIntervalTimer := None, rt_heartbeatTimeoutTimer := None, rt_pendingHeartbeat := None\<rparr>"
  by (simp add: clearHeartbeatTimers_def clear_eqs)

lemma clearEngine_eq:
  "clearEngineWatchdogs r =
     r\<lparr>rt_timers := del_opt (rt_heartbeatTimeoutTimer r) (del_opt (rt_heartbeatIntervalTimer r)
         (del_opt (rt_activationTimer r) (rt_timers r))),
       rt_activationTimer := None, rt_heartbeatIntervalTimer := None, rt_heartbeatTimeoutTimer := None,
       rt_pendingHeartbeat := None\<rparr>"
  by (simp add: clearEngineWatchdogs_def clearHeartbeat_eq clear_eqs)

fun is_startup :: "timer_callback \<Rightarrow> bool" where
  "is_startup (StartupWatchdog _ _ _) = True"
| "is_startup _ = False"

fun is_interval :: "timer_callback \<Rightarrow> bool" where
  "is_interval (HeartbeatInterval _) = True"
| "is_interval _ = False"

fun is_timeout :: "timer_callback \<Rightarrow> bool" where
  "is_timeout (HeartbeatTimeout _ _ _) = True"
| "is_timeout _ = False"

text \<open>A field that holds a timer's number refers to a timer of its own kind, or to one that has fired.\<close>

definition holds :: "nat option \<Rightarrow> (timer_callback \<Rightarrow> bool) \<Rightarrow> router \<Rightarrow> bool" where
  "holds ko kind r \<longleftrightarrow> (\<forall>k. ko = Some k \<longrightarrow> k < rt_nextTimer r \<and>
     (\<forall>x. map_of (rt_timers r) k = Some x \<longrightarrow> kind (fst x)))"

definition timers_ok :: "router \<Rightarrow> bool" where
  "timers_ok r \<longleftrightarrow> (\<forall>k x. map_of (rt_timers r) k = Some x \<longrightarrow> k < rt_nextTimer r) \<and>
     holds (rt_activationTimer r) is_startup r \<and> holds (rt_heartbeatIntervalTimer r) is_interval r \<and>
     holds (rt_heartbeatTimeoutTimer r) is_timeout r \<and> holds (rt_recoveryRetryTimer r) (\<lambda>cb. cb = RecoveryActivate) r"

lemmas timers_defs = timers_ok_def holds_def

definition startup_armed :: "tab_id \<Rightarrow> owner_epoch \<Rightarrow> engine_startup_phase \<Rightarrow> router \<Rightarrow> bool" where
  "startup_armed t e ph r \<longleftrightarrow>
     (\<exists>k ms. rt_activationTimer r = Some k \<and> map_of (rt_timers r) k = Some (StartupWatchdog t e ph, ms))"

definition heartbeat_armed :: "tab_id \<Rightarrow> owner_epoch \<Rightarrow> router \<Rightarrow> bool" where
  "heartbeat_armed t e r \<longleftrightarrow>
     (\<exists>k ms. rt_heartbeatIntervalTimer r = Some k \<and> map_of (rt_timers r) k = Some (HeartbeatInterval e, ms)) \<or>
     (\<exists>k ms hb. rt_heartbeatTimeoutTimer r = Some k \<and> map_of (rt_timers r) k = Some (HeartbeatTimeout t e hb, ms) \<and>
        rt_pendingHeartbeat r = Some (e, hb))"

definition recovery_armed :: "router \<Rightarrow> bool" where
  "recovery_armed r \<longleftrightarrow> 0 < rt_microtasks r \<or> (\<exists>k ms. map_of (rt_timers r) k = Some (RecoveryActivate, ms))"

lemmas armed_defs = startup_armed_def heartbeat_armed_def recovery_armed_def

lemma clears_timers_ok:
  assumes "timers_ok r"
  shows "timers_ok (clearActivationTimer r)" "timers_ok (clearHeartbeatTimers r)" "timers_ok (clearEngineWatchdogs r)"
    "timers_ok (clearRecoveryRetryTimer r)"
  using assms by (auto simp: timers_defs clear_eqs clearHeartbeat_eq clearEngine_eq)

lemma clears_recovery:
  assumes "timers_ok r" "recovery_armed r"
  shows "recovery_armed (clearActivationTimer r)" "recovery_armed (clearHeartbeatTimers r)"
    "recovery_armed (clearEngineWatchdogs r)"
proof -
  have keep: "map_of (rt_timers r) k = Some (RecoveryActivate, ms) \<Longrightarrow>
      rt_activationTimer r \<noteq> Some k \<and> rt_heartbeatIntervalTimer r \<noteq> Some k \<and> rt_heartbeatTimeoutTimer r \<noteq> Some k" for k ms
    using assms(1) by (fastforce simp: timers_defs)
  show "recovery_armed (clearActivationTimer r)" "recovery_armed (clearHeartbeatTimers r)"
    "recovery_armed (clearEngineWatchdogs r)"
    using assms(2) keep by (fastforce simp: recovery_armed_def clear_eqs clearHeartbeat_eq clearEngine_eq)+
qed

text \<open>A new timer has a new number.\<close>

lemma map_of_snoc: "map_of (m @ [(k, v)]) j = (case map_of m j of Some x \<Rightarrow> Some x | None \<Rightarrow> if j = k then Some v else None)"
  by (auto simp: map_add_def split: option.splits)

lemma fresh_timer:
  assumes "timers_ok r"
  shows "map_of (rt_timers r @ [(rt_nextTimer r, x)]) j = (if j = rt_nextTimer r then Some x else map_of (rt_timers r) j)"
proof -
  have "map_of (rt_timers r) (rt_nextTimer r) = None" using assms by (cases "map_of (rt_timers r) (rt_nextTimer r)") (auto simp: timers_ok_def)
  then show ?thesis unfolding map_of_snoc by (auto split: option.splits)
qed

section \<open>The invariant\<close>

definition core_part :: "router \<Rightarrow> router_core \<Rightarrow> bool" where
  "core_part r c \<longleftrightarrow> rt_core r = Some c \<and> core_run (rt_calls r) c \<and> typed_core c"

definition acts_part :: "router_action list \<Rightarrow> router_core \<Rightarrow> bool" where
  "acts_part acts c \<longleftrightarrow> sane (stateValue c) acts \<and> (\<forall>a \<in> set acts. typed_action (currentEpoch c) a)"

definition ports_ok :: "router \<Rightarrow> bool" where
  "ports_ok r \<longleftrightarrow> distinct (map fst (rt_tabs r)) \<and> (\<forall>t cn. map_of (rt_tabs r) t = Some cn \<longrightarrow> cn_id cn < rt_nextObject r) \<and>
     (\<forall>p t. map_of (rt_portTabs r) p = Some t \<longleftrightarrow> (\<exists>cn. map_of (rt_tabs r) t = Some cn \<and> cn_port cn = p))"

definition conn_part :: "router_action list \<Rightarrow> router \<Rightarrow> router_core \<Rightarrow> bool" where
  "conn_part acts r c \<longleftrightarrow> ports_ok r \<and> filter (\<lambda>t. t \<notin> dropped acts) (map fst (rt_tabs r)) = tabs c"

definition route_part :: "router_action list \<Rightarrow> router \<Rightarrow> router_core \<Rightarrow> bool" where
  "route_part acts r c \<longleftrightarrow>
     (\<forall>rt. rt_engineRoute r = Some rt \<longrightarrow>
        owner_of (stateValue c) = Some (er_tab rt, er_epoch rt) \<or> CloseEngineRoute (er_tab rt) (er_epoch rt) \<in> set acts) \<and>
     (\<forall>t e. stateValue c = Active t e \<or> stateValue c = Draining t e \<longrightarrow>
        (\<exists>rt. rt_engineRoute r = Some rt \<and> er_tab rt = t \<and> er_epoch rt = e))"

text \<open>
  The watchdogs. While the readiness of a new owner is handled, or a heartbeat is sent, the heartbeat
  of that owner's epoch (\<open>grace\<close>) is not scheduled yet. Once it is, no recovery attempts are counted.
\<close>

definition watch_part :: "owner_epoch option \<Rightarrow> router_action list \<Rightarrow> router \<Rightarrow> router_core \<Rightarrow> bool" where
  "watch_part grace acts r c \<longleftrightarrow>
     (case stateValue c of
        Activating t e act ph \<Rightarrow>
          ph = LoadingAssets \<and> ElectOwner t e act \<in> set acts \<or> (\<forall>a \<in> set acts. \<not> clears a) \<and> startup_armed t e ph r
      | Active t e \<Rightarrow> (\<forall>a \<in> set acts. \<not> clears a) \<and> (grace = Some e \<or> heartbeat_armed t e r \<and> rt_recoveryAttemptCount r = 0)
      | Draining t e \<Rightarrow> (\<forall>u f. CloseEngineRoute u f \<notin> set acts)
      | ResettingAfterLoss _ _ _ _ _ \<Rightarrow> ScheduleResetActivation \<in> set acts \<or> recovery_armed r
      | _ \<Rightarrow> True)"

fun typed_registration :: "suspended_registration \<Rightarrow> bool" where
  "typed_registration m \<longleftrightarrow> sr_scope m \<noteq> '''' \<and> sr_tab m \<noteq> '''' \<and>
     (case sr_hot m of None \<Rightarrow> True | Some n \<Rightarrow> positive n)"

definition misc_part :: "router \<Rightarrow> bool" where
  "misc_part r \<longleftrightarrow> timers_ok r \<and> rt_recoveryAttemptCount r \<le> RECOVERY_RETRY_LIMIT \<and> 1 \<le> rt_nextHeartbeatId r \<and>
     (case rt_hotCapacity r of None \<Rightarrow> True | Some n \<Rightarrow> positive n) \<and>
     (\<forall>p \<in> set (rt_probes r). typed_registration (snd p))"

text \<open>At most \<open>N\<close> requests were received, fewer than there are route ids.\<close>

definition counted :: "nat \<Rightarrow> core_call list \<Rightarrow> bool" where
  "counted N calls \<longleftrightarrow> request_count calls \<le> N \<and> N < max_safe_integer"

text \<open>Everything but the watchdogs, and all of it.\<close>

definition linked :: "router_action list \<Rightarrow> router \<Rightarrow> router_core \<Rightarrow> bool" where
  "linked acts r c \<longleftrightarrow> core_part r c \<and> acts_part acts c \<and> conn_part acts r c \<and> route_part acts r c \<and> misc_part r"

definition base :: "nat \<Rightarrow> owner_epoch option \<Rightarrow> router_action list \<Rightarrow> router \<Rightarrow> bool" where
  "base N grace acts r \<longleftrightarrow> counted N (rt_calls r) \<and>
     (\<exists>c. linked acts r c \<and> watch_part grace acts r c)"

lemmas part_defs = core_part_def acts_part_def conn_part_def route_part_def misc_part_def

lemma parts_essence:
  assumes "essence r' = essence r"
  shows "linked acts r' c = linked acts r c" "watch_part g acts r' c = watch_part g acts r c"
  using essence_fields [OF assms]
  by (simp_all add: linked_def part_defs ports_ok_def timers_defs watch_part_def armed_defs cong: coordinator_state.case_cong)

lemma base_essence:
  assumes "essence r' = essence r"
  shows "base N g acts r' = base N g acts r"
  by (simp only: base_def parts_essence [OF assms] essence_fields(2) [OF assms])

lemma base_core:
  assumes "base N g acts r"
  obtains c where "rt_core r = Some c" "linked acts r c" "watch_part g acts r c" "core_inv c" "ids_left c"
proof -
  obtain c where c: "linked acts r c" "watch_part g acts r c" "counted N (rt_calls r)" using assms by (auto simp: base_def)
  then have "rt_core r = Some c" "core_run (rt_calls r) c" by (simp_all add: linked_def core_part_def)
  then show ?thesis using that c core_run_inv core_run_ids_left by (metis counted_def le_less_trans)
qed

lemma linked_base:
  "linked acts r c \<Longrightarrow> watch_part g acts r c \<Longrightarrow> counted N (rt_calls r) \<Longrightarrow> base N g acts r"
  by (auto simp: base_def)

lemma linked_inv:
  assumes "linked acts r c" "counted N (rt_calls r)"
  shows "rt_core r = Some c" "core_inv c" "ids_left c" "typed_core c" "core_state r = Some (stateValue c)"
proof -
  have "rt_core r = Some c" "core_run (rt_calls r) c" "typed_core c" using assms(1) by (simp_all add: linked_def core_part_def)
  then show "rt_core r = Some c" "core_inv c" "ids_left c" "typed_core c" "core_state r = Some (stateValue c)"
    using assms(2) core_run_inv core_run_ids_left [of "rt_calls r" c]
    by (auto simp: counted_def core_state_def)
qed

lemma linked_unique: "linked acts r c \<Longrightarrow> rt_core r = Some c"
  by (simp add: linked_def core_part_def)

section \<open>Calls of the core\<close>

lemma typed_action_mono: "typed_action n a \<Longrightarrow> n \<le> m \<Longrightarrow> typed_action m a"
  by (cases a) auto

lemma typed_admissible: "typed_event ev \<Longrightarrow> admissible ev"
  by (cases ev) auto

definition after_call :: "(request_object, jsvalue, jsvalue) core_event \<Rightarrow> router_core \<Rightarrow> router_action list \<Rightarrow> router \<Rightarrow> router" where
  "after_call ev c' as r = r\<lparr>rt_core := Some c', rt_calls := rt_calls r @ [(ev, Ret as)]\<rparr>"

lemma after_call_simps [simp]:
  "rt_core (after_call ev c' as r) = Some c'" "rt_calls (after_call ev c' as r) = rt_calls r @ [(ev, Ret as)]"
  "rt_tabs (after_call ev c' as r) = rt_tabs r" "rt_portTabs (after_call ev c' as r) = rt_portTabs r"
  "rt_engineRoute (after_call ev c' as r) = rt_engineRoute r"
  "rt_recoveryAttemptCount (after_call ev c' as r) = rt_recoveryAttemptCount r"
  "rt_effects (after_call ev c' as r) = rt_effects r"
  "rt_nextHeartbeatId (after_call ev c' as r) = rt_nextHeartbeatId r"
  "rt_microtasks (after_call ev c' as r) = rt_microtasks r" "rt_timers (after_call ev c' as r) = rt_timers r"
  by (simp_all add: after_call_def)

lemma after_call_parts:
  "ports_ok (after_call ev c' as r) = ports_ok r" "misc_part (after_call ev c' as r) = misc_part r"
  "startup_armed t e ph (after_call ev c' as r) = startup_armed t e ph r"
  "heartbeat_armed t e (after_call ev c' as r) = heartbeat_armed t e r"
  "recovery_armed (after_call ev c' as r) = recovery_armed r"
  by (simp_all add: after_call_def ports_ok_def misc_part_def timers_defs armed_defs)

lemma core_call_Ret:
  assumes "rt_core r = Some c" "core_step ev c = (c', Ret as)"
  shows "core_call ev r = (after_call ev c' as r, Ret as)"
  using assms by (simp add: core_call_def after_call_def)

text \<open>The epoch only grows.\<close>

lemma epoch_grows: "core_inv c \<Longrightarrow> core_step ev c = (c', res) \<Longrightarrow> currentEpoch c \<le> currentEpoch c'"
  using core_step_advances [of c ev] by (auto simp: advances_def epochs_advance_def Let_def)

lemma registration_linked:
  assumes L: "core_part r c" "acts_part acts c" "route_part acts r c" "misc_part r" "ports_ok r"
    "map fst (rt_tabs r) = tabs c @ registered_by ev c"
    and inv: "core_inv c" and ids: "ids_left c" and ty: "typed_event ev"
    and s: "core_step ev c = (c', Ret as)" and F: "follows ev c c' as"
    and calm: "calm acts" "acts = [] \<or> calm as"
    and route: "\<And>t e. stateValue c' = Active t e \<Longrightarrow> stateValue c \<noteq> Active t e \<Longrightarrow>
      \<exists>rt. rt_engineRoute r = Some rt \<and> er_tab rt = t \<and> er_epoch rt = e"
  shows "linked (as @ acts) (after_call ev c' as r) c'"
proof -
  have run: "core_run (rt_calls r) c" and tyc: "typed_core c" using L(1) by (simp_all add: core_part_def)
  have "core_run (rt_calls r @ [(ev, Ret as)]) c'"
    by (rule core_run.step [OF run typed_admissible [OF ty] s])
  moreover have res: "typed_result c' as" by (rule core_step_typed [OF inv ids tyc ty s])
  ultimately have "core_part (after_call ev c' as r) c'" by (simp add: core_part_def typed_result_def)
  moreover have "acts_part (as @ acts) c'"
  proof -
    have "typed_action (currentEpoch c') a" if "a \<in> set acts" for a
      using L(2) that epoch_grows [OF inv s] by (auto simp: acts_part_def intro: typed_action_mono)
    moreover have "sane (stateValue c') (as @ acts)"
      using F calm by (auto simp: follows_def intro: sane_calm)
    ultimately show ?thesis using res by (auto simp: acts_part_def typed_result_def)
  qed
  moreover have "conn_part (as @ acts) (after_call ev c' as r) c'"
    using L(5,6) F calm(1) by (simp add: conn_part_def follows_def calm_dropped after_call_parts)
  moreover have "route_part (as @ acts) (after_call ev c' as r) c'"
  proof -
    note R = L(3)
    have drain: "\<exists>rt. rt_engineRoute r = Some rt \<and> er_tab rt = t \<and> er_epoch rt = e" if "stateValue c' = Draining t e" for t e
    proof -
      have "stateValue c = Draining t e \<or> stateValue c = Active t e"
        using F that by (simp add: follows_def phase_follows_def)
      then show ?thesis using R by (auto simp: route_part_def)
    qed
    have act: "\<exists>rt. rt_engineRoute r = Some rt \<and> er_tab rt = t \<and> er_epoch rt = e" if "stateValue c' = Active t e" for t e
      by (cases "stateValue c = Active t e") (use R route [OF that] in \<open>auto simp: route_part_def\<close>)
    have "owner_of (stateValue c') = Some (er_tab rt, er_epoch rt) \<or> CloseEngineRoute (er_tab rt) (er_epoch rt) \<in> set (as @ acts)"
      if "rt_engineRoute r = Some rt" for rt
      using R F that unfolding route_part_def follows_def by auto
    then show ?thesis using drain act by (auto simp: route_part_def)
  qed
  moreover have "misc_part (after_call ev c' as r)" using L(4) by (simp add: after_call_parts)
  ultimately show ?thesis by (simp add: linked_def)
qed

lemma call_linked:
  assumes L: "linked acts r c" and inv: "core_inv c" "ids_left c" "typed_event ev"
    and s: "core_step ev c = (c', Ret as)" "follows ev c c' as"
    and calm: "calm acts" "acts = [] \<or> calm as" and reg: "registered_by ev c = []"
    and route: "\<And>t e. stateValue c' = Active t e \<Longrightarrow> stateValue c \<noteq> Active t e \<Longrightarrow>
      \<exists>rt. rt_engineRoute r = Some rt \<and> er_tab rt = t \<and> er_epoch rt = e"
  shows "linked (as @ acts) (after_call ev c' as r) c'"
  by (rule registration_linked [OF _ _ _ _ _ _ inv s calm route])
    (use L calm(1) reg in \<open>simp_all add: linked_def conn_part_def calm_dropped\<close>)

lemma call_watch:
  assumes W: "watch_part g acts r c" and F: "follows ev c c' as" and calm: "calm acts"
    and "\<And>t e. ev \<noteq> EvBeginEngineOpen t e" and "\<And>t e. stateValue c' = Active t e \<Longrightarrow> stateValue c \<noteq> Active t e \<Longrightarrow> g = Some e"
  shows "watch_part g (as @ acts) (after_call ev c' as r) c'"
proof -
  note ph = conjunct1 [OF conjunct2 [OF conjunct2 [OF conjunct2 [OF F [unfolded follows_def]]]]]
  show ?thesis
  proof (cases "stateValue c'")
    case (Activating t e act phs)
    with ph assms(4) consider "stateValue c = stateValue c'" "\<forall>a \<in> set as. \<not> clears a"
      | "phs = LoadingAssets" "ElectOwner t e act \<in> set as"
      by (auto simp: phase_follows_def)
    then show ?thesis
      by cases (use W Activating calm in \<open>auto simp: watch_part_def after_call_parts calm_def\<close>)
  next
    case (Active t e)
    with ph consider "stateValue c = Active t e" "\<forall>a \<in> set as. \<not> clears a"
      | act rd where "stateValue c = Activating t e act OpeningDatabase" "ev = EvEngineReady rd" "\<forall>a \<in> set as. \<not> clears a"
      by (auto simp: phase_follows_def)
    then show ?thesis
    proof cases
      case 1
      then show ?thesis using W Active by (auto simp: watch_part_def after_call_parts)
    next
      case 2
      then have "g = Some e" "\<forall>a \<in> set acts. \<not> clears a" using W Active assms(5) by (auto simp: watch_part_def)
      then show ?thesis using Active 2 by (auto simp: watch_part_def)
    qed
  next
    case (Draining t e)
    with ph have "stateValue c = Draining t e \<or> stateValue c = Active t e" "\<forall>u f. CloseEngineRoute u f \<notin> set as"
      by (auto simp: phase_follows_def)
    then show ?thesis using W Draining by (fastforce simp: watch_part_def)
  next
    case (ResettingAfterLoss pt pe ne act why)
    with ph have "stateValue c = stateValue c' \<or> ScheduleResetActivation \<in> set as" by (auto simp: phase_follows_def)
    then show ?thesis using W ResettingAfterLoss by (auto simp: watch_part_def after_call_parts)
  qed (simp_all add: watch_part_def)
qed

section \<open>Actions of the core\<close>

lemma linked_cong:
  assumes "linked acts r c" "rt_core r' = rt_core r" "rt_calls r' = rt_calls r" "rt_tabs r' = rt_tabs r"
    "rt_portTabs r' = rt_portTabs r" "rt_engineRoute r' = rt_engineRoute r" "rt_nextObject r' = rt_nextObject r" "misc_part r'"
  shows "linked acts r' c"
  using assms by (simp add: linked_def core_part_def conn_part_def ports_ok_def route_part_def)

lemma misc_clear:
  assumes "misc_part r"
  shows "misc_part (clearActivationTimer r)" "misc_part (clearHeartbeatTimers r)" "misc_part (clearEngineWatchdogs r)"
    "misc_part (clearRecoveryRetryTimer r)"
  using assms clears_timers_ok [of r]
  by (simp_all add: misc_part_def) (simp_all add: clear_eqs clearHeartbeat_eq clearEngine_eq)

lemma linked_clear:
  assumes "linked acts r c"
  shows "linked acts (clearActivationTimer r) c" "linked acts (clearHeartbeatTimers r) c"
    "linked acts (clearEngineWatchdogs r) c" "linked acts (clearRecoveryRetryTimer r) c"
proof -
  have m: "misc_part r" using assms by (simp add: linked_def)
  show "linked acts (clearActivationTimer r) c" by (rule linked_cong [OF assms _ _ _ _ _ _ misc_clear(1) [OF m]]) (simp_all add: clear_eqs)
  show "linked acts (clearHeartbeatTimers r) c" by (rule linked_cong [OF assms _ _ _ _ _ _ misc_clear(2) [OF m]]) (simp_all add: clearHeartbeat_eq)
  show "linked acts (clearEngineWatchdogs r) c" by (rule linked_cong [OF assms _ _ _ _ _ _ misc_clear(3) [OF m]]) (simp_all add: clearEngine_eq)
  show "linked acts (clearRecoveryRetryTimer r) c" by (rule linked_cong [OF assms _ _ _ _ _ _ misc_clear(4) [OF m]]) (simp_all add: clear_eqs)
qed

lemma linked_timers: "linked acts r c \<Longrightarrow> timers_ok r"
  by (simp add: linked_def misc_part_def)

text \<open>An action that is carried out without touching the invariant's fields.\<close>

lemma linked_tail:
  assumes "linked (a # acts) r c" "drops a = None" "\<And>t e. a \<noteq> CloseEngineRoute t e"
  shows "linked acts r c"
  using assms by (auto simp: linked_def acts_part_def conn_part_def route_part_def dest: sane_tail)

lemma watch_tail:
  assumes "watch_part g (a # acts) r c" "\<not> elects a" "a \<noteq> ScheduleResetActivation"
  shows "watch_part g acts r c"
  using assms by (auto simp: watch_part_def split: coordinator_state.splits)

lemma base_tail:
  assumes "base N g (a # acts) r" "drops a = None" "\<not> clears a" "a \<noteq> ScheduleResetActivation" "essence r' = essence r"
  shows "base N g acts r'"
proof -
  have "\<not> elects a" "\<And>t e. a \<noteq> CloseEngineRoute t e" using assms(3) by (cases a; simp)+
  then have "base N g acts r" using assms linked_tail watch_tail unfolding base_def by blast
  then show ?thesis using base_essence [OF assms(5)] by simp
qed

text \<open>The startup watchdog\<close>

lemma arm_essence:
  assumes "core_state r = Some (Activating t' e' act ph)"
  shows "essence (armStartupWatchdog opts t e r) = essence (r\<lparr>rt_timers := del_opt (rt_activationTimer r) (rt_timers r) @
      [(rt_nextTimer r, (StartupWatchdog t e ph, if ph = LoadingAssets then ro_assetLoadTimeoutMs opts else ro_activationTimeoutMs opts))],
    rt_nextTimer := rt_nextTimer r + 1, rt_activationTimer := Some (rt_nextTimer r)\<rparr>)"
proof -
  let ?r1 = "clearActivationTimer r"
  have st: "core_state ?r1 = Some (Activating t' e' act ph)" using assms by (simp add: clear_eqs core_state_def)
  let ?r2 = "\<lambda>ms. broadcast (EngineStartupEnv e' ph act ms) ?r1"
  have fields: "rt_timers (?r2 ms) = rt_timers ?r1" "rt_nextTimer (?r2 ms) = rt_nextTimer ?r1" for ms
    by (intro essence_fields; simp)+
  have "essence (?r2 ms\<lparr>rt_timers := a, rt_nextTimer := b, rt_activationTimer := d\<rparr>) =
      (essence (?r2 ms))\<lparr>rt_timers := a, rt_nextTimer := b, rt_activationTimer := d\<rparr>" for a b d ms
    by (simp add: essence_def)
  then show ?thesis using st
    by (simp add: armStartupWatchdog_def startupProgress_def Let_def setTimer_def fields) (simp add: clear_eqs essence_def)
qed

lemma arm_facts:
  assumes L: "linked acts r c" and st: "stateValue c = Activating t' e' act ph"
  shows "linked acts (armStartupWatchdog opts t e r) c" "startup_armed t e ph (armStartupWatchdog opts t e r)"
    "rt_calls (armStartupWatchdog opts t e r) = rt_calls r"
proof -
  let ?ms = "if ph = LoadingAssets then ro_assetLoadTimeoutMs opts else ro_activationTimeoutMs opts"
  define r' where "r' = r\<lparr>rt_timers := del_opt (rt_activationTimer r) (rt_timers r) @ [(rt_nextTimer r, (StartupWatchdog t e ph, ?ms))],
    rt_nextTimer := rt_nextTimer r + 1, rt_activationTimer := Some (rt_nextTimer r)\<rparr>"
  have "core_state r = Some (Activating t' e' act ph)" using L st by (simp add: linked_def core_part_def core_state_def)
  from arm_essence [OF this] have ess: "essence (armStartupWatchdog opts t e r) = essence r'" by (simp add: r'_def)
  note tm = linked_timers [OF linked_clear(1) [OF L]]
  have new: "map_of (rt_timers r') j = (if j = rt_nextTimer r then Some (StartupWatchdog t e ph, ?ms) else map_of (rt_timers (clearActivationTimer r)) j)" for j
    using fresh_timer [OF tm] by (simp add: r'_def clear_eqs)
  have tk: "timers_ok r'"
    using tm unfolding timers_defs new by (auto simp: r'_def clear_eqs less_SucI)
  then have "misc_part r'" using L by (simp add: linked_def misc_part_def) (simp add: r'_def)
  then have "linked acts r' c" by (intro linked_cong [OF L]) (simp_all add: r'_def)
  then show "linked acts (armStartupWatchdog opts t e r) c" unfolding parts_essence(1) [OF ess] .
  show "startup_armed t e ph (armStartupWatchdog opts t e r)"
    unfolding startup_armed_def essence_fields(6,8) [OF ess] new by (simp add: r'_def)
  show "rt_calls (armStartupWatchdog opts t e r) = rt_calls r"
    unfolding essence_fields(2) [OF ess] by (simp add: r'_def)
qed

lemma elect_base:
  assumes "base N g (ElectOwner t e act # acts) r"
  shows "base N g acts (elect_owner opts t e act r)"
proof -
  obtain c where c: "linked (ElectOwner t e act # acts) r c" "counted N (rt_calls r)"
    using assms by (auto simp: base_def)
  have st: "stateValue c = Activating t e act LoadingAssets" and acts: "acts = []"
    using c(1) sane_election by (auto simp: linked_def acts_part_def)
  define r1 where "r1 = tell (owner_event ''success'' (Some ''elected'')) ((clearEngineWatchdogs r)
    \<lparr>rt_activationStarted := AList.update e (rt_now (clearEngineWatchdogs r)) (rt_activationStarted (clearEngineWatchdogs r))\<rparr>)"
  define r2 where "r2 = (if act = WipeBeforeOpen
     then r1\<lparr>rt_pendingRecoveryResetEpochs := AList.update e
            (or_string (rt_nextRecoveryResetReason r1) ''abrupt-owner-loss'') (rt_pendingRecoveryResetEpochs r1),
          rt_nextRecoveryResetReason := None\<rparr> else r1)"
  have "essence r2 = essence (clearEngineWatchdogs r)" by (simp add: r2_def r1_def)
  moreover have "linked [] (clearEngineWatchdogs r) c"
    using linked_clear(3) [OF linked_tail [OF c(1)]] acts by simp
  ultimately have L: "linked [] r2 c" using parts_essence(1) by blast
  have calls: "rt_calls r2 = rt_calls r" by (simp add: r2_def r1_def tell_def emit_def clearEngine_eq)
  note arm = arm_facts [OF L st, where t = t and e = e and opts = opts]
  have eq: "elect_owner opts t e act r = postToTab t (BecomeOwnerEnv (scope_of (armStartupWatchdog opts t e r2)) t e act
      (databaseOwnerLockName (scope_of (armStartupWatchdog opts t e r2))) (rt_hotCapacity (armStartupWatchdog opts t e r2)))
      (armStartupWatchdog opts t e r2)"
    by (simp add: elect_owner_def r2_def r1_def Let_def)
  have "base N g [] (armStartupWatchdog opts t e r2)"
    using arm c(2) calls st by (auto intro!: linked_base simp: watch_part_def)
  then show ?thesis unfolding eq acts using base_essence essence_ops(5) by blast
qed

lemma close_base:
  assumes "base N g (CloseEngineRoute t e # acts) r"
  shows "base N g acts (close_engine_route t e r)"
proof -
  obtain c where c: "linked (CloseEngineRoute t e # acts) r c" "watch_part g (CloseEngineRoute t e # acts) r c"
    and cnt: "counted N (rt_calls r)" using assms by (auto simp: base_def)
  let ?r1 = "clearEngineWatchdogs r"
  define r2 where "r2 = (if \<exists>rt. rt_engineRoute r = Some rt \<and> er_tab rt = t \<and> er_epoch rt = e
    then ?r1\<lparr>rt_engineRoute := None\<rparr> else ?r1)"
  have ess: "essence (close_engine_route t e r) = essence r2"
    by (auto simp: close_engine_route_def Let_def r2_def clearEngine_eq split: option.splits)
  have no: "\<not> (stateValue c = Active u f \<or> stateValue c = Draining u f)" for u f using c(2) by (cases "stateValue c") (auto simp: watch_part_def)
  have L: "linked (CloseEngineRoute t e # acts) ?r1 c" by (rule linked_clear(3) [OF c(1)])
  have ro: "rt_engineRoute ?r1 = rt_engineRoute r" by (simp add: clearEngine_eq)
  have "acts_part acts c" using L by (auto simp: linked_def acts_part_def dest: sane_tail)
  moreover have "core_part r2 c" "conn_part acts r2 c" "misc_part r2"
    using L by (auto simp: linked_def r2_def core_part_def conn_part_def ports_ok_def misc_part_def timers_defs)
  moreover have "route_part acts r2 c"
  proof -
    have "owner_of (stateValue c) = Some (er_tab rt, er_epoch rt) \<or> CloseEngineRoute (er_tab rt) (er_epoch rt) \<in> set acts"
      if "rt_engineRoute r2 = Some rt" for rt
    proof -
      have rt: "rt_engineRoute r = Some rt" "\<not> (er_tab rt = t \<and> er_epoch rt = e)"
        using that ro by (auto simp: r2_def split: if_splits)
      then show ?thesis using L ro by (auto simp: linked_def route_part_def)
    qed
    then show ?thesis using no by (auto simp: route_part_def)
  qed
  ultimately have "linked acts r2 c" by (simp add: linked_def)
  moreover have "watch_part g acts r2 c"
  proof -
    have "recovery_armed r \<Longrightarrow> recovery_armed r2"
      using clears_recovery(3) [OF linked_timers [OF c(1)]] by (auto simp: r2_def recovery_armed_def)
    then show ?thesis using c(2) no by (auto simp: watch_part_def split: coordinator_state.splits)
  qed
  moreover have "rt_calls r2 = rt_calls r" by (auto simp: r2_def clearEngine_eq)
  ultimately have "base N g acts r2" using cnt linked_base by metis
  then show ?thesis using base_essence [OF ess] by simp
qed

text \<open>Dropping a tab\<close>

lemma keys_delete: "map fst (AList.delete k m) = filter (\<lambda>x. x \<noteq> k) (map fst m)"
  by (induction m) auto

lemma remove_ports:
  assumes P: "ports_ok r" and cn: "map_of (rt_tabs r) t = Some cn"
    and r': "rt_tabs r' = AList.delete t (rt_tabs r)" "rt_portTabs r' = AList.delete (cn_port cn) (rt_portTabs r)"
      "rt_nextObject r' = rt_nextObject r"
  shows "ports_ok r'"
proof -
  have link: "map_of (rt_portTabs r) p = Some u \<longleftrightarrow> (\<exists>cn. map_of (rt_tabs r) u = Some cn \<and> cn_port cn = p)" for p u
    using P by (simp add: ports_ok_def)
  have own: "map_of (rt_portTabs r) (cn_port cn) = Some t" using link cn by blast
  have "map_of (rt_portTabs r') p = Some u \<longleftrightarrow> (\<exists>cn'. map_of (rt_tabs r') u = Some cn' \<and> cn_port cn' = p)" for p u
  proof (cases "p = cn_port cn")
    case True
    then show ?thesis using link [of p u] own by (auto simp: r')
  next
    case False
    then show ?thesis using link [of p u] cn by (auto simp: r')
  qed
  then show ?thesis using P by (simp add: ports_ok_def r' keys_delete)
qed

lemma drop_base:
  assumes "base N g (a # acts) r" "drops a = Some t"
  shows "base N g acts (removeTabConnection t r)"
proof -
  obtain c where c: "linked (a # acts) r c" "watch_part g (a # acts) r c"
    and cnt: "counted N (rt_calls r)" using assms(1) by (auto simp: base_def)
  have a: "\<not> elects a" "a \<noteq> ScheduleResetActivation" "\<And>u f. a \<noteq> CloseEngineRoute u f" using assms(2) by (cases a; simp)+
  define r2 where "r2 = (case map_of (rt_tabs r) t of None \<Rightarrow> r | Some cn \<Rightarrow> r\<lparr>rt_tabs := AList.delete t (rt_tabs r),
     rt_portTabs := AList.delete (cn_port cn) (rt_portTabs r)\<rparr>)"
  have ess: "essence (removeTabConnection t r) = essence r2"
    by (simp add: removeTabConnection_def r2_def split: option.splits)
  have keys: "map fst (rt_tabs r2) = filter (\<lambda>x. x \<noteq> t) (map fst (rt_tabs r))"
  proof (cases "map_of (rt_tabs r) t")
    case None
    then have "t \<notin> set (map fst (rt_tabs r))" by (auto simp: map_of_eq_None_iff)
    then show ?thesis using None by (auto simp: r2_def intro!: filter_True [symmetric])
  qed (simp add: r2_def keys_delete)
  have "ports_ok r2"
  proof (cases "map_of (rt_tabs r) t")
    case None
    then show ?thesis using c(1) by (simp add: r2_def linked_def conn_part_def)
  next
    case (Some cn)
    show ?thesis by (rule remove_ports [where r = r]) (use c(1) Some in \<open>auto simp: r2_def linked_def conn_part_def\<close>)
  qed
  moreover have "filter (\<lambda>u. u \<notin> dropped acts) (map fst (rt_tabs r2)) = tabs c"
    using c(1) assms(2) unfolding keys by (auto simp: linked_def conn_part_def conj_commute cong: conj_cong)
  ultimately have "conn_part acts r2 c" by (simp add: conn_part_def)
  moreover have "core_part r2 c" "acts_part acts c" "route_part acts r2 c" "misc_part r2"
    using c(1) a by (auto simp: r2_def linked_def part_defs timers_defs dest: sane_tail split: option.splits)
  ultimately have "linked acts r2 c" by (simp add: linked_def)
  moreover have "watch_part g acts r2 c"
    using watch_tail [OF c(2) a(1,2)]
    by (auto simp: r2_def watch_part_def armed_defs split: option.splits coordinator_state.splits)
  moreover have "rt_calls r2 = rt_calls r" by (simp add: r2_def split: option.splits)
  ultimately have "base N g acts r2" using cnt linked_base by metis
  then show ?thesis using base_essence [OF ess] by simp
qed

lemma plain_base:
  assumes B: "base N g (a # acts) r" and rank: "rank a = 1"
  shows "base N g acts (perform opts a r)"
proof (cases "clears a \<or> drops a \<noteq> None")
  case False
  have "essence (perform opts a r) = essence r" using rank False
    by (cases a) (simp_all add: perform_def)
  then show ?thesis using False rank by (intro base_tail [OF B]) (cases a; simp)+
next
  case True
  then consider t e act where "a = ElectOwner t e act" | t e where "a = CloseEngineRoute t e" | t where "a = DropTab t"
    | t e where "a = RetireTab t e" using rank by (cases a) auto
  then show ?thesis
  proof cases
    case (4 t e)
    have "base N g (a # acts) (postToTab t (RetireCompleteEnv t e) r)" using B base_essence essence_ops(5) by blast
    then show ?thesis using 4 drop_base by (auto simp: perform_def)
  qed (use B elect_base close_base drop_base in \<open>auto simp: perform_def\<close>)
qed

section \<open>The invariant through the recursion\<close>

lemma request_category: "isCacheRequest (JObject (request_body req)) \<Longrightarrow> is_ret (category_of (RouteRequest ot t e rid req))"
proof -
  assume "isCacheRequest (JObject (request_body req))"
  then obtain k p where k: "get (JObject (request_body req)) ''kind'' = JString k" "map_of request_kinds k = Some p"
    by (auto simp: isCacheRequest_def split: jsvalue.splits option.splits)
  have "k \<in> set (map fst request_kinds)" using k(2) by (force dest: map_of_SomeD)
  then have "is_ret (operationCategoryForRequest k)" by (auto simp: request_kinds_def operationCategoryForRequest_def)
  moreover have "the_string (get (encode_request req) ''kind'') = k"
    unfolding encode_request_def get_with_field using k(1) by simp
  ultimately show ?thesis by simp
qed

lemma routing_facts:
  assumes "base N g (a # acts) r" "routing a"
  shows "is_ret (category_of a)" "calm acts"
proof -
  obtain c :: router_core where c: "sane (stateValue c) (a # acts)" "typed_action (currentEpoch c) a"
    using assms(1) by (auto simp: base_def linked_def acts_part_def)
  show "calm acts" by (rule sane_elect_calm [OF c(1) assms(2)])
  show "is_ret (category_of a)"
  proof (cases a)
    case (RouteRequest ot t e rid req)
    then show ?thesis using c(2) request_category [of req ot t e rid] by simp
  qed (use assms(2) in simp_all)
qed

lemma noted_base:
  assumes B: "base N g (a # acts) r" and a: "routing a"
  shows "base N g acts (note_routing a category r)"
proof (cases a)
  case (RouteRequest ot t e rid req)
  then show ?thesis by (intro base_tail [OF B]) simp_all
next
  case (DrainOwner t e)
  obtain c where c: "linked (a # acts) r c" "watch_part g (a # acts) r c"
    and cnt: "counted N (rt_calls r)" using B by (auto simp: base_def)
  let ?r0 = "tell (owner_event ''graceful'' (Some ''graceful-drain-started'')) r"
  have L0: "linked (a # acts) ?r0 c" and W0: "watch_part g (a # acts) ?r0 c"
    using c unfolding parts_essence [OF essence_simps(8)] .
  have L: "linked acts (clearHeartbeatTimers ?r0) c"
    by (rule linked_clear(2), rule linked_tail [OF L0]) (simp_all add: DrainOwner)
  have W: "watch_part g acts ?r0 c" by (rule watch_tail [OF W0]) (simp_all add: DrainOwner)
  have st: "\<not> (\<exists>u f. stateValue c = Active u f)" using c(2) DrainOwner by (auto simp: watch_part_def)
  have act: "stateValue c = Activating u f act ph \<Longrightarrow> ph = LoadingAssets \<and> ElectOwner u f act \<in> set acts" for u f act ph
    using c(2) DrainOwner by (auto simp: watch_part_def)
  have "watch_part g acts (clearHeartbeatTimers ?r0) c"
    using W st act clears_recovery(2) [OF linked_timers [OF L0]]
    by (cases "stateValue c") (auto simp: watch_part_def)
  moreover have "rt_calls (clearHeartbeatTimers ?r0) = rt_calls r" by (simp add: clearHeartbeat_eq tell_def emit_def)
  ultimately have "base N g acts (clearHeartbeatTimers ?r0)" using L cnt by (intro linked_base) simp_all
  then show ?thesis using DrainOwner by simp
qed (use a in simp_all)

lemma ownerLost_result:
  assumes inv: "core_inv c" and s: "core_step (EvOwnerLost t e why) c = (c', Ret as)"
  shows "calm as" "as \<noteq> [] \<Longrightarrow> ScheduleResetActivation \<in> set as \<and> (\<exists>pt pe ne act. stateValue c' = ResettingAfterLoss pt pe ne act why)"
proof -
  have "calm as \<and> (as \<noteq> [] \<longrightarrow> ScheduleResetActivation \<in> set as \<and> (\<exists>pt pe ne act. stateValue c' = ResettingAfterLoss pt pe ne act why))"
  proof (cases "owner_of (stateValue c) = Some (t, e)")
    case True
    show ?thesis using s by (auto simp: ownerLost_def abrupt_loss_eq [OF inv True])
  next
    case False
    then show ?thesis using s by (auto simp: ownerLost_def transitionToAbruptLoss_def)
  qed
  then show "calm as" "as \<noteq> [] \<Longrightarrow> ScheduleResetActivation \<in> set as \<and> (\<exists>pt pe ne act. stateValue c' = ResettingAfterLoss pt pe ne act why)"
    by auto
qed

text \<open>The bookkeeping around a loss clears the watchdogs and nothing else that matters.\<close>

lemma clear_essence: "essence (clearEngineWatchdogs r) = clearEngineWatchdogs (essence r)"
  by (simp add: clearEngine_eq essence_def)

lemma note_owner_loss_essence: "essence (note_owner_loss t e why fc gc r) = essence (clearEngineWatchdogs r)"
  by (simp add: note_owner_loss_def Let_def clear_essence)

lemma loss_linked:
  assumes L: "linked acts r c" and cnt: "counted N (rt_calls r)" and calm: "calm acts" and why: "why \<noteq> []"
    and s: "core_step (EvOwnerLost t e why) c = (c', Ret las)"
  shows "linked (las @ acts) (after_call (EvOwnerLost t e why) c' las r) c'"
    "counted N (rt_calls (after_call (EvOwnerLost t e why) c' las r))"
proof -
  note I = linked_inv [OF L cnt]
  have F: "follows (EvOwnerLost t e why) c c' las" by (rule core_step_follows [OF I(2,3) s]) simp
  show "linked (las @ acts) (after_call (EvOwnerLost t e why) c' las r) c'"
    by (rule call_linked [OF L I(2,3) _ s F calm])
      (use why ownerLost_result [OF I(2) s] F in \<open>auto simp: follows_def phase_follows_def\<close>)
  show "counted N (rt_calls (after_call (EvOwnerLost t e why) c' las r))"
    using cnt by (simp add: counted_def request_count_def)
qed

text \<open>A loss that has actions owes no watchdog, whatever was armed before.\<close>

lemma loss_base:
  assumes L: "linked acts r c" and cnt: "counted N (rt_calls r)" and calm: "calm acts" and why: "why \<noteq> []"
    and s: "core_step (EvOwnerLost t e why) c = (c', Ret las)" "las \<noteq> []"
  shows "base N g (las @ acts) (note_owner_loss t e why fc gc (after_call (EvOwnerLost t e why) c' las r))"
proof -
  let ?r1 = "after_call (EvOwnerLost t e why) c' las r"
  note L1 = loss_linked [OF L cnt calm why s(1)]
  have "watch_part g (las @ acts) (clearEngineWatchdogs ?r1) c'"
    using ownerLost_result(2) [OF linked_inv(2) [OF L cnt] s] by (auto simp: watch_part_def)
  moreover have "rt_calls (clearEngineWatchdogs ?r1) = rt_calls ?r1" by (simp add: clearEngine_eq)
  ultimately have "base N g (las @ acts) (clearEngineWatchdogs ?r1)"
    using linked_clear(3) [OF L1(1)] L1(2) linked_base by metis
  then show ?thesis using base_essence [OF note_owner_loss_essence] by blast
qed

lemma lost_base:
  assumes B: "base N g acts r" and calm: "calm acts" and why: "why \<noteq> []"
  shows "\<exists>r1 las. core_call (EvOwnerLost t e why) r = (r1, Ret las) \<and>
    (if las = [] then base N g acts r1 else base N g (las @ acts) (note_owner_loss t e why fc gc r1))"
proof -
  obtain c where c: "rt_core r = Some c" "linked acts r c" "watch_part g acts r c" "core_inv c" "ids_left c"
    by (rule base_core [OF B])
  have cnt: "counted N (rt_calls r)" using B by (simp add: base_def)
  obtain c' and las :: "router_action list" where s: "core_step (EvOwnerLost t e why) c = (c', Ret las)"
    using core_step_ret [OF c(4,5), of "EvOwnerLost t e why"] by (metis is_retE surjective_pairing)
  note L1 = loss_linked [OF c(2) cnt calm why s]
  have F: "follows (EvOwnerLost t e why) c c' las" by (rule core_step_follows [OF c(4,5) s]) simp
  have "watch_part g (las @ acts) (after_call (EvOwnerLost t e why) c' las r) c'"
    by (rule call_watch [OF c(3) F calm]) (use F in \<open>auto simp: follows_def phase_follows_def\<close>)
  then have "base N g acts (after_call (EvOwnerLost t e why) c' las r)" if "las = []"
    using linked_base [OF L1(1) _ L1(2)] that by simp
  then show ?thesis using core_call_Ret [OF c(1) s] loss_base [OF c(2) cnt calm why s] by auto
qed

lemma unscheduled_base:
  assumes B: "base N g (ScheduleResetActivation # acts) r"
    and st: "\<And>pt pe ne act why. core_state r \<noteq> Some (ResettingAfterLoss pt pe ne act why)"
  shows "base N g acts r"
proof -
  obtain c where c: "rt_core r = Some c" "linked (ScheduleResetActivation # acts) r c"
    "watch_part g (ScheduleResetActivation # acts) r c" by (rule base_core [OF B])
  have "watch_part g acts r c" using c(1,3) st by (auto simp: watch_part_def core_state_def split: coordinator_state.splits)
  then show ?thesis using B linked_tail [OF c(2)] by (auto simp: base_def)
qed

lemma scheduled_base:
  assumes B: "base N g (ScheduleResetActivation # acts) r"
    and st: "core_state r = Some (ResettingAfterLoss pt pe ne act why)"
    and limit: "rt_recoveryAttemptCount r < RECOVERY_RETRY_LIMIT"
  shows "base N g acts (queue_activation opts r)"
proof -
  obtain c where c: "rt_core r = Some c" "linked (ScheduleResetActivation # acts) r c" by (rule base_core [OF B])
  have L: "linked acts r c" by (rule linked_tail [OF c(2)]) simp_all
  let ?r = "queue_activation opts r"
  note tm = linked_timers [OF L]
  have q: "?r = (if rt_recoveryAttemptCount r = 0 then r\<lparr>rt_recoveryAttemptCount := 1, rt_microtasks := rt_microtasks r + 1\<rparr>
     else r\<lparr>rt_recoveryAttemptCount := rt_recoveryAttemptCount r + 1,
       rt_timers := rt_timers r @ [(rt_nextTimer r, (RecoveryActivate, ro_recoveryRetryDelayMs opts (rt_recoveryAttemptCount r)))],
       rt_nextTimer := rt_nextTimer r + 1, rt_recoveryRetryTimer := Some (rt_nextTimer r)\<rparr>)"
    by (simp add: queue_activation_def setTimer_def Let_def)
  have "timers_ok ?r" using tm unfolding q timers_defs by (auto simp: fresh_timer [OF tm] less_SucI split: if_splits)
  then have "misc_part ?r" using L limit unfolding linked_def misc_part_def by (simp add: q)
  then have "linked acts ?r c" by (intro linked_cong [OF L]) (simp_all add: q)
  moreover have "recovery_armed ?r"
    unfolding recovery_armed_def q by (auto simp: fresh_timer [OF tm] simp del: map_of_append)
  moreover have "stateValue c = ResettingAfterLoss pt pe ne act why" using st c(1) by (simp add: core_state_def)
  ultimately show ?thesis using B linked_base [of acts ?r c g] by (auto simp: watch_part_def base_def q)
qed

lemma given_up_base:
  assumes B: "base N g (ScheduleResetActivation # acts) r"
    and st: "core_state r = Some (ResettingAfterLoss pt pe ne act why)"
  shows "\<exists>r1 tas. core_call (EvTerminalFailure (give_up_text why)) (clearRecoveryRetryTimer r) = (r1, Ret tas) \<and> base N g (tas @ acts) r1"
proof -
  obtain c where c: "rt_core r = Some c" "linked (ScheduleResetActivation # acts) r c" "core_inv c" "ids_left c"
    by (rule base_core [OF B])
  have L: "linked acts (clearRecoveryRetryTimer r) c" by (rule linked_clear(4)) (rule linked_tail [OF c(2)], simp_all)
  have st: "stateValue c = ResettingAfterLoss pt pe ne act why" using st c(1) by (simp add: core_state_def)
  let ?ev = "EvTerminalFailure (give_up_text why)"
  define c' where "c' = c\<lparr>queuedRequests := [], inFlight := [], stateValue := Failed (give_up_text why) (act = OpenExisting)\<rparr>"
  define tas :: "router_action list" where "tas = [TerminalFailure (give_up_text why) (act = OpenExisting)]"
  have s: "core_step ?ev c = (c', Ret tas)"
    using st by (cases act) (simp_all add: terminalFailure_def return_checked_def assertInvariants_def c'_def tas_def)
  let ?r = "after_call ?ev c' tas (clearRecoveryRetryTimer r)"
  have run: "core_run (rt_calls ?r) c'"
    using core_run.step [OF _ _ s, of "rt_calls r"] c(2) by (simp add: linked_def core_part_def clear_eqs)
  have sane: "sane (ResettingAfterLoss pt pe ne act why) (ScheduleResetActivation # acts)"
    using c(2) st by (simp add: linked_def acts_part_def)
  then have "ElectOwner t e a \<notin> set acts" for t e a by (auto simp: sane_def)
  then have "sane (stateValue c') (tas @ acts)" using sane by (auto simp: sane_def tas_def)
  then have "linked (tas @ acts) ?r c'"
    using L run
    by (auto simp: linked_def core_part_def acts_part_def conn_part_def route_part_def after_call_parts typed_core_def
        tas_def c'_def st)
  moreover have "counted N (rt_calls ?r)" using B by (simp add: base_def counted_def request_count_def clear_eqs)
  moreover have "watch_part g (tas @ acts) ?r c'" by (simp add: watch_part_def c'_def)
  ultimately have "base N g (tas @ acts) ?r" by (intro linked_base)
  then show ?thesis using core_call_Ret [OF _ s, of "clearRecoveryRetryTimer r"] c(1) by (auto simp: clear_eqs)
qed

interpretation base_inv: router_invariant opts "base N g" for opts N g
proof
  fix a acts r
  assume B: "base N g (a # acts) r"
  show "rank a = 1 \<Longrightarrow> base N g acts (perform opts a r)" by (rule plain_base [OF B])
  assume a: "routing a"
  show "is_ret (category_of a)" "calm acts" by (rule routing_facts [OF B a])+
  show "base N g acts (note_routing a category r)" for category by (rule noted_base [OF B a])
  show "base N g acts (emit (SendEngine (er_id rt) (message_of a)) (note_routing a category r))" for rt category
    unfolding base_essence [OF essence_simps(7)] by (rule noted_base [OF B a])
qed (rule lost_base unscheduled_base scheduled_base given_up_base; assumption)+

end
