(* ===== verification/RouterObserver.thy ===== *)
theory RouterObserver
  imports RouterInvariant
begin

text \<open>
  Properties of what the router sends, as observers of its state (locale \<open>router_observer\<close>): an
  observer follows the posts to the tabs, the messages to the engine and the calls of the core
  through the actions that are still to be carried out. Its laws concern one post, one send or one
  call at a time; the locale carries them through every task of the router.
\<close>

section \<open>What is sent\<close>

fun post_of :: "router_effect \<Rightarrow> (port \<times> coordinator_to_tab) list" where
  "post_of (PostTab p msg) = [(p, msg)]"
| "post_of _ = []"

fun send_of :: "router_effect \<Rightarrow> (nat \<times> coordinator_to_engine) list" where
  "send_of (SendEngine k msg) = [(k, msg)]"
| "send_of _ = []"

definition posts :: "router \<Rightarrow> (port \<times> coordinator_to_tab) list" where
  "posts r = concat (map post_of (rt_effects r))"

definition sends :: "router \<Rightarrow> (nat \<times> coordinator_to_engine) list" where
  "sends r = concat (map send_of (rt_effects r))"

definition view where
  "view r = (rt_core r, rt_calls r, rt_tabs r, rt_portTabs r, rt_engineRoute r, rt_nextObject r, rt_nextHeartbeatId r,
     rt_recoveryAttemptCount r, posts r, sends r)"

lemma view_simps [simp]:
  "view (r\<lparr>rt_hotCapacity := a1\<rparr>) = view r" "view (r\<lparr>rt_pendingRegistrations := a2\<rparr>) = view r"
  "view (r\<lparr>rt_cancelledRegistrations := a3\<rparr>) = view r" "view (r\<lparr>rt_activationTimer := a4\<rparr>) = view r"
  "view (r\<lparr>rt_heartbeatIntervalTimer := a5\<rparr>) = view r" "view (r\<lparr>rt_heartbeatTimeoutTimer := a5\<rparr>) = view r"
  "view (r\<lparr>rt_pendingHeartbeat := a6\<rparr>) = view r" "view (r\<lparr>rt_routeStarted := a7\<rparr>) = view r"
  "view (r\<lparr>rt_activationStarted := a8\<rparr>) = view r" "view (r\<lparr>rt_pendingRecoveryResetEpochs := a9\<rparr>) = view r"
  "view (r\<lparr>rt_nextRecoveryResetReason := b1\<rparr>) = view r" "view (r\<lparr>rt_resetRequiredEpochs := b2\<rparr>) = view r"
  "view (r\<lparr>rt_recoveryRetryTimer := b4\<rparr>) = view r"
  "view (r\<lparr>rt_timers := b5\<rparr>) = view r" "view (r\<lparr>rt_nextTimer := b6\<rparr>) = view r"
  "view (r\<lparr>rt_microtasks := b7\<rparr>) = view r" "view (r\<lparr>rt_probes := b8\<rparr>) = view r" "view (r\<lparr>rt_now := b9\<rparr>) = view r"
  "view (tell ob r) = view r" "post_of ef = [] \<Longrightarrow> send_of ef = [] \<Longrightarrow> view (emit ef r) = view r"
  by (simp_all add: view_def posts_def sends_def tell_def emit_def)

lemma view_fold: "(\<And>x r. view (f x r) = view r) \<Longrightarrow> view (fold f xs r) = view r"
  by (induction xs arbitrary: r) simp_all

lemma view_ops [simp]:
  "view (drop_route_timings e r) = view r"
  "view (recordStorageResetRequired e why out r) = view r"
  "view (recordLogicalResetAndWipe why out' b r) = view r"
  "view (snd (recordPendingResetFailure e why gc r)) = view r"
  "view (clearActivationTimer r) = view r" "view (clearHeartbeatTimers r) = view r"
  "view (clear_heartbeat_timeout r) = view r"
  "view (clearEngineWatchdogs r) = view r" "view (clearRecoveryRetryTimer r) = view r"
  "view (scheduleHeartbeat opts e r) = view r" "view (clearTimer k r) = view r"
  by (simp_all add: drop_route_timings_def view_fold recordStorageResetRequired_def recordLogicalResetAndWipe_def
      recordPendingResetFailure_def clear_eqs clearHeartbeat_eq clearEngine_eq
      scheduleHeartbeat_def setTimer_def clearTimer_def Let_def split: option.splits)

text \<open>The attempts are counted when a recovery is queued, and reset when an engine serves.\<close>

lemma view_counts:
  "view (queue_activation opts r) = view (r\<lparr>rt_recoveryAttemptCount := rt_recoveryAttemptCount r + 1\<rparr>)"
  "view (resetRecoveryRetries r) = view (r\<lparr>rt_recoveryAttemptCount := 0\<rparr>)"
  by (simp_all add: queue_activation_def resetRecoveryRetries_def setTimer_def Let_def)

lemma view_note_reset [simp]: "view (note_reset_reason e why fc gc r) = view r"
proof -
  obtain x r1 where x: "recordPendingResetFailure e why gc r = (x, r1)" by fastforce
  then have "view r1 = view r" using view_ops(4) [of e why gc r] by simp
  then show ?thesis by (simp add: note_reset_reason_def x Let_def)
qed

lemma view_fields:
  assumes "view r' = view r"
  shows "rt_core r' = rt_core r" "rt_calls r' = rt_calls r" "rt_tabs r' = rt_tabs r" "rt_portTabs r' = rt_portTabs r"
    "rt_engineRoute r' = rt_engineRoute r" "rt_nextObject r' = rt_nextObject r" "rt_nextHeartbeatId r' = rt_nextHeartbeatId r"
    "posts r' = posts r" "sends r' = sends r" "rt_recoveryAttemptCount r' = rt_recoveryAttemptCount r"
  using assms by (simp_all add: view_def)

lemma view_update: "view r' = view r \<Longrightarrow> view (r'\<lparr>rt_recoveryAttemptCount := n\<rparr>) = view (r\<lparr>rt_recoveryAttemptCount := n\<rparr>)"
  by (simp add: view_def posts_def sends_def)

lemma reset_fields:
  assumes "view r' = view (r\<lparr>rt_recoveryAttemptCount := n\<rparr>)"
  shows "rt_core r' = rt_core r" "rt_calls r' = rt_calls r" "rt_tabs r' = rt_tabs r" "rt_engineRoute r' = rt_engineRoute r"
    "rt_nextObject r' = rt_nextObject r" "rt_nextHeartbeatId r' = rt_nextHeartbeatId r" "posts r' = posts r" "sends r' = sends r"
    "rt_recoveryAttemptCount r' = n"
  using assms by (simp_all add: view_def posts_def sends_def)

section \<open>Types of messages\<close>

definition epoch_of :: "router \<Rightarrow> owner_epoch" where
  "epoch_of r = (case rt_core r of None \<Rightarrow> 0 | Some c \<Rightarrow> currentEpoch c)"

text \<open>Well formed with an owner epoch up to \<open>n\<close>\<close>

fun typed_to_tab :: "router_options \<Rightarrow> owner_epoch \<Rightarrow> coordinator_to_tab \<Rightarrow> bool" where
  "typed_to_tab opts n (RegisteredEnv t) \<longleftrightarrow> t \<noteq> ''''"
| "typed_to_tab opts n (BecomeOwnerEnv sc t e act lock hot) \<longleftrightarrow> sc \<noteq> '''' \<and> t \<noteq> '''' \<and> 1 \<le> e \<and> e \<le> n \<and> lock \<noteq> '''' \<and>
     (case hot of None \<Rightarrow> True | Some h \<Rightarrow> positive h)"
| "typed_to_tab opts n (CacheMessageEnv msg) \<longleftrightarrow> isWorkerMessage msg"
| "typed_to_tab opts n (TerminateEngineEnv t e why) \<longleftrightarrow> t \<noteq> '''' \<and> 1 \<le> e \<and> e \<le> n \<and> why \<noteq> ''''"
| "typed_to_tab opts n (RetireCompleteEnv t e) \<longleftrightarrow> t \<noteq> '''' \<and> 1 \<le> e \<and> e \<le> n"
| "typed_to_tab opts n (EngineStartupEnv e ph act ms) \<longleftrightarrow> 1 \<le> e \<and> e \<le> n \<and>
     ms = (if ph = LoadingAssets then ro_assetLoadTimeoutMs opts else ro_activationTimeoutMs opts)"
| "typed_to_tab opts n (EngineReplacedEnv e) \<longleftrightarrow> 1 \<le> e \<and> e \<le> n"
| "typed_to_tab opts n (ProtocolErrorEnv err) \<longleftrightarrow> err \<noteq> ''''"
| "typed_to_tab opts n (TerminalErrorEnv err untouched) \<longleftrightarrow> err \<noteq> ''''"

fun typed_to_engine :: "owner_epoch \<Rightarrow> nat \<Rightarrow> coordinator_to_engine \<Rightarrow> bool" where
  "typed_to_engine n h (OpenEngineEnv e) \<longleftrightarrow> 1 \<le> e \<and> e \<le> n"
| "typed_to_engine n h (EngineRequestEnv e rid req) \<longleftrightarrow> 1 \<le> e \<and> e \<le> n \<and> positive rid \<and> isCacheRequest req \<and>
     get req ''id'' = js_nat rid"
| "typed_to_engine n h (DrainEngineEnv e) \<longleftrightarrow> 1 \<le> e \<and> e \<le> n"
| "typed_to_engine n h (HeartbeatEnv e hb) \<longleftrightarrow> 1 \<le> e \<and> e \<le> n \<and> 1 \<le> hb \<and> hb < h"

definition options_ok :: "router_options \<Rightarrow> bool" where
  "options_ok opts \<longleftrightarrow> positive (ro_assetLoadTimeoutMs opts) \<and> positive (ro_activationTimeoutMs opts)"

lemma typed_wf:
  "options_ok opts \<Longrightarrow> typed_to_tab opts n msg \<Longrightarrow> is_safe_nat n \<Longrightarrow> wf_to_tab msg"
  "typed_to_engine n h emsg \<Longrightarrow> is_safe_nat n \<Longrightarrow> is_safe_nat h \<Longrightarrow> wf_to_engine emsg"
  by (cases msg; auto simp: positive_def is_safe_nat_def options_ok_def) (cases emsg; auto simp: positive_def is_safe_nat_def)

lemma typed_mono:
  "typed_to_tab opts n msg \<Longrightarrow> n \<le> m \<Longrightarrow> typed_to_tab opts m msg"
  "typed_to_engine n h emsg \<Longrightarrow> n \<le> m \<Longrightarrow> h \<le> i \<Longrightarrow> typed_to_engine m i emsg"
  by (cases msg; auto) (cases emsg; auto)

fun engine_message_epoch :: "coordinator_to_engine \<Rightarrow> owner_epoch" where
  "engine_message_epoch (OpenEngineEnv e) = e"
| "engine_message_epoch (EngineRequestEnv e _ _) = e"
| "engine_message_epoch (DrainEngineEnv e) = e"
| "engine_message_epoch (HeartbeatEnv e _) = e"

text \<open>A response to a request, as against a push\<close>

fun is_answer :: "coordinator_to_tab \<Rightarrow> bool" where
  "is_answer (CacheMessageEnv msg) = (get msg ''id'' \<noteq> JUndefined)"
| "is_answer _ = False"

fun answers :: "router_action \<Rightarrow> (tab_id \<times> jsvalue cache_response) option" where
  "answers (DeliverResponse t resp) = Some (t, resp)"
| "answers (RejectRequest t i err code) = Some (t, ResponseError i err code)"
| "answers _ = None"

lemma push_no_answer: "isCachePush p \<Longrightarrow> \<not> is_answer (CacheMessageEnv p)"
  by (auto simp: isCachePush_def split: if_splits intro: hasOnlyKeys_get)

section \<open>Observers\<close>

text \<open>
  With the actions of a call still to be carried out, only the loss of the owner is reported to the
  core; a failure for good is reported when the recovery gives up.
\<close>

fun reported_with :: "router_action list \<Rightarrow> (request_object, jsvalue, jsvalue) core_event \<Rightarrow> bool" where
  "reported_with acts (EvOwnerLost t e why) = True"
| "reported_with acts (EvTerminalFailure why) = False"
| "reported_with acts ev = (acts = [])"

locale router_observer =
  fixes opts :: router_options and N :: nat
    and J :: "router_action list \<Rightarrow> router \<Rightarrow> bool" and K :: "router \<Rightarrow> bool"
  assumes view: "J acts r \<Longrightarrow> view r' = view r \<Longrightarrow> J acts r'"
    and tail: "J (a # acts) r \<Longrightarrow> answers a = None \<Longrightarrow> drops a = None \<Longrightarrow> a \<noteq> ScheduleResetActivation \<Longrightarrow> J acts r"
    and post: "J acts r \<Longrightarrow> typed_to_tab opts (epoch_of r) msg \<Longrightarrow> \<not> is_answer msg \<Longrightarrow> J acts (emit (PostTab p msg) r)"
    and answer: "J (a # acts) r \<Longrightarrow> base N g (a # acts) r \<Longrightarrow> answers a = Some (t, resp) \<Longrightarrow>
      is_safe_nat (response_id resp) \<Longrightarrow> J acts (postCacheResponse t resp r)"
    and call: "J acts r \<Longrightarrow> reported_with acts ev \<Longrightarrow> rt_core r = Some c \<Longrightarrow> core_inv c \<Longrightarrow> ids_left c \<Longrightarrow>
      core_step ev c = (c', Ret as) \<Longrightarrow> currentEpoch c \<le> currentEpoch c' \<Longrightarrow> J (as @ acts) (after_call ev c' as r)"
    and unqueued: "J (ScheduleResetActivation # acts) r \<Longrightarrow>
      (\<And>pt pe ne act why. core_state r \<noteq> Some (ResettingAfterLoss pt pe ne act why)) \<Longrightarrow> J acts r"
    and queued: "J (ScheduleResetActivation # acts) r \<Longrightarrow> rt_recoveryAttemptCount r < RECOVERY_RETRY_LIMIT \<Longrightarrow>
      core_state r = Some (ResettingAfterLoss pt pe ne act why) \<Longrightarrow>
      J acts (r\<lparr>rt_recoveryAttemptCount := rt_recoveryAttemptCount r + 1\<rparr>)"
    and failed: "J (ScheduleResetActivation # acts) r \<Longrightarrow> rt_recoveryAttemptCount r = RECOVERY_RETRY_LIMIT \<Longrightarrow> rt_core r = Some c \<Longrightarrow>
      core_inv c \<Longrightarrow> ids_left c \<Longrightarrow> stateValue c = ResettingAfterLoss pt pe ne act why \<Longrightarrow>
      core_step (EvTerminalFailure failure) c = (c', Ret as) \<Longrightarrow> currentEpoch c \<le> currentEpoch c' \<Longrightarrow>
      J (as @ acts) (after_call (EvTerminalFailure failure) c' as r)"
    and send: "J acts r \<Longrightarrow> rt_engineRoute r = Some rt \<Longrightarrow> typed_to_engine (epoch_of r) (rt_nextHeartbeatId r) emsg \<Longrightarrow>
      engine_message_epoch emsg = er_epoch rt \<Longrightarrow> J acts (emit (SendEngine (er_id rt) emsg) r)"
    and drop: "J (a # acts) r \<Longrightarrow> drops a = Some t \<Longrightarrow> J acts (r\<lparr>rt_tabs := AList.delete t (rt_tabs r), rt_portTabs := m\<rparr>)"
    and undropped: "J (a # acts) r \<Longrightarrow> drops a = Some t \<Longrightarrow> map_of (rt_tabs r) t = None \<Longrightarrow> J acts r"
    and closed: "J acts r \<Longrightarrow> J acts (r\<lparr>rt_engineRoute := None\<rparr>)"
    and numbered: "J acts r \<Longrightarrow> rt_nextObject r \<le> k \<Longrightarrow> rt_nextHeartbeatId r \<le> h \<Longrightarrow>
      J acts (r\<lparr>rt_nextObject := k, rt_nextHeartbeatId := h\<rparr>)"
    and admitted: "J [] r \<Longrightarrow> cn_id cn = rt_nextObject r \<Longrightarrow> t \<notin> set (map fst (rt_tabs r)) \<Longrightarrow>
      J [] (r\<lparr>rt_tabs := AList.update t cn (rt_tabs r), rt_portTabs := m, rt_nextObject := Suc (rt_nextObject r)\<rparr>)"
    and created: "J [] r \<Longrightarrow> rt_core r = None \<Longrightarrow> new_core sc = Ret c \<Longrightarrow> J [] (r\<lparr>rt_core := Some c\<rparr>)"
    and finish: "J [] r \<Longrightarrow> K r"
    and served: "J [] r \<Longrightarrow> active_at e r \<Longrightarrow> view r' = view (r\<lparr>rt_recoveryAttemptCount := 0\<rparr>) \<Longrightarrow> K r'"
    and attached: "J [] r \<Longrightarrow> rt_engineRoute r = None \<Longrightarrow>
      K (r\<lparr>rt_engineRoute := Some \<lparr>er_id = rt_nextObject r, er_tab = t, er_epoch = epoch_of r\<rparr>, rt_nextObject := Suc (rt_nextObject r)\<rparr>)"
begin

lemma postToTab_J: "J acts r \<Longrightarrow> typed_to_tab opts (epoch_of r) msg \<Longrightarrow> \<not> is_answer msg \<Longrightarrow> J acts (postToTab t msg r)"
  by (simp add: postToTab_def post split: option.splits)

lemma posts_J: "J acts r \<Longrightarrow> typed_to_tab opts (epoch_of r) msg \<Longrightarrow> \<not> is_answer msg \<Longrightarrow> J acts (fold (\<lambda>cn. emit (PostTab (cn_port cn) msg)) cns r)"
proof (induction cns arbitrary: r)
  case (Cons cn cns)
  have "epoch_of (emit (PostTab (cn_port cn) msg) r) = epoch_of r" by (simp add: epoch_of_def emit_def)
  then show ?case using Cons by (simp add: post)
qed simp

lemma broadcast_J: "J acts r \<Longrightarrow> typed_to_tab opts (epoch_of r) msg \<Longrightarrow> \<not> is_answer msg \<Longrightarrow> J acts (broadcast msg r)"
  by (simp add: broadcast_def posts_J)

lemma error_J: "J acts r \<Longrightarrow> err \<noteq> '''' \<Longrightarrow> J acts (postProtocolError p err r)"
  by (simp add: postProtocolError_def post split: option.splits)

lemma arm_J:
  assumes J: "J acts r" and st: "core_state r = Some (Activating t' e' act ph)" "1 \<le> e'" "e' \<le> epoch_of r"
  shows "J acts (armStartupWatchdog opts t e r)"
proof -
  let ?ms = "if ph = LoadingAssets then ro_assetLoadTimeoutMs opts else ro_activationTimeoutMs opts"
  let ?r = "broadcast (EngineStartupEnv e' ph act ?ms) (clearActivationTimer r)"
  have "epoch_of (clearActivationTimer r) = epoch_of r" by (simp add: epoch_of_def clear_eqs)
  then have "J acts ?r" using st(2,3) by (intro broadcast_J view [OF J]) auto
  moreover have "core_state (clearActivationTimer r) = Some (Activating t' e' act ph)"
    using st by (simp add: core_state_def clear_eqs)
  then have "view (armStartupWatchdog opts t e r) = view ?r"
    by (simp add: armStartupWatchdog_def startupProgress_def Let_def setTimer_def)
  ultimately show ?thesis by (rule view)
qed

text \<open>The invariant of the router together with the observer\<close>

definition watched_by :: "owner_epoch option \<Rightarrow> router_action list \<Rightarrow> router \<Rightarrow> bool" where
  "watched_by g acts r \<longleftrightarrow> base N g acts r \<and> J acts r"

lemma base_epoch: "base N g acts r \<Longrightarrow> rt_core r = Some c \<Longrightarrow> acts_part acts c \<and> core_inv c \<and> typed_core c \<and> epoch_of r = currentEpoch c"
  by (auto simp: base_def linked_def core_part_def epoch_of_def dest: core_run_inv)

lemma elect_J:
  assumes W: "watched_by g (ElectOwner t e act # acts) r"
  shows "J acts (elect_owner opts t e act r)"
proof -
  obtain c where c: "rt_core r = Some c" "linked (ElectOwner t e act # acts) r c" "core_inv c"
    using W base_core unfolding watched_by_def by metis
  have st: "stateValue c = Activating t e act LoadingAssets"
    using c(2) sane_election by (auto simp: linked_def acts_part_def)
  then have e: "1 \<le> e" "e = currentEpoch c" "t \<noteq> ''''" using owner_epoch [OF c(3)] by auto
  define r1 where "r1 = tell (owner_event ''success'' (Some ''elected'')) ((clearEngineWatchdogs r)
    \<lparr>rt_activationStarted := AList.update e (rt_now (clearEngineWatchdogs r)) (rt_activationStarted (clearEngineWatchdogs r))\<rparr>)"
  define r2 where "r2 = (if act = WipeBeforeOpen
     then r1\<lparr>rt_pendingRecoveryResetEpochs := AList.update e
            (or_string (rt_nextRecoveryResetReason r1) ''abrupt-owner-loss'') (rt_pendingRecoveryResetEpochs r1),
          rt_nextRecoveryResetReason := None\<rparr> else r1)"
  let ?r3 = "armStartupWatchdog opts t e r2"
  have eq: "elect_owner opts t e act r = postToTab t (BecomeOwnerEnv (scope_of ?r3) t e act
      (databaseOwnerLockName (scope_of ?r3)) (rt_hotCapacity ?r3)) ?r3"
    by (simp add: elect_owner_def r2_def r1_def Let_def)
  have v: "view r2 = view r" by (simp add: r2_def r1_def)
  have "J acts r" using tail [of "ElectOwner t e act" acts r] W by (simp add: watched_by_def)
  then have J2: "J acts r2" using v by (rule view)
  have ess: "essence r2 = essence (clearEngineWatchdogs r)" by (simp add: r2_def r1_def)
  have core: "core_state r2 = Some (Activating t e act LoadingAssets)"
    using view_fields(1) [OF v] c(1) st by (simp add: core_state_def)
  note arm = arm_essence [OF core, of opts t e]
  have core3: "rt_core ?r3 = Some c" "rt_hotCapacity ?r3 = rt_hotCapacity r"
    using essence_fields(1,15) [OF arm] essence_fields(1,15) [OF ess] c(1) by (simp_all add: clearEngine_eq)
  have "J acts ?r3" using e view_fields(1) [OF v] c(1) by (intro arm_J [OF J2 core]) (auto simp: epoch_of_def)
  moreover have "typed_to_tab opts (epoch_of ?r3) (BecomeOwnerEnv (scope_of ?r3) t e act (databaseOwnerLockName (scope_of ?r3)) (rt_hotCapacity ?r3))"
    using c(2) e core3 by (simp add: linked_def core_part_def typed_core_def misc_part_def epoch_of_def scope_of_def
        databaseOwnerLockName_def Let_def)
  ultimately show ?thesis unfolding eq by (intro postToTab_J) simp_all
qed

lemma remove_J:
  assumes "J (a # acts) r" "drops a = Some t"
  shows "J acts (removeTabConnection t r)"
proof (cases "map_of (rt_tabs r) t")
  case None
  then show ?thesis using undropped [OF assms] by (simp add: removeTabConnection_def)
next
  case (Some cn)
  show ?thesis
    by (rule view [OF drop [OF assms, of "AList.delete (cn_port cn) (rt_portTabs r)"]])
      (simp add: removeTabConnection_def Some)
qed

lemma close_J:
  assumes "J acts r"
  shows "J acts (close_engine_route t e r)"
proof -
  have J1: "J acts (clearEngineWatchdogs r)" by (rule view [OF assms]) simp
  show ?thesis
  proof (cases "\<exists>rt. rt_engineRoute r = Some rt \<and> er_tab rt = t \<and> er_epoch rt = e")
    case True
    then show ?thesis
      by (intro view [OF closed [OF J1]]) (auto simp: close_engine_route_def Let_def clearEngine_eq)
  next
    case False
    then show ?thesis using J1
      by (auto simp: close_engine_route_def Let_def clearEngine_eq split: option.splits)
  qed
qed

lemma plain_J:
  assumes W: "watched_by g (a # acts) r" and rank: "rank a = 1"
  shows "J acts (perform opts a r)"
proof -
  have J: "J (a # acts) r" and B: "base N g (a # acts) r" using W by (simp_all add: watched_by_def)
  obtain c where c: "rt_core r = Some c" by (rule base_core [OF B])
  have ty: "typed_action (epoch_of r) a" using base_epoch [OF B c] by (simp add: acts_part_def)
  have other: "a \<noteq> ScheduleResetActivation" using rank by auto
  have told: "J acts (tell ob r)" if "answers a = None" "drops a = None" for ob
    by (rule view [OF tail [OF J that other]]) simp
  have ep: "epoch_of (tell ob r) = epoch_of r" for ob by (simp add: epoch_of_def tell_def emit_def)
  show ?thesis
  proof (cases a)
    case (ElectOwner t e act)
    then show ?thesis using elect_J [of g t e act acts r] W by (simp add: perform_def)
  next
    case (CloseEngineRoute t e)
    then show ?thesis using close_J [OF tail [OF J]] by (simp add: perform_def)
  next
    case (DropTab t)
    then show ?thesis using remove_J [OF J] by (simp add: perform_def)
  next
    case (RetireTab t e)
    then have "J (a # acts) (postToTab t (RetireCompleteEnv t e) r)" using ty by (intro postToTab_J [OF J]) simp_all
    then show ?thesis using remove_J RetireTab by (simp add: perform_def)
  next
    case (DeliverResponse t resp)
    then show ?thesis using answer [OF J B, of t resp] ty by (simp add: perform_def)
  next
    case (RejectRequest t i err code)
    then show ?thesis using answer [OF J B, of t "ResponseError i err code"] ty by (simp add: perform_def)
  next
    case (BroadcastPush p)
    then show ?thesis using broadcast_J [OF tail [OF J]] ty push_no_answer [of p]
      by (simp add: perform_def isWorkerMessage_def)
  next
    case (BroadcastEngineReplaced e)
    then show ?thesis using broadcast_J [OF told] ty by (simp add: perform_def ep)
  next
    case (ProtocolViolation err)
    then show ?thesis using broadcast_J [OF told] ty by (simp add: perform_def ep)
  next
    case (TerminalFailure err b)
    then show ?thesis using broadcast_J [OF tail [OF J]] ty by (simp add: perform_def)
  next
    case (DropStaleEngineMessage e rid why)
    then show ?thesis using told by (simp add: perform_def)
  qed (use rank in simp_all)
qed

lemma noted_J: "J (a # acts) r \<Longrightarrow> routing a \<Longrightarrow> J acts (note_routing a category r)"
proof -
  assume J: "J (a # acts) r" and "routing a"
  from this(2) have "answers a = None" "drops a = None" "a \<noteq> ScheduleResetActivation" by (cases a; simp)+
  then have "J acts r" by (rule tail [OF J])
  then show ?thesis by (rule view) (cases a; simp)
qed

lemma sent_J:
  assumes W: "watched_by g (a # acts) r" and a: "routing a" "rt_engineRoute r = Some rt" "routed_to a = Some (er_tab rt, er_epoch rt)"
  shows "J acts (emit (SendEngine (er_id rt) (message_of a)) (note_routing a category r))"
proof -
  have B: "base N g (a # acts) r" using W by (simp add: watched_by_def)
  obtain c where c: "rt_core r = Some c" by (rule base_core [OF B])
  have ty: "typed_action (epoch_of r) a" using base_epoch [OF B c] by (simp add: acts_part_def)
  let ?r = "note_routing a category r"
  have v: "view ?r = view r" by (cases a) simp_all
  have ep: "epoch_of ?r = epoch_of r" using view_fields(1) [OF v] by (simp add: epoch_of_def)
  have "typed_to_engine (epoch_of r) h (message_of a) \<and> engine_message_epoch (message_of a) = er_epoch rt" for h
  proof (cases a)
    case (RouteRequest ot t e rid req)
    have "isCacheRequest (encode_request req)" "get (encode_request req) ''id'' = js_nat rid"
      using ty RouteRequest isCacheRequest_with_id [of "JObject (request_body req)" rid]
      unfolding encode_request_def js_nat_def get_with_field by simp_all
    then show ?thesis using ty RouteRequest a(3) by (simp add: positive_def)
  qed (use ty a in auto)
  moreover have "J acts ?r" using noted_J W a(1) by (auto simp: watched_by_def)
  ultimately show ?thesis using a(2) view_fields(5) [OF v] by (intro send) (simp_all add: ep)
qed

lemma lost_J:
  assumes J: "J acts r" and c: "rt_core r = Some c" "core_inv c" "ids_left c"
    and s: "core_call (EvOwnerLost t e why) r = (r1, Ret las)" and why: "why \<noteq> []"
  shows "if las = [] then J acts r1 else J (las @ acts) (note_owner_loss t e why fc gc r1)"
proof -
  obtain c' where c': "core_step (EvOwnerLost t e why) c = (c', Ret las)" "r1 = after_call (EvOwnerLost t e why) c' las r"
    using s c(1) by (auto simp: core_call_def after_call_def split: prod.splits)
  have J1: "J (las @ acts) r1"
    unfolding c'(2) by (rule call [OF J _ c(1-3) c'(1) epoch_grows [OF c(2) c'(1)]]) simp
  have "J (las @ acts) (note_owner_loss t e why fc gc r1)" if "las \<noteq> []"
  proof -
    have own: "owner_of (stateValue c) = Some (t, e)"
      using c'(1) that by (auto simp: ownerLost_def transitionToAbruptLoss_def split: if_splits)
    have ty: "typed_to_tab opts (epoch_of r1) (TerminateEngineEnv t e why)"
      using owner_epoch [OF c(2) own] epoch_grows [OF c(2) c'(1)] why by (simp add: epoch_of_def c'(2))
    define r2 where "r2 = drop_route_timings e (tell ((owner_event ''abrupt'' (Some ''abrupt-loss''))
         \<lparr>ob_errorCode := Some (if fc = Some StorageResetRequired then ''storage-reset'' else classifyCacheError (StringValue why))\<rparr>)
       (let r1' = r1\<lparr>rt_activationStarted := AList.delete e (rt_activationStarted r1)\<rparr>
        in if wipes_after_loss (core_state r1') then note_reset_reason e why fc gc r1' else r1'))"
    have v: "view r2 = view r1" by (simp add: r2_def Let_def)
    have "J (las @ acts) (postTerminateEngine t e why r2)"
      unfolding postTerminateEngine_def
      by (rule postToTab_J [OF view [OF J1 v]]) (use ty view_fields(1) [OF v] in \<open>simp_all add: epoch_of_def\<close>)
    then show ?thesis by (rule view) (simp add: note_owner_loss_def r2_def Let_def)
  qed
  then show ?thesis using J1 by auto
qed

lemma given_up_J:
  assumes W: "watched_by g (ScheduleResetActivation # acts) r"
    and st: "core_state r = Some (ResettingAfterLoss pt pe ne act why)" and limit: "rt_recoveryAttemptCount r \<ge> RECOVERY_RETRY_LIMIT"
  shows "\<exists>r1 tas. core_call (EvTerminalFailure (give_up_text why)) (clearRecoveryRetryTimer r) = (r1, Ret tas) \<and>
    watched_by g (tas @ acts) r1"
proof -
  let ?ev = "EvTerminalFailure (give_up_text why)" and ?r = "clearRecoveryRetryTimer r"
  have B: "base N g (ScheduleResetActivation # acts) r" and J: "J (ScheduleResetActivation # acts) r"
    using W by (simp_all add: watched_by_def)
  obtain r1 tas where s: "core_call ?ev ?r = (r1, Ret tas)" "base N g (tas @ acts) r1"
    using given_up_base [OF B st] by blast
  obtain c where c: "rt_core r = Some c" "core_inv c" "ids_left c" by (rule base_core [OF B])
  obtain c' where c': "core_step ?ev c = (c', Ret tas)" "r1 = after_call ?ev c' tas ?r"
    using s(1) c(1) by (auto simp: core_call_def after_call_def clear_eqs split: prod.splits)
  have count: "rt_recoveryAttemptCount r = RECOVERY_RETRY_LIMIT"
    using B limit by (auto simp: base_def linked_def misc_part_def)
  have "J (ScheduleResetActivation # acts) ?r" by (rule view [OF J]) simp
  then have "J (tas @ acts) r1"
    unfolding c'(2) by (rule failed [OF _ _ _ c(2,3) _ c'(1) epoch_grows [OF c(2) c'(1)]])
      (use c(1) st count in \<open>simp_all add: clear_eqs core_state_def\<close>)
  then show ?thesis using s by (auto simp: watched_by_def)
qed

end

text \<open>The recursion keeps what the observer sees.\<close>

sublocale router_observer \<subseteq> obs: router_invariant opts "watched_by g" for g
proof
  fix a acts r
  assume W: "watched_by g (a # acts) r"
  then have B: "base N g (a # acts) r" by (simp add: watched_by_def)
  show "rank a = 1 \<Longrightarrow> watched_by g acts (perform opts a r)"
    using plain_base [OF B] plain_J [OF W] by (simp add: watched_by_def)
  assume a: "routing a"
  show "is_ret (category_of a)" "calm acts" by (rule routing_facts [OF B a])+
  show "watched_by g acts (note_routing a category r)" for category
    using noted_base [OF B a] noted_J a W by (simp add: watched_by_def)
  show "watched_by g acts (emit (SendEngine (er_id rt) (message_of a)) (note_routing a category r))"
    if "rt_engineRoute r = Some rt" "routed_to a = Some (er_tab rt, er_epoch rt)" for rt category
    using sent_J [OF W a that] noted_base [OF B a] base_essence [OF essence_simps(7)] by (simp add: watched_by_def)
next
  fix acts r and why :: string and t :: tab_id and e fc gc
  assume W: "watched_by g acts r" and "calm acts" and why: "why \<noteq> ''''"
  then have B: "base N g acts r" and J: "J acts r" by (simp_all add: watched_by_def)
  obtain r1 las where s: "core_call (EvOwnerLost t e why) r = (r1, Ret las)"
    "if las = [] then base N g acts r1 else base N g (las @ acts) (note_owner_loss t e why fc gc r1)"
    using lost_base [OF B \<open>calm acts\<close> why] by blast
  obtain c where c: "rt_core r = Some c" "core_inv c" "ids_left c" by (rule base_core [OF B])
  from s show "\<exists>r1 las. core_call (EvOwnerLost t e why) r = (r1, Ret las) \<and>
      (if las = [] then watched_by g acts r1 else watched_by g (las @ acts) (note_owner_loss t e why fc gc r1))"
    using lost_J [OF J c s(1) why, of fc gc] by (auto simp: watched_by_def)
next
  fix acts r
  assume W: "watched_by g (ScheduleResetActivation # acts) r"
  then have B: "base N g (ScheduleResetActivation # acts) r" and J: "J (ScheduleResetActivation # acts) r"
    by (simp_all add: watched_by_def)
  show "watched_by g acts r" if "\<And>pt pe ne act why. core_state r \<noteq> Some (ResettingAfterLoss pt pe ne act why)"
    using unscheduled_base [OF B that] unqueued [OF J that] by (simp add: watched_by_def)
  fix pt pe ne act why
  assume st: "core_state r = Some (ResettingAfterLoss pt pe ne act why)"
  show "watched_by g acts (queue_activation opts r)" if "rt_recoveryAttemptCount r < RECOVERY_RETRY_LIMIT"
    using scheduled_base [OF B st that] view [OF queued [OF J that st] view_counts(1)] by (simp add: watched_by_def)
  show "\<exists>r1 tas. core_call (EvTerminalFailure (give_up_text why)) (clearRecoveryRetryTimer r) = (r1, Ret tas) \<and>
      watched_by g (tas @ acts) r1"
    if "rt_recoveryAttemptCount r \<ge> RECOVERY_RETRY_LIMIT"
    by (rule given_up_J [OF W st that])
qed

end
