(* ===== verification/RouterTasks.thy ===== *)
theory RouterTasks
  imports RouterObserver
begin

text \<open>
  The tasks of the router: messages of tabs and engines, probes, timers and microtasks. Every task
  returns, leaves the invariant and keeps what an observer sees, from the first registration on.
\<close>

section \<open>Between tasks\<close>

lemma base_mono: "base M g acts r \<Longrightarrow> M \<le> N \<Longrightarrow> N < max_safe_integer \<Longrightarrow> base N g acts r"
  by (auto simp: base_def counted_def)

lemma watch_grace: "watch_part None acts r c \<Longrightarrow> watch_part g acts r c"
  by (cases "stateValue c") (auto simp: watch_part_def)

lemma watch_no_grace: "watch_part (Some e) acts r c \<Longrightarrow> rt_core r = Some c \<Longrightarrow> \<not> active_at e r \<Longrightarrow> watch_part None acts r c"
  by (cases "stateValue c") (auto simp: watch_part_def active_at_def core_state_def)

lemma base_grace: "base N None acts r \<Longrightarrow> base N g acts r"
  unfolding base_def using watch_grace by blast

lemma base_no_grace: "base N (Some e) acts r \<Longrightarrow> \<not> active_at e r \<Longrightarrow> base N None acts r"
  unfolding base_def using watch_no_grace linked_unique by blast

text \<open>Before the first registration\<close>

definition fresh :: "router \<Rightarrow> bool" where
  "fresh r \<longleftrightarrow> rt_core r = None \<and> rt_calls r = [] \<and> rt_tabs r = [] \<and> rt_portTabs r = [] \<and> rt_engineRoute r = None \<and>
     rt_timers r = [] \<and> rt_microtasks r = 0 \<and> misc_part r"

definition idle :: "nat \<Rightarrow> router \<Rightarrow> bool" where
  "idle N r \<longleftrightarrow> N < max_safe_integer \<and> (base N None [] r \<or> fresh r)"

lemma idle_base: "base N None [] r \<Longrightarrow> idle N r"
  by (simp add: idle_def base_def counted_def)

lemma idle_mono: "idle M r \<Longrightarrow> M \<le> N \<Longrightarrow> N < max_safe_integer \<Longrightarrow> idle N r"
  using base_mono by (auto simp: idle_def)

lemma idle_new: "N < max_safe_integer \<Longrightarrow> idle N new_router"
  by (simp add: idle_def fresh_def new_router_def misc_part_def timers_defs)

lemma fresh_essence:
  assumes "essence r' = essence r"
  shows "fresh r' = fresh r"
  unfolding fresh_def misc_part_def timers_defs essence_fields [OF assms] ..

lemma idle_essence: "essence r' = essence r \<Longrightarrow> idle N r' = idle N r"
  unfolding idle_def using base_essence fresh_essence by metis

section \<open>A call of the core\<close>

text \<open>The watchdogs are owed by the caller; the rest follows from the call.\<close>

lemma call_base:
  assumes L: "linked [] r c" and cnt: "counted N (rt_calls r)"
    and room: "request_event ev \<Longrightarrow> request_count (rt_calls r) < N"
    and ty: "typed_event ev" "registered_by ev c = []" "\<And>why. ev \<noteq> EvTerminalFailure why"
    and route: "\<And>rd. ev = EvEngineReady rd \<Longrightarrow> \<exists>rt. rt_engineRoute r = Some rt \<and> er_epoch rt = r_epoch rd"
  obtains c' as where "core_step ev c = (c', Ret as)" "core_call ev r = (after_call ev c' as r, Ret as)"
    "linked as (after_call ev c' as r) c'" "counted N (rt_calls (after_call ev c' as r))" "follows ev c c' as"
proof -
  note I = linked_inv [OF L cnt]
  obtain c' and as :: "router_action list" where s: "core_step ev c = (c', Ret as)"
    using core_step_ret [OF I(2,3), of ev] by (metis is_retE surjective_pairing)
  have F: "follows ev c c' as" by (rule core_step_follows [OF I(2,3) s]) (use ty in auto)
  have "\<exists>rt. rt_engineRoute r = Some rt \<and> er_tab rt = t \<and> er_epoch rt = e"
    if new: "stateValue c' = Active t e" "stateValue c \<noteq> Active t e" for t e
  proof -
    obtain act rd where rd: "stateValue c = Activating t e act OpeningDatabase" "ev = EvEngineReady rd" "r_epoch rd = e"
      using F new by (auto simp: follows_def phase_follows_def)
    then obtain rt where "rt_engineRoute r = Some rt" "er_epoch rt = e" using route by blast
    moreover from this have "owner_of (stateValue c) = Some (er_tab rt, er_epoch rt)"
      using L by (simp add: linked_def route_part_def)
    ultimately show ?thesis using rd by auto
  qed
  then have "linked (as @ []) (after_call ev c' as r) c'"
    using call_linked [OF L I(2,3) ty(1) s F _ _ ty(2)] by simp
  moreover have "counted N (rt_calls (after_call ev c' as r))"
    using cnt room by (auto simp: counted_def request_count_def)
  ultimately show ?thesis using that [OF s core_call_Ret [OF I(1) s]] F by simp
qed

text \<open>When the owner leaves, the phase that follows owes its watchdog to the actions.\<close>

lemma departed_watch:
  assumes inv: "core_inv c" and own: "owner_of (stateValue c) = Some (t, e)"
    and s: "core_step (EvDepartForNavigation t e why) c = (c', Ret as)"
  shows "watch_part g as r c'"
proof -
  define act where "act = (case stateValue c of Activating _ _ a _ \<Rightarrow> a | _ \<Rightarrow> OpenExisting)"
  obtain c2 elected where dep: "(after_departure t act c :: (request_object, jsvalue, jsvalue) core_effect) = (c2, elected)"
    by fastforce
  have "departForNavigation t e why c = (c', Ret as)" using s by simp
  note eq = this [unfolded departForNavigation_eq [OF inv own, folded act_def] dep prod.case prod.inject js.inject]
  have "stateValue c2 = WaitingForTab act \<or>
      (\<exists>u f. stateValue c2 = Activating u f act LoadingAssets \<and> ElectOwner u f act \<in> set elected)"
    using dep unfolding after_departure_eq [OF inv] by (auto split: list.splits)
  moreover have "set elected \<subseteq> set as" using conjunct2 [OF eq] by auto
  ultimately show ?thesis using conjunct1 [OF eq] by (auto simp: watch_part_def)
qed

lemma tab_lost_watch:
  assumes inv: "core_inv c" and own: "owner_of (stateValue c) = Some (t, e)"
    and s: "core_step (EvTabLost t why) c = (c', Ret as)"
  shows "watch_part g as r c'"
proof -
  have t: "t \<in> set (tabs c)" by (rule owner_epoch(3) [OF inv own])
  have "(tab_loss t why c :: (request_object, jsvalue, jsvalue) core_result) = transitionToAbruptLoss t e why c"
    using own by (simp add: tab_loss_def)
  then show ?thesis using s
    by (auto simp: tabLost_eq [OF inv t] abrupt_loss_eq [OF inv own] watch_part_def removeTabRecord_def)
qed

text \<open>What the router notes around a departure or a loss\<close>

lemma note_departure_essence: "essence (note_departure e st r) = essence (clearEngineWatchdogs r)"
  by (simp add: note_departure_def Let_def clear_essence)

lemma note_tab_loss_essence: "essence (note_tab_loss t e st why r) = essence (clearEngineWatchdogs r)"
  by (simp add: note_tab_loss_def Let_def clear_essence split: coordinator_state.splits database_action.splits
      engine_startup_phase.splits)

lemma cleared_parts:
  assumes "essence r' = essence (clearEngineWatchdogs r)" "linked acts r c" "counted N (rt_calls r)"
  shows "linked acts r' c" "counted N (rt_calls r')"
proof -
  show "linked acts r' c" unfolding parts_essence(1) [OF assms(1)] by (rule linked_clear(3) [OF assms(2)])
  show "counted N (rt_calls r')" using assms(3) unfolding essence_fields(2) [OF assms(1)] by (simp add: clearEngine_eq)
qed

section \<open>Heartbeats and timers\<close>

lemma schedule_eq:
  "scheduleHeartbeat opts e r = (let r1 = clearHeartbeatTimers r in
     r1\<lparr>rt_timers := rt_timers r1 @ [(rt_nextTimer r1, (HeartbeatInterval e, ro_heartbeatIntervalMs opts))],
        rt_nextTimer := rt_nextTimer r1 + 1, rt_heartbeatIntervalTimer := Some (rt_nextTimer r1)\<rparr>)"
  by (simp add: scheduleHeartbeat_def setTimer_def Let_def)

text \<open>A new timer of the right kind\<close>

lemma timed_linked:
  assumes L: "linked acts r c" and r': "rt_timers r' = rt_timers r @ [(rt_nextTimer r, x)]" "rt_nextTimer r' = rt_nextTimer r + 1"
    and same: "rt_core r' = rt_core r" "rt_calls r' = rt_calls r" "rt_tabs r' = rt_tabs r" "rt_portTabs r' = rt_portTabs r"
      "rt_engineRoute r' = rt_engineRoute r" "rt_nextObject r' = rt_nextObject r" "rt_recoveryAttemptCount r' = rt_recoveryAttemptCount r"
      "rt_nextHeartbeatId r' = rt_nextHeartbeatId r" "rt_hotCapacity r' = rt_hotCapacity r" "rt_probes r' = rt_probes r"
    and fields: "rt_activationTimer r' = rt_activationTimer r" "rt_recoveryRetryTimer r' = rt_recoveryRetryTimer r"
      "rt_heartbeatIntervalTimer r' = rt_heartbeatIntervalTimer r \<or> rt_heartbeatIntervalTimer r' = Some (rt_nextTimer r) \<and> is_interval (fst x)"
      "rt_heartbeatTimeoutTimer r' = rt_heartbeatTimeoutTimer r \<or> rt_heartbeatTimeoutTimer r' = Some (rt_nextTimer r) \<and> is_timeout (fst x)"
  shows "linked acts r' c" "map_of (rt_timers r') j = (if j = rt_nextTimer r then Some x else map_of (rt_timers r) j)"
proof -
  note tm = linked_timers [OF L]
  show new: "map_of (rt_timers r') j = (if j = rt_nextTimer r then Some x else map_of (rt_timers r) j)" for j
    using fresh_timer [OF tm] r'(1) by simp
  have old: "holds ko kind r \<Longrightarrow> holds ko kind r'" for ko kind unfolding holds_def new r'(2) by (auto simp: less_SucI)
  have "kind (fst x) \<Longrightarrow> holds (Some (rt_nextTimer r)) kind r'" for kind unfolding holds_def new r'(2) by auto
  with old have "timers_ok r'" using tm fields unfolding timers_ok_def new r'(2) by (auto simp: less_SucI)
  then have "misc_part r'" using L same by (simp add: linked_def misc_part_def)
  then show "linked acts r' c" by (intro linked_cong [OF L]) (use same in simp_all)
qed

lemma schedule_facts:
  assumes "linked acts r c"
  shows "linked acts (scheduleHeartbeat opts e r) c" "heartbeat_armed t e (scheduleHeartbeat opts e r)"
    "rt_calls (scheduleHeartbeat opts e r) = rt_calls r"
    "startup_armed t' e' ph r \<Longrightarrow> startup_armed t' e' ph (scheduleHeartbeat opts e r)"
    "recovery_armed r \<Longrightarrow> recovery_armed (scheduleHeartbeat opts e r)"
proof -
  let ?r1 = "clearHeartbeatTimers r" and ?r = "scheduleHeartbeat opts e r"
  have L1: "linked acts ?r1 c" by (rule linked_clear(2) [OF assms])
  have f: "linked acts ?r c \<and> (\<forall>j. map_of (rt_timers ?r) j = (if j = rt_nextTimer ?r1
      then Some (HeartbeatInterval e, ro_heartbeatIntervalMs opts) else map_of (rt_timers ?r1) j))"
    by (intro conjI allI; rule timed_linked [OF L1, where x = "(HeartbeatInterval e, ro_heartbeatIntervalMs opts)"]) (simp_all add: schedule_eq Let_def)
  then show "linked acts ?r c" by blast
  show "heartbeat_armed t e ?r" unfolding heartbeat_armed_def using f by (simp add: schedule_eq Let_def)
  show "rt_calls ?r = rt_calls r" by (simp add: schedule_eq Let_def clearHeartbeat_eq)
  note tm = linked_timers [OF assms]
  show "startup_armed t' e' ph ?r" if armed: "startup_armed t' e' ph r"
  proof -
    obtain k ms where k: "rt_activationTimer r = Some k" "map_of (rt_timers r) k = Some (StartupWatchdog t' e' ph, ms)"
      using armed unfolding startup_armed_def by blast
    then have "k < rt_nextTimer r" "rt_heartbeatIntervalTimer r \<noteq> Some k" "rt_heartbeatTimeoutTimer r \<noteq> Some k"
      using tm by (fastforce simp: timers_defs)+
    then show ?thesis using f k unfolding startup_armed_def by (simp add: schedule_eq Let_def clearHeartbeat_eq)
  qed
  show "recovery_armed ?r" if "recovery_armed r"
  proof -
    have "recovery_armed ?r1" by (rule clears_recovery(2) [OF tm that])
    moreover have "map_of (rt_timers ?r1) k = Some y \<Longrightarrow> k \<noteq> rt_nextTimer ?r1" for k y
      using linked_timers [OF L1] unfolding timers_ok_def by blast
    moreover have "rt_microtasks ?r = rt_microtasks ?r1" by (simp add: schedule_eq Let_def)
    ultimately show ?thesis using f unfolding recovery_armed_def by metis
  qed
qed

text \<open>The timer that fires is the one a phase waits for\<close>

fun guards :: "timer_callback \<Rightarrow> coordinator_state \<Rightarrow> (owner_epoch \<times> nat) option \<Rightarrow> bool" where
  "guards (StartupWatchdog t e ph) st pend \<longleftrightarrow> (\<exists>act. st = Activating t e act ph)"
| "guards (HeartbeatInterval e) st pend \<longleftrightarrow> (\<exists>t. st = Active t e)"
| "guards (HeartbeatTimeout t e hb) st pend \<longleftrightarrow> st = Active t e \<and> pend = Some (e, hb)"
| "guards RecoveryActivate st pend \<longleftrightarrow> (\<exists>pt pe ne act why. st = ResettingAfterLoss pt pe ne act why)"

lemma fired_parts:
  assumes L: "linked [] r c" and k: "map_of (rt_timers r) k = Some (cb, ms)"
  shows "linked [] (clearTimer k r) c"
    "watch_part g [] r c \<Longrightarrow> \<not> guards cb (stateValue c) (rt_pendingHeartbeat r) \<Longrightarrow> watch_part g [] (clearTimer k r) c"
proof -
  have "timers_ok (clearTimer k r)" using linked_timers [OF L] by (auto simp: timers_defs clearTimer_def)
  then have "misc_part (clearTimer k r)" using L by (simp add: linked_def misc_part_def) (simp add: clearTimer_def)
  then show "linked [] (clearTimer k r) c" by (intro linked_cong [OF L]) (simp_all add: clearTimer_def)
  have del: "map_of (rt_timers (clearTimer k r)) j = (if j = k then None else map_of (rt_timers r) j)" for j
    by (simp add: clearTimer_def)
  have fields: "rt_activationTimer (clearTimer k r) = rt_activationTimer r" "rt_microtasks (clearTimer k r) = rt_microtasks r"
    "rt_heartbeatIntervalTimer (clearTimer k r) = rt_heartbeatIntervalTimer r"
    "rt_heartbeatTimeoutTimer (clearTimer k r) = rt_heartbeatTimeoutTimer r" "rt_pendingHeartbeat (clearTimer k r) = rt_pendingHeartbeat r"
    "rt_recoveryAttemptCount (clearTimer k r) = rt_recoveryAttemptCount r"
    by (simp_all add: clearTimer_def)
  assume W: "watch_part g [] r c" and no: "\<not> guards cb (stateValue c) (rt_pendingHeartbeat r)"
  show "watch_part g [] (clearTimer k r) c"
  proof (cases "stateValue c")
    case (Activating t e act ph)
    then obtain j ms' where j: "rt_activationTimer r = Some j" "map_of (rt_timers r) j = Some (StartupWatchdog t e ph, ms')"
      using W by (auto simp: watch_part_def startup_armed_def)
    then have "j \<noteq> k" using k no Activating by auto
    then have "startup_armed t e ph (clearTimer k r)" unfolding startup_armed_def fields del using j by simp
    then show ?thesis using Activating by (simp add: watch_part_def)
  next
    case (Active t e)
    have "heartbeat_armed t e r \<Longrightarrow> heartbeat_armed t e (clearTimer k r)"
      unfolding heartbeat_armed_def fields del using k no Active
      by (elim disjE exE conjE) (force, rule disjI2, intro exI conjI, auto)
    then show ?thesis using W Active by (auto simp: watch_part_def fields)
  next
    case (ResettingAfterLoss pt pe ne act why)
    have "recovery_armed r \<Longrightarrow> recovery_armed (clearTimer k r)"
      unfolding recovery_armed_def fields del using k no ResettingAfterLoss
      by (elim disjE exE) (simp, rule disjI2, intro exI, auto)
    then show ?thesis using W ResettingAfterLoss by (auto simp: watch_part_def)
  qed (use W in \<open>simp_all add: watch_part_def\<close>)
qed

section \<open>Readiness of an engine\<close>

lemma ready_violation:
  assumes "core_inv c" "ids_left c" "core_step (EvEngineReady rd) c = (c', Ret as)" "list_ex is_violation as" "stateValue c' = Active t e"
  shows "stateValue c = Active t e"
proof (cases c rd rule: engineReady_cases)
  case (accept act)
  have "\<not> list_ex is_violation (map (routed_action u f) xs)" for u f and xs :: "(nat \<times> request_object queued_request) list"
    by (auto simp: list_ex_iff is_violation_def routed_action_def)
  then show ?thesis using assms(3,4) by (auto simp: engineReady_accept_eq [OF assms(1,2) accept] is_violation_def split: if_splits)
next
  case (refuse act err)
  then show ?thesis using assms(3,5) by (auto simp: engineReady_refuse [OF assms(1) refuse])
next
  case unexpected
  then show ?thesis using assms(3,5) by (auto simp: engineReady_unexpected [OF unexpected])
qed

definition settle :: "router_options \<Rightarrow> owner_epoch \<Rightarrow> router \<Rightarrow> router" where
  "settle opts e r = scheduleHeartbeat opts e (resetRecoveryRetries (clearActivationTimer r))"

lemma settle_essence: "essence (settle opts e r) = settle opts e (essence r)"
  by (simp add: settle_def schedule_eq resetRecoveryRetries_def clear_eqs clearHeartbeat_eq Let_def essence_def)

lemma note_activation_settles:
  obtains r2 where "note_activation opts e out r = settle opts e r2" "essence r2 = essence r" "view r2 = view r"
proof (rule that)
  show "note_activation opts e out r = settle opts e
    (let r1 = (case map_of (rt_pendingRecoveryResetEpochs r) e of
            Some why \<Rightarrow> recordLogicalResetAndWipe why out True
                (r\<lparr>rt_pendingRecoveryResetEpochs := AList.delete e (rt_pendingRecoveryResetEpochs r)\<rparr>)
          | None \<Rightarrow>
              if starts_with ''reset-'' (outcome_string out)
              then recordLogicalResetAndWipe (resetReasonForOpenOutcome out) out False
                        (recordStorageResetRequired e (resetReasonForOpenOutcome out) (Some out) r)
              else r)
     in tell ((owner_event ''success'' (Some ''activated''))
          \<lparr>ob_durationMs := (case map_of (rt_activationStarted r1) e of None \<Rightarrow> None | Some s \<Rightarrow> elapsed s r1)\<rparr>)
          (r1\<lparr>rt_activationStarted := AList.delete e (rt_activationStarted r1)\<rparr>))"
    unfolding note_activation_def settle_def Let_def ..
qed (simp_all add: Let_def split: option.splits)

lemma settle_base:
  assumes B: "base N (Some e) [] r" and act: "active_at e r"
  shows "base N None [] (settle opts e r)"
proof -
  obtain c where c: "linked [] r c" "counted N (rt_calls r)" using B by (auto simp: base_def)
  obtain t where st: "stateValue c = Active t e"
    using act linked_unique [OF c(1)] by (auto simp: active_at_def core_state_def split: coordinator_state.splits)
  let ?r1 = "clearActivationTimer r" and ?r2 = "(clearActivationTimer r)\<lparr>rt_recoveryAttemptCount := 0\<rparr>"
  have L1: "linked [] ?r1 c" by (rule linked_clear(1) [OF c(1)])
  then have "misc_part ?r2" by (simp add: linked_def misc_part_def timers_defs)
  then have "linked [] ?r2 c" by (intro linked_cong [OF L1]) simp_all
  then have L2: "linked [] (resetRecoveryRetries ?r1) c" unfolding resetRecoveryRetries_def by (rule linked_clear(4))
  have calls: "rt_calls (resetRecoveryRetries ?r1) = rt_calls r"
    and count: "rt_recoveryAttemptCount (scheduleHeartbeat opts e (resetRecoveryRetries ?r1)) = 0"
    by (simp_all add: resetRecoveryRetries_def clear_eqs schedule_eq clearHeartbeat_eq Let_def)
  show ?thesis unfolding settle_def
    by (rule linked_base [OF schedule_facts(1) [OF L2]])
      (use st c(2) schedule_facts(2,3) [OF L2, where opts = opts and e = e] calls count in \<open>simp_all add: watch_part_def\<close>)
qed

lemma note_activation_base:
  assumes "base N (Some e) [] r" "active_at e r"
  shows "base N None [] (note_activation opts e out r)"
proof -
  obtain r2 where r2: "note_activation opts e out r = settle opts e r2" "essence r2 = essence r"
    by (rule note_activation_settles)
  have "essence (settle opts e r2) = essence (settle opts e r)" unfolding settle_essence r2(2) ..
  then show ?thesis unfolding r2(1) using base_essence settle_base [OF assms] by blast
qed

lemma view_note_activation: "view (note_activation opts e out r) = view (r\<lparr>rt_recoveryAttemptCount := 0\<rparr>)"
proof -
  obtain r2 where r2: "note_activation opts e out r = settle opts e r2" "view r2 = view r"
    by (rule note_activation_settles)
  have "view (clearActivationTimer r2) = view r" using r2(2) by simp
  from view_update [OF this] show ?thesis by (simp add: r2(1) settle_def view_counts)
qed

lemma accept_base:
  assumes B: "base N None [] r" and rt: "\<And>t f. core_state r = Some (Active t f) \<Longrightarrow> f = e"
  shows "base N None [] (acceptHeartbeat opts e hb r)"
proof (cases "rt_pendingHeartbeat r = Some (e, hb)")
  case False
  then show ?thesis using B by (simp add: acceptHeartbeat_def)
next
  case True
  obtain c where c: "linked [] r c" "watch_part None [] r c" "counted N (rt_calls r)" using B by (auto simp: base_def)
  let ?r1 = "(clear_heartbeat_timeout r)\<lparr>rt_pendingHeartbeat := None\<rparr>"
  have eq: "acceptHeartbeat opts e hb r = scheduleHeartbeat opts e ?r1" using True by (simp add: acceptHeartbeat_def)
  have same: "clearHeartbeatTimers ?r1 = clearHeartbeatTimers r"
    by (simp add: clearHeartbeat_eq clear_eqs del_opt_def AList.delete_eq split_def conj_commute split: option.splits)
  then have eq: "acceptHeartbeat opts e hb r = scheduleHeartbeat opts e r" unfolding eq schedule_eq by simp
  note f = schedule_facts [OF c(1), where opts = opts and e = e]
  have st: "core_state r = Some (stateValue c)" using linked_unique [OF c(1)] by (simp add: core_state_def)
  have "rt_recoveryAttemptCount (scheduleHeartbeat opts e r) = rt_recoveryAttemptCount r"
    by (simp add: schedule_eq clearHeartbeat_eq Let_def)
  then have "watch_part None [] (scheduleHeartbeat opts e r) c"
    using c(2) f(2,4,5) rt st by (cases "stateValue c") (auto simp: watch_part_def)
  then show ?thesis unfolding eq using linked_base [OF f(1)] c(3) f(3) by simp
qed

section \<open>Tasks under an observer\<close>

context router_observer
begin

text \<open>The task has returned and the observer is satisfied.\<close>

definition finished :: "router \<times> unit js \<Rightarrow> bool" where
  "finished m \<longleftrightarrow> is_ret (snd m) \<and> idle N (fst m) \<and> K (fst m)"

lemma keeps_finished: "obs.keeps None [] m \<Longrightarrow> finished m"
  by (simp add: finished_def obs.keeps_def watched_by_def idle_base finish)

lemma done_finished: "idle N r \<Longrightarrow> J [] r \<Longrightarrow> finished (done_with r)"
  by (simp add: finished_def finish)

text \<open>The loss of the owner; the observer has to hold once the core knows.\<close>

lemma loss_applied:
  assumes L: "linked [] r c" and cnt: "counted N (rt_calls r)" and why: "why \<noteq> ''''" and own: "owner_of (stateValue c) = Some (t, e)"
    and J: "\<And>c' las. core_step (EvOwnerLost t e why) c = (c', Ret las) \<Longrightarrow> las \<noteq> [] \<Longrightarrow>
      J las (note_owner_loss t e why fc gc (after_call (EvOwnerLost t e why) c' las r))"
  shows "obs.keeps None [] (failOwner opts t e why fc gc r)"
proof -
  note I = linked_inv [OF L cnt]
  obtain c' and las :: "router_action list" where s: "core_step (EvOwnerLost t e why) c = (c', Ret las)" and ne: "las \<noteq> []"
    by (simp add: ownerLost_def abrupt_loss_eq [OF I(2) own])
  have "base N None (las @ []) (note_owner_loss t e why fc gc (after_call (EvOwnerLost t e why) c' las r))"
    by (rule loss_base [OF L cnt _ why s ne]) simp
  then have "watched_by None (las @ []) (note_owner_loss t e why fc gc (after_call (EvOwnerLost t e why) c' las r))"
    using J [OF s ne] by (simp add: watched_by_def)
  from obs.applyActions_keeps [OF this] show ?thesis
    by (simp add: failOwner_def failOwner_with_def core_call_Ret [OF I(1) s] ne)
qed

lemma loss_keeps:
  assumes L: "linked [] r c" and cnt: "counted N (rt_calls r)" and J: "J [] r" and why: "why \<noteq> ''''"
    and watch: "owner_of (stateValue c) \<noteq> Some (t, e) \<Longrightarrow> watch_part None [] r c"
  shows "obs.keeps None [] (failOwner opts t e why fc gc r)"
proof (cases "owner_of (stateValue c) = Some (t, e)")
  case False
  then have "watched_by None [] r" using linked_base [OF L watch cnt] J by (simp add: watched_by_def)
  then show ?thesis using obs.failOwner_keeps why by simp
next
  case True
  note I = linked_inv [OF L cnt]
  show ?thesis
  proof (rule loss_applied [OF L cnt why True])
    fix c' and las :: "router_action list"
    assume s: "core_step (EvOwnerLost t e why) c = (c', Ret las)" "las \<noteq> []"
    show "J las (note_owner_loss t e why fc gc (after_call (EvOwnerLost t e why) c' las r))"
      using lost_J [OF J I(1-3) core_call_Ret [OF I(1) s(1)] why, of fc gc] s(2) by simp
  qed
qed

text \<open>The calls that change no watchdog and register no tab\<close>

fun ordinary :: "(request_object, jsvalue, jsvalue) core_event \<Rightarrow> bool" where
  "ordinary (EvRegisterTab t) = False"
| "ordinary (EvBeginEngineOpen t e) = False"
| "ordinary (EvEngineReady rd) = False"
| "ordinary (EvTerminalFailure why) = False"
| "ordinary _ = True"

lemma ordinary_call:
  assumes L: "linked [] r c" and cnt: "counted N (rt_calls r)" and J: "J [] r"
    and room: "request_event ev \<Longrightarrow> request_count (rt_calls r) < N" and ty: "typed_event ev" "ordinary ev"
  obtains c' as where "core_step ev c = (c', Ret as)" "core_call ev r = (after_call ev c' as r, Ret as)"
    "linked as (after_call ev c' as r) c'" "counted N (rt_calls (after_call ev c' as r))" "J as (after_call ev c' as r)"
    "\<And>g. watch_part g [] r c \<Longrightarrow> watch_part g as (after_call ev c' as r) c'"
proof -
  have reg: "registered_by ev c = []" using ty(2) by (cases ev) simp_all
  obtain c' as where s: "core_step ev c = (c', Ret as)" "core_call ev r = (after_call ev c' as r, Ret as)"
    "linked as (after_call ev c' as r) c'" "counted N (rt_calls (after_call ev c' as r))" "follows ev c c' as"
    by (rule call_base [OF L cnt room ty(1) reg]) (use ty(2) in auto)
  note I = linked_inv [OF L cnt]
  have "reported_with [] ev" using ty(2) by (cases ev) simp_all
  then have "J (as @ []) (after_call ev c' as r)" by (rule call [OF J _ I(1-3) s(1) epoch_grows [OF I(2) s(1)]])
  moreover have "watch_part g (as @ []) (after_call ev c' as r) c'" if "watch_part g [] r c" for g
    by (rule call_watch [OF that s(5)]) (use s(5) ty(2) in \<open>auto simp: follows_def phase_follows_def\<close>)
  ultimately show ?thesis using that [OF s(1-4)] by simp
qed

lemma ordinary_keeps:
  assumes W: "watched_by g [] r" and room: "request_event ev \<Longrightarrow> request_count (rt_calls r) < N"
    and ty: "typed_event ev" "ordinary ev"
  shows "obs.keeps g [] (call_and_apply opts ev r)"
proof -
  have B: "base N g [] r" and J: "J [] r" using W by (simp_all add: watched_by_def)
  obtain c where c: "linked [] r c" "watch_part g [] r c" "counted N (rt_calls r)" using B by (auto simp: base_def)
  obtain c' as where s: "core_call ev r = (after_call ev c' as r, Ret as)" "linked as (after_call ev c' as r) c'"
    "counted N (rt_calls (after_call ev c' as r))" "J as (after_call ev c' as r)" "watch_part g as (after_call ev c' as r) c'"
    by (rule ordinary_call [OF c(1,3) J room ty]) (use c(2) in auto)
  have "watched_by g (as @ []) (after_call ev c' as r)" using linked_base [OF s(2,5,3)] s(4) by (simp add: watched_by_def)
  from obs.applyActions_keeps [OF this] show ?thesis by (simp add: call_and_apply_def s(1))
qed

lemma depart_keeps:
  assumes W: "watched_by None [] r"
  shows "obs.keeps None [] (router_departForNavigation opts t e why r)"
proof -
  have B: "base N None [] r" and J: "J [] r" using W by (simp_all add: watched_by_def)
  obtain c where c: "linked [] r c" "watch_part None [] r c" "counted N (rt_calls r)" using B by (auto simp: base_def)
  note I = linked_inv [OF c(1,3)]
  let ?ev = "EvDepartForNavigation t e why"
  obtain c' as where s: "core_step ?ev c = (c', Ret as)" "core_call ?ev r = (after_call ?ev c' as r, Ret as)"
    "linked as (after_call ?ev c' as r) c'" "counted N (rt_calls (after_call ?ev c' as r))" "J as (after_call ?ev c' as r)"
    "watch_part None as (after_call ?ev c' as r) c'"
    by (rule ordinary_call [OF c(1,3) J, of ?ev]) (use c(2) in auto)
  let ?r = "if owner_of (stateValue c) \<noteq> Some (t, e) then after_call ?ev c' as r
    else note_departure e (stateValue c) (after_call ?ev c' as r)"
  have "watched_by None (as @ []) ?r"
  proof (cases "owner_of (stateValue c) = Some (t, e)")
    case True
    note ess = note_departure_essence [of e "stateValue c" "after_call ?ev c' as r"]
    have "J as (note_departure e (stateValue c) (after_call ?ev c' as r))"
      by (rule view [OF s(5)]) (simp add: note_departure_def Let_def)
    then show ?thesis
      using True linked_base [OF cleared_parts(1) [OF ess s(3,4)] departed_watch [OF I(2) True s(1)] cleared_parts(2) [OF ess s(3,4)]]
      by (simp add: watched_by_def)
  next
    case False
    then show ?thesis using linked_base [OF s(3,6,4)] s(5) by (simp add: watched_by_def)
  qed
  from obs.applyActions_keeps [OF this] show ?thesis by (simp add: router_departForNavigation_def I(5) s(2))
qed

lemma note_tab_loss_J:
  assumes J: "J [] r" and c: "rt_core r = Some c" "core_inv c" "owner_of (stateValue c) = Some (t, e)" and why: "why \<noteq> ''''"
  shows "J [] (note_tab_loss t e st why r)"
proof -
  define r1 where "r1 = drop_route_timings e (tell ((owner_event ''abrupt'' (Some ''abrupt-loss''))
      \<lparr>ob_errorCode := Some (classifyCacheError (StringValue why))\<rparr>)
    (let r0 = r\<lparr>rt_activationStarted := AList.delete e (rt_activationStarted r)\<rparr>
     in case st of Activating _ _ OpenExisting LoadingAssets \<Rightarrow> r0 | _ \<Rightarrow> note_reset_reason e why None None r0))"
  have v: "view r1 = view r"
    by (simp add: r1_def Let_def split: coordinator_state.splits database_action.splits engine_startup_phase.splits)
  have "J [] (postTerminateEngine t e why r1)"
    unfolding postTerminateEngine_def
    by (rule postToTab_J [OF view [OF J v]])
      (use owner_epoch [OF c(2,3)] view_fields(1) [OF v] c(1) why in \<open>simp_all add: epoch_of_def\<close>)
  then show ?thesis by (rule view) (simp add: note_tab_loss_def r1_def Let_def)
qed

lemma loseTab_keeps:
  assumes W: "watched_by None [] r" and why: "why \<noteq> ''''"
  shows "obs.keeps None [] (loseTab opts t why r)"
proof -
  have B: "base N None [] r" and J: "J [] r" using W by (simp_all add: watched_by_def)
  obtain c where c: "linked [] r c" "watch_part None [] r c" "counted N (rt_calls r)" using B by (auto simp: base_def)
  note I = linked_inv [OF c(1,3)]
  show ?thesis
  proof (cases "\<exists>e. owner_of (stateValue c) = Some (t, e)")
    case False
    then have "loseTab opts t why r = call_and_apply opts (EvTabLost t why) r"
      by (auto simp: loseTab_def I(5) split: option.splits)
    then show ?thesis using ordinary_keeps [OF W, of "EvTabLost t why"] why by simp
  next
    case True
    then obtain e where own: "owner_of (stateValue c) = Some (t, e)" by blast
    let ?r = "note_tab_loss t e (stateValue c) why r" and ?ev = "EvTabLost t why"
    note ess = note_tab_loss_essence [of t e "stateValue c" why r]
    note L = cleared_parts [OF ess c(1,3)]
    obtain c' as where s: "core_step ?ev c = (c', Ret as)" "core_call ?ev ?r = (after_call ?ev c' as ?r, Ret as)"
      "linked as (after_call ?ev c' as ?r) c'" "counted N (rt_calls (after_call ?ev c' as ?r))" "J as (after_call ?ev c' as ?r)"
      by (rule ordinary_call [OF L note_tab_loss_J [OF J I(1,2) own why], of ?ev]) (use why in auto)
    have "watched_by None (as @ []) (after_call ?ev c' as ?r)"
      using linked_base [OF s(3) tab_lost_watch [OF I(2) own s(1)] s(4)] s(5) by (simp add: watched_by_def)
    from obs.applyActions_keeps [OF this] show ?thesis
      by (simp add: loseTab_def I(5) own call_and_apply_def s(2))
  qed
qed

lemma assets_ready_keeps:
  assumes W: "watched_by None [] r" and rt: "rt_engineRoute r = Some rt" "er_tab rt = t" "er_epoch rt = e"
  shows "obs.keeps None [] (handle_assets_ready opts rt t e r)"
proof -
  have B: "base N None [] r" and J: "J [] r" using W by (simp_all add: watched_by_def)
  obtain c where c: "linked [] r c" "watch_part None [] r c" "counted N (rt_calls r)" using B by (auto simp: base_def)
  note I = linked_inv [OF c(1,3)]
  let ?ev = "EvBeginEngineOpen t e"
  obtain c' as where s: "core_step ?ev c = (c', Ret as)" "core_call ?ev r = (after_call ?ev c' as r, Ret as)"
    "linked as (after_call ?ev c' as r) c'" "counted N (rt_calls (after_call ?ev c' as r))"
    by (rule call_base [OF c(1,3), of ?ev]) auto
  let ?r = "after_call ?ev c' as r"
  have "J (as @ []) ?r" by (rule call [OF J _ I(1-3) s(1) epoch_grows [OF I(2) s(1)]]) simp
  then have as: "as = []" "c' = fst (beginEngineOpen t e c)" and J1: "J [] ?r"
    using s(1) by (cases "beginEngineOpen t e c"; auto)+
  show ?thesis
  proof (cases "snd (beginEngineOpen t e c)")
    case False
    then have "c' = c" unfolding as(2) by (auto simp: beginEngineOpen_def split: coordinator_state.splits if_splits)
    then have "watch_part None [] ?r c'" using c(2) unfolding watch_part_def after_call_parts after_call_simps by simp
    then have "watched_by None [] ?r" using linked_base [OF _ _ s(4)] s(3) J1 by (simp add: as(1) watched_by_def)
    then show ?thesis using False obs.failOwner_keeps [of None "[]" ?r "''unexpected engine asset readiness''"]
      by (simp add: handle_assets_ready_def I(1) s(2))
  next
    case True
    then obtain act where st: "stateValue c' = Activating t e act OpeningDatabase"
      unfolding as(2) by (auto simp: beginEngineOpen_def split: coordinator_state.splits if_splits)
    have L1: "linked [] ?r c'" using s(3) by (simp add: as(1))
    note I1 = linked_inv [OF L1 s(4)]
    note ep = owner_epoch [OF I1(2), of t e, unfolded st, simplified]
    let ?a = "armStartupWatchdog opts t e ?r"
    note arm = arm_facts [OF L1 st, where opts = opts and t = t and e = e]
    have B2: "base N None [] ?a" by (rule linked_base [OF arm(1)]) (use arm s(4) st in \<open>simp_all add: watch_part_def\<close>)
    have J2: "J [] ?a" by (rule arm_J [OF J1 I1(5) [unfolded st]]) (use I1 ep in \<open>simp_all add: epoch_of_def\<close>)
    have core: "rt_core ?a = Some c'" by (rule linked_unique [OF arm(1)])
    have route: "rt_engineRoute ?a = Some rt"
      using essence_fields(5) [OF arm_essence [OF I1(5) [unfolded st], of opts t e]] rt(1) by simp
    have "J [] (emit (SendEngine (er_id rt) (OpenEngineEnv e)) ?a)"
      by (rule send [OF J2 route]) (use ep rt(3) core in \<open>simp_all add: epoch_of_def\<close>)
    then have "watched_by None [] (emit (SendEngine (er_id rt) (OpenEngineEnv e)) ?a)" "watched_by None [] ?a"
      using B2 J2 base_essence [OF essence_simps(7)] by (simp_all add: watched_by_def)
    then have "obs.keeps None [] (sendToEngine opts rt (OpenEngineEnv e) ?a)" by (intro obs.sendToEngine_keeps) simp_all
    then have "obs.keeps None [] (and_then (sendToEngine opts rt (OpenEngineEnv e) ?a) (\<lambda>_. done_with))"
      by (rule obs.keeps_and_then) (rule obs.keeps_done)
    then show ?thesis using True by (simp add: handle_assets_ready_def I(1) s(2))
  qed
qed

text \<open>Timers\<close>

lemma heartbeat_keeps:
  assumes L: "linked [] r c" and cnt: "counted N (rt_calls r)" and J: "J [] r"
    and watch: "\<not> (\<exists>t. stateValue c = Active t e) \<Longrightarrow> watch_part None [] r c"
    and served: "\<And>t. stateValue c = Active t e \<Longrightarrow> rt_recoveryAttemptCount r = 0"
  shows "obs.keeps None [] (heartbeat_interval opts e r)"
proof -
  note I = linked_inv [OF L cnt]
  have active: "active_at e r \<longleftrightarrow> (\<exists>t. stateValue c = Active t e)"
    by (auto simp: active_at_def I(5) split: coordinator_state.splits)
  show ?thesis
  proof (cases "active_at e r")
    case False
    then have "heartbeat_interval opts e r = done_with r" by (simp add: heartbeat_interval_def split: option.splits)
    then show ?thesis using linked_base [OF L _ cnt] J watch False by (simp add: obs.keeps_def watched_by_def active)
  next
    case True
    then obtain t where st: "stateValue c = Active t e" by (auto simp: active)
    obtain rt where rt: "rt_engineRoute r = Some rt" "er_tab rt = t" "er_epoch rt = e"
      using L st unfolding linked_def route_part_def by blast
    define hb where "hb = rt_nextHeartbeatId r"
    define r1 where "r1 = r\<lparr>rt_nextHeartbeatId := hb + 1, rt_pendingHeartbeat := Some (e, hb)\<rparr>"
    have m0: "misc_part r" using L by (simp add: linked_def)
    have m: "misc_part r1" using m0 unfolding misc_part_def timers_defs r1_def by simp
    have hb: "1 \<le> hb" using m0 by (simp add: misc_part_def hb_def)
    have L1: "linked [] r1 c" by (rule linked_cong [OF L]) (use m in \<open>simp_all add: r1_def\<close>)
    have cnt1: "counted N (rt_calls r1)" using cnt by (simp add: r1_def)
    have "J [] (r\<lparr>rt_nextObject := rt_nextObject r, rt_nextHeartbeatId := hb + 1\<rparr>)" by (rule numbered [OF J]) (simp_all add: hb_def)
    then have J1: "J [] r1" by (rule view) (simp add: r1_def view_def posts_def sends_def)
    have eq: "heartbeat_interval opts e r = and_then (sendToEngine opts rt (HeartbeatEnv e hb) r1)
      (\<lambda>sent r2. done_with (if \<not> sent then r2 else case setTimer (HeartbeatTimeout t e hb) (ro_heartbeatTimeoutMs opts) r2 of
         (k, r3) \<Rightarrow> r3\<lparr>rt_heartbeatTimeoutTimer := Some k\<rparr>))"
      using True rt by (simp add: heartbeat_interval_def r1_def hb_def Let_def cong: if_cong)
    show ?thesis
    proof (cases "ro_send opts (er_id rt) (HeartbeatEnv e hb)")
      case (Some err)
      have own: "owner_of (stateValue c) = Some (t, e)" using st by simp
      have "obs.keeps None [] (failOwner opts t e (''engine Effect transport send failed: '' @ err) None None r1)"
        by (rule loss_keeps [OF L1 cnt1 J1]) (use own in simp_all)
      then show ?thesis unfolding eq sendToEngine_def sendToEngine_with_def Some rt(2,3)
        by (auto simp: obs.keeps_def and_then_def done_with_def split: js.splits prod.splits)
    next
      case None
      let ?r2 = "emit (SendEngine (er_id rt) (HeartbeatEnv e hb)) r1"
      let ?r3 = "?r2\<lparr>rt_timers := rt_timers ?r2 @ [(rt_nextTimer ?r2, (HeartbeatTimeout t e hb, ro_heartbeatTimeoutMs opts))],
        rt_nextTimer := rt_nextTimer ?r2 + 1, rt_heartbeatTimeoutTimer := Some (rt_nextTimer ?r2)\<rparr>"
      have L2: "linked [] ?r2 c" using L1 parts_essence(1) [OF essence_simps(7)] by blast
      have f: "linked [] ?r3 c \<and> (\<forall>j. map_of (rt_timers ?r3) j = (if j = rt_nextTimer ?r2
          then Some (HeartbeatTimeout t e hb, ro_heartbeatTimeoutMs opts) else map_of (rt_timers ?r2) j))"
        by (intro conjI allI; rule timed_linked [OF L2, where x = "(HeartbeatTimeout t e hb, ro_heartbeatTimeoutMs opts)"]) simp_all
      then have "heartbeat_armed t e ?r3" unfolding heartbeat_armed_def by (simp add: emit_def r1_def)
      then have B: "base N None [] ?r3"
        using f cnt1 st served [OF st] by (intro linked_base) (auto simp: watch_part_def emit_def r1_def)
      have "epoch_of r1 = currentEpoch c" using I(1) by (simp add: epoch_of_def r1_def)
      then have "J [] ?r2"
        by (intro send [OF J1]) (use rt owner_epoch [OF I(2), of t e] st hb in \<open>auto simp: r1_def\<close>)
      then have "J [] ?r3" by (rule view) simp
      then show ?thesis using B unfolding eq sendToEngine_def sendToEngine_with_def
        by (simp add: None obs.keeps_def watched_by_def setTimer_def)
    qed
  qed
qed

lemma activation_keeps:
  assumes L: "linked [] r c" and cnt: "counted N (rt_calls r)" and J: "J [] r"
    and watch: "\<not> guards RecoveryActivate (stateValue c) None \<Longrightarrow> watch_part None [] r c"
  shows "obs.keeps None [] (run_activation opts r)"
proof -
  let ?r = "r\<lparr>rt_recoveryRetryTimer := None\<rparr>"
  have "misc_part ?r" using L by (simp add: linked_def misc_part_def timers_defs)
  then have L1: "linked [] ?r c" by (intro linked_cong [OF L]) simp_all
  have cnt1: "counted N (rt_calls ?r)" using cnt by simp
  have J1: "J [] ?r" by (rule view [OF J]) simp
  obtain c' as where s: "core_step EvResumeAfterLoss c = (c', Ret as)"
    "core_call EvResumeAfterLoss ?r = (after_call EvResumeAfterLoss c' as ?r, Ret as)"
    "linked as (after_call EvResumeAfterLoss c' as ?r) c'" "counted N (rt_calls (after_call EvResumeAfterLoss c' as ?r))"
    "J as (after_call EvResumeAfterLoss c' as ?r)"
    "watch_part None [] ?r c \<Longrightarrow> watch_part None as (after_call EvResumeAfterLoss c' as ?r) c'"
    by (rule ordinary_call [OF L1 cnt1 J1, of EvResumeAfterLoss]) auto
  have "watch_part None as (after_call EvResumeAfterLoss c' as ?r) c'"
  proof (cases "guards RecoveryActivate (stateValue c) None")
    case True
    then show ?thesis using s(1) by (auto simp: resumeAfterLoss_def Let_def watch_part_def split: if_splits)
  next
    case False
    then have "watch_part None [] ?r c" using watch unfolding watch_part_def armed_defs by (simp cong: coordinator_state.case_cong)
    then show ?thesis by (rule s(6))
  qed
  then have "watched_by None (as @ []) (after_call EvResumeAfterLoss c' as ?r)"
    using linked_base [OF s(3) _ s(4)] s(5) by (simp add: watched_by_def)
  from obs.applyActions_keeps [OF this] show ?thesis by (simp add: run_activation_def call_and_apply_def s(2))
qed

lemma timer_keeps:
  assumes W: "watched_by None [] r" and k: "map_of (rt_timers r) k = Some (cb, ms)"
  shows "obs.keeps None [] (run_timer opts cb (clearTimer k r))"
proof -
  have B: "base N None [] r" and J: "J [] r" using W by (simp_all add: watched_by_def)
  obtain c where c: "linked [] r c" "watch_part None [] r c" "counted N (rt_calls r)" using B by (auto simp: base_def)
  let ?r = "clearTimer k r"
  note L = fired_parts(1) [OF c(1) k]
  have watch: "\<not> guards cb (stateValue c) (rt_pendingHeartbeat r) \<Longrightarrow> watch_part None [] ?r c"
    by (rule fired_parts(2) [OF c(1) k c(2)])
  have cnt: "counted N (rt_calls ?r)" and pend: "rt_pendingHeartbeat ?r = rt_pendingHeartbeat r"
    using c(3) by (simp_all add: clearTimer_def)
  have J1: "J [] ?r" by (rule view [OF J]) simp
  have served: "rt_recoveryAttemptCount ?r = 0" if "stateValue c = Active t e" for t e
    using c(2) that by (simp add: watch_part_def clearTimer_def)
  have lost: "obs.keeps None [] (failOwner opts t e why None None ?r)"
    if "why \<noteq> []" "owner_of (stateValue c) \<noteq> Some (t, e) \<Longrightarrow> \<not> guards cb (stateValue c) (rt_pendingHeartbeat r)" for t e why
    using loss_keeps [OF L cnt J1] that watch by blast
  show ?thesis
  proof (cases cb)
    case (StartupWatchdog t e ph)
    then show ?thesis unfolding StartupWatchdog run_timer.simps by (intro lost) (auto simp: StartupWatchdog)
  next
    case (HeartbeatInterval e)
    then show ?thesis using heartbeat_keeps [OF L cnt J1, of e] watch served by auto
  next
    case (HeartbeatTimeout t e hb)
    show ?thesis
    proof (cases "rt_pendingHeartbeat r = Some (e, hb)")
      case True
      then show ?thesis unfolding HeartbeatTimeout run_timer.simps pend by (simp del: append.simps) (rule lost, auto simp: HeartbeatTimeout)
    next
      case False
      then have "base N None [] ?r" using HeartbeatTimeout watch linked_base [OF L _ cnt] by auto
      then show ?thesis using HeartbeatTimeout False pend J1 by (simp add: obs.keeps_def watched_by_def)
    qed
  next
    case RecoveryActivate
    then show ?thesis using activation_keeps [OF L cnt J1] watch by auto
  qed
qed

lemma applied:
  assumes "watched_by g (as @ acts) r"
  shows "watched_by g acts (fst (applyActions opts as r))"
  using obs.applyActions_keeps [OF assms] by (simp add: obs.keeps_def)

end

text \<open>The epoch never falls.\<close>

lemma epoch_of_simps [simp]:
  "epoch_of (emit ef r) = epoch_of r" "epoch_of (r\<lparr>rt_tabs := a1\<rparr>) = epoch_of r" "epoch_of (r\<lparr>rt_portTabs := a2\<rparr>) = epoch_of r"
  "epoch_of (r\<lparr>rt_engineRoute := a3\<rparr>) = epoch_of r" "epoch_of (r\<lparr>rt_nextObject := a4\<rparr>) = epoch_of r"
  "epoch_of (r\<lparr>rt_nextHeartbeatId := a5\<rparr>) = epoch_of r" "epoch_of (r\<lparr>rt_recoveryAttemptCount := a6\<rparr>) = epoch_of r" "epoch_of (postCacheResponse t resp r) = epoch_of r"
  "epoch_of (after_call ev c as r) = currentEpoch c" "rt_core r = Some c \<Longrightarrow> epoch_of r = currentEpoch c"
  by (simp_all add: epoch_of_def emit_def postCacheResponse_def postToTab_def split: option.splits)

interpretation rising: router_observer opts N "\<lambda>_ r. n \<le> epoch_of r" "\<lambda>_. True" for opts N n
proof
  show "n \<le> epoch_of r'" if "n \<le> epoch_of r" "view r' = view r" for r r'
    using that view_fields(1) [OF that(2)] by (simp add: epoch_of_def)
  show "n \<le> epoch_of (r\<lparr>rt_core := Some c\<rparr>)" if "n \<le> epoch_of r" "rt_core r = None" for r c
    using that by (simp add: epoch_of_def)
qed auto

context router_observer
begin

lemma epoch_kept:
  assumes "watched_by g (as @ acts) r"
  shows "epoch_of r \<le> epoch_of (fst (applyActions opts as r))"
proof -
  have "base N g (as @ acts) r" using assms by (simp add: watched_by_def)
  then show ?thesis using rising.applied [of N "epoch_of r" g as acts r opts] by (simp add: rising.watched_by_def)
qed

text \<open>Messages of the engine\<close>

lemma ready_finished:
  assumes W: "watched_by None [] r" and rt: "rt_engineRoute r = Some rt" "er_epoch rt = r_epoch rd"
  shows "finished (handle_engine_ready opts rt rd r)"
proof -
  have B: "base N None [] r" and J: "J [] r" using W by (simp_all add: watched_by_def)
  obtain c where c: "linked [] r c" "watch_part None [] r c" "counted N (rt_calls r)" using B by (auto simp: base_def)
  note I = linked_inv [OF c(1,3)]
  have own: "owner_of (stateValue c) = Some (er_tab rt, er_epoch rt)" using c(1) rt(1) by (simp add: linked_def route_part_def)
  let ?ev = "EvEngineReady rd"
  obtain c' as where s: "core_step ?ev c = (c', Ret as)" "core_call ?ev r = (after_call ?ev c' as r, Ret as)"
    "linked as (after_call ?ev c' as r) c'" "counted N (rt_calls (after_call ?ev c' as r))" "follows ?ev c c' as"
    by (rule call_base [OF c(1,3), of ?ev]) (use rt in auto)
  define g where "g = (if list_ex is_violation as then None else Some (r_epoch rd))"
  have J1: "J (as @ []) (after_call ?ev c' as r)" by (rule call [OF J _ I(1-3) s(1) epoch_grows [OF I(2) s(1)]]) simp
  have "watch_part g (as @ []) (after_call ?ev c' as r) c'"
  proof (rule call_watch [OF watch_grace [OF c(2)] s(5)])
    show "g = Some e" if "stateValue c' = Active t e" "stateValue c \<noteq> Active t e" for t e
      using ready_violation [OF I(2,3) s(1)] s(5) that by (auto simp: g_def follows_def phase_follows_def)
  qed simp_all
  then have W1: "watched_by g (as @ []) (after_call ?ev c' as r)"
    using linked_base [OF s(3) _ s(4)] J1 by (simp add: watched_by_def)
  have ep: "er_tab rt \<noteq> ''''" "1 \<le> er_epoch rt" "er_epoch rt \<le> epoch_of (fst (applyActions opts as (after_call ?ev c' as r)))"
    using owner_epoch [OF I(2) own] epoch_grows [OF I(2) s(1)] epoch_kept [OF W1] by simp_all
  have eq: "handle_engine_ready opts rt rd r = and_then (applyActions opts as (after_call ?ev c' as r))
    (\<lambda>_ r2. if list_ex is_violation as
       then (if isCurrentOwner (er_tab rt) (er_epoch rt) r2
             then failOwner opts (er_tab rt) (er_epoch rt) ''engine readiness proof was rejected'' None None r2
             else done_with (postTerminateEngine (er_tab rt) (er_epoch rt) ''engine readiness proof was rejected'' r2))
       else done_with (if active_at (r_epoch rd) r2 then note_activation opts (r_epoch rd) (r_outcome rd) r2 else r2))"
    by (simp add: handle_engine_ready_def s(2))
  obtain u r2 where r2: "applyActions opts as (after_call ?ev c' as r) = (r2, Ret u)" "watched_by g [] r2"
    using obs.applyActions_keeps [OF W1] unfolding obs.keeps_def by (metis is_retE prod.collapse)
  show ?thesis
  proof (cases "list_ex is_violation as")
    case True
    then have W2: "watched_by None [] r2" using r2(2) by (simp add: g_def)
    have "watched_by None [] (postTerminateEngine (er_tab rt) (er_epoch rt) ''engine readiness proof was rejected'' r2)"
      using W2 ep r2(1) base_essence [OF essence_ops(8)] postToTab_J
      by (simp add: watched_by_def postTerminateEngine_def)
    then show ?thesis using True r2(1) eq keeps_finished [OF obs.failOwner_keeps [OF W2]] keeps_finished [OF obs.keeps_done]
      by simp
  next
    case False
    then have W2: "base N (Some (r_epoch rd)) [] r2" "J [] r2" using r2(2) by (simp_all add: g_def watched_by_def)
    have K: "K (note_activation opts (r_epoch rd) (r_outcome rd) r2)" if "active_at (r_epoch rd) r2"
      by (rule served [OF W2(2) that view_note_activation])
    show ?thesis using False r2(1) eq note_activation_base [OF W2(1)] base_no_grace [OF W2(1)] K finish [OF W2(2)]
      by (simp add: finished_def idle_base)
  qed
qed

lemma watched_essence: "watched_by g acts r \<Longrightarrow> essence r' = essence r \<Longrightarrow> view r' = view r \<Longrightarrow> watched_by g acts r'"
  unfolding watched_by_def using view [of acts r r'] base_essence [of r' r N g acts] by blast

lemma drained_keeps:
  assumes W: "watched_by None [] r"
  shows "obs.keeps None [] (handle_engine_drained opts rt t e r)"
proof -
  have B: "base N None [] r" and J: "J [] r" using W by (simp_all add: watched_by_def)
  obtain c where c: "linked [] r c" "watch_part None [] r c" "counted N (rt_calls r)" using B by (auto simp: base_def)
  let ?ev = "EvEngineDrained t e"
  obtain c' as where s: "core_call ?ev r = (after_call ?ev c' as r, Ret as)" "linked as (after_call ?ev c' as r) c'"
    "counted N (rt_calls (after_call ?ev c' as r))" "J as (after_call ?ev c' as r)" "watch_part None as (after_call ?ev c' as r) c'"
    by (rule ordinary_call [OF c(1,3) J, of ?ev]) (use c(2) in auto)
  let ?r = "after_call ?ev c' as r"
  have W1: "watched_by None (as @ []) ?r" using linked_base [OF s(2,5,3)] s(4) by (simp add: watched_by_def)
  have W2: "watched_by None (as @ []) (tell ob ?r)" for ob by (rule watched_essence [OF W1]) simp_all
  have "obs.keeps None [] (and_then (applyActions opts as ?r)
      (\<lambda>_. failOwner opts (er_tab rt) (er_epoch rt) ''unexpected engine-drained from current direct route'' None None))"
    by (rule obs.keeps_and_then [OF obs.applyActions_keeps [OF W1]]) (rule obs.failOwner_keeps, simp_all)
  then show ?thesis using obs.applyActions_keeps [OF W2] by (simp add: handle_engine_drained_def s(1))
qed

lemma dispatch_engine_finished:
  assumes W: "watched_by None [] r" and rt: "rt_engineRoute r = Some rt" and wf: "wf_engine message"
    and e: "engine_epoch message = er_epoch rt" and t: "\<And>u. engine_tab message = Some u \<Longrightarrow> u = er_tab rt"
  shows "finished (dispatch_engine opts rt message r)"
proof (cases message)
  case (EngineAssetsReadyEnv u f)
  then show ?thesis using keeps_finished [OF assets_ready_keeps [OF W rt]] e t by simp
next
  case (EngineReadyEnv u f lock p out)
  then show ?thesis using ready_finished [OF W rt] e by simp
next
  case (EngineResponseEnv f rid resp)
  have "watched_by None [] (note_response rid resp r)"
    by (rule watched_essence [OF W]) (simp_all add: note_response_def Let_def split: option.splits)
  then show ?thesis using EngineResponseEnv keeps_finished
      ordinary_keeps [of None "note_response rid resp r" "EvEngineResponse f rid (decode_response resp)"] by simp
next
  case (EnginePushEnv f push)
  then show ?thesis using keeps_finished [OF ordinary_keeps [OF W, of "EvEnginePush f push"]] wf by simp
next
  case (EngineDrainedEnv u f)
  then show ?thesis using keeps_finished [OF drained_keeps [OF W]] by simp
next
  case (HeartbeatAckEnv f hb)
  have B: "base N None [] r" and J: "J [] r" using W by (simp_all add: watched_by_def)
  have "g = f" if "core_state r = Some (Active u g)" for u g
    using B that rt e HeartbeatAckEnv by (auto simp: base_def linked_def core_part_def route_part_def core_state_def)
  from accept_base [OF B this, where opts = opts and hb = hb] show ?thesis
    using HeartbeatAckEnv finish [OF view [OF J]] by (simp add: finished_def idle_base acceptHeartbeat_def)
qed (use keeps_finished [OF obs.failOwner_keeps [OF W]] wf in simp_all)

lemma engine_message_finished:
  assumes W: "watched_by None [] r" and rt: "rt_engineRoute r = Some rt"
  shows "finished (handleEngineMessage opts rt raw r)"
proof (cases "validateEngineToCoordinatorEnvelope raw")
  case (Fail err)
  then show ?thesis using keeps_finished [OF obs.failOwner_keeps [OF W]] by (simp add: handleEngineMessage_def)
next
  case (Pass v)
  then obtain message where m: "v = raw" "decode_engine raw = Some message" "wf_engine message"
    using engine_sound [of raw v] by blast
  obtain c where core: "rt_core r = Some c" using W base_core unfolding watched_by_def by metis
  show ?thesis
  proof (cases "engine_epoch message \<noteq> er_epoch rt \<or> (case engine_tab message of Some t \<Rightarrow> t \<noteq> er_tab rt | None \<Rightarrow> False)")
    case True
    then show ?thesis using Pass m(1,2) core keeps_finished [OF obs.failOwner_keeps [OF W]] by (simp add: handleEngineMessage_def)
  next
    case False
    then have "finished (dispatch_engine opts rt message r)"
      by (intro dispatch_engine_finished [OF W rt m(3)]) auto
    then show ?thesis using False Pass m(1,2) core by (simp add: handleEngineMessage_def)
  qed
qed

end

end
