(* ===== verification/RouterRuns.thy ===== *)
theory RouterRuns
  imports RouterTasks
begin

text \<open>
  Registration of tabs, their messages, and the router as a whole: every task from any idle state
  returns to one.
\<close>

section \<open>Registration\<close>

lemma linked_pending:
  assumes "linked acts r c" "\<forall>p \<in> set pr. typed_registration (snd p)" "rt_nextObject r \<le> k"
  shows "linked acts (r\<lparr>rt_pendingRegistrations := a, rt_cancelledRegistrations := b, rt_probes := pr, rt_nextObject := k\<rparr>) c"
proof -
  have "ports_ok r" "misc_part r" using assms(1) by (simp_all add: linked_def conn_part_def)
  then have "ports_ok (r\<lparr>rt_pendingRegistrations := a, rt_cancelledRegistrations := b, rt_probes := pr, rt_nextObject := k\<rparr>)"
    using assms(3) unfolding ports_ok_def by (fastforce intro: less_le_trans)
  moreover have "misc_part (r\<lparr>rt_pendingRegistrations := a, rt_cancelledRegistrations := b, rt_probes := pr, rt_nextObject := k\<rparr>)"
    using \<open>misc_part r\<close> assms(2) unfolding misc_part_def timers_defs by (simp del: typed_registration.simps)
  ultimately show ?thesis using assms(1) by (simp add: linked_def core_part_def conn_part_def route_part_def)
qed

lemma idle_pending:
  assumes "idle N r" "\<forall>p \<in> set pr. typed_registration (snd p)" "rt_nextObject r \<le> k"
  shows "idle N (r\<lparr>rt_pendingRegistrations := a, rt_cancelledRegistrations := b, rt_probes := pr, rt_nextObject := k\<rparr>)"
proof -
  let ?r = "r\<lparr>rt_pendingRegistrations := a, rt_cancelledRegistrations := b, rt_probes := pr, rt_nextObject := k\<rparr>"
  have "fresh r \<Longrightarrow> fresh ?r" using assms(2) by (simp add: fresh_def misc_part_def timers_defs)
  moreover have "watch_part None [] ?r c = watch_part None [] r c" for c
    unfolding watch_part_def armed_defs by (simp cong: coordinator_state.case_cong)
  then have "base N None [] r \<Longrightarrow> base N None [] ?r"
    unfolding base_def using linked_pending [OF _ assms(2,3)] by simp blast
  ultimately show ?thesis using assms(1) by (auto simp: idle_def)
qed

lemma idle_misc: "idle N r \<Longrightarrow> misc_part r"
  by (auto simp: idle_def fresh_def base_def linked_def)

lemma probes_typed:
  assumes "idle N r"
  shows "\<forall>p \<in> set (rt_probes r). typed_registration (snd p)" "\<forall>p \<in> set (AList.delete k (rt_probes r)). typed_registration (snd p)"
    "map_of (rt_probes r) k = Some m \<Longrightarrow> typed_registration m"
proof -
  have all: "\<forall>p \<in> set (rt_probes r). typed_registration (snd p)" using idle_misc [OF assms] by (simp add: misc_part_def)
  then show "\<forall>p \<in> set (rt_probes r). typed_registration (snd p)" "\<forall>p \<in> set (AList.delete k (rt_probes r)). typed_registration (snd p)"
    by (simp_all add: set_delete)
  show "typed_registration m" if "map_of (rt_probes r) k = Some m" using all map_of_SomeD [OF that] by fastforce
qed

text \<open>A new coordinator\<close>

lemma created_base:
  assumes "fresh r" "N < max_safe_integer" "new_core sc = Ret c" "sc \<noteq> ''''" "case hot of None \<Rightarrow> True | Some n \<Rightarrow> positive n"
  shows "base N None [] (r\<lparr>rt_core := Some c, rt_hotCapacity := hot\<rparr>)"
proof -
  have c: "scope c = sc" "tabs c = []" "stateValue c = WaitingForTab OpenExisting" "queuedRequests c = []" "inFlight c = []"
    using assms(3) by (auto simp: new_core_def init_core_def split: if_splits)
  have "core_run [] c" by (rule core_run.start [OF assms(3)])
  moreover have "misc_part (r\<lparr>rt_core := Some c, rt_hotCapacity := hot\<rparr>)"
    using assms(1,5) by (simp add: fresh_def misc_part_def timers_defs)
  ultimately have "linked [] (r\<lparr>rt_core := Some c, rt_hotCapacity := hot\<rparr>) c"
    using assms(1,4) c
    by (simp add: linked_def core_part_def acts_part_def conn_part_def ports_ok_def route_part_def fresh_def typed_core_def sane_calm)
  then show ?thesis by (rule linked_base) (use assms(1,2) c in \<open>simp_all add: watch_part_def counted_def fresh_def request_count_def\<close>)
qed

text \<open>The connection of a tab that the core does not know yet\<close>

definition connect_tab :: "tab_id \<Rightarrow> port \<Rightarrow> router \<Rightarrow> router" where
  "connect_tab t p r = r\<lparr>rt_tabs := AList.update t \<lparr>cn_id = rt_nextObject r, cn_port = p\<rparr> (rt_tabs r),
     rt_portTabs := AList.update p t (rt_portTabs r), rt_nextObject := Suc (rt_nextObject r)\<rparr>"

lemma update_keys: "k \<notin> set (map fst m) \<Longrightarrow> map fst (AList.update k v m) = map fst m @ [k]"
  by (induction m) auto

lemma connect_ports:
  assumes "ports_ok r" "map_of (rt_tabs r) t = None" "map_of (rt_portTabs r) p = None"
  shows "ports_ok (connect_tab t p r)" "map fst (rt_tabs (connect_tab t p r)) = map fst (rt_tabs r) @ [t]"
proof -
  have t: "t \<notin> set (map fst (rt_tabs r))" using assms(2) by (simp add: map_of_eq_None_iff)
  then show keys: "map fst (rt_tabs (connect_tab t p r)) = map fst (rt_tabs r) @ [t]" by (simp add: connect_tab_def update_keys)
  have tabs: "map_of (rt_tabs (connect_tab t p r)) u = (if u = t then Some \<lparr>cn_id = rt_nextObject r, cn_port = p\<rparr> else map_of (rt_tabs r) u)" for u
    by (simp add: connect_tab_def update_conv')
  have "map_of (rt_portTabs (connect_tab t p r)) q = Some u \<longleftrightarrow> (\<exists>cn. map_of (rt_tabs (connect_tab t p r)) u = Some cn \<and> cn_port cn = q)" for q u
  proof -
    have link: "map_of (rt_portTabs r) q = Some u \<longleftrightarrow> (\<exists>cn. map_of (rt_tabs r) u = Some cn \<and> cn_port cn = q)" for q u
      using assms(1) by (simp add: ports_ok_def)
    have "map_of (rt_portTabs r) q \<noteq> Some t" for q using link [of q t] assms(2) by simp
    moreover have "map_of (rt_tabs r) u = Some cn \<Longrightarrow> cn_port cn \<noteq> p" for u cn using link [of p u] assms(3) by auto
    ultimately show ?thesis using link [of q u] unfolding tabs by (auto simp: connect_tab_def update_conv')
  qed
  moreover have "distinct (map fst (rt_tabs (connect_tab t p r)))" using assms(1) t keys by (auto simp: ports_ok_def)
  moreover have "cn_id cn < rt_nextObject (connect_tab t p r)" if "map_of (rt_tabs (connect_tab t p r)) u = Some cn" for u cn
    using that assms(1) unfolding tabs by (auto simp: ports_ok_def connect_tab_def less_SucI split: if_splits)
  ultimately show "ports_ok (connect_tab t p r)" by (simp add: ports_ok_def)
qed

lemma connect_parts:
  "rt_core (connect_tab t p r) = rt_core r" "rt_calls (connect_tab t p r) = rt_calls r"
  "rt_engineRoute (connect_tab t p r) = rt_engineRoute r" "misc_part (connect_tab t p r) = misc_part r"
  "watch_part g acts (connect_tab t p r) c = watch_part g acts r c"
  unfolding watch_part_def armed_defs misc_part_def timers_defs by (simp_all add: connect_tab_def cong: coordinator_state.case_cong)

lemma emit_swap:
  "(emit ef (r\<lparr>rt_nextObject := k\<rparr>))\<lparr>rt_tabs := A, rt_portTabs := P\<rparr> = emit ef (r\<lparr>rt_tabs := A, rt_portTabs := P, rt_nextObject := k\<rparr>)"
  "rt_tabs (emit ef r) = rt_tabs r" "rt_portTabs (emit ef r) = rt_portTabs r"
  by (rule router.equality) (simp_all add: emit_def)

context router_observer
begin

text \<open>A registration is admitted.\<close>

lemma registered_keeps:
  assumes W: "watched_by None [] r" and m: "typed_registration m"
    and free: "map_of (rt_tabs r) (sr_tab m) = None" "map_of (rt_portTabs r) (sr_port m) = None"
    and core: "rt_core r = Some c0"
  shows "obs.keeps None [] (admit_tab opts m r)"
proof -
  have B: "base N None [] r" and J: "J [] r" using W by (simp_all add: watched_by_def)
  obtain c where c: "linked [] r c" "watch_part None [] r c" "counted N (rt_calls r)" using B by (auto simp: base_def)
  note I = linked_inv [OF c(1,3)]
  let ?t = "sr_tab m" and ?ev = "EvRegisterTab (sr_tab m)"
  define r1 where "r1 = connect_tab ?t (sr_port m) r"
  define r4 where "r4 = postToTab ?t (RegisteredEnv ?t) (emit (WatchLock (rt_nextObject r) (sr_lock m)) r1)"
  have t: "?t \<noteq> ''''" using m by simp
  have ess: "essence r4 = essence r1" by (simp add: r4_def)
  note es = essence_fields [OF ess]
  have tabs: "map fst (rt_tabs r) = tabs c" "ports_ok r" using c(1) by (simp_all add: linked_def conn_part_def)
  note con = connect_ports [OF tabs(2) free]
  have new: "?t \<notin> set (tabs c)" using free(1) by (simp add: tabs(1) [symmetric] map_of_eq_None_iff)
  have "J [] (r\<lparr>rt_tabs := AList.update ?t \<lparr>cn_id = rt_nextObject r, cn_port = sr_port m\<rparr> (rt_tabs r),
      rt_portTabs := AList.update (sr_port m) ?t (rt_portTabs r), rt_nextObject := Suc (rt_nextObject r)\<rparr>)"
    by (rule admitted [OF J]) (use new tabs(1) in simp_all)
  then have "J [] (emit (WatchLock (rt_nextObject r) (sr_lock m)) r1)"
    by (rule view) (simp add: r1_def connect_tab_def)
  then have J4: "J [] r4" unfolding r4_def by (rule postToTab_J) (use t in simp_all)
  obtain c' and as :: "router_action list" where s: "core_step ?ev c = (c', Ret as)"
    using core_step_ret [OF I(2,3), of ?ev] by (metis is_retE surjective_pairing)
  have F: "follows ?ev c c' as" by (rule core_step_follows [OF I(2,3) s]) simp
  have core4: "rt_core r4 = Some c" using es(1) I(1) by (simp add: r1_def connect_parts)
  let ?r5 = "after_call ?ev c' as r4"
  have act: "stateValue c' \<noteq> Active u f" if "stateValue c \<noteq> Active u f" for u f
    using F that by (auto simp: follows_def phase_follows_def)
  have "linked (as @ []) ?r5 c'"
  proof (rule registration_linked [OF _ _ _ _ _ _ I(2,3) _ s F])
    show "core_part r4 c" "acts_part [] c" "route_part [] r4 c" "misc_part r4"
      using c(1) es core4 parts_essence [OF ess]
      by (simp_all add: linked_def core_part_def route_part_def misc_part_def timers_defs)
        (simp_all add: r1_def connect_tab_def)
    show "ports_ok r4" using con(1) es by (simp add: ports_ok_def r1_def)
    show "map fst (rt_tabs r4) = tabs c @ registered_by ?ev c" using con(2) es(3) tabs(1) new by (simp add: r1_def)
  qed (use t act in auto)
  moreover have "watch_part None (as @ []) ?r5 c'"
  proof (rule call_watch [OF _ F])
    show "watch_part None [] r4 c" unfolding parts_essence(2) [OF ess] using c(2) by (simp add: r1_def connect_parts)
  qed (use act in auto)
  moreover have "counted N (rt_calls ?r5)"
    using c(3) es(2) by (simp add: r1_def connect_parts counted_def request_count_def)
  moreover have "J (as @ []) ?r5" by (rule call [OF J4 _ core4 I(2,3) s epoch_grows [OF I(2) s]]) simp
  ultimately have W5: "watched_by None (as @ []) ?r5" using linked_base by (auto simp: watched_by_def)
  have "watched_by None [] (case startupProgress opts r6 of Some progress \<Rightarrow> postToTab ?t progress r6 | None \<Rightarrow> r6)"
    if W6: "watched_by None [] r6" for r6
  proof (cases "startupProgress opts r6")
    case (Some progress)
    then obtain u f act ph where st: "core_state r6 = Some (Activating u f act ph)"
      "progress = EngineStartupEnv f ph act (if ph = LoadingAssets then ro_assetLoadTimeoutMs opts else ro_activationTimeoutMs opts)"
      by (auto simp: startupProgress_def split: option.splits coordinator_state.splits)
    obtain c6 where c6: "rt_core r6 = Some c6" "core_inv c6" using W6 base_core unfolding watched_by_def by metis
    have "typed_to_tab opts (epoch_of r6) progress" "\<not> is_answer progress"
      using st c6(1) owner_epoch [OF c6(2), of u f] by (auto simp: core_state_def)
    then have "J [] (postToTab ?t progress r6)" using postToTab_J W6 by (simp add: watched_by_def)
    then show ?thesis using Some W6 base_essence [OF essence_ops(5)] by (simp add: watched_by_def)
  qed (use W6 in simp)
  then have "obs.keeps None [] (and_then (applyActions opts as ?r5) (\<lambda>_ r6. done_with
      (if list_ex (\<lambda>a. case a of ElectOwner _ _ _ \<Rightarrow> True | _ \<Rightarrow> False) as then r6
       else case startupProgress opts r6 of Some progress \<Rightarrow> postToTab ?t progress r6 | None \<Rightarrow> r6)))"
    by (intro obs.keeps_and_then [OF obs.applyActions_keeps [OF W5]] obs.keeps_done) simp
  moreover have "core_call ?ev r4 = (?r5, Ret as)" by (rule core_call_Ret [OF core4 s])
  moreover have "admit_tab opts m r = and_then (core_call ?ev r4) (\<lambda>acts r5. and_then (applyActions opts acts r5) (\<lambda>_ r6. done_with
      (if list_ex (\<lambda>a. case a of ElectOwner _ _ _ \<Rightarrow> True | _ \<Rightarrow> False) acts then r6
       else case startupProgress opts r6 of Some progress \<Rightarrow> postToTab ?t progress r6 | None \<Rightarrow> r6)))"
    using core by (simp add: admit_tab_def r4_def r1_def connect_tab_def emit_swap Let_def)
  ultimately show ?thesis by simp
qed

lemma admit_keeps:
  assumes idle: "idle N r" and J: "J [] r" and m: "typed_registration m"
    and free: "map_of (rt_tabs r) (sr_tab m) = None" "map_of (rt_portTabs r) (sr_port m) = None"
  shows "obs.keeps None [] (admit_tab opts m r)"
proof (cases "rt_core r")
  case (Some c)
  then have "base N None [] r" using idle by (simp add: idle_def fresh_def)
  then show ?thesis using registered_keeps [OF _ m free Some] J by (simp add: watched_by_def)
next
  case None
  have "\<not> base N None [] r" using base_core [of N None "[]" r] None by fastforce
  then have fresh: "fresh r" and N: "N < max_safe_integer" using idle by (auto simp: idle_def)
  obtain c :: router_core where c: "new_core (sr_scope m) = Ret c" using m by (auto simp: new_core_def)
  let ?r = "r\<lparr>rt_core := Some c, rt_hotCapacity := sr_hot m\<rparr>"
  have "base N None [] ?r" by (rule created_base [OF fresh N c]) (use m in simp_all)
  moreover have "J [] ?r" by (rule view [OF created [OF J None c]]) (simp add: view_def posts_def sends_def)
  ultimately have "obs.keeps None [] (admit_tab opts m ?r)"
    by (intro registered_keeps [OF _ m]) (use free in \<open>simp_all add: watched_by_def\<close>)
  then show ?thesis using None c by (simp add: admit_tab_def)
qed

text \<open>A task that only posts errors\<close>

lemma quiet_finished:
  assumes "idle N r" "J [] r'" "essence r' = essence r"
  shows "finished (done_with r')"
  using done_finished idle_essence [OF assms(3)] assms(1,2) by blast

lemma refuse_J: "J [] r \<Longrightarrow> err \<noteq> '''' \<Longrightarrow> J [] (refuse_port p err r)"
  unfolding refuse_port_def by (rule view [OF error_J]) simp_all

lemma refuse_finished: "idle N r \<Longrightarrow> J [] r \<Longrightarrow> err \<noteq> '''' \<Longrightarrow> finished (done_with (refuse_port p err r))"
  by (rule quiet_finished [OF _ refuse_J]) (simp_all add: refuse_port_def)

lemma error_finished: "idle N r \<Longrightarrow> J [] r \<Longrightarrow> err \<noteq> '''' \<Longrightarrow> finished (done_with (postProtocolError p err r))"
  by (rule quiet_finished [OF _ error_J]) simp_all

text \<open>Pending registrations\<close>

lemma pending_J:
  assumes "J [] r" "rt_nextObject r \<le> k"
  shows "J [] (r\<lparr>rt_pendingRegistrations := a, rt_cancelledRegistrations := b, rt_probes := pr, rt_nextObject := k\<rparr>)"
  using numbered [OF assms, of "rt_nextHeartbeatId r"] by (rule view) (simp_all add: view_def posts_def sends_def)

lemma register_finished:
  assumes idle: "idle N r" and J: "J [] r" and m: "typed_registration m"
  shows "finished (done_with (register m r))"
proof -
  let ?r = "r\<lparr>rt_nextObject := rt_nextObject r + 1,
    rt_pendingRegistrations := AList.update (sr_port m) (rt_nextObject r) (rt_pendingRegistrations r), rt_probes := rt_probes r @ [(rt_nextObject r, m)]\<rparr>"
  have eq: "?r = r\<lparr>rt_pendingRegistrations := AList.update (sr_port m) (rt_nextObject r) (rt_pendingRegistrations r),
      rt_cancelledRegistrations := rt_cancelledRegistrations r, rt_probes := rt_probes r @ [(rt_nextObject r, m)],
      rt_nextObject := rt_nextObject r + 1\<rparr>" by (rule router.equality) simp_all
  have "\<forall>p \<in> set (rt_probes r @ [(rt_nextObject r, m)]). typed_registration (snd p)"
    using probes_typed(1) [OF idle] m by (auto simp del: typed_registration.simps)
  then have "idle N ?r" unfolding eq by (rule idle_pending [OF idle]) simp
  moreover have "J [] ?r" unfolding eq by (rule pending_J [OF J]) simp
  then have "J [] (emit (ProbeLock (rt_nextObject r) (sr_lock m)) ?r)" by (rule view) simp
  ultimately have "finished (done_with (emit (ProbeLock (rt_nextObject r) (sr_lock m)) ?r))"
    by (rule quiet_finished) simp
  then show ?thesis using error_finished [OF idle J] refuse_finished [OF idle J]
    by (auto simp: register_def Let_def)
qed

lemma resume_finished:
  assumes idle: "idle N r" and J: "J [] r"
  shows "finished (resume_registration opts k result r)"
proof (cases "map_of (rt_probes r) k")
  case None
  then show ?thesis using done_finished [OF assms] by (simp add: resume_registration_def)
next
  case (Some m)
  let ?r1 = "r\<lparr>rt_probes := AList.delete k (rt_probes r)\<rparr>"
  let ?r2 = "?r1\<lparr>rt_pendingRegistrations := AList.delete (sr_port m) (rt_pendingRegistrations ?r1)\<rparr>"
  have eq: "?r1 = r\<lparr>rt_pendingRegistrations := rt_pendingRegistrations r, rt_cancelledRegistrations := rt_cancelledRegistrations r,
      rt_probes := AList.delete k (rt_probes r), rt_nextObject := rt_nextObject r\<rparr>"
    "?r2 = r\<lparr>rt_pendingRegistrations := AList.delete (sr_port m) (rt_pendingRegistrations r),
      rt_cancelledRegistrations := rt_cancelledRegistrations r, rt_probes := AList.delete k (rt_probes r), rt_nextObject := rt_nextObject r\<rparr>"
    by (rule router.equality, simp_all)+
  have r1: "idle N ?r1" "J [] ?r1" unfolding eq(1) by (rule idle_pending [OF idle probes_typed(2) [OF idle]] pending_J [OF J], simp)+
  have r2: "idle N ?r2" "J [] ?r2" unfolding eq(2) by (rule idle_pending [OF idle probes_typed(2) [OF idle]] pending_J [OF J], simp)+
  have adm: "finished (admit_tab opts m ?r2)"
    if "\<not> (map_has (rt_portTabs ?r2) (sr_port m) \<or> map_has (rt_tabs ?r2) (sr_tab m))"
    using that by (intro keeps_finished admit_keeps [OF r2 probes_typed(3) [OF idle Some]]) (auto simp: map_has_def map_keys_def map_of_eq_None_iff)
  show ?thesis
    using done_finished [OF r1] refuse_finished [OF r2] adm
    by (simp add: resume_registration_def Some Let_def del: typed_registration.simps)
qed

section \<open>Messages of tabs\<close>

lemma attach_finished:
  assumes W: "watched_by None [] r"
  shows "finished (attachEnginePort opts t e enginePort r)"
proof -
  have B: "base N None [] r" and J: "J [] r" using W by (simp_all add: watched_by_def)
  obtain c where c: "linked [] r c" "watch_part None [] r c" "counted N (rt_calls r)" using B by (auto simp: base_def)
  note I = linked_inv [OF c(1,3)]
  have W1: "watched_by None [] (emit (CloseEnginePort enginePort) r)" by (rule watched_essence [OF W]) simp_all
  have W2: "watched_by None [] (if enginePort = JUndefined then r else emit (CloseEnginePort enginePort) r)"
    using W W1 by simp
  show ?thesis
  proof (cases "\<not> expectsEngine t e c \<or> enginePort = JUndefined \<or> rt_engineRoute r \<noteq> None")
    case True
    then show ?thesis
      using keeps_finished [OF obs.failOwner_keeps [OF W2, of "''invalid direct engine attachment''" t e None None]]
        error_finished [of "if enginePort = JUndefined then r else emit (CloseEnginePort enginePort) r"] W2
      by (simp add: attachEnginePort_def I(1) Let_def watched_by_def idle_base)
  next
    case False
    then have st: "owner_of (stateValue c) = Some (t, e)" "\<not> (stateValue c = Active u f \<or> stateValue c = Draining u f)" for u f
      by (auto simp: expectsEngine_def split: coordinator_state.splits)
    let ?rt = "\<lparr>er_id = rt_nextObject r, er_tab = t, er_epoch = e\<rparr>"
    let ?r = "r\<lparr>rt_engineRoute := Some ?rt, rt_nextObject := rt_nextObject r + 1\<rparr>"
    have "ports_ok ?r" "misc_part ?r" using c(1)
      by (auto simp: linked_def conn_part_def ports_ok_def misc_part_def timers_defs less_SucI)
    then have "linked [] ?r c" using c(1) st by (simp add: linked_def core_part_def conn_part_def route_part_def)
    moreover have "watch_part None [] ?r c"
      using c(2) unfolding watch_part_def armed_defs by (simp cong: coordinator_state.case_cong)
    ultimately have "base N None [] ?r" using c(3) by (intro linked_base) simp_all
    moreover have "e = epoch_of r" using owner_epoch(2) [OF I(2) st(1)] I(1) by simp
    then have "K ?r" using attached [OF J, of t] False by simp
    ultimately have "finished (done_with ?r)" by (simp add: finished_def idle_base)
    then show ?thesis using False keeps_finished [OF obs.failOwner_keeps [OF W1]]
      by (auto simp: attachEnginePort_def I(1) Let_def split: option.splits)
  qed
qed

lemma request_event_typed:
  assumes "isCacheRequest req"
  shows "typed_request (decode_request req)"
proof -
  obtain m where m: "req = JObject m" using assms by (cases req) (auto simp: isCacheRequest_def)
  have "isSafeNonNegativeInteger (get req ''id'')" using assms by (simp add: isCacheRequest_def commonRequest_def)
  then have "is_safe_nat (the_nat (get req ''id''))" by (cases "get req ''id''") (auto simp: is_safe_nat_def max_safe_integer_def)
  then show ?thesis using assms by (simp add: m typed_request_def)
qed

lemma dispatch_tab_finished:
  assumes W: "watched_by None [] r" and wf: "wf_tab message" and room: "request_count (rt_calls r) < N"
  shows "finished (dispatch_tab opts t message r)"
proof (cases message)
  case (CacheRequestEnv u req)
  then have "obs.keeps None [] (call_and_apply opts (EvRequest t (decode_request req)) r)"
    using wf request_event_typed by (intro ordinary_keeps [OF W room]) simp_all
  then show ?thesis using CacheRequestEnv keeps_finished by simp
next
  case (AttachEnginePortEnv u e p)
  then show ?thesis using attach_finished [OF W] by simp
next
  case (GracefulDepartureEnv u e)
  then show ?thesis using keeps_finished ordinary_keeps [OF W, of "EvBeginGracefulDeparture t e"] by simp
next
  case (NavigationDepartureEnv u e why)
  then show ?thesis using keeps_finished depart_keeps [OF W] by simp
next
  case (EngineLostEnv u e why)
  then show ?thesis using keeps_finished obs.failOwner_keeps [OF W] wf by simp
next
  case (DisconnectTabEnv u why)
  then show ?thesis using keeps_finished loseTab_keeps [OF W] wf by simp
next
  case (RegisterTabEnv sc u lock hot)
  then show ?thesis using keeps_finished obs.keeps_done [OF W] by simp
qed

lemma closed_ports:
  "essence (fold (\<lambda>q. emit (CloseTransferredPort q)) ports r) = essence r"
  "view (fold (\<lambda>q. emit (CloseTransferredPort q)) ports r) = view r"
  by (simp_all add: view_fold)

lemma idle_watched: "idle N r \<Longrightarrow> J [] r \<Longrightarrow> rt_core r \<noteq> None \<Longrightarrow> watched_by None [] r"
  by (auto simp: idle_def watched_by_def fresh_def)

lemma tab_message_finished:
  assumes idle: "idle N r" and J: "J [] r" and room: "request_count (rt_calls r) < N"
  shows "finished (handleTabMessage opts p raw ports r)"
proof (cases "validateTabToCoordinatorEnvelope raw")
  case (Fail err)
  have "err \<noteq> ''''" using Fail by (auto simp: validateTabToCoordinatorEnvelope_def check_kind_def invalid_envelope_def split: if_splits option.splits)
  then show ?thesis using Fail error_finished [OF idle J] by (simp add: handleTabMessage_def)
next
  case (Pass v)
  then obtain message where m: "v = raw" "decode_tab raw = Some message" "wf_tab message"
    using tab_sound [of raw v] by blast
  let ?r = "fold (\<lambda>q. emit (CloseTransferredPort q)) ports r"
  have "idle N ?r" "J [] ?r" using idle idle_essence [OF closed_ports(1)] view [OF J closed_ports(2)] by simp_all
  note closed = error_finished [OF this, of _ "Some p"]
  show ?thesis
  proof (cases message)
    case (RegisterTabEnv sc t lock hot)
    then show ?thesis using Pass m closed m(3)
        register_finished [OF idle J, of "\<lparr>sr_port = p, sr_scope = sc, sr_tab = t, sr_lock = lock, sr_hot = hot\<rparr>"]
      by (simp add: handleTabMessage_def)
  qed (use Pass m closed error_finished [OF idle J] dispatch_tab_finished [OF idle_watched [OF idle J] m(3) room]
    in \<open>auto simp: handleTabMessage_def Let_def\<close>)
qed

lemma port_error_finished:
  assumes idle: "idle N r" and J: "J [] r"
  shows "finished (handlePortError opts p r)"
proof (cases "truthy_string (map_of (rt_portTabs r) p)")
  case True
  then have "rt_portTabs r \<noteq> []" by auto
  then have "rt_core r \<noteq> None" using idle base_core [of N None "[]" r] by (fastforce simp: idle_def fresh_def)
  then show ?thesis using True keeps_finished loseTab_keeps idle_watched [OF assms] by (simp add: handlePortError_def)
next
  case False
  define r1 where "r1 = (case map_of (rt_pendingRegistrations r) p of None \<Rightarrow> r
    | Some k \<Rightarrow> r\<lparr>rt_cancelledRegistrations := rt_cancelledRegistrations r @ [k],
        rt_pendingRegistrations := AList.delete p (rt_pendingRegistrations r)\<rparr>)"
  have "idle N r1"
  proof (cases "map_of (rt_pendingRegistrations r) p")
    case (Some k)
    then have "r1 = r\<lparr>rt_pendingRegistrations := AList.delete p (rt_pendingRegistrations r),
      rt_cancelledRegistrations := rt_cancelledRegistrations r @ [k], rt_probes := rt_probes r, rt_nextObject := rt_nextObject r\<rparr>"
      unfolding r1_def by simp
    then show ?thesis by (simp only:) (rule idle_pending [OF idle probes_typed(1) [OF idle]], simp)
  qed (use idle in \<open>simp add: r1_def\<close>)
  moreover have "J [] (emit (ClosePort p) r1)" by (rule view [OF J]) (simp add: r1_def split: option.splits)
  ultimately have "finished (done_with (emit (ClosePort p) r1))" by (rule quiet_finished) simp
  then show ?thesis using False by (simp add: handlePortError_def r1_def)
qed

section \<open>Tasks\<close>

lemma microtask_keeps:
  assumes W: "watched_by None [] r"
  shows "obs.keeps None [] (run_activation opts (r\<lparr>rt_microtasks := n\<rparr>))"
proof -
  have B: "base N None [] r" and J: "J [] r" using W by (simp_all add: watched_by_def)
  obtain c where c: "linked [] r c" "watch_part None [] r c" "counted N (rt_calls r)" using B by (auto simp: base_def)
  have "misc_part (r\<lparr>rt_microtasks := n\<rparr>)" using c(1) by (simp add: linked_def misc_part_def timers_defs)
  then have "linked [] (r\<lparr>rt_microtasks := n\<rparr>) c" by (intro linked_cong [OF c(1)]) simp_all
  moreover have "J [] (r\<lparr>rt_microtasks := n\<rparr>)" by (rule view [OF J]) simp
  moreover have "watch_part None [] (r\<lparr>rt_microtasks := n\<rparr>) c" if "\<not> guards RecoveryActivate (stateValue c) None"
    using c(2) that by (cases "stateValue c") (simp_all add: watch_part_def armed_defs)
  ultimately show ?thesis using c(3) by (intro activation_keeps) simp_all
qed

lemma handle_finished:
  assumes idle: "idle N r" and J: "J [] r" and room: "request_count (rt_calls r) < N"
  shows "finished (handle opts inp r)"
proof -
  note unchanged = done_finished [OF idle J]
  note watched = idle_watched [OF idle J]
  have live: "watched_by None [] r" if "rt_tabs r \<noteq> [] \<or> rt_engineRoute r \<noteq> None \<or> rt_timers r \<noteq> [] \<or> rt_microtasks r \<noteq> 0"
    using that idle J by (auto simp: idle_def fresh_def watched_by_def)
  show ?thesis
  proof (cases inp)
    case (Connect p)
    have "J [] (emit (StartPort p) r)" by (rule view [OF J]) simp
    then show ?thesis using Connect quiet_finished [OF idle] by simp
  next
    case (TabMessage p raw ports)
    then show ?thesis using tab_message_finished [OF assms] by simp
  next
    case (TabMessageError p)
    then show ?thesis using port_error_finished [OF idle J] by simp
  next
    case (ProbeSettled k result)
    then show ?thesis using resume_finished [OF idle J] by simp
  next
    case (LockReleased k t)
    have "map_of (rt_tabs r) t = Some cn \<Longrightarrow> watched_by None [] r" for cn by (rule live) auto
    then show ?thesis using LockReleased unchanged keeps_finished loseTab_keeps by (auto split: option.splits)
  next
    case (EngineMessage k raw)
    then show ?thesis using unchanged engine_message_finished [OF live] by (auto split: option.splits)
  next
    case (EngineError k err)
    then show ?thesis using unchanged keeps_finished obs.failOwner_keeps [OF live] by (auto split: option.splits)
  next
    case (TimerFires k)
    have "map_of (rt_timers r) k = Some x \<Longrightarrow> watched_by None [] r" for x by (rule live) auto
    then show ?thesis using TimerFires unchanged keeps_finished timer_keeps by (auto split: option.splits)
  next
    case MicrotaskRuns
    then show ?thesis using unchanged keeps_finished microtask_keeps [OF live] by auto
  qed
qed

lemma task_observed:
  assumes idle: "idle n r" and N: "n < N" "N < max_safe_integer" and J: "J [] r"
  shows "is_ret (snd (handle opts inp (r\<lparr>rt_now := now\<rparr>)))" "idle N (router_task opts (now, inp) r)"
    "K (router_task opts (now, inp) r)"
proof -
  let ?r = "r\<lparr>rt_now := now\<rparr>"
  have "idle N ?r" using idle_mono [OF idle _ N(2)] N(1) idle_essence [OF essence_simps(6)] by simp
  moreover have "J [] ?r" by (rule view [OF J]) simp
  moreover have "request_count (rt_calls ?r) < N"
    using idle N(1) by (auto simp: idle_def base_def counted_def fresh_def request_count_def)
  ultimately have "finished (handle opts inp ?r)" by (rule handle_finished)
  then show "is_ret (snd (handle opts inp ?r))" "idle N (router_task opts (now, inp) r)" "K (router_task opts (now, inp) r)"
    by (simp_all add: finished_def router_task_def)
qed

end

end
