(* ===== verification/RouterClaims.thy ===== *)
theory RouterClaims
  imports RouterRuns
begin

text \<open>
  The properties of the coordinator's router, over every sequence of tasks from a new router:
  what it sends is well typed, engines hear only their own epoch, the router is where its core is, and
  every waiting phase is watched.
\<close>

section \<open>Runs\<close>

definition router_run :: "router_options \<Rightarrow> (rat \<times> router_input) list \<Rightarrow> router" where
  "router_run opts xs = fold (router_task opts) xs new_router"

lemma router_run_simps [simp]:
  "router_run opts [] = new_router"
  "router_run opts (xs @ [x]) = router_task opts x (router_run opts xs)"
  by (simp_all add: router_run_def)

text \<open>Runs stay idle between tasks.\<close>

interpretation plain_obs: router_observer opts N "\<lambda>_ _. True" "\<lambda>_. True" for opts N
  by unfold_locales auto

lemma run_idle: "length xs < max_safe_integer \<Longrightarrow> idle (length xs) (router_run opts xs)"
proof (induction xs rule: rev_induct)
  case Nil
  then show ?case by (simp add: idle_new)
next
  case (snoc x xs)
  then show ?case using plain_obs.task_observed(2) [of "length xs" "router_run opts xs" "Suc (length xs)" opts "fst x" "snd x"]
    by simp
qed

section \<open>What the router sends\<close>

definition typed_log :: "router_options \<Rightarrow> router \<Rightarrow> bool" where
  "typed_log opts r \<longleftrightarrow> (\<forall>x \<in> set (posts r). typed_to_tab opts (epoch_of r) (snd x)) \<and>
     (\<forall>x \<in> set (sends r). typed_to_engine (epoch_of r) (rt_nextHeartbeatId r) (snd x))"

lemma logs_simps [simp]:
  "posts (emit (PostTab p msg) r) = posts r @ [(p, msg)]" "sends (emit (PostTab p msg) r) = sends r"
  "posts (emit (SendEngine k emsg) r) = posts r" "sends (emit (SendEngine k emsg) r) = sends r @ [(k, emsg)]"
  "posts (after_call ev c as r) = posts r" "sends (after_call ev c as r) = sends r"
  "rt_nextHeartbeatId (emit ef r) = rt_nextHeartbeatId r" "rt_calls (emit ef r) = rt_calls r"
  "rt_core (emit ef r) = rt_core r" "rt_tabs (emit ef r) = rt_tabs r" "rt_engineRoute (emit ef r) = rt_engineRoute r"
  "rt_nextObject (emit ef r) = rt_nextObject r" "rt_nextObject (after_call ev c as r) = rt_nextObject r"
  by (simp_all add: posts_def sends_def emit_def after_call_def)

lemma logs_updates [simp]:
  "posts (r\<lparr>rt_tabs := a\<rparr>) = posts r" "posts (r\<lparr>rt_portTabs := b\<rparr>) = posts r" "posts (r\<lparr>rt_engineRoute := c\<rparr>) = posts r"
  "posts (r\<lparr>rt_recoveryAttemptCount := n\<rparr>) = posts r" "sends (r\<lparr>rt_recoveryAttemptCount := n\<rparr>) = sends r"
  "posts (r\<lparr>rt_nextObject := d\<rparr>) = posts r" "posts (r\<lparr>rt_nextHeartbeatId := e\<rparr>) = posts r" "posts (r\<lparr>rt_core := f\<rparr>) = posts r"
  "sends (r\<lparr>rt_tabs := a\<rparr>) = sends r" "sends (r\<lparr>rt_portTabs := b\<rparr>) = sends r" "sends (r\<lparr>rt_engineRoute := c\<rparr>) = sends r"
  "sends (r\<lparr>rt_nextObject := d\<rparr>) = sends r" "sends (r\<lparr>rt_nextHeartbeatId := e\<rparr>) = sends r" "sends (r\<lparr>rt_core := f\<rparr>) = sends r"
  by (simp_all add: posts_def sends_def)

lemma typed_log_mono:
  assumes "typed_log opts r" "posts r' = posts r" "sends r' = sends r" "epoch_of r \<le> epoch_of r'"
    "rt_nextHeartbeatId r \<le> rt_nextHeartbeatId r'"
  shows "typed_log opts r'"
  using assms typed_mono by (fastforce simp: typed_log_def)

interpretation typed_obs: router_observer opts N "\<lambda>_. typed_log opts" "typed_log opts" for opts N
proof
  fix r r' :: router
  assume T: "typed_log opts r"
  show "typed_log opts r'" if "view r' = view r"
    using view_fields [OF that] by (intro typed_log_mono [OF T]) (simp_all add: epoch_of_def)
  show "typed_log opts r'" if "view r' = view (r\<lparr>rt_recoveryAttemptCount := 0\<rparr>)"
    using reset_fields [OF that] by (intro typed_log_mono [OF T]) (simp_all add: epoch_of_def)
  show "typed_log opts (emit (PostTab p msg) r)" if "typed_to_tab opts (epoch_of r) msg" for p msg
    using T that by (auto simp: typed_log_def)
  show "typed_log opts (postCacheResponse t resp r)" if "is_safe_nat (response_id resp)" for t resp
    using T that by (auto simp: typed_log_def postCacheResponse_def postToTab_def isWorkerMessage_def encode_response_valid
        split: option.splits)
  show "typed_log opts (emit (SendEngine k emsg) r)" if "typed_to_engine (epoch_of r) (rt_nextHeartbeatId r) emsg" for k emsg
    using T that by (auto simp: typed_log_def)
  show "typed_log opts (after_call ev c' as r)" if "rt_core r = Some c" "currentEpoch c \<le> currentEpoch c'" for ev c c' as
    using that by (intro typed_log_mono [OF T]) simp_all
  show "typed_log opts (r\<lparr>rt_nextObject := k, rt_nextHeartbeatId := h\<rparr>)" if "rt_nextHeartbeatId r \<le> h" for k h
    using that by (intro typed_log_mono [OF T]) simp_all
  show "typed_log opts (r\<lparr>rt_core := Some c\<rparr>)" if "rt_core r = None" for c
    using that by (intro typed_log_mono [OF T]) (simp_all add: epoch_of_def)
qed (auto elim!: typed_log_mono)

lemma run_typed: "length xs < max_safe_integer \<Longrightarrow> typed_log opts (router_run opts xs)"
proof (induction xs rule: rev_induct)
  case Nil
  then show ?case by (simp add: typed_log_def new_router_def posts_def sends_def)
next
  case (snoc x xs)
  then have "typed_log opts (router_run opts xs)" "idle (length xs) (router_run opts xs)" by (simp_all add: run_idle)
  then show ?case
    using typed_obs.task_observed(3) [of "length xs" "router_run opts xs" "Suc (length xs)" opts "fst x" "snd x"] snoc.prems
    by simp
qed

lemma effect_logs:
  "PostTab p msg \<in> set (rt_effects r) \<Longrightarrow> (p, msg) \<in> set (posts r)"
  "SendEngine k emsg \<in> set (rt_effects r) \<Longrightarrow> (k, emsg) \<in> set (sends r)"
  by (force simp: posts_def sends_def)+

lemma log_effects:
  "(p, msg) \<in> set (posts r) \<Longrightarrow> PostTab p msg \<in> set (rt_effects r)"
  "(k, emsg) \<in> set (sends r) \<Longrightarrow> SendEngine k emsg \<in> set (rt_effects r)"
proof -
  have "x = PostTab p msg" if "(p, msg) \<in> set (post_of x)" for x using that by (cases x) simp_all
  then show "(p, msg) \<in> set (posts r) \<Longrightarrow> PostTab p msg \<in> set (rt_effects r)" by (auto simp: posts_def)
  have "x = SendEngine k emsg" if "(k, emsg) \<in> set (send_of x)" for x using that by (cases x) simp_all
  then show "(k, emsg) \<in> set (sends r) \<Longrightarrow> SendEngine k emsg \<in> set (rt_effects r)" by (auto simp: sends_def)
qed

text \<open>
  C13: everything the router sends is well typed. Over any sequence of fewer than \<open>2 ^ 53 - 1\<close> inputs, however malformed, and
  with timeouts that are positive integers: every envelope it posts to a tab passes the validator
  of the tabs and every message it sends to an engine passes the validator of the engine, as long as the
  owner epoch and the heartbeat id are safe integers.
\<close>

theorem router_messages_validate:
  assumes "options_ok opts" and "length xs < max_safe_integer"
    and "is_safe_nat (epoch_of (router_run opts xs))" and "is_safe_nat (rt_nextHeartbeatId (router_run opts xs))"
  shows "(\<forall>p msg. PostTab p msg \<in> set (rt_effects (router_run opts xs)) \<longrightarrow>
        validateCoordinatorToTabEnvelope (encode_to_tab msg) = Pass (encode_to_tab msg)) \<and>
    (\<forall>k msg. SendEngine k msg \<in> set (rt_effects (router_run opts xs)) \<longrightarrow>
        validateCoordinatorToEngineEnvelope (encode_to_engine msg) = Pass (encode_to_engine msg))"
proof -
  have T: "typed_log opts (router_run opts xs)" by (rule run_typed [OF assms(2)])
  have "wf_to_tab msg" if "PostTab p msg \<in> set (rt_effects (router_run opts xs))" for p msg
    using T effect_logs(1) [OF that] typed_wf(1) [OF assms(1) _ assms(3)] by (auto simp: typed_log_def)
  moreover have "wf_to_engine msg" if "SendEngine k msg \<in> set (rt_effects (router_run opts xs))" for k msg
    using T effect_logs(2) [OF that] typed_wf(2) [OF _ assms(3,4)] by (auto simp: typed_log_def)
  ultimately show ?thesis using to_tab_complete to_engine_complete by blast
qed

text \<open>A registration, an election, an engine that opens, a request and its answer.\<close>

definition router_demo_options :: router_options where
  "router_demo_options = \<lparr>ro_assetLoadTimeoutMs = 30, ro_activationTimeoutMs = 20, ro_heartbeatIntervalMs = 10,
     ro_heartbeatTimeoutMs = 5, ro_recoveryRetryDelayMs = (\<lambda>n. 100 * n), ro_createTransport = (\<lambda>_. None), ro_send = (\<lambda>_ _. None)\<rparr>"

definition router_demo_inputs :: "router_input list" where
  "router_demo_inputs =
    [TabMessage 7 (encode_tab (RegisterTabEnv ''s'' ''a'' (tabLivenessLockName ''s'' ''a'') None)) [],
     ProbeSettled 1 LockHeld,
     TabMessage 7 (encode_tab (AttachEnginePortEnv ''a'' 1 (JPort 9))) [],
     EngineMessage 3 (encode_engine (EngineAssetsReadyEnv ''a'' 1)),
     EngineMessage 3 (encode_engine (EngineReadyEnv ''a'' 1 (databaseOwnerLockName ''s'') OpenedExisting OutcomeOpenedExisting)),
     TabMessage 7 (encode_tab (CacheRequestEnv ''a'' (JObject [(''id'', JInt 5), (''kind'', JString ''clear'')]))) []]"

definition router_demo :: "nat \<Rightarrow> (rat \<times> router_input) list" where
  "router_demo n = map (Pair 0) (take n router_demo_inputs)"

lemma router_demo_length: "length (router_demo n) < max_safe_integer"
  by (simp add: router_demo_def router_demo_inputs_def max_safe_integer_def)

theorem router_messages_validate_witness:
  "length (posts (router_run router_demo_options (router_demo 6))) = 4 \<and>
   sends (router_run router_demo_options (router_demo 6)) =
      [(3, OpenEngineEnv 1), (3, EngineRequestEnv 1 1 (JObject [(''id'', JInt 1), (''kind'', JString ''clear'')]))] \<and>
   list_all (\<lambda>x. validateCoordinatorToTabEnvelope (encode_to_tab (snd x)) = Pass (encode_to_tab (snd x)))
     (posts (router_run router_demo_options (router_demo 6))) \<and>
   list_all (\<lambda>x. validateCoordinatorToEngineEnvelope (encode_to_engine (snd x)) = Pass (encode_to_engine (snd x)))
     (sends (router_run router_demo_options (router_demo 6)))"
proof -
  let ?r = "router_run router_demo_options (router_demo 6)"
  have "options_ok router_demo_options" "is_safe_nat (epoch_of ?r)" "is_safe_nat (rt_nextHeartbeatId ?r)" by code_simp+
  note valid = router_messages_validate [OF this(1) router_demo_length this(2,3)]
  have "list_all (\<lambda>x. validateCoordinatorToTabEnvelope (encode_to_tab (snd x)) = Pass (encode_to_tab (snd x))) (posts ?r)"
    "list_all (\<lambda>x. validateCoordinatorToEngineEnvelope (encode_to_engine (snd x)) = Pass (encode_to_engine (snd x))) (sends ?r)"
    using valid by (auto simp: list_all_iff dest: log_effects)
  moreover have "length (posts ?r) = 4" by code_simp
  moreover have "sends ?r =
      [(3, OpenEngineEnv 1), (3, EngineRequestEnv 1 1 (JObject [(''id'', JInt 1), (''kind'', JString ''clear'')]))]"
    by code_simp
  ultimately show ?thesis by blast
qed

section \<open>Engines\<close>

text \<open>Through a task only the route it began with is used.\<close>

definition hears :: "router \<Rightarrow> router \<Rightarrow> bool" where
  "hears r0 r \<longleftrightarrow> (\<exists>new. sends r = sends r0 @ new \<and> (\<forall>x \<in> set new. \<exists>rt. rt_engineRoute r0 = Some rt \<and> er_id rt = fst x \<and>
     engine_message_epoch (snd x) = er_epoch rt))"

lemma hears_send:
  assumes "hears r0 r" "rt_engineRoute r0 = Some rt" "engine_message_epoch msg = er_epoch rt"
  shows "hears r0 (emit (SendEngine (er_id rt) msg) r)"
  using assms by (auto simp: hears_def)

lemma hears_same: "hears r0 r \<Longrightarrow> sends r' = sends r \<Longrightarrow> hears r0 r'"
  by (simp add: hears_def)

lemma sends_postCacheResponse [simp]: "sends (postCacheResponse t resp r) = sends r"
  "rt_engineRoute (postCacheResponse t resp r) = rt_engineRoute r" "rt_core (postCacheResponse t resp r) = rt_core r"
  by (simp_all add: postCacheResponse_def postToTab_def split: option.splits)

interpretation hears_obs: router_observer opts N
  "\<lambda>_ r. hears r0 r \<and> (rt_engineRoute r = None \<or> rt_engineRoute r = rt_engineRoute r0)" "hears r0" for opts N r0
proof
  fix r r' :: router
  assume T: "hears r0 r \<and> (rt_engineRoute r = None \<or> rt_engineRoute r = rt_engineRoute r0)"
  show "hears r0 r' \<and> (rt_engineRoute r' = None \<or> rt_engineRoute r' = rt_engineRoute r0)" if "view r' = view r"
    using T hears_same [of r0 r r'] view_fields(5,9) [OF that] by simp
  show "hears r0 r'" if "view r' = view (r\<lparr>rt_recoveryAttemptCount := 0\<rparr>)"
    using T hears_same [of r0 r r'] reset_fields(8) [OF that] by simp
  show "hears r0 (emit (SendEngine (er_id rt) msg) r) \<and> (rt_engineRoute (emit (SendEngine (er_id rt) msg) r) = None \<or>
      rt_engineRoute (emit (SendEngine (er_id rt) msg) r) = rt_engineRoute r0)"
    if "rt_engineRoute r = Some rt" "engine_message_epoch msg = er_epoch rt" for rt msg
    using T that hears_send by simp
qed (auto elim!: hears_same)

text \<open>Over a run, the epochs of the messages never fall.\<close>

definition in_order :: "router \<Rightarrow> bool" where
  "in_order r \<longleftrightarrow> sorted (map (\<lambda>x. engine_message_epoch (snd x)) (sends r)) \<and>
     (\<forall>x \<in> set (sends r). engine_message_epoch (snd x) \<le> epoch_of r) \<and>
     (\<forall>rt. rt_engineRoute r = Some rt \<longrightarrow> (\<forall>x \<in> set (sends r). engine_message_epoch (snd x) \<le> er_epoch rt))"

lemma in_order_mono:
  assumes "in_order r" "sends r' = sends r" "epoch_of r \<le> epoch_of r'" "rt_engineRoute r' = rt_engineRoute r \<or> rt_engineRoute r' = None"
  shows "in_order r'"
  using assms by (fastforce simp: in_order_def)

lemma typed_engine_epoch: "typed_to_engine n h msg \<Longrightarrow> engine_message_epoch msg \<le> n"
  by (cases msg) simp_all

interpretation order_obs: router_observer opts N "\<lambda>_. in_order" in_order for opts N
proof
  fix r r' :: router
  assume T: "in_order r"
  show "in_order r'" if "view r' = view r"
    using view_fields [OF that] by (intro in_order_mono [OF T]) (simp_all add: epoch_of_def)
  show "in_order r'" if "view r' = view (r\<lparr>rt_recoveryAttemptCount := 0\<rparr>)"
    using reset_fields [OF that] by (intro in_order_mono [OF T]) (simp_all add: epoch_of_def)
  show "in_order (emit (SendEngine (er_id rt) emsg) r)"
    if "rt_engineRoute r = Some rt" "typed_to_engine (epoch_of r) (rt_nextHeartbeatId r) emsg" "engine_message_epoch emsg = er_epoch rt"
    for rt emsg
    using T that typed_engine_epoch [OF that(2)] by (auto simp: in_order_def sorted_append)
  show "in_order (after_call ev c' as r)" if "rt_core r = Some c" "currentEpoch c \<le> currentEpoch c'" for ev c c' as
    using that by (intro in_order_mono [OF T]) simp_all
  show "in_order (r\<lparr>rt_core := Some c\<rparr>)" if "rt_core r = None" for c
    using that by (intro in_order_mono [OF T]) (simp_all add: epoch_of_def)
  show "in_order (r\<lparr>rt_engineRoute := Some \<lparr>er_id = rt_nextObject r, er_tab = t, er_epoch = epoch_of r\<rparr>,
      rt_nextObject := Suc (rt_nextObject r)\<rparr>)" for t
    using T by (auto simp: in_order_def)
qed (auto elim!: in_order_mono)

lemma run_in_order: "length xs < max_safe_integer \<Longrightarrow> in_order (router_run opts xs)"
proof (induction xs rule: rev_induct)
  case Nil
  then show ?case by (simp add: in_order_def new_router_def sends_def)
next
  case (snoc x xs)
  then have "in_order (router_run opts xs)" "idle (length xs) (router_run opts xs)" by (simp_all add: run_idle)
  then show ?case
    using order_obs.task_observed(3) [of "length xs" "router_run opts xs" "Suc (length xs)" opts "fst x" "snd x"] snoc.prems
    by simp
qed

lemma idle_route:
  assumes "idle n r" "rt_engineRoute r = Some rt"
  shows "\<exists>c. rt_core r = Some c \<and> owner_of (stateValue c) = Some (er_tab rt, er_epoch rt)"
  using assms by (auto simp: idle_def fresh_def base_def linked_def core_part_def route_part_def)

text \<open>
  C15: engines hear only their own epoch. Over any run (of fewer than \<open>2 ^ 53 - 2\<close> inputs) the owner epochs of the messages to engines never
  fall, so an engine that was replaced hears nothing more; and whatever one task sends, it sends
  over the route that was attached when the task began, with that route's epoch, and the route
  belongs to the owner the core then has.
\<close>

theorem engines_hear_their_epoch:
  assumes "Suc (length xs) < max_safe_integer"
  shows "sorted (map (\<lambda>x. engine_message_epoch (snd x)) (sends (router_run opts (xs @ [x])))) \<and>
    (\<exists>new. sends (router_run opts (xs @ [x])) = sends (router_run opts xs) @ new \<and>
       (\<forall>k msg. (k, msg) \<in> set new \<longrightarrow>
          (\<exists>rt c. rt_engineRoute (router_run opts xs) = Some rt \<and> er_id rt = k \<and> engine_message_epoch msg = er_epoch rt \<and>
             rt_core (router_run opts xs) = Some c \<and> owner_of (stateValue c) = Some (er_tab rt, er_epoch rt))))"
proof -
  let ?r = "router_run opts xs"
  have idle: "idle (length xs) ?r" using assms by (simp add: run_idle)
  have "hears ?r ?r" by (simp add: hears_def)
  then have "hears ?r (router_run opts (xs @ [x]))"
    using hears_obs.task_observed(3) [OF idle, of "Suc (length xs)" ?r opts "fst x" "snd x"] assms by simp
  then obtain new where new: "sends (router_run opts (xs @ [x])) = sends ?r @ new"
    "\<forall>x \<in> set new. \<exists>rt. rt_engineRoute ?r = Some rt \<and> er_id rt = fst x \<and> engine_message_epoch (snd x) = er_epoch rt"
    by (auto simp: hears_def)
  have "\<exists>rt c. rt_engineRoute ?r = Some rt \<and> er_id rt = k \<and> engine_message_epoch msg = er_epoch rt \<and>
      rt_core ?r = Some c \<and> owner_of (stateValue c) = Some (er_tab rt, er_epoch rt)" if "(k, msg) \<in> set new" for k msg
    using new(2) that idle_route [OF idle] by fastforce
  moreover have "in_order (router_run opts (xs @ [x]))" using assms by (intro run_in_order) simp
  ultimately show ?thesis using new(1) unfolding in_order_def by blast
qed

theorem engines_hear_their_epoch_witness:
  "\<exists>rt c. rt_engineRoute (router_run router_demo_options (router_demo 5)) = Some rt \<and> er_id rt = 3 \<and> er_epoch rt = 1 \<and>
     rt_core (router_run router_demo_options (router_demo 5)) = Some c \<and> owner_of (stateValue c) = Some (er_tab rt, 1) \<and>
     sorted (map (\<lambda>x. engine_message_epoch (snd x))
       (sends (router_run router_demo_options (router_demo 5 @ [(0, router_demo_inputs ! 5)]))))"
proof -
  let ?r = "router_run router_demo_options (router_demo 5)"
  let ?r' = "router_run router_demo_options (router_demo 5 @ [(0, router_demo_inputs ! 5)])"
  let ?msg = "EngineRequestEnv 1 1 (JObject [(''id'', JInt 1), (''kind'', JString ''clear'')])"
  have logs: "sends ?r = [(3, OpenEngineEnv 1)]" "sends ?r' = [(3, OpenEngineEnv 1), (3, ?msg)]" by code_simp+
  have len: "Suc (length (router_demo 5)) < max_safe_integer"
    by (simp add: router_demo_def router_demo_inputs_def max_safe_integer_def)
  from engines_hear_their_epoch [OF len, of router_demo_options "(0, router_demo_inputs ! 5)"]
  have order: "sorted (map (\<lambda>x. engine_message_epoch (snd x)) (sends ?r'))"
    and "\<exists>rt c. rt_engineRoute ?r = Some rt \<and> er_id rt = 3 \<and> engine_message_epoch ?msg = er_epoch rt \<and>
       rt_core ?r = Some c \<and> owner_of (stateValue c) = Some (er_tab rt, er_epoch rt)"
    unfolding logs by auto
  then show ?thesis by auto
qed

section \<open>The router and its core\<close>

text \<open>
  C18: the router follows its core. Over any run (of fewer than \<open>2 ^ 53 - 2\<close> inputs) every task returns, and between tasks the router's
  core is where its calls have led a coordinator; the connected tabs are the core's tabs in
  the same order, ports and tabs name each other, the engine route belongs to the core's owner, and a
  serving or draining owner has its route. Before the first registration there is nothing.
\<close>

theorem router_follows_core:
  assumes "Suc (length xs) < max_safe_integer"
  shows "snd (handle opts inp ((router_run opts xs)\<lparr>rt_now := now\<rparr>)) = Ret () \<and>
    (case rt_core (router_run opts xs) of
       None \<Rightarrow> rt_tabs (router_run opts xs) = [] \<and> rt_engineRoute (router_run opts xs) = None \<and> rt_timers (router_run opts xs) = []
     | Some c \<Rightarrow> core_run (rt_calls (router_run opts xs)) c \<and> map fst (rt_tabs (router_run opts xs)) = tabs c \<and>
         (\<forall>p t. map_of (rt_portTabs (router_run opts xs)) p = Some t \<longleftrightarrow>
            (\<exists>cn. map_of (rt_tabs (router_run opts xs)) t = Some cn \<and> cn_port cn = p)) \<and>
         (\<forall>rt. rt_engineRoute (router_run opts xs) = Some rt \<longrightarrow> owner_of (stateValue c) = Some (er_tab rt, er_epoch rt)) \<and>
         (\<forall>t e. stateValue c = Active t e \<or> stateValue c = Draining t e \<longrightarrow>
            (\<exists>rt. rt_engineRoute (router_run opts xs) = Some rt \<and> er_tab rt = t \<and> er_epoch rt = e)))"
proof -
  let ?r = "router_run opts xs"
  have idle: "idle (length xs) ?r" using assms by (simp add: run_idle)
  have "is_ret (snd (handle opts inp (?r\<lparr>rt_now := now\<rparr>)))"
    using plain_obs.task_observed(1) [OF idle, of "Suc (length xs)" opts inp now] assms by simp
  then have "snd (handle opts inp (?r\<lparr>rt_now := now\<rparr>)) = Ret ()" by auto
  moreover have "base (length xs) None [] ?r \<or> fresh ?r" using idle by (simp add: idle_def)
  ultimately show ?thesis
    by (auto simp: base_def linked_def core_part_def conn_part_def ports_ok_def route_part_def fresh_def)
qed

theorem router_follows_core_witness:
  "snd (handle router_demo_options (TimerFires 3) ((router_run router_demo_options (router_demo 5))\<lparr>rt_now := 0\<rparr>)) = Ret ()"
  using router_follows_core [of "router_demo 5" router_demo_options "TimerFires 3" 0]
  by (simp add: router_demo_def router_demo_inputs_def max_safe_integer_def)

section \<open>Watchdogs\<close>

lemma new_owner_epoch:
  fixes as :: "router_action list"
  assumes inv: "core_inv c" "ids_left c" and s: "core_step ev c = (c', Ret as)" and own: "owner_of (stateValue c') = Some (t, e)"
  shows "owner_of (stateValue c) = Some (t, e) \<or> currentEpoch c < e"
proof (cases "\<exists>why. ev = EvTerminalFailure why")
  case True
  then show ?thesis using s own
    by (auto simp: terminalFailure_def Let_def return_checked_def assertInvariants_def split: coordinator_state.splits)
next
  case False
  have F: "follows ev c c' as" by (rule core_step_follows [OF inv s]) (use False in auto)
  then have ph: "phase_follows ev (stateValue c) (stateValue c') as" by (simp add: follows_def)
  have "owner_of (stateValue c) = Some (t, e) \<or> (\<exists>act. ElectOwner t e act \<in> set as)"
  proof (cases "stateValue c'")
    case (Activating u f act phase)
    then have "stateValue c' = stateValue c \<or> ElectOwner t e act \<in> set as \<or> stateValue c = Activating t e act LoadingAssets"
      using ph own by (auto simp: phase_follows_def)
    then show ?thesis using own by (metis owner_of.simps(1))
  qed (use ph own in \<open>auto simp: phase_follows_def\<close>)
  moreover have "currentEpoch c < e" if "ElectOwner t e act \<in> set as" for act
  proof -
    define es where "es = concat (map elected_epoch as)"
    have "e \<in> set es" using that by (force simp: es_def)
    moreover have "es = [] \<or> es = [currentEpoch c + 1]"
      using core_step_advances [OF inv(1), of ev] s by (auto simp: advances_def epochs_advance_def Let_def es_def)
    ultimately show ?thesis by auto
  qed
  ultimately show ?thesis by blast
qed

definition ousted :: "owner_epoch \<Rightarrow> router \<Rightarrow> bool" where
  "ousted e r \<longleftrightarrow> (\<exists>c. rt_core r = Some c \<and> e \<le> currentEpoch c \<and> (\<forall>t. owner_of (stateValue c) \<noteq> Some (t, e)))"

lemma ousted_core: "ousted e r \<Longrightarrow> rt_core r' = rt_core r \<Longrightarrow> ousted e r'"
  by (simp add: ousted_def)

interpretation ousted_obs: router_observer opts N "\<lambda>_. ousted e" "ousted e" for opts N e
proof
  fix r r' :: router
  assume T: "ousted e r"
  show "ousted e r'" if "view r' = view r" using ousted_core [OF T view_fields(1) [OF that]] .
  show "ousted e r'" if "view r' = view (r\<lparr>rt_recoveryAttemptCount := 0\<rparr>)"
    using ousted_core [OF T reset_fields(1) [OF that]] .
  have moved: "ousted e (after_call ev c' as r)"
    if "rt_core r = Some c" "core_inv c" "ids_left c" "core_step ev c = (c', Ret as)" "currentEpoch c \<le> currentEpoch c'" for ev c c' as
    using T that new_owner_epoch [OF that(2-4)] by (fastforce simp: ousted_def)
  show "ousted e (after_call ev c' as r)"
    if "rt_core r = Some c" "core_inv c" "ids_left c" "core_step ev c = (c', Ret as)" "currentEpoch c \<le> currentEpoch c'" for ev c c' as
    by (rule moved [OF that])
  show "ousted e (after_call (EvTerminalFailure failure) c' as r)"
    if "rt_core r = Some c" "core_inv c" "ids_left c" "core_step (EvTerminalFailure failure) c = (c', Ret as)"
      "currentEpoch c \<le> currentEpoch c'" for failure c c' as
    by (rule moved [OF that])
  show "ousted e (r\<lparr>rt_core := Some c\<rparr>)" if "rt_core r = None" for c
    using T that by (simp add: ousted_def)
qed (auto elim!: ousted_core)

lemma failed_owner_ousted:
  assumes L: "linked [] r c" and cnt: "counted N (rt_calls r)" and why: "why \<noteq> ''''" and own: "owner_of (stateValue c) = Some (t, e)"
  shows "ousted e (fst (failOwner opts t e why fc gc r))"
proof -
  note I = linked_inv [OF L cnt]
  have "ousted_obs.obs.keeps N e None [] (failOwner opts t e why fc gc r)"
  proof (rule ousted_obs.loss_applied [OF L cnt why own])
    fix c' and las :: "router_action list"
    assume s: "core_step (EvOwnerLost t e why) c = (c', Ret las)"
    have "c' = fst (transitionToAbruptLoss t e why c :: (request_object, jsvalue, jsvalue) core_result)"
      using s by (simp add: ownerLost_def)
    then have "currentEpoch c' = currentEpoch c" "owner_of (stateValue c') = None" by (simp_all add: abrupt_loss_eq [OF I(2) own])
    moreover have "rt_core (note_owner_loss t e why fc gc (after_call (EvOwnerLost t e why) c' las r)) = Some c'"
      using essence_fields(1) [OF note_owner_loss_essence] by (simp add: clearEngine_eq)
    ultimately show "ousted e (note_owner_loss t e why fc gc (after_call (EvOwnerLost t e why) c' las r))"
      using owner_epoch(2) [OF I(2) own] by (simp add: ousted_def)
  qed
  then show ?thesis by (simp add: ousted_obs.obs.keeps_def ousted_obs.watched_by_def)
qed

lemma idle_owner:
  assumes "idle n r" "core_state r = Some st" "owner_of st = Some (t, e)" "Suc n < max_safe_integer"
  obtains c where "linked [] r c" "counted (Suc n) (rt_calls r)" "stateValue c = st"
proof -
  obtain c where "linked [] r c" "counted n (rt_calls r)" "rt_core r = Some c"
    using assms(1,2) by (auto simp: idle_def base_def fresh_def core_state_def linked_def core_part_def)
  then show ?thesis using that [of c] assms(2,4) by (simp add: core_state_def counted_def)
qed

text \<open>The two watchdogs whose callback fails the owner\<close>

lemma watchdog_ousts:
  assumes idle: "idle n r" and n: "Suc n < max_safe_integer" and k: "map_of (rt_timers r) k = Some (cb, ms)"
    and own: "core_state r = Some st" "owner_of st = Some (t, e)"
    and cb: "(\<exists>ph. cb = StartupWatchdog t e ph) \<or> (\<exists>hb. cb = HeartbeatTimeout t e hb \<and> rt_pendingHeartbeat r = Some (e, hb))"
  shows "ousted e (router_task opts (now, TimerFires k) r)"
proof -
  let ?r = "clearTimer k (r\<lparr>rt_now := now\<rparr>)"
  have idle': "idle n (r\<lparr>rt_now := now\<rparr>)" using idle idle_essence [OF essence_simps(6)] by blast
  have st: "core_state (r\<lparr>rt_now := now\<rparr>) = Some st" using own(1) by (simp add: core_state_def)
  obtain c where c: "linked [] (r\<lparr>rt_now := now\<rparr>) c" "counted (Suc n) (rt_calls (r\<lparr>rt_now := now\<rparr>))" "stateValue c = st"
    by (rule idle_owner [OF idle' st own(2) n])
  have L: "linked [] ?r c" by (rule fired_parts(1) [OF c(1)]) (use k in simp)
  have cnt: "counted (Suc n) (rt_calls ?r)" using c(2) by (simp add: clearTimer_def)
  have lost: "ousted e (fst (failOwner opts t e why None None ?r))" if "why \<noteq> ''''" for why
    by (rule failed_owner_ousted [OF L cnt that]) (simp add: c(3) own(2))
  have pend: "rt_pendingHeartbeat ?r = rt_pendingHeartbeat r" by (simp add: clearTimer_def)
  show ?thesis using cb lost k pend by (auto simp: router_task_def)
qed

text \<open>
  C37: every phase that waits is watched. Over any run (of fewer than \<open>2 ^ 53 - 2\<close> inputs): while an engine starts, its startup watchdog
  runs; while one serves, its next heartbeat is scheduled, or the timeout of the pending one
  runs; and while the coordinator recovers from a loss, the activation is queued. A watchdog that
  fires ends the wait: the owner it was armed for, if it is still the owner, is deposed for good.
\<close>

theorem waiting_is_watched:
  assumes "Suc (length xs) < max_safe_integer"
  shows "(\<forall>t e act ph. core_state (router_run opts xs) = Some (Activating t e act ph) \<longrightarrow>
       (\<exists>k ms. rt_activationTimer (router_run opts xs) = Some k \<and>
          map_of (rt_timers (router_run opts xs)) k = Some (StartupWatchdog t e ph, ms))) \<and>
    (\<forall>t e. core_state (router_run opts xs) = Some (Active t e) \<longrightarrow>
       (\<exists>k ms. rt_heartbeatIntervalTimer (router_run opts xs) = Some k \<and>
          map_of (rt_timers (router_run opts xs)) k = Some (HeartbeatInterval e, ms)) \<or>
       (\<exists>k ms hb. rt_heartbeatTimeoutTimer (router_run opts xs) = Some k \<and>
          map_of (rt_timers (router_run opts xs)) k = Some (HeartbeatTimeout t e hb, ms) \<and>
          rt_pendingHeartbeat (router_run opts xs) = Some (e, hb))) \<and>
    (\<forall>pt pe ne act why. core_state (router_run opts xs) = Some (ResettingAfterLoss pt pe ne act why) \<longrightarrow>
       0 < rt_microtasks (router_run opts xs) \<or>
       (\<exists>k ms. map_of (rt_timers (router_run opts xs)) k = Some (RecoveryActivate, ms))) \<and>
    (\<forall>k ms cb t e. map_of (rt_timers (router_run opts xs)) k = Some (cb, ms) \<longrightarrow>
       (\<exists>st. core_state (router_run opts xs) = Some st \<and> owner_of st = Some (t, e)) \<longrightarrow>
       (\<exists>ph. cb = StartupWatchdog t e ph) \<or>
       (\<exists>hb. cb = HeartbeatTimeout t e hb \<and> rt_pendingHeartbeat (router_run opts xs) = Some (e, hb)) \<longrightarrow>
       (\<exists>c. rt_core (router_run opts (xs @ [(now, TimerFires k)])) = Some c \<and> owner_of (stateValue c) \<noteq> Some (t, e)))"
proof -
  let ?r = "router_run opts xs"
  have idle: "idle (length xs) ?r" using assms by (simp add: run_idle)
  have watch: "watch_part None [] ?r c \<and> rt_core ?r = Some c" if "core_state ?r = Some (stateValue c)" "rt_core ?r = Some c" for c
    using idle that(2) by (auto simp: idle_def base_def fresh_def linked_def core_part_def)
  have act: "startup_armed t e ph ?r" if "core_state ?r = Some (Activating t e act ph)" for t e act ph
    using that watch by (force simp: core_state_def watch_part_def)
  have serve: "heartbeat_armed t e ?r" if "core_state ?r = Some (Active t e)" for t e
    using that watch by (force simp: core_state_def watch_part_def)
  have recover: "recovery_armed ?r" if "core_state ?r = Some (ResettingAfterLoss pt pe ne act why)" for pt pe ne act why
    using that watch by (force simp: core_state_def watch_part_def)
  have "\<exists>c. rt_core (router_run opts (xs @ [(now, TimerFires k)])) = Some c \<and> owner_of (stateValue c) \<noteq> Some (t, e)"
    if "map_of (rt_timers ?r) k = Some (cb, ms)" "core_state ?r = Some st" "owner_of st = Some (t, e)"
      "(\<exists>ph. cb = StartupWatchdog t e ph) \<or> (\<exists>hb. cb = HeartbeatTimeout t e hb \<and> rt_pendingHeartbeat ?r = Some (e, hb))"
    for k cb ms st t e
    using watchdog_ousts [OF idle assms that, of opts now] by (auto simp: ousted_def)
  then show ?thesis using act serve recover unfolding armed_defs by blast
qed

theorem waiting_is_watched_witness:
  "rt_timers (router_run router_demo_options (router_demo 4)) = [(2, (StartupWatchdog ''a'' 1 OpeningDatabase, 20))] \<and>
   (\<exists>c. rt_core (router_run router_demo_options (router_demo 4 @ [(0, TimerFires 2)])) = Some c \<and> owner_of (stateValue c) \<noteq> Some (''a'', 1))"
proof (rule conjI)
  show timers: "rt_timers (router_run router_demo_options (router_demo 4)) = [(2, (StartupWatchdog ''a'' 1 OpeningDatabase, 20))]"
    by code_simp
  have st: "core_state (router_run router_demo_options (router_demo 4)) = Some (Activating ''a'' 1 OpenExisting OpeningDatabase)"
    by code_simp
  have len: "Suc (length (router_demo 4)) < max_safe_integer" by (simp add: router_demo_def router_demo_inputs_def max_safe_integer_def)
  show "\<exists>c. rt_core (router_run router_demo_options (router_demo 4 @ [(0, TimerFires 2)])) = Some c \<and> owner_of (stateValue c) \<noteq> Some (''a'', 1)"
    using conjunct2 [OF conjunct2 [OF conjunct2 [OF waiting_is_watched [OF len, of router_demo_options 0]]]] timers st by simp
qed

end
