(* ===== verification/RecoveryClaims.thy ===== *)
theory RecoveryClaims
  imports RouterClaims
begin

text \<open>
  The recovery of the router from lost owners. Losses are counted in the log of the core's calls, since
  an engine last served; an observer of the router shows that its attempt counter is that number,
  and from it that recovery is bounded and paced.
\<close>

section \<open>Losses in the log of the core\<close>

text \<open>The core asks for a recovery exactly when it has lost its owner.\<close>

fun asks_recovery :: "router_action \<Rightarrow> bool" where
  "asks_recovery ScheduleResetActivation = True"
| "asks_recovery _ = False"

definition recoveries :: "router_action list \<Rightarrow> nat" where
  "recoveries as = length (filter asks_recovery as)"

definition losses_in :: "core_call list \<Rightarrow> nat" where
  "losses_in cs = recoveries (concat (map actions_of cs))"

lemma recoveries_simps [simp]:
  "recoveries [] = 0" "recoveries (a # as) = (if asks_recovery a then 1 else 0) + recoveries as"
  "recoveries (as @ bs) = recoveries as + recoveries bs"
  by (simp_all add: recoveries_def)

lemma losses_in_simps [simp]: "losses_in [] = 0" "losses_in (cs @ ds) = losses_in cs + losses_in ds"
  "losses_in [(ev, Ret as)] = recoveries as"
  by (simp_all add: losses_in_def)

fun resetting :: "coordinator_state \<Rightarrow> bool" where
  "resetting (ResettingAfterLoss _ _ _ _ _) = True"
| "resetting _ = False"

fun broken :: "coordinator_state \<Rightarrow> bool" where
  "broken (Failed _ _) = True"
| "broken _ = False"

lemma no_recoveries:
  "recoveries (map (\<lambda>p. RejectRequest (f p) (g p) err code) xs) = 0"
  "recoveries (map (routed_action t e) qs) = 0"
  by (induction xs) (simp_all, induction qs, simp_all add: routed_action_def)

text \<open>What a call changes: a loss leads to the recovery, and only a failure for good to the failed state.\<close>

definition recovery_step :: "router_core \<Rightarrow> router_core \<Rightarrow> router_action list \<Rightarrow> bool" where
  "recovery_step c c' as \<longleftrightarrow> broken (stateValue c') = broken (stateValue c) \<and>
     (recoveries as = 0 \<or> recoveries as = 1 \<and> resetting (stateValue c'))"

lemma loss_recovery_step:
  assumes "core_inv c" "transitionToAbruptLoss t e why c = (c', Ret as)"
  shows "recovery_step c c' as"
proof (cases "owner_of (stateValue c) = Some (t, e)")
  case True
  then have "\<not> broken (stateValue c)" by (cases "stateValue c") simp_all
  then show ?thesis using assms(2) unfolding abrupt_loss_eq [OF assms(1) True]
    by (auto simp: recovery_step_def no_recoveries)
next
  case False
  then show ?thesis using assms(2) by (auto simp: recovery_step_def transitionToAbruptLoss_def)
qed

lemma departure_recovery:
  assumes "core_inv c" "after_departure t act c = (c2, elected :: router_action list)"
  shows "recoveries elected = 0" "\<not> broken (stateValue c2)"
  using assms(2) unfolding after_departure_eq [OF assms(1)] by (auto split: list.splits)

lemma ready_recovery_step:
  assumes inv: "core_inv c" "ids_left c" and s: "engineReady rd c = (c', Ret as)"
  shows "recovery_step c c' as"
proof (cases c rd rule: engineReady_cases)
  case (accept act)
  then show ?thesis using s unfolding engineReady_accept_eq [OF inv accept]
    by (auto simp: recovery_step_def no_recoveries split: if_splits)
next
  case (refuse act err)
  then show ?thesis using s unfolding engineReady_refuse [OF inv(1) refuse] by (auto simp: recovery_step_def)
next
  case unexpected
  then show ?thesis using s unfolding engineReady_unexpected [OF unexpected] by (auto simp: recovery_step_def)
qed

lemma drained_recovery_step:
  assumes inv: "core_inv c" and s: "engineDrained t e c = (c', Ret as)"
  shows "recovery_step c c' as"
proof (cases "stateValue c = Draining t e")
  case True
  obtain c2 and elected :: "router_action list" where dep: "after_departure t OpenExisting c = (c2, elected)" by fastforce
  show ?thesis using s True departure_recovery [OF inv dep]
    by (auto simp: no_recoveries engineDrained_eq [OF inv True] dep recovery_step_def)
next
  case False
  then show ?thesis using s by (auto simp: engineDrained_def recordProtocolViolation_def recovery_step_def)
qed

lemma depart_recovery_step:
  assumes inv: "core_inv c" and s: "departForNavigation t e why c = (c', Ret as)"
  shows "recovery_step c c' as"
proof (cases "owner_of (stateValue c) = Some (t, e)")
  case True
  define act where "act = (case stateValue c of Activating _ _ a _ \<Rightarrow> a | _ \<Rightarrow> OpenExisting)"
  obtain c2 and elected :: "router_action list" where dep: "after_departure t act c = (c2, elected)" by fastforce
  have "\<not> broken (stateValue c)" using True by (cases "stateValue c") simp_all
  then show ?thesis using s departure_recovery [OF inv dep]
    by (auto simp: departForNavigation_eq [OF inv True, folded act_def] dep recovery_step_def no_recoveries)
next
  case False
  then show ?thesis using s by (auto simp: departForNavigation_def recordProtocolViolation_def recovery_step_def)
qed

lemma tab_lost_recovery_step:
  assumes inv: "core_inv c" and s: "tabLost t why c = (c', Ret as)"
  shows "recovery_step c c' as"
proof (cases "t \<in> set (tabs c)")
  case False
  then show ?thesis using s by (auto simp: tabLost_def recovery_step_def)
next
  case True
  obtain c1 and las :: "router_action list" where l: "tab_loss t why c = (c1, Ret las)"
    by (rule tab_loss_spec [OF inv])
  then have "(\<exists>e. transitionToAbruptLoss t e why c = (c1, Ret las)) \<or> c1 = c \<and> las = []"
    by (auto simp: tab_loss_def split: option.splits if_splits)
  then have "recovery_step c c1 las"
  proof (elim disjE exE)
    show "recovery_step c c1 las" if "transitionToAbruptLoss t e why c = (c1, Ret las)" for e
      by (rule loss_recovery_step [OF inv that])
  qed (simp add: recovery_step_def)
  then show ?thesis using s l unfolding tabLost_eq [OF inv True] by (auto simp: recovery_step_def removeTabRecord_def)
qed

lemma core_recovery_step:
  assumes inv: "core_inv c" "ids_left c" and s: "core_step ev c = (c', Ret as)" and "\<And>why. ev \<noteq> EvTerminalFailure why"
  shows "recovery_step c c' as"
proof (cases ev)
  case (EvRegisterTab t)
  then show ?thesis using s
    by (cases "stateValue c")
      (auto simp: registerTab_def activateNext_def Let_def recovery_step_def split: if_splits)
next
  case (EvRequest t req)
  then show ?thesis using s
    by (auto simp: request_def route_def reject_def Let_def map_js_eq_Ret recovery_step_def split: if_splits coordinator_state.splits)
next
  case (EvBeginEngineOpen t e)
  then show ?thesis using s
    by (cases "beginEngineOpen t e c") (auto simp: beginEngineOpen_def recovery_step_def split: coordinator_state.splits if_splits)
next
  case (EvBeginGracefulDeparture t e)
  then show ?thesis using s
    by (auto simp: beginGracefulDeparture_def recordProtocolViolation_def recovery_step_def split: if_splits)
next
  case EvResumeAfterLoss
  then show ?thesis using s
    by (auto simp: resumeAfterLoss_def Let_def recovery_step_def split: coordinator_state.splits if_splits)
qed (use s assms(4) loss_recovery_step [OF inv(1)] ready_recovery_step [OF inv] drained_recovery_step [OF inv(1)]
      depart_recovery_step [OF inv(1)] tab_lost_recovery_step [OF inv(1)]
    in \<open>auto simp: engineResponse_def enginePush_def dropStale_def ownerLost_def recovery_step_def split: if_splits option.splits\<close>)

section \<open>The attempt counter\<close>

definition in_state :: "(coordinator_state \<Rightarrow> bool) \<Rightarrow> router \<Rightarrow> bool" where
  "in_state P r \<longleftrightarrow> (case core_state r of Some st \<Rightarrow> P st | None \<Rightarrow> False)"

fun serving_state :: "coordinator_state \<Rightarrow> bool" where
  "serving_state (Active _ _) = True"
| "serving_state _ = False"

abbreviation serving :: "router \<Rightarrow> bool" where
  "serving \<equiv> in_state serving_state"

text \<open>The losses the router has accounted for: its attempts, and the loss that made it give up\<close>

definition accounted :: "router \<Rightarrow> nat" where
  "accounted r = rt_recoveryAttemptCount r + (if in_state broken r then 1 else 0)"

definition spent :: "router \<Rightarrow> bool" where
  "spent r \<longleftrightarrow> (in_state broken r \<longrightarrow> rt_recoveryAttemptCount r = RECOVERY_RETRY_LIMIT)"

definition accounts :: "router \<Rightarrow> router_action list \<Rightarrow> router \<Rightarrow> bool" where
  "accounts r0 acts r \<longleftrightarrow> spent r \<and>
     (\<exists>cs. rt_calls r = rt_calls r0 @ cs \<and> accounted r + recoveries acts = accounted r0 + losses_in cs) \<and>
     (recoveries acts = 0 \<or> recoveries acts = 1 \<and> in_state resetting r)"

definition balances :: "router \<Rightarrow> router \<Rightarrow> bool" where
  "balances r0 r \<longleftrightarrow> spent r \<and> (\<exists>cs. rt_calls r = rt_calls r0 @ cs \<and>
     (accounted r = accounted r0 + losses_in cs \<or> accounted r = 0 \<and> serving r))"

lemma in_state_core: "rt_core r' = rt_core r \<Longrightarrow> in_state P r' = in_state P r"
  by (simp add: in_state_def core_state_def)

lemma accounts_same:
  assumes "accounts r0 acts r" "rt_core r' = rt_core r" "rt_calls r' = rt_calls r"
    "rt_recoveryAttemptCount r' = rt_recoveryAttemptCount r" "recoveries acts' = recoveries acts"
  shows "accounts r0 acts' r'"
  using assms by (simp add: accounts_def accounted_def spent_def in_state_core [OF assms(2)])

lemma accounts_call:
  assumes A: "accounts r0 acts r" and rep: "reported_with acts ev" and c: "rt_core r = Some c" "core_inv c" "ids_left c"
    and s: "core_step ev c = (c', Ret as)"
  shows "accounts r0 (as @ acts) (after_call ev c' as r)"
proof -
  have S: "recovery_step c c' as" by (rule core_recovery_step [OF c(2,3) s]) (use rep in auto)
  have idle: "c' = c \<and> as = []" if "recoveries acts \<noteq> 0"
  proof -
    have "resetting (stateValue c)" using A that c(1) by (simp add: accounts_def in_state_def core_state_def)
    then have "owner_of (stateValue c) = None" by (cases "stateValue c") simp_all
    moreover have "acts \<noteq> []" using that by auto
    then obtain t e why where "ev = EvOwnerLost t e why" using rep by (cases ev) auto
    ultimately show ?thesis using s by (simp add: ownerLost_def transitionToAbruptLoss_def)
  qed
  have "in_state broken (after_call ev c' as r) = in_state broken r"
    using S c(1) by (simp add: recovery_step_def in_state_def core_state_def)
  moreover have "recoveries as + recoveries acts = 0 \<or> recoveries as + recoveries acts = 1 \<and> resetting (stateValue c')"
    using S A idle c(1) by (auto simp: recovery_step_def accounts_def in_state_def core_state_def)
  ultimately show ?thesis using A
    by (auto simp: accounts_def accounted_def spent_def in_state_def core_state_def add.assoc)
qed

lemma accounts_failed:
  assumes A: "accounts r0 (ScheduleResetActivation # acts) r" and limit: "rt_recoveryAttemptCount r = RECOVERY_RETRY_LIMIT"
    and c: "rt_core r = Some c" "stateValue c = ResettingAfterLoss pt pe ne act why"
    and s: "core_step (EvTerminalFailure failure) c = (c', Ret as)"
  shows "accounts r0 (as @ acts) (after_call (EvTerminalFailure failure) c' as r)"
proof -
  have "broken (stateValue c')" "recoveries as = 0"
    using s c(2) by (auto simp: terminalFailure_def return_checked_def assertInvariants_def Let_def)
  then show ?thesis using A limit c
    by (auto simp: accounts_def accounted_def spent_def in_state_def core_state_def)
qed

lemma asks_recovery_iff [simp]: "asks_recovery a \<longleftrightarrow> a = ScheduleResetActivation"
  by (cases a) simp_all

lemma resetting_iff: "resetting st \<longleftrightarrow> (\<exists>pt pe ne act why. st = ResettingAfterLoss pt pe ne act why)"
  by (cases st) simp_all

lemma accounts_queued:
  assumes A: "accounts r0 (ScheduleResetActivation # acts) r" and st: "core_state r = Some (ResettingAfterLoss pt pe ne act why)"
  shows "accounts r0 acts (r\<lparr>rt_recoveryAttemptCount := rt_recoveryAttemptCount r + 1\<rparr>)"
  using A st by (auto simp: accounts_def accounted_def spent_def in_state_def core_state_def)

lemma accounts_unqueued:
  "accounts r0 (ScheduleResetActivation # acts) r \<Longrightarrow>
    (\<And>pt pe ne act why. core_state r \<noteq> Some (ResettingAfterLoss pt pe ne act why)) \<Longrightarrow> accounts r0 acts r"
  by (auto simp: accounts_def in_state_def resetting_iff split: option.splits)

lemma accounts_balances: "accounts r0 [] r \<Longrightarrow> balances r0 r"
  by (auto simp: accounts_def balances_def)

lemma balances_same:
  assumes "balances r0 r" "rt_core r' = rt_core r" "rt_calls r' = rt_calls r" "rt_recoveryAttemptCount r' = rt_recoveryAttemptCount r"
  shows "balances r0 r'"
  using assms by (simp add: balances_def accounted_def spent_def in_state_core [OF assms(2)])

lemma accounts_served:
  assumes A: "accounts r0 [] r" and act: "active_at e r" and v: "view r' = view (r\<lparr>rt_recoveryAttemptCount := 0\<rparr>)"
  shows "balances r0 r'"
proof -
  have "serving r" "\<not> in_state broken r"
    using act by (auto simp: active_at_def in_state_def split: option.splits coordinator_state.splits)
  then have "serving r'" "accounted r' = 0" "spent r'"
    using reset_fields(9) [OF v] by (simp_all add: accounted_def spent_def in_state_core [OF reset_fields(1) [OF v]])
  then show ?thesis using A reset_fields(2) [OF v] by (auto simp: accounts_def balances_def)
qed

lemma created_accounts:
  assumes A: "accounts r0 [] r" and "rt_core r = None" "new_core sc = Ret c"
  shows "accounts r0 [] (r\<lparr>rt_core := Some c\<rparr>)"
proof -
  have "\<not> broken (stateValue c)" using assms(3) by (auto simp: new_core_def init_core_def split: if_splits)
  then show ?thesis using A assms(2) by (auto simp: accounts_def accounted_def spent_def in_state_def core_state_def)
qed

interpretation loss_obs: router_observer opts N "accounts r0" "balances r0" for opts N r0
proof
  fix acts r r'
  assume A: "accounts r0 acts r"
  show "accounts r0 acts r'" if v: "view r' = view r"
    using accounts_same [OF A, of r'] view_fields [OF v] by simp
  show "accounts r0 acts (emit (PostTab p msg) r)" "accounts r0 acts (emit (SendEngine k emsg) r)" for p msg k emsg
    by (rule accounts_same [OF A], simp_all add: emit_def)+
  show "accounts r0 (as @ acts) (after_call ev c' as r)"
    if "reported_with acts ev" "rt_core r = Some c" "core_inv c" "ids_left c" "core_step ev c = (c', Ret as)" for ev c c' as
    by (rule accounts_call [OF A that])
  show "accounts r0 acts (r\<lparr>rt_engineRoute := None\<rparr>)" "accounts r0 acts (r\<lparr>rt_nextObject := k, rt_nextHeartbeatId := h\<rparr>)" for k h
    by (rule accounts_same [OF A], simp_all)+
next
  fix a acts r t resp m
  assume A: "accounts r0 (a # acts) r"
  show "accounts r0 acts r" if "a \<noteq> ScheduleResetActivation"
    by (rule accounts_same [OF A]) (simp_all add: that)
  show "accounts r0 acts (postCacheResponse t resp r)" if a: "answers a = Some (t, resp)"
  proof -
    have "a \<noteq> ScheduleResetActivation" using a by auto
    then show ?thesis
      by (intro accounts_same [OF A]) (simp_all add: postCacheResponse_def postToTab_def emit_def split: option.splits)
  qed
  show "accounts r0 acts (r\<lparr>rt_tabs := AList.delete t (rt_tabs r), rt_portTabs := m\<rparr>)" "accounts r0 acts r" if a: "drops a = Some t"
  proof -
    have "a \<noteq> ScheduleResetActivation" using a by auto
    then show "accounts r0 acts (r\<lparr>rt_tabs := AList.delete t (rt_tabs r), rt_portTabs := m\<rparr>)" "accounts r0 acts r"
      by (intro accounts_same [OF A], simp_all)+
  qed
next
  fix r
  assume A: "accounts r0 [] r"
  show "balances r0 r" by (rule accounts_balances [OF A])
  show "balances r0 (r\<lparr>rt_engineRoute := Some \<lparr>er_id = rt_nextObject r, er_tab = t, er_epoch = epoch_of r\<rparr>,
      rt_nextObject := Suc (rt_nextObject r)\<rparr>)" for t
    by (rule balances_same [OF accounts_balances [OF A]]) simp_all
  show "accounts r0 [] (r\<lparr>rt_tabs := AList.update t cn (rt_tabs r), rt_portTabs := m, rt_nextObject := Suc (rt_nextObject r)\<rparr>)" for t cn m
    by (rule accounts_same [OF A]) simp_all
qed (rule accounts_unqueued accounts_queued accounts_failed created_accounts accounts_served; assumption)+

section \<open>Losses over a run\<close>

text \<open>
  The owners the core has lost since an engine last served: the losses in the calls of every task, from
  zero again after each task at whose end the core is active.
\<close>

definition losses_unserved :: "router_options \<Rightarrow> (rat \<times> router_input) list \<Rightarrow> nat" where
  "losses_unserved opts xs = snd (fold (\<lambda>x (r, n).
     let r' = router_task opts x r
     in (r', if serving r' then 0 else n + losses_in (drop (length (rt_calls r)) (rt_calls r')))) xs (new_router, 0))"

lemma losses_unserved_simps:
  "losses_unserved opts [] = 0"
  "losses_unserved opts (xs @ [x]) = (if serving (router_run opts (xs @ [x])) then 0 else losses_unserved opts xs +
     losses_in (drop (length (rt_calls (router_run opts xs))) (rt_calls (router_run opts (xs @ [x])))))"
proof -
  define f where "f = (\<lambda>x (r, n). let r' = router_task opts x r
     in (r', if serving r' then 0 else n + losses_in (drop (length (rt_calls r)) (rt_calls r'))))"
  have runs: "fst (fold f ys (r, n)) = fold (router_task opts) ys r" for ys r n
    by (induction ys arbitrary: r n) (simp_all add: f_def Let_def)
  have eq: "losses_unserved opts ys = snd (fold f ys (new_router, 0))" for ys
    by (simp add: losses_unserved_def f_def)
  have run: "fst (fold f ys (new_router, 0)) = router_run opts ys" for ys by (simp add: runs router_run_def)
  show "losses_unserved opts [] = 0" by (simp add: losses_unserved_def)
  have "fold f (xs @ [x]) (new_router, 0) = f x (router_run opts xs, losses_unserved opts xs)"
    by (simp add: eq flip: run)
  then show "losses_unserved opts (xs @ [x]) = (if serving (router_run opts (xs @ [x])) then 0 else losses_unserved opts xs +
     losses_in (drop (length (rt_calls (router_run opts xs))) (rt_calls (router_run opts (xs @ [x])))))"
    unfolding eq by (simp add: f_def Let_def)
qed

text \<open>While an engine serves, nothing is counted.\<close>

lemma serving_accounted:
  assumes "idle n r" "serving r"
  shows "accounted r = 0"
proof -
  obtain c where c: "rt_core r = Some c" "watch_part None [] r c"
    using assms by (auto simp: idle_def base_def fresh_def linked_def core_part_def in_state_def core_state_def)
  moreover obtain t e where "stateValue c = Active t e"
    using assms(2) c(1) by (cases "stateValue c") (auto simp: in_state_def core_state_def)
  ultimately show ?thesis by (simp add: accounted_def in_state_def core_state_def watch_part_def)
qed

lemma run_accounted:
  "length xs < max_safe_integer \<Longrightarrow> spent (router_run opts xs) \<and> accounted (router_run opts xs) = losses_unserved opts xs"
proof (induction xs rule: rev_induct)
  case Nil
  then show ?case
    by (simp add: losses_unserved_simps(1) new_router_def accounted_def spent_def in_state_def core_state_def)
next
  case (snoc x xs)
  let ?r = "router_run opts xs" and ?r' = "router_run opts (xs @ [x])"
  have IH: "spent ?r" "accounted ?r = losses_unserved opts xs" and idle: "idle (length xs) ?r" "idle (length (xs @ [x])) ?r'"
    using snoc run_idle [of "xs @ [x]" opts] by (simp_all add: run_idle)
  have "accounts ?r [] ?r" using IH(1) by (simp add: accounts_def)
  then have "balances ?r ?r'"
    using loss_obs.task_observed(3) [OF idle(1), of "Suc (length xs)" ?r opts "fst x" "snd x"] snoc.prems by simp
  then obtain cs where cs: "spent ?r'" "rt_calls ?r' = rt_calls ?r @ cs"
    "accounted ?r' = accounted ?r + losses_in cs \<or> accounted ?r' = 0 \<and> serving ?r'" by (auto simp: balances_def)
  then show ?case using IH(2) serving_accounted [OF idle(2)] unfolding losses_unserved_simps(2) by auto
qed

text \<open>At most five are attempts; the sixth is the failure.\<close>

lemma run_losses_bounded:
  assumes "length xs < max_safe_integer"
  shows "losses_unserved opts xs \<le> 6" "losses_unserved opts xs = 6 \<longleftrightarrow> in_state broken (router_run opts xs)"
    "\<not> in_state broken (router_run opts xs) \<Longrightarrow> rt_recoveryAttemptCount (router_run opts xs) = losses_unserved opts xs"
proof -
  note facts = run_accounted [OF assms, of opts, unfolded accounted_def spent_def]
  have "rt_recoveryAttemptCount (router_run opts xs) \<le> 5"
    using idle_misc [OF run_idle [OF assms, of opts]] by (simp add: misc_part_def RECOVERY_RETRY_LIMIT_def)
  then show "losses_unserved opts xs \<le> 6" "losses_unserved opts xs = 6 \<longleftrightarrow> in_state broken (router_run opts xs)"
    "\<not> in_state broken (router_run opts xs) \<Longrightarrow> rt_recoveryAttemptCount (router_run opts xs) = losses_unserved opts xs"
    using facts by (auto simp: RECOVERY_RETRY_LIMIT_def split: if_splits)
qed

section \<open>Losing the owner\<close>

lemma for_each_append: "for_each f (xs @ ys) s = and_then (for_each f xs s) (\<lambda>_. for_each f ys)"
proof (induction xs arbitrary: s)
  case (Cons x xs)
  then show ?case by (cases "f x s") (auto simp: and_then_def split: js.splits)
qed simp

lemma for_each_rejections:
  "for_each (apply_action opts fail sched) (map (\<lambda>p. RejectRequest (g p) (h p) err code) xs) r =
     done_with (fold (\<lambda>p. postCacheResponse (g p) (ResponseError (h p) err code)) xs r)"
  by (induction xs arbitrary: r) (simp_all add: done_with_def)

definition loss_actions :: "tab_id \<Rightarrow> owner_epoch \<Rightarrow> string \<Rightarrow> router_core \<Rightarrow> router_action list" where
  "loss_actions t e why c = map (\<lambda>p. RejectRequest (if_tab (snd p)) (request_id (if_request (snd p)))
     (''owner epoch '' @ show_nat e @ '' was lost: '' @ why) (Some OwnerEpochLost)) (inFlight c) @
     [CloseEngineRoute t e, ScheduleResetActivation]"

text \<open>The flights are rejected, the route is closed, then the recovery is scheduled.\<close>

lemma loss_schedules:
  obtains r2 where "applyActions opts (loss_actions t e why c) r = scheduleResetActivation opts r2"
    "core_state r2 = core_state r" "rt_recoveryAttemptCount r2 = rt_recoveryAttemptCount r"
    "rt_tabs r2 = rt_tabs r" "rt_microtasks r2 = rt_microtasks r"
proof -
  define r1 where "r1 = fold (\<lambda>p. postCacheResponse (if_tab (snd p)) (ResponseError (request_id (if_request (snd p)))
      (''owner epoch '' @ show_nat e @ '' was lost: '' @ why) (Some OwnerEpochLost))) (inFlight c) r"
  have "applyActions opts (loss_actions t e why c) r = scheduleResetActivation opts (close_engine_route t e r1)"
    unfolding applyActions_unfold loss_actions_def for_each_append for_each_rejections
    by (simp add: r1_def done_with_def) (simp add: and_then_def split: prod.splits js.splits)
  moreover have "essence r1 = essence r" by (simp add: r1_def)
  from essence_fields [OF this] have "core_state (close_engine_route t e r1) = core_state r"
    "rt_recoveryAttemptCount (close_engine_route t e r1) = rt_recoveryAttemptCount r"
    "rt_tabs (close_engine_route t e r1) = rt_tabs r" "rt_microtasks (close_engine_route t e r1) = rt_microtasks r"
    by (simp_all add: close_engine_route_def Let_def clearEngine_eq core_state_def emit_def split: option.splits)
  ultimately show ?thesis by (rule that)
qed

lemma failOwner_schedules:
  assumes c: "rt_core r = Some c" "core_inv c" and own: "owner_of (stateValue c) = Some (t, e)"
  obtains r3 act where "failOwner opts t e why fc gc r = scheduleResetActivation opts r3"
    "core_state r3 = Some (ResettingAfterLoss t e (currentEpoch c + 1) act why)" "rt_recoveryAttemptCount r3 = rt_recoveryAttemptCount r"
    "rt_tabs r3 = rt_tabs r" "rt_microtasks r3 = rt_microtasks r"
proof -
  let ?ev = "EvOwnerLost t e why" and ?las = "loss_actions t e why c"
  define act where "act = (case stateValue c of Activating _ _ act LoadingAssets \<Rightarrow> act | _ \<Rightarrow> WipeBeforeOpen)"
  define c' where "c' = c\<lparr>inFlight := [], stateValue := ResettingAfterLoss t e (currentEpoch c + 1) act why\<rparr>"
  have s: "core_step ?ev c = (c', Ret ?las)"
    by (simp add: ownerLost_def abrupt_loss_eq [OF c(2) own] c'_def act_def loss_actions_def)
  define r1 where "r1 = note_owner_loss t e why fc gc (after_call ?ev c' ?las r)"
  have eq: "failOwner opts t e why fc gc r = applyActions opts ?las r1"
    by (simp add: failOwner_def failOwner_with_def core_call_Ret [OF c(1) s] r1_def) (simp add: loss_actions_def)
  obtain r2 where r2: "applyActions opts ?las r1 = scheduleResetActivation opts r2" "core_state r2 = core_state r1"
    "rt_recoveryAttemptCount r2 = rt_recoveryAttemptCount r1" "rt_tabs r2 = rt_tabs r1" "rt_microtasks r2 = rt_microtasks r1"
    by (rule loss_schedules)
  have "essence r1 = essence (clearEngineWatchdogs (after_call ?ev c' ?las r))" by (simp add: r1_def note_owner_loss_essence)
  from essence_fields [OF this] show ?thesis using that [of r2 act] r2 eq by (simp add: clearEngine_eq core_state_def c'_def)
qed

lemma loseTab_schedules:
  assumes c: "rt_core r = Some c" "core_inv c" and own: "owner_of (stateValue c) = Some (t, e)"
  obtains r3 act where "loseTab opts t why r = scheduleResetActivation opts r3"
    "core_state r3 = Some (ResettingAfterLoss t e (currentEpoch c + 1) act why)" "rt_recoveryAttemptCount r3 = rt_recoveryAttemptCount r"
    "rt_tabs r3 = AList.delete t (rt_tabs r)" "rt_microtasks r3 = rt_microtasks r"
proof -
  let ?ev = "EvTabLost t why" and ?las = "loss_actions t e why c"
  define act where "act = (case stateValue c of Activating _ _ act LoadingAssets \<Rightarrow> act | _ \<Rightarrow> WipeBeforeOpen)"
  define c1 where "c1 = c\<lparr>inFlight := [], stateValue := ResettingAfterLoss t e (currentEpoch c + 1) act why\<rparr>"
  define c' where "c' = (removeTabRecord t c1)\<lparr>retiringTabs := retiringTabs c1 - {t}\<rparr>"
  have "(tab_loss t why c :: (request_object, jsvalue, jsvalue) core_result) = (c1, Ret ?las)"
    using own by (simp add: tab_loss_def abrupt_loss_eq [OF c(2) own] c1_def act_def loss_actions_def)
  then have "(tabLost t why c :: (request_object, jsvalue, jsvalue) core_result) = (c', Ret (DropTab t # ?las))"
    unfolding tabLost_eq [OF c(2) owner_epoch(3) [OF c(2) own]] by (simp add: c'_def)
  then have s: "core_step ?ev c = (c', Ret (DropTab t # ?las))" by simp
  define r0 where "r0 = note_tab_loss t e (stateValue c) why r"
  have "essence r0 = essence (clearEngineWatchdogs r)" by (simp add: r0_def note_tab_loss_essence)
  note e0 = essence_fields [OF this]
  define r1 where "r1 = removeTabConnection t (after_call ?ev c' (DropTab t # ?las) r0)"
  have "core_call ?ev r0 = (after_call ?ev c' (DropTab t # ?las) r0, Ret (DropTab t # ?las))"
    by (rule core_call_Ret [OF _ s]) (use e0(1) c(1) in \<open>simp add: clearEngine_eq\<close>)
  then have eq: "loseTab opts t why r = applyActions opts ?las r1"
    using own c(1) by (simp add: loseTab_def core_state_def call_and_apply_def applyActions_unfold r0_def r1_def)
  have r1: "core_state r1 = Some (stateValue c')" "rt_recoveryAttemptCount r1 = rt_recoveryAttemptCount r"
    "rt_tabs r1 = AList.delete t (rt_tabs r)" "rt_microtasks r1 = rt_microtasks r"
    using e0 by (auto simp: r1_def removeTabConnection_def core_state_def clearEngine_eq emit_def delete_idem map_of_eq_None_iff
        split: option.splits)
  obtain r2 where r2: "applyActions opts ?las r1 = scheduleResetActivation opts r2" "core_state r2 = core_state r1"
    "rt_recoveryAttemptCount r2 = rt_recoveryAttemptCount r1" "rt_tabs r2 = rt_tabs r1" "rt_microtasks r2 = rt_microtasks r1"
    by (rule loss_schedules)
  show ?thesis using that [of r2 act] r2 r1 eq by (simp add: c'_def c1_def removeTabRecord_def)
qed

text \<open>
  What a loss leads to after \<open>n\<close> earlier ones: with five, the failed state, and the last thing posted is
  the error, to every tab that is still connected; with fewer, another recovery, whose activation
  is queued at once the first time and after the retry delay of its number later.
\<close>

definition fails_for_good :: "string \<Rightarrow> (tab_id, tab_connection) jsmap \<Rightarrow> router \<Rightarrow> bool" where
  "fails_for_good why us r \<longleftrightarrow> (\<exists>untouched earlier.
     core_state r = Some (Failed (''cache recovery failed after 5 attempts: '' @ why) untouched) \<and>
     rt_effects r = earlier @ map (\<lambda>cn. PostTab (cn_port cn)
       (TerminalErrorEnv (''cache recovery failed after 5 attempts: '' @ why) untouched)) (map_values us))"

definition recovers :: "router_options \<Rightarrow> nat \<Rightarrow> tab_id \<Rightarrow> owner_epoch \<Rightarrow> string \<Rightarrow> router \<Rightarrow> router \<Rightarrow> bool" where
  "recovers opts n t e why r r' \<longleftrightarrow> (\<exists>ne act. core_state r' = Some (ResettingAfterLoss t e ne act why)) \<and>
     (if n = 0 then rt_microtasks r' = rt_microtasks r + 1
      else \<exists>k. rt_recoveryRetryTimer r' = Some k \<and> (k, (RecoveryActivate, ro_recoveryRetryDelayMs opts n)) \<in> set (rt_timers r'))"

definition loss_outcome ::
    "router_options \<Rightarrow> nat \<Rightarrow> tab_id \<Rightarrow> owner_epoch \<Rightarrow> string \<Rightarrow> (tab_id, tab_connection) jsmap \<Rightarrow> router \<Rightarrow> router \<Rightarrow> bool" where
  "loss_outcome opts n t e why us r r' \<longleftrightarrow> (if n = 5 then fails_for_good why us r' else recovers opts n t e why r r')"

lemma give_up_eq: "give_up_text why = ''cache recovery failed after 5 attempts: '' @ why"
proof -
  have "show_nat RECOVERY_RETRY_LIMIT = ''5''" by code_simp
  then show ?thesis by (simp add: give_up_text_def)
qed

lemma broadcast_effects: "rt_effects (broadcast msg r) = rt_effects r @ map (\<lambda>cn. PostTab (cn_port cn) msg) (map_values (rt_tabs r))"
proof -
  have "rt_effects (fold (\<lambda>cn. emit (PostTab (cn_port cn) msg)) cns r) = rt_effects r @ map (\<lambda>cn. PostTab (cn_port cn) msg) cns" for cns
    by (induction cns arbitrary: r) (simp_all add: emit_def)
  then show ?thesis by (simp add: broadcast_def)
qed

lemma schedule_gives_up:
  assumes "core_state r = Some (ResettingAfterLoss pt pe ne act why)" "rt_recoveryAttemptCount r \<ge> RECOVERY_RETRY_LIMIT"
  shows "fails_for_good why (rt_tabs r) (fst (scheduleResetActivation opts r))"
proof -
  obtain c where c: "rt_core r = Some c" "stateValue c = ResettingAfterLoss pt pe ne act why" using assms(1) by (auto simp: core_state_def)
  define b where "b = (act = OpenExisting)"
  define c' where "c' = c\<lparr>queuedRequests := [], inFlight := [], stateValue := Failed (give_up_text why) b\<rparr>"
  define r1 where "r1 = after_call (EvTerminalFailure (give_up_text why)) c' [TerminalFailure (give_up_text why) b] (clearRecoveryRetryTimer r)"
  have "core_step (EvTerminalFailure (give_up_text why)) c = (c', Ret [TerminalFailure (give_up_text why) b])"
    using c(2) by (cases act) (simp_all add: terminalFailure_def return_checked_def assertInvariants_def c'_def b_def)
  from core_call_Ret [OF _ this, of "clearRecoveryRetryTimer r"]
  have "core_call (EvTerminalFailure (give_up_text why)) (clearRecoveryRetryTimer r) =
      (r1, Ret [TerminalFailure (give_up_text why) b])"
    using c(1) by (simp add: clear_eqs r1_def)
  then have eq: "scheduleResetActivation opts r = done_with (broadcast (TerminalErrorEnv (give_up_text why) b) r1)"
    using assms by (simp add: scheduleResetActivation_def scheduleResetActivation_with_def give_up_text_def applyActions_unfold done_with_def)
  have "rt_core (broadcast msg r1) = Some c'" for msg
    using essence_fields(1) [OF essence_ops(6)] by (simp add: r1_def)
  then have "core_state (broadcast msg r1) = Some (Failed (give_up_text why) b)" for msg by (simp add: core_state_def c'_def)
  moreover have "rt_tabs r1 = rt_tabs r" by (simp add: r1_def clear_eqs)
  ultimately show ?thesis unfolding eq fails_for_good_def give_up_eq by (auto simp: broadcast_effects)
qed

lemma schedule_outcome:
  assumes st: "core_state r3 = Some (ResettingAfterLoss t e ne act why)"
    and count: "rt_recoveryAttemptCount r3 = n" "n \<le> 5" and micro: "rt_microtasks r3 = rt_microtasks r"
  shows "loss_outcome opts n t e why (rt_tabs r3) r (fst (scheduleResetActivation opts r3))"
proof (cases "n = 5")
  case True
  then show ?thesis using schedule_gives_up [OF st] count by (simp add: loss_outcome_def RECOVERY_RETRY_LIMIT_def)
next
  case False
  then have "scheduleResetActivation opts r3 = done_with (queue_activation opts r3)"
    using count st by (simp add: scheduleResetActivation_def scheduleResetActivation_with_def RECOVERY_RETRY_LIMIT_def)
  moreover have "core_state (queue_activation opts r3) = core_state r3"
    by (simp add: queue_activation_def setTimer_def core_state_def Let_def)
  ultimately show ?thesis using False st count(1) micro
    by (simp add: loss_outcome_def recovers_def) (simp add: queue_activation_def setTimer_def Let_def)
qed

section \<open>The property\<close>

text \<open>
  C7: recovery is bounded and its attempts are paced. Count the owners that the core has lost, in whatever
  way, since an engine last served. Over any run (of fewer than \<open>2 ^ 53 - 1\<close> inputs) there are never more than six, and the coordinator has
  failed for good exactly when there are six. A loss, reported by \<open>failOwner\<close> or with the owner's
  tab by \<open>loseTab\<close>, that follows fewer than five leads to another recovery: the activation is queued
  at once for the first, and after the retry delay of its number for a later one. The one that
  follows five ends in the failed state, and every tab that is still connected is told.
\<close>

theorem recovery_is_bounded:
  assumes "length xs < max_safe_integer"
  shows "losses_unserved opts xs \<le> 6 \<and>
    (losses_unserved opts xs = 6 \<longleftrightarrow> (\<exists>failure b. core_state (router_run opts xs) = Some (Failed failure b))) \<and>
    (\<forall>t e st why fc gc. core_state (router_run opts xs) = Some st \<longrightarrow> owner_of st = Some (t, e) \<longrightarrow>
       loss_outcome opts (losses_unserved opts xs) t e why (rt_tabs (router_run opts xs)) (router_run opts xs)
         (fst (failOwner opts t e why fc gc (router_run opts xs))) \<and>
       loss_outcome opts (losses_unserved opts xs) t e why (AList.delete t (rt_tabs (router_run opts xs))) (router_run opts xs)
         (fst (loseTab opts t why (router_run opts xs))))"
proof -
  let ?r = "router_run opts xs"
  note bound = run_losses_bounded [OF assms, of opts]
  have "loss_outcome opts (losses_unserved opts xs) t e why (rt_tabs ?r) ?r (fst (failOwner opts t e why fc gc ?r)) \<and>
      loss_outcome opts (losses_unserved opts xs) t e why (AList.delete t (rt_tabs ?r)) ?r (fst (loseTab opts t why ?r))"
    if st: "core_state ?r = Some st" "owner_of st = Some (t, e)" for t e st why fc gc
  proof -
    obtain c where c: "rt_core ?r = Some c" "core_inv c" "stateValue c = st"
      using run_idle [OF assms, of opts] st(1) by (auto simp: idle_def fresh_def core_state_def elim!: base_core)
    then have own: "owner_of (stateValue c) = Some (t, e)" using st(2) by simp
    have "\<not> in_state broken ?r" using st by (cases st) (simp_all add: in_state_def)
    then have count: "rt_recoveryAttemptCount ?r = losses_unserved opts xs" "losses_unserved opts xs \<le> 5" using bound by simp_all
    have "loss_outcome opts (losses_unserved opts xs) t e why (rt_tabs ?r) ?r (fst (failOwner opts t e why fc gc ?r))"
      by (rule failOwner_schedules [OF c(1,2) own, of opts why fc gc]) (metis schedule_outcome count)
    moreover have "loss_outcome opts (losses_unserved opts xs) t e why (AList.delete t (rt_tabs ?r)) ?r (fst (loseTab opts t why ?r))"
      by (rule loseTab_schedules [OF c(1,2) own, of opts why]) (metis schedule_outcome count)
    ultimately show ?thesis ..
  qed
  moreover have "in_state broken ?r \<longleftrightarrow> (\<exists>failure b. core_state ?r = Some (Failed failure b))"
    by (auto simp: in_state_def elim!: broken.elims split: option.splits)
  ultimately show ?thesis using bound by blast
qed

text \<open>A tab whose engine never loads: the watchdog and the recovery take turns.\<close>

definition router_demo_stuck :: "(rat \<times> router_input) list" where
  "router_demo_stuck = router_demo 2 @ map (Pair 0) (TimerFires 1 # MicrotaskRuns # map TimerFires [2, 3, 4, 5, 6, 7, 8, 9])"

theorem recovery_is_bounded_witness:
  "losses_unserved router_demo_options router_demo_stuck = 5 \<and>
   fails_for_good ''gone'' (rt_tabs (router_run router_demo_options router_demo_stuck))
     (fst (failOwner router_demo_options ''a'' 6 ''gone'' None None (router_run router_demo_options router_demo_stuck)))"
proof -
  have st: "core_state (router_run router_demo_options router_demo_stuck) = Some (Activating ''a'' 6 OpenExisting LoadingAssets)"
    and attempts: "rt_recoveryAttemptCount (router_run router_demo_options router_demo_stuck) = 5" by code_simp+
  have len: "length router_demo_stuck < max_safe_integer"
    by (simp add: router_demo_stuck_def router_demo_def router_demo_inputs_def max_safe_integer_def)
  have "\<not> in_state broken (router_run router_demo_options router_demo_stuck)" using st by (simp add: in_state_def)
  then have count: "losses_unserved router_demo_options router_demo_stuck = 5"
    using run_losses_bounded(3) [OF len, of router_demo_options] attempts by simp
  have "owner_of (Activating ''a'' 6 OpenExisting LoadingAssets) = Some (''a'', 6)" by simp
  then have "loss_outcome router_demo_options 5 ''a'' 6 ''gone'' (rt_tabs (router_run router_demo_options router_demo_stuck))
      (router_run router_demo_options router_demo_stuck)
      (fst (failOwner router_demo_options ''a'' 6 ''gone'' None None (router_run router_demo_options router_demo_stuck)))"
    using recovery_is_bounded [OF len, of router_demo_options] st unfolding count by blast
  then show ?thesis using count by (simp add: loss_outcome_def)
qed

end
