(* ===== verification/RouterAnswers.thy ===== *)
theory RouterAnswers
  imports RouterClaims
begin

text \<open>
  The answers of the core on their way to the tabs: through one task, a tab that stays connected is
  posted exactly the answers the core has given it.
\<close>

section \<open>Answers\<close>

text \<open>The response that an answer to a tab holds, read field by field\<close>

fun response_of :: "coordinator_to_tab \<Rightarrow> jsvalue cache_response" where
  "response_of (CacheMessageEnv msg) = decode_response msg"
| "response_of _ = ResponseError 0 '''' None"

definition posted_responses :: "port \<Rightarrow> (port \<times> coordinator_to_tab) list \<Rightarrow> jsvalue cache_response multiset" where
  "posted_responses p ps = mset (map (\<lambda>x. response_of (snd x)) (filter (\<lambda>x. fst x = p \<and> is_answer (snd x)) ps))"

text \<open>The responses that actions of the core, and its calls in a run, hold for a tab\<close>

definition responses_for :: "tab_id \<Rightarrow> router_action list \<Rightarrow> jsvalue cache_response multiset" where
  "responses_for t as = mset (map snd (filter (\<lambda>x. fst x = t) (List.map_filter answers as)))"

definition given_in_run :: "tab_id \<Rightarrow> core_call list \<Rightarrow> jsvalue cache_response multiset" where
  "given_in_run t cs = responses_for t (concat (map actions_of cs))"

lemma posted_responses_simps [simp]:
  "posted_responses p [] = {#}" "posted_responses p (ps @ ps') = posted_responses p ps + posted_responses p ps'"
  "posted_responses p [(q, msg)] = (if q = p \<and> is_answer msg then {#response_of msg#} else {#})"
  by (simp_all add: posted_responses_def)

lemma responses_for_simps [simp]:
  "responses_for t [] = {#}" "responses_for t (as @ bs) = responses_for t as + responses_for t bs"
  by (simp_all add: responses_for_def List.map_filter_def)

lemma responses_for_Cons:
  "responses_for t (a # as) = (case answers a of Some (u, resp) \<Rightarrow> if u = t then {#resp#} else {#} | None \<Rightarrow> {#}) + responses_for t as"
  by (simp add: responses_for_def List.map_filter_def split: option.splits)

lemma response_answer [simp]: "get (encode_response resp) ''id'' = js_nat (response_id resp)"
  by (cases resp rule: encode_response.cases) simp_all

lemma decode_encode_response [simp]: "decode_response (encode_response resp) = resp"
proof (cases resp)
  case (ResponseError i err code)
  then show ?thesis
  proof (cases code)
    case (Some c)
    then show ?thesis using ResponseError by (cases c) (simp_all add: decode_response_def Let_def)
  qed (simp add: decode_response_def Let_def)
qed (simp add: decode_response_def Let_def)

lemma answers_drops: "answers a = Some x \<Longrightarrow> drops a = None" "drops a = Some v \<Longrightarrow> answers a = None"
  by (cases a; auto)+

lemma responses_for_ids: "image_mset response_id (responses_for t as) = answered_ids t as"
proof (induction as)
  case (Cons a as)
  then show ?case by (cases a) (simp_all add: responses_for_Cons)
qed simp

text \<open>The calls among which the tab neither leaves nor the coordinator fails for good\<close>

definition steady :: "tab_id \<Rightarrow> core_call list \<Rightarrow> bool" where
  "steady t cs \<longleftrightarrow> (\<forall>p \<in> set cs. \<not> forgets (fst p) t \<and> \<not> terminal_event (fst p))"

definition core_pending :: "tab_id \<Rightarrow> router \<Rightarrow> nat multiset" where
  "core_pending t r = (case rt_core r of None \<Rightarrow> {#} | Some c \<Rightarrow> pending_ids t c)"

text \<open>
  The connection \<open>k\<close> of tab \<open>t\<close> on port \<open>p\<close>, since the state \<open>r0\<close>: the calls since then, the answers that
  are posted or still to be posted, and the requests that are pending.
\<close>

definition delivered :: "tab_id \<Rightarrow> nat \<Rightarrow> port \<Rightarrow> router \<Rightarrow> router_action list \<Rightarrow> router \<Rightarrow> core_call list \<Rightarrow> bool" where
  "delivered t k p r0 acts r cs \<longleftrightarrow> rt_calls r = rt_calls r0 @ cs \<and>
     (\<forall>cn. map_of (rt_tabs r) t = Some cn \<longrightarrow> cn_id cn = k \<longrightarrow> cn_port cn = p \<and>
        (t \<notin> dropped acts \<longrightarrow> posted_responses p (posts r) + responses_for t acts = posted_responses p (posts r0) + given_in_run t cs)) \<and>
     (steady t cs \<longrightarrow> core_pending t r0 + offered_in_run t cs = core_pending t r + image_mset response_id (given_in_run t cs))"

definition delivers :: "tab_id \<Rightarrow> nat \<Rightarrow> port \<Rightarrow> router \<Rightarrow> router_action list \<Rightarrow> router \<Rightarrow> bool" where
  "delivers t k p r0 acts r \<longleftrightarrow> k < rt_nextObject r \<and> (\<exists>cs. delivered t k p r0 acts r cs)"

lemma delivers_mono:
  assumes "delivers t k p r0 acts r" "rt_calls r' = rt_calls r" "posted_responses p (posts r') = posted_responses p (posts r)" "core_pending t r' = core_pending t r"
    "rt_nextObject r \<le> rt_nextObject r'" "responses_for t acts' = responses_for t acts"
    "\<And>cn. map_of (rt_tabs r') t = Some cn \<Longrightarrow> cn_id cn = k \<Longrightarrow> map_of (rt_tabs r) t = Some cn \<and> (t \<notin> dropped acts' \<longrightarrow> t \<notin> dropped acts)"
  shows "delivers t k p r0 acts' r'"
  using assms unfolding delivers_def delivered_def by auto

lemma run_snoc [simp]:
  "given_in_run t (cs @ [(ev, Ret as)]) = given_in_run t cs + responses_for t as"
  "offered_in_run t (cs @ [(ev, res)]) = offered_in_run t cs + offered_ids t ev"
  "steady t (cs @ [(ev, res)]) \<longleftrightarrow> steady t cs \<and> \<not> forgets ev t \<and> \<not> terminal_event ev"
  by (auto simp: given_in_run_def offered_in_run_def steady_def)

lemma delivers_call:
  assumes D: "delivers t k p r0 acts r" and c: "rt_core r = Some c" "core_inv c" "ids_left c" and s: "core_step ev c = (c', Ret as)"
  shows "delivers t k p r0 (as @ acts) (after_call ev c' as r)"
proof -
  obtain cs where cs: "delivered t k p r0 acts r cs" using D by (auto simp: delivers_def)
  have "balanced t (offered_ids t ev) c (c', Ret as)" if "\<not> forgets ev t" "\<not> terminal_event ev"
    using core_step_balanced [OF c(2,3) that(1)] that(2) s by (cases ev) auto
  then have "delivered t k p r0 (as @ acts) (after_call ev c' as r) (cs @ [(ev, Ret as)])"
    using cs c(1) unfolding delivered_def
    by (simp add: core_pending_def responses_for_ids) (metis (no_types, lifting) add.assoc add.left_commute)
  then show ?thesis using D by (auto simp: delivers_def)
qed

lemma delivers_answer:
  assumes D: "delivers t k p r0 (a # acts) r" and B: "base N g (a # acts) r" and a: "answers a = Some (u, resp)"
  shows "delivers t k p r0 acts (postCacheResponse u resp r)"
proof -
  obtain cs where cs: "delivered t k p r0 (a # acts) r cs" using D by (auto simp: delivers_def)
  note ess = essence_fields [OF essence_ops(9), of u resp r]
  have P: "ports_ok r" using B by (auto simp: base_def linked_def conn_part_def)
  have "posted_responses p (posts (postCacheResponse u resp r)) + responses_for t acts = posted_responses p (posts r0) + given_in_run t cs"
    if "map_of (rt_tabs r) t = Some cn" "cn_id cn = k" "t \<notin> dropped acts" for cn
  proof -
    have eq: "cn_port cn = p" "posted_responses p (posts r) + responses_for t (a # acts) = posted_responses p (posts r0) + given_in_run t cs"
      using cs that answers_drops(1) [OF a] by (auto simp: delivered_def)
    have "posted_responses p (posts (postCacheResponse u resp r)) = posted_responses p (posts r) + (if u = t then {#resp#} else {#})"
    proof (cases "map_of (rt_tabs r) u")
      case None
      then show ?thesis using that(1) by (auto simp: postCacheResponse_def postToTab_def)
    next
      case (Some cu)
      have "cn_port cu = p \<longleftrightarrow> u = t"
        using P Some that(1) eq(1) unfolding ports_ok_def by (metis option.inject)
      then show ?thesis using Some by (simp add: postCacheResponse_def postToTab_def del: encode_response.simps)
    qed
    then show ?thesis using eq(2) by (simp add: responses_for_Cons a add.assoc)
  qed
  then have "delivered t k p r0 acts (postCacheResponse u resp r) cs"
    using cs ess unfolding delivered_def core_pending_def by auto
  then show ?thesis using D ess(18) by (auto simp: delivers_def)
qed

lemma core_pending_core: "rt_core r' = rt_core r \<Longrightarrow> core_pending t r' = core_pending t r"
  by (simp add: core_pending_def)

lemma new_core_pending: "new_core sc = Ret c \<Longrightarrow> pending_ids t c = {#}"
  by (auto simp: new_core_def init_core_def pending_ids_def split: if_splits)

text \<open>A state that differs in nothing the answers depend on\<close>

lemma delivers_same:
  assumes "delivers t k p r0 acts r" "rt_calls r' = rt_calls r" "posted_responses p (posts r') = posted_responses p (posts r)" "rt_core r' = rt_core r"
    "rt_nextObject r \<le> rt_nextObject r'" "rt_tabs r' = rt_tabs r"
  shows "delivers t k p r0 acts r'"
  by (rule delivers_mono [OF assms(1-3) core_pending_core [OF assms(4)] assms(5)]) (use assms(6) in simp_all)

interpretation answer_obs: router_observer opts N "delivers t k p r0" "\<lambda>r. \<exists>cs. delivered t k p r0 [] r cs" for opts N t k p r0
proof
  fix a acts r r'
  show "delivers t k p r0 acts r'" if D: "delivers t k p r0 acts r" and v: "view r' = view r"
    by (rule delivers_same [OF D]) (simp_all only: view_fields [OF v] order_refl)
  have quiet: "delivers t k p r0 (a # acts) r \<Longrightarrow> answers a = None \<Longrightarrow> drops a = None \<Longrightarrow> delivers t k p r0 acts r" for a acts r
    by (erule delivers_mono) (simp_all add: responses_for_Cons)
  show "delivers t k p r0 (a # acts) r \<Longrightarrow> answers a = None \<Longrightarrow> drops a = None \<Longrightarrow> delivers t k p r0 acts r"
    by (rule quiet)
  have unqueued: "delivers t k p r0 (ScheduleResetActivation # acts) r \<Longrightarrow> delivers t k p r0 acts r" for acts r
    by (erule quiet) (rule answers.simps drops.simps)+
  show "delivers t k p r0 (ScheduleResetActivation # acts) r \<Longrightarrow> delivers t k p r0 acts r"
    by (rule unqueued)
  show "delivers t k p r0 (ScheduleResetActivation # acts) r \<Longrightarrow> delivers t k p r0 acts (r\<lparr>rt_recoveryAttemptCount := n\<rparr>)" for n
    by (rule delivers_same [OF unqueued]) simp_all
  show "delivers t k p r0 (as @ acts) (after_call (EvTerminalFailure failure) c' as r)"
    if D: "delivers t k p r0 (ScheduleResetActivation # acts) r" and s: "rt_core r = Some c" "core_inv c" "ids_left c"
      "core_step (EvTerminalFailure failure) c = (c', Ret as)" for failure c c' as
    by (rule delivers_call [OF unqueued [OF D] s])
  show "\<exists>cs. delivered t k p r0 [] r' cs"
    if D: "delivers t k p r0 [] r" and v: "view r' = view (r\<lparr>rt_recoveryAttemptCount := 0\<rparr>)"
    using delivers_same [OF D, of r'] reset_fields [OF v] by (simp add: delivers_def)
  show "delivers t k p r0 acts r \<Longrightarrow> \<not> is_answer msg \<Longrightarrow> delivers t k p r0 acts (emit (PostTab q msg) r)" for q msg
    by (erule delivers_same) simp_all
  show "delivers t k p r0 acts r \<Longrightarrow> rt_core r = Some c \<Longrightarrow> core_inv c \<Longrightarrow> ids_left c \<Longrightarrow> core_step ev c = (c', Ret as) \<Longrightarrow>
      delivers t k p r0 (as @ acts) (after_call ev c' as r)" for ev c c' as
    by (rule delivers_call)
  show "delivers t k p r0 (a # acts) r \<Longrightarrow> base N g (a # acts) r \<Longrightarrow> answers a = Some (u, resp) \<Longrightarrow>
      delivers t k p r0 acts (postCacheResponse u resp r)" for g u resp
    by (rule delivers_answer)
  show "delivers t k p r0 acts r \<Longrightarrow> delivers t k p r0 acts (emit (SendEngine j emsg) r)" for j emsg
    by (erule delivers_same) simp_all
  show "delivers t k p r0 (a # acts) r \<Longrightarrow> drops a = Some u \<Longrightarrow>
      delivers t k p r0 acts (r\<lparr>rt_tabs := AList.delete u (rt_tabs r), rt_portTabs := m\<rparr>)" for u m
    by (erule delivers_mono) (auto simp: responses_for_Cons answers_drops core_pending_def split: if_splits)
  show "delivers t k p r0 (a # acts) r \<Longrightarrow> drops a = Some u \<Longrightarrow> map_of (rt_tabs r) u = None \<Longrightarrow> delivers t k p r0 acts r" for u
    by (erule delivers_mono) (auto simp: responses_for_Cons answers_drops)
  show "delivers t k p r0 acts r \<Longrightarrow> delivers t k p r0 acts (r\<lparr>rt_engineRoute := None\<rparr>)"
    by (erule delivers_same) simp_all
  show "delivers t k p r0 acts r \<Longrightarrow> rt_nextObject r \<le> j \<Longrightarrow> delivers t k p r0 acts (r\<lparr>rt_nextObject := j, rt_nextHeartbeatId := h\<rparr>)" for j h
    by (erule delivers_same) simp_all
  show "delivers t k p r0 [] (r\<lparr>rt_tabs := AList.update u cn (rt_tabs r), rt_portTabs := m, rt_nextObject := Suc (rt_nextObject r)\<rparr>)"
    if D: "delivers t k p r0 [] r" and cn: "cn_id cn = rt_nextObject r" for cn u m
    by (rule delivers_mono [OF D]) (use D cn in \<open>auto simp: core_pending_def update_conv' delivers_def split: if_splits\<close>)
  show "delivers t k p r0 [] r \<Longrightarrow> rt_core r = None \<Longrightarrow> new_core sc = Ret c \<Longrightarrow> delivers t k p r0 [] (r\<lparr>rt_core := Some c\<rparr>)" for sc c
    by (erule delivers_mono) (simp_all add: core_pending_def new_core_pending)
  show "delivers t k p r0 [] r \<Longrightarrow> \<exists>cs. delivered t k p r0 [] r cs" by (simp add: delivers_def)
  show "delivers t k p r0 [] r \<Longrightarrow> \<exists>cs. delivered t k p r0 [] (r\<lparr>rt_engineRoute := route', rt_nextObject := Suc (rt_nextObject r)\<rparr>) cs" for route'
    by (drule delivers_same [where r' = "r\<lparr>rt_engineRoute := route', rt_nextObject := Suc (rt_nextObject r)\<rparr>"]) (simp_all add: delivers_def)
qed

section \<open>The property\<close>

text \<open>
  C27: answers reach the tab they belong to. In any run (of fewer than \<open>2 ^ 53 - 1\<close> inputs) let a tab be connected before and after a task by the same
  connection. Then the responses posted to its port in the task, read field by field (request id,
  result, error text and error code), are exactly those the core gave the tab in the calls of the
  task, each as often as it was given. And if the task neither removes the tab nor fails the coordinator
  for good, every request of the tab that was pending before it or arrived in it is afterwards
  pending or answered on the port, once.
\<close>

theorem answers_reach_tab:
  assumes "Suc (length xs) < max_safe_integer"
    and "map_of (rt_tabs (router_run opts xs)) t = Some cn" and "map_of (rt_tabs (router_run opts (xs @ [x]))) t = Some cn"
  shows "\<exists>cs. rt_calls (router_run opts (xs @ [x])) = rt_calls (router_run opts xs) @ cs \<and>
    posted_responses (cn_port cn) (posts (router_run opts (xs @ [x]))) =
      posted_responses (cn_port cn) (posts (router_run opts xs)) + given_in_run t cs \<and>
    (steady t cs \<longrightarrow>
      core_pending t (router_run opts xs) + offered_in_run t cs =
      core_pending t (router_run opts (xs @ [x])) + image_mset response_id (given_in_run t cs))"
proof -
  let ?r = "router_run opts xs" and ?r' = "router_run opts (xs @ [x])"
  have idle: "idle (length xs) ?r" using assms by (simp add: run_idle)
  have "cn_id cn < rt_nextObject ?r"
    using idle assms(2) by (auto simp: idle_def fresh_def base_def linked_def conn_part_def ports_ok_def)
  then have "delivers t (cn_id cn) (cn_port cn) ?r [] ?r"
    using assms(2) by (auto simp: delivers_def delivered_def given_in_run_def offered_in_run_def intro!: exI [of _ "[]"])
  then obtain cs where "delivered t (cn_id cn) (cn_port cn) ?r [] ?r' cs"
    using answer_obs.task_observed(3) [OF idle, of "Suc (length xs)" t "cn_id cn" "cn_port cn" ?r opts "fst x" "snd x"] assms(1) by auto
  then show ?thesis using assms(3) by (intro exI [of _ cs]) (simp add: delivered_def)
qed

text \<open>The engine answers the request of the demonstration.\<close>

definition router_demo_answer :: "rat \<times> router_input" where
  "router_demo_answer = (0, EngineMessage 3 (encode_engine (EngineResponseEnv 1 1 (encode_response (ResponseOk 1 JNull)))))"

theorem answers_reach_tab_witness:
  "posted_responses 7 (posts (router_run router_demo_options (router_demo 6 @ [router_demo_answer]))) = {#ResponseOk 5 JNull#} \<and>
   (\<exists>cs. rt_calls (router_run router_demo_options (router_demo 6 @ [router_demo_answer])) =
      rt_calls (router_run router_demo_options (router_demo 6)) @ cs \<and> given_in_run ''a'' cs = {#ResponseOk 5 JNull#})"
proof -
  let ?r = "router_run router_demo_options (router_demo 6)"
  define r' where "r' = router_run router_demo_options (router_demo 6 @ [router_demo_answer])"
  have tabs: "map_of (rt_tabs ?r) ''a'' = Some \<lparr>cn_id = 2, cn_port = 7\<rparr>" "map_of (rt_tabs r') ''a'' = Some \<lparr>cn_id = 2, cn_port = 7\<rparr>"
    unfolding r'_def by code_simp+
  have posted: "posted_responses 7 (posts ?r) = {#}" "posted_responses 7 (posts r') = {#ResponseOk 5 JNull#}"
    unfolding r'_def by code_simp+
  have len: "Suc (length (router_demo 6)) < max_safe_integer" by (simp add: router_demo_def router_demo_inputs_def max_safe_integer_def)
  show ?thesis
    using answers_reach_tab [OF len tabs(1) tabs(2) [unfolded r'_def], folded r'_def] posted
    unfolding r'_def [symmetric] by (metis add_0 tab_connection.select_convs(2))
qed

end
