(* ===== verification/CrossTabBus.thy ===== *)
theory CrossTabBus
  imports JsSet JsValue
begin

text \<open>
  The message bus between the tabs of a browser (\<open>lib/core/cross-tab/cross-tab-bus.ts\<close>): a
  \<open>BroadcastChannel\<close>, with \<open>storage\<close> events as a second transport and a bounded memory of handled keys,
  so that what arrives twice is handled once.

  \<^item> A bus is the state of one tab. Handlers are numbers, their calls are listed in \<open>bus_deliveries\<close>;
    what a handler throws is caught, and handlers are taken not to call the bus.
  \<^item> \<open>postMessage\<close> and \<open>setItem\<close> are effects, whose failures the code swallows. Texts in the storage
    are represented by the value they parse to.
  \<^item> A world has the buses of several tabs, the events under way between them, and the shared storage:
    events arrive in any order and may be lost, and either transport may refuse a message.
\<close>

section \<open>The bus of a tab\<close>

definition MAX_HANDLED_MESSAGE_KEYS :: nat where
  "MAX_HANDLED_MESSAGE_KEYS = 100"

record 'm bus_options =
  bo_storageKey :: string
  bo_parse :: "jsvalue \<Rightarrow> 'm option"
  bo_getMessageKey :: "('m \<Rightarrow> string) option"

datatype broadcast_support = NoBroadcastChannel | ConstructorThrows | ConstructorWorks

datatype channel_ref = ChannelUndefined | ChannelNull | ChannelOpen

record 'm bus =
  bus_broadcast :: broadcast_support
  bus_window :: bool
  bus_handlers :: "nat jsset"
  bus_handledKeys :: "string jsset"
  bus_channel :: channel_ref
  bus_storageListener :: bool
  bus_deliveries :: "(nat \<times> 'm) list"

datatype storage_text = NoText | NotJson | Json jsvalue

datatype bus_effect = PostMessage jsvalue | SetItem string jsvalue

definition createCrossTabBus :: "broadcast_support \<Rightarrow> bool \<Rightarrow> 'm bus" where
  "createCrossTabBus support hasWindow = \<lparr>bus_broadcast = support, bus_window = hasWindow, bus_handlers = [],
     bus_handledKeys = [], bus_channel = ChannelUndefined, bus_storageListener = False, bus_deliveries = []\<rparr>"

definition call_handlers :: "'m \<Rightarrow> 'm bus \<Rightarrow> 'm bus" where
  "call_handlers m b = b\<lparr>bus_deliveries := bus_deliveries b @ map (\<lambda>h. (h, m)) (bus_handlers b)\<rparr>"

definition bus_emit :: "'m bus_options \<Rightarrow> jsvalue \<Rightarrow> 'm bus \<Rightarrow> 'm bus" where
  "bus_emit opts v b =
     (case bo_parse opts v of
        None \<Rightarrow> b
      | Some m \<Rightarrow>
          (case bo_getMessageKey opts of
             None \<Rightarrow> call_handlers m b
           | Some getKey \<Rightarrow>
               if getKey m \<in> set (bus_handledKeys b) then b
               else call_handlers m (b\<lparr>bus_handledKeys :=
                      evictOldest MAX_HANDLED_MESSAGE_KEYS (set_add (getKey m) (bus_handledKeys b))\<rparr>)))"

definition getBroadcastChannel :: "'m bus \<Rightarrow> 'm bus" where
  "getBroadcastChannel b =
     (if bus_channel b \<noteq> ChannelUndefined then b
      else b\<lparr>bus_channel := (if bus_broadcast b = ConstructorWorks then ChannelOpen else ChannelNull)\<rparr>)"

definition handleStorage :: "'m bus_options \<Rightarrow> string \<Rightarrow> storage_text \<Rightarrow> 'm bus \<Rightarrow> 'm bus" where
  "handleStorage opts k newValue b =
     (if k \<noteq> bo_storageKey opts then b
      else case newValue of NoText \<Rightarrow> b | NotJson \<Rightarrow> b | Json v \<Rightarrow> bus_emit opts v b)"

definition attachStorageListener :: "'m bus \<Rightarrow> 'm bus" where
  "attachStorageListener b =
     (if bus_storageListener b \<or> \<not> bus_window b then b else b\<lparr>bus_storageListener := True\<rparr>)"

definition bus_publish :: "'m bus_options \<Rightarrow> jsvalue \<Rightarrow> 'm bus \<Rightarrow> 'm bus \<times> bus_effect list" where
  "bus_publish opts v b =
     (let b' = getBroadcastChannel (bus_emit opts v b)
      in (b', (if bus_channel b' = ChannelOpen then [PostMessage v] else []) @ [SetItem (bo_storageKey opts) v]))"

definition bus_subscribe :: "nat \<Rightarrow> 'm bus \<Rightarrow> 'm bus" where
  "bus_subscribe h b =
     attachStorageListener (getBroadcastChannel (b\<lparr>bus_handlers := set_add h (bus_handlers b)\<rparr>))"

definition bus_unsubscribe :: "nat \<Rightarrow> 'm bus \<Rightarrow> 'm bus" where
  "bus_unsubscribe h b = b\<lparr>bus_handlers := set_delete h (bus_handlers b)\<rparr>"

section \<open>The tabs of a browser\<close>

datatype tab_event = BroadcastEvent jsvalue | StorageEvent string storage_text

datatype transport = Broadcasting | Storing

fun transport_of :: "tab_event \<Rightarrow> transport" where
  "transport_of (BroadcastEvent _) = Broadcasting"
| "transport_of (StorageEvent _ _) = Storing"

record 'm bus_world =
  bw_tabs :: "'m bus list"
  bw_wire :: "(nat \<times> tab_event) list"
  bw_storage :: "string \<Rightarrow> storage_text"

text \<open>The platform carries a message to every other tab that listens; \<open>setItem\<close> of an equal text is no event.\<close>

definition to_others :: "nat \<Rightarrow> ('m bus \<Rightarrow> bool) \<Rightarrow> tab_event \<Rightarrow> 'm bus_world \<Rightarrow> 'm bus_world" where
  "to_others i listens ev w =
     w\<lparr>bw_wire := bw_wire w @ map (\<lambda>j. (j, ev)) (filter (\<lambda>j. j \<noteq> i \<and> listens (bw_tabs w ! j)) [0..<length (bw_tabs w)])\<rparr>"

fun carry :: "nat \<Rightarrow> bool \<Rightarrow> bool \<Rightarrow> bus_effect \<Rightarrow> 'm bus_world \<Rightarrow> 'm bus_world" where
  "carry i posts stores (PostMessage v) w =
     (if posts then to_others i (\<lambda>b. bus_channel b = ChannelOpen) (BroadcastEvent v) w else w)"
| "carry i posts stores (SetItem k v) w =
     (if stores \<and> bw_storage w k \<noteq> Json v
      then to_others i bus_storageListener (StorageEvent k (Json v)) (w\<lparr>bw_storage := (bw_storage w)(k := Json v)\<rparr>)
      else w)"

fun handle_event :: "'m bus_options \<Rightarrow> tab_event \<Rightarrow> 'm bus \<Rightarrow> 'm bus" where
  "handle_event opts (BroadcastEvent v) b = bus_emit opts v b"
| "handle_event opts (StorageEvent k newValue) b = handleStorage opts k newValue b"

datatype 'm bus_input =
  Publish nat 'm bool bool
| Subscribe nat nat
| Unsubscribe nat nat
| Arrive nat
| Lose transport nat
| ForeignStorage nat string storage_text

definition at_tab :: "nat \<Rightarrow> ('m bus \<Rightarrow> 'm bus) \<Rightarrow> 'm bus_world \<Rightarrow> 'm bus_world" where
  "at_tab i f w = w\<lparr>bw_tabs := (bw_tabs w)[i := f (bw_tabs w ! i)]\<rparr>"

definition drop_at :: "nat \<Rightarrow> 'a list \<Rightarrow> 'a list" where
  "drop_at k xs = take k xs @ drop (Suc k) xs"

fun bus_world_step :: "'m bus_options \<Rightarrow> ('m \<Rightarrow> jsvalue) \<Rightarrow> 'm bus_input \<Rightarrow> 'm bus_world \<Rightarrow> 'm bus_world" where
  "bus_world_step opts enc (Publish i m posts stores) w =
     (if i < length (bw_tabs w)
      then fold (carry i posts stores) (snd (bus_publish opts (enc m) (bw_tabs w ! i)))
             (at_tab i (\<lambda>b. fst (bus_publish opts (enc m) b)) w)
      else w)"
| "bus_world_step opts enc (Subscribe i h) w = at_tab i (bus_subscribe h) w"
| "bus_world_step opts enc (Unsubscribe i h) w = at_tab i (bus_unsubscribe h) w"
| "bus_world_step opts enc (Arrive k) w =
     (if k < length (bw_wire w)
      then at_tab (fst (bw_wire w ! k)) (handle_event opts (snd (bw_wire w ! k))) (w\<lparr>bw_wire := drop_at k (bw_wire w)\<rparr>)
      else w)"
| "bus_world_step opts enc (Lose tr k) w =
     (if k < length (bw_wire w) \<and> transport_of (snd (bw_wire w ! k)) = tr
      then w\<lparr>bw_wire := drop_at k (bw_wire w)\<rparr> else w)"
| "bus_world_step opts enc (ForeignStorage i k newValue) w = at_tab i (handleStorage opts k newValue) w"

definition bus_world_run :: "'m bus_options \<Rightarrow> ('m \<Rightarrow> jsvalue) \<Rightarrow> 'm bus_input list \<Rightarrow> 'm bus_world \<Rightarrow> 'm bus_world" where
  "bus_world_run opts enc inps w = fold (bus_world_step opts enc) inps w"

text \<open>Tabs that have subscribed handlers on a platform, with an empty storage\<close>

definition start_tab :: "broadcast_support \<times> bool \<times> nat list \<Rightarrow> 'm bus" where
  "start_tab s = (case s of (support, hasWindow, hs) \<Rightarrow> fold bus_subscribe hs (createCrossTabBus support hasWindow))"

definition start_world :: "(broadcast_support \<times> bool \<times> nat list) list \<Rightarrow> 'm bus_world" where
  "start_world ss = \<lparr>bw_tabs = map start_tab ss, bw_wire = [], bw_storage = (\<lambda>_. NoText)\<rparr>"

text \<open>What a handler was called with\<close>

definition heard :: "nat \<Rightarrow> 'm bus \<Rightarrow> 'm list" where
  "heard h b = map snd (filter (\<lambda>d. fst d = h) (bus_deliveries b))"

section \<open>Exactly once\<close>

text \<open>The messages published in tabs that exist\<close>

fun published_by :: "nat \<Rightarrow> 'm bus_input \<Rightarrow> 'm list" where
  "published_by n (Publish i m posts stores) = (if i < n then [m] else [])"
| "published_by n _ = []"

definition published :: "nat \<Rightarrow> 'm bus_input list \<Rightarrow> 'm list" where
  "published n inps = concat (map (published_by n) inps)"

text \<open>Inputs in which one transport refuses and loses nothing\<close>

fun faithful :: "transport \<Rightarrow> 'm bus_input \<Rightarrow> bool" where
  "faithful tr (Publish i m posts stores) = (case tr of Broadcasting \<Rightarrow> posts | Storing \<Rightarrow> stores)"
| "faithful tr (Lose tr' k) = (tr' \<noteq> tr)"
| "faithful tr _ = True"

fun supported :: "transport \<Rightarrow> broadcast_support \<times> bool \<times> nat list \<Rightarrow> bool" where
  "supported tr (support, hasWindow, hs) =
     (hs \<noteq> [] \<and> (case tr of Broadcasting \<Rightarrow> support = ConstructorWorks | Storing \<Rightarrow> hasWindow))"

text \<open>Other code of the page writes other keys, or texts that are no JSON.\<close>

fun unforged :: "string \<Rightarrow> 'm bus_input \<Rightarrow> bool" where
  "unforged sk (ForeignStorage i k newValue) = (k = sk \<longrightarrow> (case newValue of Json v \<Rightarrow> False | _ \<Rightarrow> True))"
| "unforged sk _ = True"

fun keeps_handler :: "nat \<Rightarrow> nat \<Rightarrow> 'm bus_input \<Rightarrow> bool" where
  "keeps_handler j h (Unsubscribe i h') = (i \<noteq> j \<or> h' \<noteq> h)"
| "keeps_handler j h _ = True"

definition tab_ok :: "string set \<Rightarrow> 'm bus \<Rightarrow> bool" where
  "tab_ok K b \<longleftrightarrow> distinct (bus_handledKeys b) \<and> set (bus_handledKeys b) \<subseteq> K"

definition hears_all :: "('m \<Rightarrow> string) \<Rightarrow> nat \<Rightarrow> 'm bus \<Rightarrow> bool" where
  "hears_all key h b \<longleftrightarrow>
     h \<in> set (bus_handlers b) \<and> distinct (bus_handlers b) \<and> map key (heard h b) = bus_handledKeys b"

fun listens :: "transport \<Rightarrow> 'm bus \<Rightarrow> bool" where
  "listens Broadcasting b = (bus_channel b = ChannelOpen)"
| "listens Storing b = bus_storageListener b"

definition grows :: "string set \<Rightarrow> 'm bus \<Rightarrow> 'm bus \<Rightarrow> bool" where
  "grows K b b' \<longleftrightarrow> tab_ok K b' \<and> set (bus_handledKeys b) \<subseteq> set (bus_handledKeys b') \<and> (\<forall>tr. listens tr b \<longrightarrow> listens tr b')"

lemmas bus_move_defs = getBroadcastChannel_def attachStorageListener_def bus_subscribe_def bus_unsubscribe_def
  call_handlers_def

lemma all_transports: "(\<forall>tr. P tr) \<longleftrightarrow> P Broadcasting \<and> P Storing"
  by (metis transport.exhaust)

lemma listens_all: "(\<forall>tr. listens tr b \<longrightarrow> listens tr b') \<longleftrightarrow>
    (bus_channel b = ChannelOpen \<longrightarrow> bus_channel b' = ChannelOpen) \<and> (bus_storageListener b \<longrightarrow> bus_storageListener b')"
  by (simp add: all_transports)

lemma grows_refl [simp]: "grows K b b = tab_ok K b"
  by (simp add: grows_def)

lemma grows_trans: "grows K a b \<Longrightarrow> grows K b c \<Longrightarrow> grows K a c"
  by (auto simp: grows_def)

lemma tab_ok_mono: "tab_ok K b \<Longrightarrow> K \<subseteq> K' \<Longrightarrow> tab_ok K' b"
  by (auto simp: tab_ok_def)

text \<open>Subscribing, unsubscribing and opening the channel\<close>

lemma quiet_moves:
  assumes "tab_ok K b"
  shows "grows K b (bus_subscribe h' b)" and "grows K b (bus_unsubscribe h' b)" and "grows K b (getBroadcastChannel b)"
  using assms unfolding grows_def listens_all by (auto simp: tab_ok_def bus_move_defs)

lemma quiet_hears:
  "hears_all key h b \<Longrightarrow> hears_all key h (bus_subscribe h' b)"
  "hears_all key h b \<Longrightarrow> h' \<noteq> h \<Longrightarrow> hears_all key h (bus_unsubscribe h' b)"
  "hears_all key h b \<Longrightarrow> hears_all key h (getBroadcastChannel b)"
  by (auto simp: hears_all_def heard_def bus_move_defs)

lemma called_once:
  assumes "distinct hs" "h \<in> set hs"
  shows "map snd (filter (\<lambda>d. fst d = h) (map (\<lambda>h. (h, m)) hs)) = [m]"
proof -
  have "filter (\<lambda>x. x = h) hs = [h]" using assms by (induction hs) (auto simp: filter_empty_conv)
  then show ?thesis by (simp add: filter_map comp_def)
qed

locale keyed_bus =
  fixes opts :: "'m bus_options" and enc :: "'m \<Rightarrow> jsvalue" and key :: "'m \<Rightarrow> string"
  assumes parse_enc: "bo_parse opts (enc m) = Some m" and keyed: "bo_getMessageKey opts = Some key"
begin

lemma enc_inj: "enc m = enc m' \<longleftrightarrow> m = m'"
  by (metis option.inject parse_enc)

lemma emit_moves:
  assumes ok: "tab_ok K b" and m: "key m \<in> K" and K: "finite K" "card K \<le> MAX_HANDLED_MESSAGE_KEYS"
  shows "grows K b (bus_emit opts (enc m) b) \<and> key m \<in> set (bus_handledKeys (bus_emit opts (enc m) b)) \<and>
    (hears_all key h b \<longrightarrow> hears_all key h (bus_emit opts (enc m) b))"
proof (cases "key m \<in> set (bus_handledKeys b)")
  case True
  then have "bus_emit opts (enc m) b = b" by (simp add: bus_emit_def parse_enc keyed)
  then show ?thesis using ok True by simp
next
  case False
  let ?keys = "bus_handledKeys b @ [key m]"
  have "distinct ?keys" "set ?keys \<subseteq> K" using ok m False by (auto simp: tab_ok_def)
  then have "length ?keys \<le> MAX_HANDLED_MESSAGE_KEYS" using K by (metis card_mono distinct_card le_trans)
  then have keys: "evictOldest MAX_HANDLED_MESSAGE_KEYS (set_add (key m) (bus_handledKeys b)) = ?keys"
    using False by (simp add: evictOldest_drop set_add_def)
  have eq: "bus_emit opts (enc m) b = call_handlers m (b\<lparr>bus_handledKeys := ?keys\<rparr>)"
    using False by (simp add: bus_emit_def parse_enc keyed keys)
  have "grows K b (bus_emit opts (enc m) b)" "key m \<in> set (bus_handledKeys (bus_emit opts (enc m) b))"
    using ok m False unfolding eq grows_def listens_all by (auto simp: tab_ok_def call_handlers_def)
  moreover have "hears_all key h (bus_emit opts (enc m) b)" if "hears_all key h b"
    using that called_once [of "bus_handlers b" h m]
    by (simp add: eq hears_all_def heard_def call_handlers_def)
  ultimately show ?thesis by blast
qed

end
section \<open>Runs of the tabs\<close>

definition tabs_ok :: "string set \<Rightarrow> 'm bus_world \<Rightarrow> bool" where
  "tabs_ok K w \<longleftrightarrow> (\<forall>b \<in> set (bw_tabs w). tab_ok K b)"

definition advances :: "string set \<Rightarrow> 'm bus_world \<Rightarrow> 'm bus_world \<Rightarrow> bool" where
  "advances K w w' \<longleftrightarrow> length (bw_tabs w') = length (bw_tabs w) \<and>
     (\<forall>i < length (bw_tabs w). grows K (bw_tabs w ! i) (bw_tabs w' ! i))"

lemma advances_same: "tabs_ok K w \<Longrightarrow> bw_tabs w' = bw_tabs w \<Longrightarrow> advances K w w'"
  by (simp add: advances_def tabs_ok_def)

lemma nth_at_tab [simp]:
  "j < length (bw_tabs w) \<Longrightarrow> bw_tabs (at_tab i f w) ! j = (if i = j then f (bw_tabs w ! j) else bw_tabs w ! j)"
  by (simp add: at_tab_def)

lemma length_at_tab [simp]: "length (bw_tabs (at_tab i f w)) = length (bw_tabs w)"
  by (simp add: at_tab_def)

lemma advances_at_tab:
  assumes "tabs_ok K w" "\<And>b. tab_ok K b \<Longrightarrow> grows K b (f b)" "bw_tabs w1 = bw_tabs w"
  shows "advances K w (at_tab i f w1)"
  using assms by (auto simp: advances_def tabs_ok_def)

lemma advances_ok: "advances K w w' \<Longrightarrow> tabs_ok K w'"
  by (auto simp: advances_def tabs_ok_def grows_def in_set_conv_nth)

lemma advances_listen:
  assumes "\<forall>b \<in> set (bw_tabs w). listens tr b" "advances K w w'"
  shows "\<forall>b \<in> set (bw_tabs w'). listens tr b"
  using assms unfolding all_set_conv_all_nth advances_def grows_def by metis

lemma at_tab_fields [simp]:
  "bw_wire (at_tab i f w) = bw_wire w" "bw_storage (at_tab i f w) = bw_storage w"
  by (simp_all add: at_tab_def)

lemma set_drop_at: "k < length xs \<Longrightarrow> set xs = insert (xs ! k) (set (drop_at k xs))"
  by (metis drop_at_def id_take_nth_drop insert_is_Un list.simps(15) set_append sup_left_commute)

lemma set_to_others:
  "set (bw_wire (to_others i ok ev w)) =
     set (bw_wire w) \<union> {(j, ev) | j. j < length (bw_tabs w) \<and> j \<noteq> i \<and> ok (bw_tabs w ! j)}"
  by (auto simp: to_others_def)

lemma to_others_fields [simp]: "bw_tabs (to_others i ok ev w) = bw_tabs w" "bw_storage (to_others i ok ev w) = bw_storage w"
  by (simp_all add: to_others_def)

text \<open>What a publication puts on the wire\<close>

lemma carried:
  assumes "effs = (if bus_channel b = ChannelOpen then [PostMessage v] else []) @ [SetItem sk v]"
    and "w' = fold (carry i posts stores) effs w"
  shows "bw_tabs w' = bw_tabs w" and "set (bw_wire w) \<subseteq> set (bw_wire w')"
    and "x \<in> set (bw_wire w') \<Longrightarrow> x \<in> set (bw_wire w) \<or>
      fst x < length (bw_tabs w) \<and> snd x \<in> {BroadcastEvent v, StorageEvent sk (Json v)}"
    and "bw_storage w' sk \<in> {bw_storage w sk, Json v}"
    and "posts \<Longrightarrow> bus_channel b = ChannelOpen \<Longrightarrow> j < length (bw_tabs w) \<Longrightarrow> j \<noteq> i \<Longrightarrow>
      listens Broadcasting (bw_tabs w ! j) \<Longrightarrow> (j, BroadcastEvent v) \<in> set (bw_wire w')"
    and "stores \<Longrightarrow> bw_storage w sk \<noteq> Json v \<Longrightarrow> j < length (bw_tabs w) \<Longrightarrow> j \<noteq> i \<Longrightarrow>
      listens Storing (bw_tabs w ! j) \<Longrightarrow> (j, StorageEvent sk (Json v)) \<in> set (bw_wire w')"
  using assms by (auto simp: set_to_others split: if_splits)

context keyed_bus
begin

lemma publish_moves:
  assumes "tab_ok K b" "key m \<in> K" "finite K" "card K \<le> MAX_HANDLED_MESSAGE_KEYS"
  shows "grows K b (fst (bus_publish opts (enc m) b)) \<and> key m \<in> set (bus_handledKeys (fst (bus_publish opts (enc m) b))) \<and>
    (hears_all key h b \<longrightarrow> hears_all key h (fst (bus_publish opts (enc m) b)))"
proof -
  note e = emit_moves [OF assms, of h]
  then have "grows K (bus_emit opts (enc m) b) (getBroadcastChannel (bus_emit opts (enc m) b))"
    by (intro quiet_moves) (simp add: grows_def)
  with e have "grows K b (getBroadcastChannel (bus_emit opts (enc m) b))"
    "key m \<in> set (bus_handledKeys (getBroadcastChannel (bus_emit opts (enc m) b)))"
    by (auto simp: grows_def)
  with e show ?thesis by (auto simp: bus_publish_def Let_def intro: quiet_hears)
qed

definition wired :: "'m set \<Rightarrow> 'm bus_world \<Rightarrow> bool" where
  "wired P w \<longleftrightarrow> (\<forall>x \<in> set (bw_wire w). fst x < length (bw_tabs w) \<and>
     (\<exists>m \<in> P. snd x \<in> {BroadcastEvent (enc m), StorageEvent (bo_storageKey opts) (Json (enc m))}))"

lemma event_moves:
  assumes "tab_ok K b" "key m \<in> K" "finite K" "card K \<le> MAX_HANDLED_MESSAGE_KEYS"
    and "ev \<in> {BroadcastEvent (enc m), StorageEvent (bo_storageKey opts) (Json (enc m))}"
  shows "grows K b (handle_event opts ev b) \<and> key m \<in> set (bus_handledKeys (handle_event opts ev b)) \<and>
    (hears_all key h b \<longrightarrow> hears_all key h (handle_event opts ev b))"
  using emit_moves [OF assms(1-4), of h] assms(5) by (auto simp: handleStorage_def)

lemma foreign_moves:
  "unforged (bo_storageKey opts) (ForeignStorage i k newValue) \<Longrightarrow> handleStorage opts k newValue b = b"
  by (auto simp: handleStorage_def split: storage_text.splits)

text \<open>What every step keeps, for a handler \<open>h\<close> of tab \<open>j\<close>\<close>

definition world_moves :: "'m set \<Rightarrow> nat \<Rightarrow> nat \<Rightarrow> 'm bus_world \<Rightarrow> 'm bus_world \<Rightarrow> bool" where
  "world_moves P j h w w' \<longleftrightarrow> advances (key ` P) w w' \<and> wired P w' \<and>
     (j < length (bw_tabs w) \<and> hears_all key h (bw_tabs w ! j) \<longrightarrow> hears_all key h (bw_tabs w' ! j))"

lemma world_moves_same:
  assumes "tabs_ok (key ` P) w" "wired P w" "bw_tabs w' = bw_tabs w" "set (bw_wire w') \<subseteq> set (bw_wire w)"
  shows "world_moves P j h w w'"
  using assms by (auto simp: world_moves_def wired_def advances_same)

lemma world_moves_at_tab:
  assumes ok: "tabs_ok (key ` P) w" and wired: "wired P (at_tab i f w1)" and tabs: "bw_tabs w1 = bw_tabs w"
    and f: "\<And>b. tab_ok (key ` P) b \<Longrightarrow> grows (key ` P) b (f b)"
    and hears: "\<And>b. tab_ok (key ` P) b \<Longrightarrow> i = j \<Longrightarrow> hears_all key h b \<Longrightarrow> hears_all key h (f b)"
  shows "world_moves P j h w (at_tab i f w1)"
  using advances_at_tab [OF ok f tabs] wired ok hears [of "bw_tabs w ! j"] tabs
  by (simp add: world_moves_def tabs_ok_def)

lemma step_publish:
  assumes ok: "tabs_ok (key ` P) w" and wired: "wired P w" and P: "finite P" "card (key ` P) \<le> MAX_HANDLED_MESSAGE_KEYS"
    and m: "m \<in> P" and i: "i < length (bw_tabs w)"
  shows "world_moves P j h w (bus_world_step opts enc (Publish i m posts stores) w)" (is "world_moves P j h w ?w'")
proof -
  let ?f = "\<lambda>b. fst (bus_publish opts (enc m) b)"
  have eq: "?w' = fold (carry i posts stores) (snd (bus_publish opts (enc m) (bw_tabs w ! i))) (at_tab i ?f w)"
    using i by simp
  have effs: "snd (bus_publish opts (enc m) (bw_tabs w ! i)) =
      (if bus_channel (?f (bw_tabs w ! i)) = ChannelOpen then [PostMessage (enc m)] else []) @ [SetItem (bo_storageKey opts) (enc m)]"
    by (simp add: bus_publish_def Let_def)
  note move = publish_moves [OF _ imageI [OF m] finite_imageI [OF P(1)] P(2)]
  have tabs: "bw_tabs ?w' = bw_tabs (at_tab i ?f w)" by (rule carried(1) [OF effs eq])
  have "wired P (at_tab i ?f w)" using wired by (simp add: wired_def)
  then have "world_moves P j h w (at_tab i ?f w)" using move by (intro world_moves_at_tab [OF ok]) auto
  moreover have "wired P ?w'"
    unfolding wired_def tabs using carried(3) [OF effs eq] wired m unfolding wired_def by fastforce
  ultimately show ?thesis unfolding world_moves_def advances_def tabs by blast
qed

lemma step_arrive:
  assumes ok: "tabs_ok (key ` P) w" and wired: "wired P w" and P: "finite P" "card (key ` P) \<le> MAX_HANDLED_MESSAGE_KEYS"
    and k: "k < length (bw_wire w)"
  shows "world_moves P j h w (bus_world_step opts enc (Arrive k) w)"
proof -
  let ?x = "bw_wire w ! k"
  from k wired obtain m where m: "m \<in> P"
    "snd ?x \<in> {BroadcastEvent (enc m), StorageEvent (bo_storageKey opts) (Json (enc m))}"
    unfolding wired_def by (meson nth_mem)
  note move = event_moves [OF _ imageI [OF m(1)] finite_imageI [OF P(1)] P(2) m(2)]
  have "wired P (at_tab i f (w\<lparr>bw_wire := drop_at k (bw_wire w)\<rparr>))" for i f
    using wired set_drop_at [OF k] by (auto simp: wired_def)
  then show ?thesis using k move by (simp, intro world_moves_at_tab [OF ok]) auto
qed

lemma step_moves:
  assumes ok: "tabs_ok (key ` P) w" "wired P w" and P: "finite P" "card (key ` P) \<le> MAX_HANDLED_MESSAGE_KEYS"
    and inp: "set (published_by (length (bw_tabs w)) inp) \<subseteq> P" "unforged (bo_storageKey opts) inp" "keeps_handler j h inp"
  shows "world_moves P j h w (bus_world_step opts enc inp w)"
proof (cases inp)
  case (Publish i m posts stores)
  then show ?thesis using step_publish [OF ok P] inp(1) by (auto intro: world_moves_same [OF ok])
next
  case (Arrive k)
  then show ?thesis using step_arrive [OF ok P] by (cases "k < length (bw_wire w)") (auto intro: world_moves_same [OF ok])
next
  case (Subscribe i h')
  have "wired P (at_tab i (bus_subscribe h') w)" using ok(2) by (simp add: wired_def)
  then show ?thesis using Subscribe by (auto intro!: world_moves_at_tab [OF ok(1)] quiet_moves quiet_hears)
next
  case (Unsubscribe i h')
  have "wired P (at_tab i (bus_unsubscribe h') w)" using ok(2) by (simp add: wired_def)
  then show ?thesis using Unsubscribe inp(3) by (auto intro!: world_moves_at_tab [OF ok(1)] quiet_moves quiet_hears)
next
  case (Lose tr k)
  then show ?thesis using set_drop_at [of k "bw_wire w"] by (intro world_moves_same [OF ok]) auto
next
  case (ForeignStorage i k newValue)
  then have "bus_world_step opts enc inp w = w" using inp(2) by (simp add: foreign_moves at_tab_def del: unforged.simps)
  then show ?thesis using world_moves_same [OF ok] by simp
qed

end

text \<open>Every message published so far has reached each tab or is under way to it on the reliable transport.\<close>

context keyed_bus
begin

definition event_via :: "transport \<Rightarrow> 'm \<Rightarrow> tab_event" where
  "event_via tr m = (case tr of Broadcasting \<Rightarrow> BroadcastEvent (enc m) | Storing \<Rightarrow> StorageEvent (bo_storageKey opts) (Json (enc m)))"

definition reaching :: "transport \<Rightarrow> 'm set \<Rightarrow> 'm bus_world \<Rightarrow> bool" where
  "reaching tr P w \<longleftrightarrow> (\<forall>b \<in> set (bw_tabs w). listens tr b) \<and>
     (\<forall>m \<in> P. \<forall>i < length (bw_tabs w). key m \<in> set (bus_handledKeys (bw_tabs w ! i)) \<or> (i, event_via tr m) \<in> set (bw_wire w)) \<and>
     (tr = Storing \<longrightarrow> (\<forall>v. bw_storage w (bo_storageKey opts) = Json v \<longrightarrow> v \<in> enc ` P))"

lemma event_via_eq: "event_via tr m \<in> {BroadcastEvent (enc m), StorageEvent (bo_storageKey opts) (Json (enc m))}"
  and transport_via: "transport_of (event_via tr m) = tr"
  by (cases tr; simp add: event_via_def)+

lemma reaching_after:
  assumes r: "reaching tr P w" and adv: "advances K w w'" and st: "bw_storage w' = bw_storage w"
    and lost: "\<And>i m. m \<in> P \<Longrightarrow> i < length (bw_tabs w) \<Longrightarrow> (i, event_via tr m) \<in> set (bw_wire w) \<Longrightarrow>
      (i, event_via tr m) \<in> set (bw_wire w') \<or> key m \<in> set (bus_handledKeys (bw_tabs w' ! i))"
  shows "reaching tr P w'"
proof -
  have "\<forall>b \<in> set (bw_tabs w'). listens tr b"
    using advances_listen [OF _ adv] r by (simp add: reaching_def)
  moreover have "key m \<in> set (bus_handledKeys (bw_tabs w' ! i)) \<or> (i, event_via tr m) \<in> set (bw_wire w')"
    if m: "m \<in> P" "i < length (bw_tabs w)" for m i
  proof -
    have "key m \<in> set (bus_handledKeys (bw_tabs w ! i)) \<or> (i, event_via tr m) \<in> set (bw_wire w)"
      using r m by (simp add: reaching_def)
    then show ?thesis using lost [OF m] adv m by (auto simp: advances_def grows_def)
  qed
  ultimately show ?thesis using r adv by (simp add: reaching_def advances_def st)
qed

lemma reaching_publish:
  assumes r: "reaching tr P w" and w': "w' = bus_world_step opts enc (Publish i m posts stores) w"
    and i: "i < length (bw_tabs w)" and adv: "advances K w w'" and ok: "tabs_ok K w"
    and K: "key m \<in> K" "finite K" "card K \<le> MAX_HANDLED_MESSAGE_KEYS"
    and faithful: "faithful tr (Publish i m posts stores)"
  shows "reaching tr (insert m P) w'"
proof -
  let ?f = "\<lambda>b. fst (bus_publish opts (enc m) b)" and ?sk = "bo_storageKey opts"
  have eq: "w' = fold (carry i posts stores) (snd (bus_publish opts (enc m) (bw_tabs w ! i))) (at_tab i ?f w)"
    using i w' by simp
  have effs: "snd (bus_publish opts (enc m) (bw_tabs w ! i)) =
      (if bus_channel (?f (bw_tabs w ! i)) = ChannelOpen then [PostMessage (enc m)] else []) @ [SetItem ?sk (enc m)]"
    by (simp add: bus_publish_def Let_def)
  note carried = carried [OF effs eq]
  have handled: "key m \<in> set (bus_handledKeys (bw_tabs w' ! i))"
    using publish_moves [OF _ K, of "bw_tabs w ! i"] ok i by (simp add: carried(1) tabs_ok_def)
  have listening: "\<forall>b \<in> set (bw_tabs w'). listens tr b"
    using advances_listen [OF _ adv] r by (simp add: reaching_def)
  have old: "key m' \<in> set (bus_handledKeys (bw_tabs w' ! j)) \<or> (j, event_via tr m') \<in> set (bw_wire w')"
    if "m' \<in> P" "j < length (bw_tabs w)" for m' j
    using that r adv carried(2) unfolding reaching_def advances_def grows_def at_tab_fields by (meson subsetD)
  have tabs: "listens tr (bw_tabs (at_tab i ?f w) ! j)" if "j < length (bw_tabs w)" for j
    using listening that by (simp add: carried(1) in_set_conv_nth all_set_conv_all_nth)
  have new: "(j, event_via tr m) \<in> set (bw_wire w') \<or> m \<in> P" if "j < length (bw_tabs w)" "j \<noteq> i" for j
  proof (cases tr)
    case Broadcasting
    then show ?thesis using carried(5) [of j] faithful that tabs [OF that(1)] tabs [OF i] i by (simp add: event_via_def)
  next
    case Storing
    then show ?thesis using carried(6) [of j] faithful that tabs [OF that(1)] r
      by (cases "bw_storage w ?sk = Json (enc m)") (auto simp: event_via_def reaching_def enc_inj)
  qed
  have "v \<in> enc ` insert m P" if "tr = Storing" "bw_storage w' ?sk = Json v" for v
    using carried(4) r that by (auto simp: reaching_def)
  then show ?thesis using listening old new handled adv unfolding reaching_def advances_def by (metis insertE)
qed

lemma step_reaching:
  assumes r: "reaching tr P w" and w': "w' = bus_world_step opts enc inp w" and ok: "tabs_ok (key ` P') w" "wired P w"
    and P': "P' = P \<union> set (published_by (length (bw_tabs w)) inp)" "finite P'" "card (key ` P') \<le> MAX_HANDLED_MESSAGE_KEYS"
    and adv: "advances (key ` P') w w'" and faithful: "faithful tr inp"
  shows "reaching tr P' w'"
proof (cases "\<exists>i m posts stores. inp = Publish i m posts stores \<and> i < length (bw_tabs w)")
  case True
  then obtain i m posts stores where inp: "inp = Publish i m posts stores" "i < length (bw_tabs w)" by blast
  have "P' = insert m P" using P'(1) inp by auto
  then show ?thesis using reaching_publish [OF r w' [unfolded inp] inp(2) adv ok(1)] P' faithful inp by auto
next
  case no_publish: False
  then have eq: "P' = P" using P'(1) by (cases inp) auto
  show ?thesis unfolding eq
  proof (rule reaching_after [OF r adv])
    show "bw_storage w' = bw_storage w" using no_publish w' by (cases inp) auto
    fix i m assume m: "m \<in> P" "i < length (bw_tabs w)" "(i, event_via tr m) \<in> set (bw_wire w)"
    show "(i, event_via tr m) \<in> set (bw_wire w') \<or> key m \<in> set (bus_handledKeys (bw_tabs w' ! i))"
    proof (cases "\<exists>k. inp = Arrive k \<and> k < length (bw_wire w) \<and> bw_wire w ! k = (i, event_via tr m)")
      case True
      then have "bw_tabs w' ! i = handle_event opts (event_via tr m) (bw_tabs w ! i)" using w' m(2) by auto
      then show ?thesis
        using event_moves [OF _ _ finite_imageI [OF P'(2)] P'(3) event_via_eq [of tr m], of "bw_tabs w ! i"] ok(1) m eq
        by (simp add: tabs_ok_def)
    next
      case False
      then show ?thesis
        using m w' faithful transport_via [of tr m] set_drop_at [of _ "bw_wire w"] no_publish
        by (cases inp) (auto simp: eq_commute [of "(i, event_via tr m)"])
    qed
  qed
qed

end

lemma subscribe_fields [simp]:
  "bus_handledKeys (bus_subscribe h b) = bus_handledKeys b" "bus_deliveries (bus_subscribe h b) = bus_deliveries b"
  "bus_handlers (bus_subscribe h b) = set_add h (bus_handlers b)" "bus_broadcast (bus_subscribe h b) = bus_broadcast b"
  "bus_window (bus_subscribe h b) = bus_window b"
  by (simp_all add: bus_move_defs)

lemma fold_subscribe [simp]:
  "bus_handledKeys (fold bus_subscribe hs b) = bus_handledKeys b" "bus_deliveries (fold bus_subscribe hs b) = bus_deliveries b"
  "set (bus_handlers (fold bus_subscribe hs b)) = set hs \<union> set (bus_handlers b)"
  "distinct (bus_handlers b) \<Longrightarrow> distinct (bus_handlers (fold bus_subscribe hs b))"
  "bus_broadcast (fold bus_subscribe hs b) = bus_broadcast b" "bus_window (fold bus_subscribe hs b) = bus_window b"
  by (induction hs arbitrary: b) auto

lemma subscribe_channel:
  "bus_broadcast b = ConstructorWorks \<Longrightarrow> bus_channel b \<noteq> ChannelNull \<Longrightarrow> bus_channel (bus_subscribe h b) = ChannelOpen"
  by (cases "bus_channel b") (simp_all add: bus_move_defs)

lemma subscribe_listener: "bus_window b \<Longrightarrow> bus_storageListener (bus_subscribe h b)"
  by (simp add: bus_move_defs)

lemma start_tab_simps [simp]:
  "bus_handledKeys (start_tab s) = []" "bus_deliveries (start_tab s) = []" "distinct (bus_handlers (start_tab s))"
  "set (bus_handlers (start_tab s)) = set (snd (snd s))"
  by (simp_all add: start_tab_def createCrossTabBus_def split: prod.split)

lemma start_tab_listens:
  assumes "supported tr s"
  shows "listens tr (start_tab s)"
proof -
  obtain support hasWindow hs h where s: "s = (support, hasWindow, hs @ [h])"
    using assms by (cases s rule: prod_cases3) (metis rev_exhaust supported.simps)
  let ?b = "fold bus_subscribe hs (createCrossTabBus support hasWindow)"
  have start: "start_tab s = bus_subscribe h ?b" "bus_broadcast ?b = support" "bus_window ?b = hasWindow"
    by (simp_all add: s start_tab_def createCrossTabBus_def)
  have "bus_channel ?b \<noteq> ChannelNull" if "support = ConstructorWorks"
    using that by (induction hs rule: rev_induct) (simp_all add: createCrossTabBus_def subscribe_channel)
  then show ?thesis
    using assms start(2,3) subscribe_channel [of ?b h] subscribe_listener [of ?b h]
    unfolding start(1) by (cases tr) (auto simp: s)
qed

context keyed_bus
begin

lemma run_tabs:
  assumes "card (key ` set (published (length ss) inps)) \<le> MAX_HANDLED_MESSAGE_KEYS"
    and "list_all (unforged (bo_storageKey opts)) inps"
  defines "P \<equiv> set (published (length ss) inps)" and "w \<equiv> bus_world_run opts enc inps (start_world ss)"
  shows "length (bw_tabs w) = length ss \<and> tabs_ok (key ` P) w \<and> wired P w \<and>
    (j < length ss \<and> h \<in> set (snd (snd (ss ! j))) \<and> list_all (keeps_handler j h) inps \<longrightarrow> hears_all key h (bw_tabs w ! j)) \<and>
    (list_all (supported tr) ss \<and> list_all (faithful tr) inps \<longrightarrow> reaching tr P w)"
  using assms(1,2) unfolding P_def w_def
proof (induction inps rule: rev_induct)
  case Nil
  then show ?case
    by (auto simp: bus_world_run_def start_world_def published_def tabs_ok_def tab_ok_def wired_def hears_all_def
        heard_def reaching_def list_all_iff start_tab_listens simp del: supported.simps)
next
  case (snoc x inps)
  let ?P = "set (published (length ss) inps)" and ?P' = "set (published (length ss) (inps @ [x]))"
  let ?w = "bus_world_run opts enc inps (start_world ss)"
  have w': "bus_world_run opts enc (inps @ [x]) (start_world ss) = bus_world_step opts enc x ?w"
    by (simp add: bus_world_run_def)
  have P': "?P' = ?P \<union> set (published_by (length ss) x)" by (auto simp: published_def)
  then have "key ` ?P \<subseteq> key ` ?P'" by blast
  then have "card (key ` ?P) \<le> card (key ` ?P')" by (intro card_mono) auto
  with snoc have IH: "length (bw_tabs ?w) = length ss" "tabs_ok (key ` ?P) ?w" "wired ?P ?w"
    "j < length ss \<and> h \<in> set (snd (snd (ss ! j))) \<and> list_all (keeps_handler j h) inps \<longrightarrow> hears_all key h (bw_tabs ?w ! j)"
    "list_all (supported tr) ss \<and> list_all (faithful tr) inps \<longrightarrow> reaching tr ?P ?w"
    by auto
  have ok: "tabs_ok (key ` ?P') ?w" "wired ?P' ?w"
    using IH(2,3) P' by (auto simp: tabs_ok_def wired_def intro: tab_ok_mono)
  have moves: "keeps_handler j h x \<Longrightarrow> world_moves ?P' j h ?w (bus_world_step opts enc x ?w)" for j h
    using step_moves [OF ok] snoc.prems P' IH(1) by simp
  have "\<exists>h. keeps_handler j h x"
  proof (cases x)
    case (Unsubscribe i h')
    then show ?thesis by (intro exI [of _ "Suc h'"]) simp
  qed auto
  then have adv: "advances (key ` ?P') ?w (bus_world_step opts enc x ?w)" "wired ?P' (bus_world_step opts enc x ?w)"
    using moves by (auto simp: world_moves_def)
  have "reaching tr ?P' (bus_world_step opts enc x ?w)"
    if "list_all (supported tr) ss" "list_all (faithful tr) (inps @ [x])"
    using step_reaching [OF _ refl ok(1) IH(3) _ _ snoc.prems(1) adv(1)] that IH P' by simp
  moreover have "hears_all key h (bw_tabs (bus_world_step opts enc x ?w) ! j)"
    if "j < length ss" "h \<in> set (snd (snd (ss ! j)))" "list_all (keeps_handler j h) (inps @ [x])"
    using moves [of j h] that IH by (simp add: world_moves_def)
  ultimately show ?case using adv advances_ok [OF adv(1)] IH(1) unfolding w' by (simp add: advances_def)
qed

text \<open>No handler is called twice for a key, and with a reliable transport none is left out.\<close>

lemma exactly_once:
  assumes "card (key ` set (published (length ss) inps)) \<le> MAX_HANDLED_MESSAGE_KEYS"
    and "list_all (unforged (bo_storageKey opts)) inps"
    and j: "j < length ss" "h \<in> set (snd (snd (ss ! j)))" "list_all (keeps_handler j h) inps"
  defines "w \<equiv> bus_world_run opts enc inps (start_world ss)"
  shows "distinct (map key (heard h (bw_tabs w ! j)))"
    and "set (map key (heard h (bw_tabs w ! j))) \<subseteq> key ` set (published (length ss) inps)"
    and "list_all (supported tr) ss \<Longrightarrow> list_all (faithful tr) inps \<Longrightarrow>
      \<not> list_ex (\<lambda>x. fst x = j \<and> transport_of (snd x) = tr) (bw_wire w) \<Longrightarrow>
      set (map key (heard h (bw_tabs w ! j))) = key ` set (published (length ss) inps)"
proof -
  let ?P = "set (published (length ss) inps)"
  note run = run_tabs [OF assms(1,2), of j h, folded w_def]
  have hears: "map key (heard h (bw_tabs w ! j)) = bus_handledKeys (bw_tabs w ! j)"
    and ok: "tab_ok (key ` ?P) (bw_tabs w ! j)"
    using run j by (auto simp: hears_all_def tabs_ok_def)
  then show "distinct (map key (heard h (bw_tabs w ! j)))"
    and sub: "set (map key (heard h (bw_tabs w ! j))) \<subseteq> key ` ?P"
    by (simp_all add: tab_ok_def del: set_map)
  assume tr: "list_all (supported tr) ss" "list_all (faithful tr) inps"
    "\<not> list_ex (\<lambda>x. fst x = j \<and> transport_of (snd x) = tr) (bw_wire w)"
  have "key m \<in> set (bus_handledKeys (bw_tabs w ! j))" if "m \<in> ?P" for m
  proof -
    have "(j, event_via tr m) \<notin> set (bw_wire w)" using tr(3) transport_via [of tr m] by (auto simp: list_ex_iff)
    moreover have "reaching tr ?P w" using run [of tr] tr by blast
    ultimately show ?thesis using that j(1) run by (auto simp: reaching_def)
  qed
  then show "set (map key (heard h (bw_tabs w ! j))) = key ` ?P" using sub hears by auto
qed

end

end
