(* ===== verification/CallResolution.thy ===== *)
theory CallResolution
  imports CrossTabBus
begin

text \<open>
  The terminal states of incoming calls (\<open>features/channel/Call/call-resolution.ts\<close>) and the bus that
  brings them to every tab, as an instance of \<open>CrossTabBus\<close>.
\<close>

datatype call_resolution = Answered string string | Ended string string

text \<open>The message as a JavaScript object\<close>

fun encode_resolution :: "call_resolution \<Rightarrow> jsvalue" where
  "encode_resolution (Answered callId answeredBy) =
     JObject [(''type'', JString ''answered''), (''callId'', JString callId), (''answeredBy'', JString answeredBy)]"
| "encode_resolution (Ended callId channelId) =
     JObject [(''type'', JString ''ended''), (''callId'', JString callId), (''channelId'', JString channelId)]"

fun getResolutionKey :: "call_resolution \<Rightarrow> string" where
  "getResolutionKey (Answered callId answeredBy) = ''answered'' @ '':'' @ callId @ '':'' @ answeredBy"
| "getResolutionKey (Ended callId channelId) = ''ended'' @ '':'' @ callId"

fun string_of_js :: "jsvalue \<Rightarrow> string" where
  "string_of_js (JString s) = s"
| "string_of_js _ = ''''"

definition parseCallResolution :: "jsvalue \<Rightarrow> call_resolution option" where
  "parseCallResolution v =
     (if get v ''type'' = JString ''answered'' \<and> isString (get v ''callId'') \<and> isString (get v ''answeredBy'')
      then Some (Answered (string_of_js (get v ''callId'')) (string_of_js (get v ''answeredBy'')))
      else if get v ''type'' = JString ''ended'' \<and> isString (get v ''callId'') \<and> isString (get v ''channelId'')
      then Some (Ended (string_of_js (get v ''callId'')) (string_of_js (get v ''channelId'')))
      else None)"

definition CALL_RESOLUTION_STORAGE_KEY :: string where
  "CALL_RESOLUTION_STORAGE_KEY = ''conation.call-resolution''"

definition callResolutionBus :: "call_resolution bus_options" where
  "callResolutionBus = \<lparr>bo_storageKey = CALL_RESOLUTION_STORAGE_KEY, bo_parse = parseCallResolution,
     bo_getMessageKey = Some getResolutionKey\<rparr>"

text \<open>\<open>publishCallResolution\<close> and the subscriptions, over the tabs of a browser\<close>

definition resolution_run ::
    "call_resolution bus_input list \<Rightarrow> (broadcast_support \<times> bool \<times> nat list) list \<Rightarrow> call_resolution bus_world" where
  "resolution_run inps ss = bus_world_run callResolutionBus encode_resolution inps (start_world ss)"

record call_record =
  cl_callId :: string
  cl_channelId :: string
  cl_isActive :: bool
  cl_participants :: "string list"

definition getCallRecordResolution :: "call_record \<Rightarrow> string \<Rightarrow> call_resolution option" where
  "getCallRecordResolution rec userId =
     (if \<not> cl_isActive rec then Some (Ended (cl_callId rec) (cl_channelId rec))
      else if list_ex (\<lambda>p. p = userId) (cl_participants rec) then Some (Answered (cl_callId rec) userId)
      else None)"

lemma parse_encode: "parseCallResolution (encode_resolution m) = Some m"
  by (cases m) (simp_all add: parseCallResolution_def)

interpretation resolutions: keyed_bus callResolutionBus encode_resolution getResolutionKey
  by unfold_locales (simp_all add: callResolutionBus_def parse_encode)

text \<open>
  C8: a call resolution is heard once in every tab. Take any number of tabs, on platforms with or
  without \<open>BroadcastChannel\<close>, at most a hundred distinct resolutions published by them, and events
  that arrive in any order, twice over the two transports, or get lost. A handler that stays subscribed is never
  called twice for one resolution and only for published ones; and when one of the transports works in
  every tab and none of its events to the handler's tab is under way, the handler has been
  called for each resolution that was published anywhere.
\<close>

theorem resolutions_heard_once:
  assumes "card (getResolutionKey ` set (published (length ss) inps)) \<le> 100"
    and "list_all (unforged CALL_RESOLUTION_STORAGE_KEY) inps"
    and "j < length ss" and "h \<in> set (snd (snd (ss ! j)))" and "list_all (keeps_handler j h) inps"
  shows "distinct (map getResolutionKey (heard h (bw_tabs (resolution_run inps ss) ! j))) \<and>
    getResolutionKey ` set (heard h (bw_tabs (resolution_run inps ss) ! j)) \<subseteq> getResolutionKey ` set (published (length ss) inps) \<and>
    (list_all (supported tr) ss \<and> list_all (faithful tr) inps \<and>
       \<not> list_ex (\<lambda>x. fst x = j \<and> transport_of (snd x) = tr) (bw_wire (resolution_run inps ss)) \<longrightarrow>
     getResolutionKey ` set (heard h (bw_tabs (resolution_run inps ss) ! j)) = getResolutionKey ` set (published (length ss) inps))"
proof -
  have "card (getResolutionKey ` set (published (length ss) inps)) \<le> MAX_HANDLED_MESSAGE_KEYS"
    and "list_all (unforged (bo_storageKey callResolutionBus)) inps"
    using assms(1,2) by (simp_all add: callResolutionBus_def MAX_HANDLED_MESSAGE_KEYS_def)
  note once = resolutions.exactly_once [OF this assms(3-5), folded resolution_run_def]
  show ?thesis using once(1,2) once(3) [of tr] by simp
qed

text \<open>Two tabs: the call is answered in the first; the event in the storage arrives beside the broadcast.\<close>

definition resolution_tabs :: "(broadcast_support \<times> bool \<times> nat list) list" where
  "resolution_tabs = [(ConstructorWorks, True, [1]), (ConstructorWorks, True, [2])]"

definition resolution_demo :: "call_resolution bus_input list" where
  "resolution_demo = [Publish 0 (Answered ''c'' ''u'') True True, Arrive 1, Arrive 0]"

theorem resolutions_heard_once_witness:
  "bw_wire (resolution_run (take 1 resolution_demo) resolution_tabs) =
     [(1, BroadcastEvent (encode_resolution (Answered ''c'' ''u''))),
      (1, StorageEvent CALL_RESOLUTION_STORAGE_KEY (Json (encode_resolution (Answered ''c'' ''u''))))] \<and>
   distinct (map getResolutionKey (heard 2 (bw_tabs (resolution_run resolution_demo resolution_tabs) ! 1))) \<and>
   getResolutionKey ` set (heard 2 (bw_tabs (resolution_run resolution_demo resolution_tabs) ! 1)) = {''answered:c:u''}"
proof -
  have wires: "bw_wire (resolution_run (take 1 resolution_demo) resolution_tabs) =
     [(1, BroadcastEvent (encode_resolution (Answered ''c'' ''u''))),
      (1, StorageEvent CALL_RESOLUTION_STORAGE_KEY (Json (encode_resolution (Answered ''c'' ''u''))))]"
    "bw_wire (resolution_run resolution_demo resolution_tabs) = []" by code_simp+
  have pub: "published (length resolution_tabs) resolution_demo = [Answered ''c'' ''u'']" by code_simp
  have prems: "list_all (unforged CALL_RESOLUTION_STORAGE_KEY) resolution_demo" "1 < length resolution_tabs"
    "2 \<in> set (snd (snd (resolution_tabs ! 1)))" "list_all (keeps_handler 1 2) resolution_demo"
    "list_all (supported Broadcasting) resolution_tabs" "list_all (faithful Broadcasting) resolution_demo"
    by (simp_all add: resolution_tabs_def resolution_demo_def)
  show ?thesis
    using resolutions_heard_once [OF _ prems(1-4), of Broadcasting] prems(5,6) wires pub by simp
qed

end
