(* ===== verification/Spec2Isabelle.thy ===== *)
theory Spec2Isabelle
  imports CoordinatorClaims ProtocolClaims Queues Backoffs WebsocketClaims LatestQueue SplitHistory WalSyncer
    ListClaims MachineClaims RingClaims TelemetryClaims RecoveryClaims RouterAnswers CallResolution
begin

text \<open>
  A verification of the stateful TypeScript core of Conation: the parts of the web application
  and its packages that keep state, answer calls and messages in an order nobody controls, and
  have to stay right through errors, retries and several tabs. Source paths below are relative to
  \<open>src/\<close>.

  \<^bold>\<open>The parts and how they interact.\<close> Every tab of the web application talks to one GraphQL cache
  engine through a coordinator in a shared worker, which elects the tab that owns the engine,
  routes requests and survives the loss of tabs. Collaboration documents travel over a
  reconnecting websocket, with a write-ahead log that keeps edits until the server has them. The
  user interface rests on headless components: the navigation history of a split, the list
  controller with its selection. Calls use a queue that keeps only the latest request, and an
  election that lets one tab ring; its participations run on the state machine package. The tabs
  tell each other of answered and ended calls over a message bus.

  \<^bold>\<open>Foundations.\<close>
  \<^item> \<open>Prelude\<close>: outcomes of methods that may throw, \<open>Map\<close> as an association list, decimal printing.
    \<open>JsSet\<close>: \<open>Set\<close> as a list without duplicates, with \<open>evictOldest\<close>. \<open>JsValue\<close>: untrusted values as validators see them.
  \<^item> \<open>Simulation\<close>: the interface of a component that refines an abstract one (locale \<open>simulation\<close>).

  \<^bold>\<open>The cache coordinator\<close> (\<open>apps/web/src/lib/graphql-cache\<close>).
  \<^item> \<open>CoordinatorCore\<close> has the class \<open>CoordinatorCore\<close> of \<open>worker/coordinator-core.ts\<close>: the record
    holds its fields, each method is a function to the new state and the actions it emits, and
    \<open>assertInvariants\<close> is part of the model. \<open>CoordinatorProps\<close> and \<open>CoordinatorRuns\<close> have the
    lemmas on steps and runs, \<open>CoordinatorClaims\<close> C1 to C6, C9 and C10: it never throws, epochs and routes are
    never reused, every request is answered once, a lost engine is fenced off, a wipe demand
    persists until it is met, handover and recovery elect a tab.
  \<^item> \<open>CoordinatorProtocol\<close>, \<open>RequestValidation\<close> and \<open>WireProtocol\<close> have the validators of
    \<open>worker/coordinator-protocol.ts\<close> and \<open>protocol.ts\<close>; \<open>EnvelopeCodec\<close> the envelope types as
    datatypes with encoders. \<open>ProtocolClaims\<close> (C11, C12): the validators accept exactly the encoded
    envelopes, and an accepted value reads as one envelope; requests that the core routes, lock names
    and search arguments pass the side that receives them.
  \<^item> \<open>CacheTelemetry\<close> has \<open>telemetry.ts\<close>: sanitizing, aggregates, sampling, the classification of
    errors. Numbers are rationals or not finite. \<open>TelemetryClaims\<close> (C14): the recorder loses nothing.
  \<^item> \<open>CoordinatorRouter\<close> has \<open>worker/coordinator-router.ts\<close>, the shared worker around the core: tabs
    and engines send arbitrary values, the router validates them, calls the core and carries out its
    actions. Ports, timers, microtasks, lock probes and the engine route are state, what is posted
    and sent is a list of effects, and each input is one task. The transport to the engine may refuse any send.
    \<open>applyActions\<close>, \<open>failOwner\<close> and \<open>scheduleResetActivation\<close> call each other to a depth of three;
    \<open>RouterDepth\<close> shows that no call goes deeper, so the recursion equation of the code holds.
  \<^item> \<open>CoreMoves\<close> has what the core may do to an owner in one call; \<open>RouterInvariant\<close> the
    invariant that links the router with its core, its timers and connections. \<open>RouterObserver\<close> is
    the interface of a property of runs: a predicate that every primitive move keeps. \<open>RouterTasks\<close>
    and \<open>RouterRuns\<close> prove once, for every observer, that tasks and runs keep it, and
    \<open>RouterClaims\<close> instantiates it: what is sent validates (C13), engines hear only their epoch (C15), the
    router follows its core and never throws (C18), every wait is watched (C37). So do
    \<open>RecoveryClaims\<close> (C7), which counts the losses in the log of the core's calls since an engine last
    served: recovery is bounded and paced; and \<open>RouterAnswers\<close> (C27): the responses posted to a tab are those
    the core gave it, and none is lost.

  \<^bold>\<open>The websocket\<close> (\<open>packages/collaboration/src/websocket/core\<close>).
  \<^item> \<open>Queues\<close> (C16) and \<open>Backoffs\<close>: the message queues against a bounded list, the retry
    delays against their series; both are interfaces (locales) with the classes as instances. The
    fuel of the ring's loop is one round of its array, shown to be enough.
  \<^item> \<open>Websocket\<close> has \<open>websocket.ts\<close> with the platform's sockets and timers as state and listeners
    that may call the socket again; \<open>WebsocketProps\<close> the invariant, \<open>WebsocketClaims\<close> C20 to C25:
    buffered data is sent on open, one connection at a time, a close by the user is final, the retry
    policy with its delays, and two defects. Which listeners a property admits is part of it:
    \<open>silent\<close> ones only observe, \<open>quiet\<close> ones do not reconnect.

  \<^bold>\<open>The write-ahead log\<close> (\<open>packages/collaboration/src/collab/wal.ts\<close>).
  \<^item> \<open>WalStore\<close> (C29): the memory store and the database store satisfy one interface, and one shared
    database answers like a memory store per scope, up to the numbering of ids, for calls that
    mark any entries of their own document. \<open>WalSyncer\<close> (C30 to C32): appends and flushes are
    tasks that a scheduler resumes in any order; a call of the store is one atomic step. No
    acknowledged entry is lost, none is stranded; two flushes may push the same entries.

  \<^bold>\<open>The user interface.\<close>
  \<^item> \<open>LatestQueue\<close> (C26): \<open>latest-async-request-queue.ts\<close>.
  \<^item> \<open>SplitHistory\<close> (C28): \<open>split-layout/history.ts\<close> refines a browser history.
  \<^item> \<open>Selection\<close>, \<open>ListController\<close>, \<open>ListNavigation\<close>, \<open>ListClaims\<close> (C33 to C36, C38): the headless
    list under \<open>components/list\<close>. The selection refines a set of keys; listeners know the selection,
    duplicate keys are refused, \<open>peekBy\<close> counts matches and its visit limit never cuts it short, the
    focus is in bounds, the nearest match is nearest, a range follows its last target.

  \<^bold>\<open>Calls and state machines.\<close>
  \<^item> \<open>Machine\<close> and \<open>MachineClaims\<close> (C39, C40): \<open>packages/machine\<close>. Callbacks are scripts of calls on the
    machine; the runner agrees with the pure simulation and releases every scope once. A drain ends
    after 1000 events at most, which is the limit in the code.
  \<^item> \<open>RingCoordination\<close> and \<open>RingClaims\<close> (C17, C19): \<open>ring-coordination.ts\<close> with \<open>evictOldest.ts\<close>, over
    the machine model. The election converges to one ringer; a tab sounds exactly while it should.
  \<^item> \<open>CrossTabBus\<close> has \<open>lib/core/cross-tab/cross-tab-bus.ts\<close> and a world of several tabs, whose
    events arrive in any order, twice over two transports, or not at all; the locale \<open>keyed_bus\<close> has
    what a parser and a key give a bus. \<open>CallResolution\<close> (C8) has \<open>call-resolution.ts\<close> as its
    instance: every handler hears each resolution once.

  \<^bold>\<open>Conventions.\<close> State is a record, a method a function to the new state beside its result or its
  effects, an asynchronous function one step per continuation. JavaScript numbers are integers
  where the code uses them as such; what lies beyond \<open>2 ^ 53\<close> is written out where the code checks
  for it; the properties of runs of the router are about fewer than \<open>2 ^ 53\<close> inputs, so that route ids stay safe
  integers. Clocks, schedulers, callbacks and the network are arguments or inputs.

  \<^bold>\<open>Not modelled.\<close> The Rust services and crates, generated clients and schemas, the Solid components
  (\<open>.tsx\<close>), styles, infrastructure, build scripts and documentation: glue over external systems, or
  another language. Of the cache, the page adapter and the engine worker, which are mostly calls of
  the WebAssembly database, the Effect library and Web Locks. The leader election of a package and the
  websocket builder. Of the modelled files: log output, the reading of the user agent for
  telemetry, message parsing of the ring, the wiring of the log to the live source, native getters
  and close codes of the websocket.
\<close>

end
